(* ===== verification/Prelude.thy ===== *)
theory Prelude
  imports Main "HOL-Library.Word"
begin

unbundle bit_operations_syntax

text \<open>
  Shared vocabulary of the development: the machine integer types of the 64-bit build, C's
  shift operators, and the generic facts on words, options and lists that the component
  theories use.

  A C shift by at least the width of its operand is undefined behaviour. The operators
  \<open>c_shl\<close> and \<open>c_shr\<close> return \<open>None\<close> there; code whose shift amount is bounded by a guard
  of the source uses \<open>push_bit\<close> and \<open>drop_bit\<close> directly.
\<close>

type_synonym u8 = "8 word"
type_synonym u16 = "16 word"
type_synonym u32 = "32 word"
type_synonym u64 = "64 word"
type_synonym addr = "64 word"

named_theorems unat_simps \<open>reading word operations as operations on natural numbers\<close>
named_theorems mi_consts \<open>the build-time constants\<close>

section \<open>C shifts\<close>

definition c_shl :: "u64 \<Rightarrow> u64 \<Rightarrow> u64 option" where
  "c_shl x n = (if unat n < 64 then Some (push_bit (unat n) x) else None)"

definition c_shr :: "u64 \<Rightarrow> u64 \<Rightarrow> u64 option" where
  "c_shr x n = (if unat n < 64 then Some (drop_bit (unat n) x) else None)"

section \<open>Words as natural numbers\<close>

lemma unat_add_bounded [unat_simps]:
  fixes a b :: "'a::len word"
  shows "unat a + unat b < 2 ^ LENGTH('a) \<Longrightarrow> unat (a + b) = unat a + unat b"
  by (simp add: unat_word_ariths)

lemma unat_mult_bounded [unat_simps]:
  fixes a b :: "'a::len word"
  shows "unat a * unat b < 2 ^ LENGTH('a) \<Longrightarrow> unat (a * b) = unat a * unat b"
  by (simp add: unat_word_ariths)

lemma unat_sub_bounded [unat_simps]:
  fixes a b :: "'a::len word"
  shows "unat b \<le> unat a \<Longrightarrow> unat (a - b) = unat a - unat b"
  by (simp add: unat_sub word_le_nat_alt)

lemma unat_plus_one_less [unat_simps]:
  fixes i n :: "'a::len word"
  assumes "i < n"
  shows "unat (i + 1) = Suc (unat i)"
proof -
  have "unat i + 1 \<le> unat n"
    using assms by (simp add: word_less_nat_alt)
  also have "\<dots> < 2 ^ LENGTH('a)"
    by (rule unsigned_less)
  finally show ?thesis
    by (simp add: unat_add_bounded)
qed

lemma unat_less_64 [simp, intro]: "unat (x :: u64) < 18446744073709551616"
  using unsigned_less [of x, where ?'a = nat] by simp

lemma unat_less_32 [simp, intro]: "unat (x :: u32) < 4294967296"
  using unsigned_less [of x, where ?'a = nat] by simp

lemma unat_and_mask [unat_simps]: "unat (x AND mask n) = unat x mod 2 ^ n"
  by (simp add: unsigned_take_bit_eq flip: take_bit_eq_mask take_bit_eq_mod)

lemma unat_drop_bit_div [unat_simps]: "unat (drop_bit n x) = unat x div 2 ^ n"
  by (simp add: unat_drop_bit_eq flip: drop_bit_eq_div)

lemma unat_push_bit_bounded [unat_simps]:
  fixes x :: "'a::len word"
  assumes "unat x * 2 ^ n < 2 ^ LENGTH('a)"
  shows "unat (push_bit n x) = unat x * 2 ^ n"
proof -
  have "unat (push_bit n x) = take_bit LENGTH('a) (unat x * 2 ^ n)"
    by (simp add: unsigned_push_bit_eq flip: push_bit_eq_mult)
  then show ?thesis
    using assms by (simp add: take_bit_nat_eq_self)
qed

text \<open>Clearing the low bits of a word rounds it down to a multiple of a power of two.\<close>

lemma and_not_mask_eq_minus: "x AND NOT (mask n) = x - (x AND mask n)" for x :: "'a::len word"
proof -
  have "x - (x AND mask n) = x AND NOT (x AND mask n)"
    by (rule disjunctive_diff_eq_and_not) (auto simp: bit_eq_iff bit_simps)
  also have "\<dots> = x AND NOT (mask n)"
    by (auto simp: bit_eq_iff bit_simps)
  finally show ?thesis by simp
qed

lemma unat_and_not_mask [unat_simps]:
  "unat (x AND NOT (mask n)) = unat x - unat x mod 2 ^ n" for x :: "'a::len word"
proof -
  have "unat (x AND mask n) \<le> unat x"
    by (simp add: unat_and_mask)
  then show ?thesis
    by (simp add: and_not_mask_eq_minus unat_sub_bounded unat_and_mask)
qed

lemma minus_mod_eq_div_mult_nat: "(a::nat) - a mod b = a div b * b"
  by (simp add: minus_mod_eq_div_mult)

lemma and_not_mask_dvd: "2 ^ n dvd unat (x AND NOT (mask n))" for x :: "'a::len word"
  by (simp add: unat_and_not_mask minus_mod_eq_div_mult)

lemma unat_one_shift [unat_simps]:
  assumes "n < LENGTH('a::len)"
  shows "unat (push_bit n (1 :: 'a word)) = 2 ^ n"
proof -
  have "unat (1 :: 'a word) * 2 ^ n < 2 ^ LENGTH('a)"
    using assms by simp
  then show ?thesis
    by (simp only: unat_push_bit_bounded) simp
qed

section \<open>Options and lists\<close>

lemma bind_eq_Some_iff: "Option.bind m f = Some y \<longleftrightarrow> (\<exists>x. m = Some x \<and> f x = Some y)"
  by (cases m) auto

text \<open>A search that starts anywhere and wraps around visits every index.\<close>

lemma wrap_around_covers:
  assumes "i < n" and "start \<le> n"
  obtains k where "k < n" and "(start + k) mod n = (i :: nat)"
proof
  show "(i + n - start) mod n < n" using assms by simp
  show "(start + (i + n - start) mod n) mod n = i"
    using assms by (simp add: mod_add_right_eq)
qed

lemma distinct_butlast_last:
  "distinct (xs @ [y]) \<longleftrightarrow> y \<notin> set xs \<and> distinct xs"
  by auto

end
