(* ===== verification/Arith.thy ===== *)
theory Arith
  imports Prelude
begin

text \<open>
  The inline arithmetic of \<open>mimalloc-internal.h\<close>: alignment, overflow-checked multiplication,
  the encoding of free-list pointers, the packing of the delayed-free flag into the low bits
  of \<open>xthread_free\<close>, the fast shuffle, and the tagged segment pointers of \<open>segment.c\<close>.
  Sizes and addresses are 64-bit words, so every wrap-around of the C code is in the model.
\<close>

section \<open>Constants of the 64-bit release build\<close>

definition MI_INTPTR_SIZE :: u64 where [mi_consts]: "MI_INTPTR_SIZE = 8"
definition MI_MAX_ALIGN_SIZE :: u64 where [mi_consts]: "MI_MAX_ALIGN_SIZE = 16"
definition SIZE_MAX :: u64 where [mi_consts]: "SIZE_MAX = - 1"
definition PTRDIFF_MAX :: u64 where [mi_consts]: "PTRDIFF_MAX = 9223372036854775807"
definition MI_SEGMENT_SHIFT :: nat where [mi_consts]: "MI_SEGMENT_SHIFT = 17"
definition MI_SEGMENT_SIZE :: u64 where [mi_consts]: "MI_SEGMENT_SIZE = 131072"
definition MI_SEGMENT_MASK :: u64 where [mi_consts]: "MI_SEGMENT_MASK = MI_SEGMENT_SIZE - 1"

lemma MI_SEGMENT_MASK_eq_mask: "MI_SEGMENT_MASK = mask 17"
  by (simp add: MI_SEGMENT_MASK_def MI_SEGMENT_SIZE_def mask_eq_exp_minus_1)

section \<open>Alignment and sizes\<close>

definition mi_is_power_of_two :: "u64 \<Rightarrow> bool" where
  "mi_is_power_of_two x = (x AND (x - 1) = 0)"

definition mi_align_up :: "u64 \<Rightarrow> u64 \<Rightarrow> u64" where
  "mi_align_up sz alignment =
     (let mask = alignment - 1 in
      if alignment AND mask = 0 then (sz + mask) AND NOT mask
      else ((sz + mask) div alignment) * alignment)"

definition mi_divide_up :: "u64 \<Rightarrow> u64 \<Rightarrow> u64" where
  "mi_divide_up sz divider =
     (if divider = 0 then sz else (sz + divider - 1) div divider)"

text \<open>The byte loop of \<open>mi_mem_is_zero\<close> over a byte store, from index \<open>i\<close> on.\<close>

function mi_mem_is_zero_from :: "(addr \<Rightarrow> u8) \<Rightarrow> addr \<Rightarrow> u64 \<Rightarrow> u64 \<Rightarrow> bool" where
  "mi_mem_is_zero_from mem p sz i =
     (if i < sz then
        if mem (p + i) \<noteq> 0 then False else mi_mem_is_zero_from mem p sz (i + 1)
      else True)"
  by pat_completeness auto
termination
proof (relation "measure (\<lambda>(mem, p, sz, i). unat sz - unat i)", goal_cases)
  case 1
  show ?case by simp
next
  case (2 mem p sz i)
  then have "unat (i + 1) = Suc (unat i)" by (simp add: unat_plus_one_less)
  with 2 show ?case by (simp add: word_less_nat_alt)
qed

definition mi_mem_is_zero :: "(addr \<Rightarrow> u8) \<Rightarrow> addr \<Rightarrow> u64 \<Rightarrow> bool" where
  "mi_mem_is_zero mem p sz = mi_mem_is_zero_from mem p sz 0"

definition mi_wsize_from_size :: "u64 \<Rightarrow> u64" where
  "mi_wsize_from_size sz = (sz + MI_INTPTR_SIZE - 1) div MI_INTPTR_SIZE"

definition mi_malloc_satisfies_alignment :: "u64 \<Rightarrow> u64 \<Rightarrow> bool" where
  "mi_malloc_satisfies_alignment alignment sz =
     (alignment = MI_INTPTR_SIZE \<or>
      (alignment = MI_MAX_ALIGN_SIZE \<and> sz > MI_MAX_ALIGN_SIZE div 2))"

text \<open>
  \<open>mi_mul_overflow\<close> twice: through the compiler's overflow builtin (the wrapped product and
  whether the exact one fits), and the portable code used where the builtin is missing.
  Both return the overflow flag and the value stored through \<open>total\<close>.
\<close>

definition mi_mul_overflow :: "u64 \<Rightarrow> u64 \<Rightarrow> bool \<times> u64" where
  "mi_mul_overflow count sz = (2 ^ 64 \<le> unat count * unat sz, count * sz)"

definition MI_MUL_NO_OVERFLOW :: u64 where
  [mi_consts]: "MI_MUL_NO_OVERFLOW = push_bit 32 1"

definition mi_mul_overflow_portable :: "u64 \<Rightarrow> u64 \<Rightarrow> bool \<times> u64" where
  "mi_mul_overflow_portable count sz =
     ((sz \<ge> MI_MUL_NO_OVERFLOW \<or> count \<ge> MI_MUL_NO_OVERFLOW)
        \<and> sz > 0 \<and> SIZE_MAX div sz < count,
      count * sz)"

definition mi_count_size_overflow :: "u64 \<Rightarrow> u64 \<Rightarrow> bool \<times> u64" where
  "mi_count_size_overflow count sz =
     (if count = 1 then (False, sz)
      else (case mi_mul_overflow count sz of
              (True, tot) \<Rightarrow> (True, SIZE_MAX)
            | (False, tot) \<Rightarrow> (False, tot)))"

section \<open>Encoded free-list pointers\<close>

text \<open>
  The rotations are \<open>None\<close> where the C expression shifts by 64 bits, which happens exactly
  when the shift amount is a multiple of 64.
\<close>

definition mi_rotl :: "u64 \<Rightarrow> u64 \<Rightarrow> u64 option" where
  "mi_rotl x shift =
     (let s = shift mod 64 in
      case (c_shl x s, c_shr x (64 - s)) of
        (Some a, Some b) \<Rightarrow> Some (a OR b)
      | _ \<Rightarrow> None)"

definition mi_rotr :: "u64 \<Rightarrow> u64 \<Rightarrow> u64 option" where
  "mi_rotr x shift =
     (let s = shift mod 64 in
      case (c_shr x s, c_shl x (64 - s)) of
        (Some a, Some b) \<Rightarrow> Some (a OR b)
      | _ \<Rightarrow> None)"

definition mi_ptr_decode :: "addr \<Rightarrow> u64 \<Rightarrow> u64 \<times> u64 \<Rightarrow> addr option" where
  "mi_ptr_decode null x keys =
     map_option (\<lambda>r. let p = r XOR snd keys in if p = null then 0 else p)
       (mi_rotr (x - fst keys) (fst keys))"

definition mi_ptr_encode :: "addr \<Rightarrow> addr \<Rightarrow> u64 \<times> u64 \<Rightarrow> u64 option" where
  "mi_ptr_encode null p keys =
     (let x = (if p = 0 then null else p) in
      map_option (\<lambda>r. r + fst keys) (mi_rotl (x XOR snd keys) (fst keys)))"

section \<open>The fast shuffle\<close>

definition mi_random_shuffle :: "u64 \<Rightarrow> u64" where
  "mi_random_shuffle x0 =
     (let x = (if x0 = 0 then 17 else x0);
          x = x XOR drop_bit 30 x;
          x = x * 0xbf58476d1ce4e5b9;
          x = x XOR drop_bit 27 x;
          x = x * 0x94d049bb133111eb;
          x = x XOR drop_bit 31 x
      in x)"

section \<open>The thread-free word: a block pointer and a delayed-free flag\<close>

datatype mi_delayed =
    MI_USE_DELAYED_FREE | MI_DELAYED_FREEING | MI_NO_DELAYED_FREE | MI_NEVER_DELAYED_FREE

fun mi_delayed_val :: "mi_delayed \<Rightarrow> u64" where
  "mi_delayed_val MI_USE_DELAYED_FREE = 0"
| "mi_delayed_val MI_DELAYED_FREEING = 1"
| "mi_delayed_val MI_NO_DELAYED_FREE = 2"
| "mi_delayed_val MI_NEVER_DELAYED_FREE = 3"

definition mi_tf_block :: "u64 \<Rightarrow> addr" where
  "mi_tf_block tf = tf AND NOT 3"

definition mi_tf_delayed :: "u64 \<Rightarrow> mi_delayed" where
  "mi_tf_delayed tf =
     (let d = tf AND 3 in
      if d = 0 then MI_USE_DELAYED_FREE
      else if d = 1 then MI_DELAYED_FREEING
      else if d = 2 then MI_NO_DELAYED_FREE
      else MI_NEVER_DELAYED_FREE)"

definition mi_tf_make :: "addr \<Rightarrow> mi_delayed \<Rightarrow> u64" where
  "mi_tf_make block delayed = block OR mi_delayed_val delayed"

definition mi_tf_set_delayed :: "u64 \<Rightarrow> mi_delayed \<Rightarrow> u64" where
  "mi_tf_set_delayed tf delayed = mi_tf_make (mi_tf_block tf) delayed"

definition mi_tf_set_block :: "u64 \<Rightarrow> addr \<Rightarrow> u64" where
  "mi_tf_set_block tf block = mi_tf_make block (mi_tf_delayed tf)"

section \<open>Segment addresses\<close>

definition mi_ptr_segment :: "addr \<Rightarrow> addr" where
  "mi_ptr_segment p = p AND NOT MI_SEGMENT_MASK"

definition mi_is_in_same_segment :: "addr \<Rightarrow> addr \<Rightarrow> bool" where
  "mi_is_in_same_segment p q = (mi_ptr_segment p = mi_ptr_segment q)"

definition MI_TAGGED_MASK :: u64 where [mi_consts]: "MI_TAGGED_MASK = MI_SEGMENT_MASK"

definition mi_tagged_segment_ptr :: "u64 \<Rightarrow> addr" where
  "mi_tagged_segment_ptr ts = ts AND NOT MI_TAGGED_MASK"

definition mi_tagged_segment :: "addr \<Rightarrow> u64 \<Rightarrow> u64" where
  "mi_tagged_segment segment ts =
     (let tag = ((ts AND MI_TAGGED_MASK) + 1) AND MI_TAGGED_MASK in segment OR tag)"

section \<open>Powers of two and alignment\<close>

lemma nat_and_pred_eq_0: "(n::nat) AND (n - 1) = 0 \<Longrightarrow> n = 0 \<or> (\<exists>k. n = 2 ^ k)"
proof (induction n rule: less_induct)
  case (less n)
  show ?case
  proof (cases "even n \<and> n \<noteq> 0")
    case True
    then obtain m where m: "n = 2 * m" "0 < m" by (auto elim!: evenE)
    then have "(n - 1) div 2 = m - 1" by arith
    with m less.prems have "m AND (m - 1) = 0"
      by (subst (asm) and_nat_rec) simp
    with m less.IH [of m] show ?thesis by (metis power_Suc less_add_same_cancel1 mult_2 neq0_conv)
  next
    case False
    show ?thesis
    proof (cases "n = 0")
      case True then show ?thesis by simp
    next
      case nz: False
      with False have odd: "odd n" by simp
      then obtain m where m: "n = 2 * m + 1" by (auto elim!: oddE)
      with less.prems have "2 * m + 1 AND 2 * m = 0" by simp
      then have "m AND m = 0"
        by (subst (asm) and_nat_rec) simp
      with m show ?thesis by (auto intro: exI [of _ 0])
    qed
  qed
qed

lemma nat_and_pred_power: "(2::nat) ^ k AND (2 ^ k - 1) = 0"
  unfolding mask_eq_exp_minus_1 [symmetric]
  by (rule bit_eqI) (auto simp: bit_and_iff bit_mask_iff bit_exp_iff)

lemma unat_pred_nonzero: "(x :: u64) \<noteq> 0 \<Longrightarrow> unat (x - 1) = unat x - 1"
  by (simp add: unat_sub_bounded Suc_le_eq unat_gt_0)

lemma mi_is_power_of_two_iff:
  "mi_is_power_of_two x \<longleftrightarrow> x = 0 \<or> (\<exists>k. unat x = 2 ^ k)"
proof (cases "x = 0")
  case False
  have "mi_is_power_of_two x \<longleftrightarrow> unat (x AND (x - 1)) = 0"
    by (simp add: mi_is_power_of_two_def unat_eq_0)
  also have "\<dots> \<longleftrightarrow> unat x AND (unat x - 1) = 0"
    using False by (simp add: unsigned_and_eq unat_pred_nonzero)
  also have "\<dots> \<longleftrightarrow> (\<exists>k. unat x = 2 ^ k)"
    using nat_and_pred_eq_0 [of "unat x"] nat_and_pred_power False
    by (metis unat_eq_0)
  finally show ?thesis using False by simp
qed (simp add: mi_is_power_of_two_def)

lemma power_of_two_word_eq: "unat (x :: u64) = 2 ^ k \<Longrightarrow> x - 1 = mask k"
proof -
  assume x: "unat x = 2 ^ k"
  then have "x = 2 ^ k"
    by (metis of_nat_numeral of_nat_power of_nat_unat ucast_id)
  then show ?thesis by (simp add: mask_eq_exp_minus_1)
qed

lemma div_mult_le_power: "(n::nat) div d * d \<le> n"
  by simp

text \<open>Both branches of \<open>mi_align_up\<close> compute the same rounding.\<close>

lemma unat_mi_align_up:
  assumes nz: "alignment \<noteq> 0" and fit: "unat sz + unat alignment - 1 < 2 ^ 64"
  shows "unat (mi_align_up sz alignment) =
    (unat sz + unat alignment - 1) div unat alignment * unat alignment"
proof -
  have pos: "0 < unat alignment" using nz by (simp add: unat_gt_0)
  have add: "unat (sz + (alignment - 1)) = unat sz + unat alignment - 1"
    using fit pos nz by (simp add: unat_add_bounded unat_pred_nonzero)
  show ?thesis
  proof (cases "alignment AND (alignment - 1) = 0")
    case True
    then obtain k where k: "unat alignment = 2 ^ k"
      using mi_is_power_of_two_iff [of alignment] nz by (auto simp: mi_is_power_of_two_def)
    then have "mi_align_up sz alignment = (sz + (alignment - 1)) AND NOT (mask k)"
      using True power_of_two_word_eq [OF k] by (simp add: mi_align_up_def Let_def)
    then have "unat (mi_align_up sz alignment) =
        (unat sz + unat alignment - 1) - (unat sz + unat alignment - 1) mod 2 ^ k"
      by (simp only: unat_and_not_mask add)
    then show ?thesis using k by (simp add: minus_mod_eq_div_mult)
  next
    case False
    let ?q = "(sz + (alignment - 1)) div alignment"
    have q: "unat ?q = (unat sz + unat alignment - 1) div unat alignment"
      by (simp add: unat_div_distrib add)
    have "unat ?q * unat alignment \<le> unat sz + unat alignment - 1"
      unfolding q by (rule div_mult_le_power)
    with fit have "unat (?q * alignment) = unat ?q * unat alignment"
      by (intro unat_mult_bounded) simp
    then show ?thesis using False by (simp add: mi_align_up_def Let_def q)
  qed
qed

lemma mi_align_up_dvd:
  assumes "alignment \<noteq> 0"
  shows "unat alignment dvd unat (mi_align_up sz alignment)"
proof (cases "alignment AND (alignment - 1) = 0")
  case True
  then obtain k where k: "unat alignment = 2 ^ k"
    using mi_is_power_of_two_iff [of alignment] assms by (auto simp: mi_is_power_of_two_def)
  then have "mi_align_up sz alignment = (sz + (alignment - 1)) AND NOT (mask k)"
    using True power_of_two_word_eq [OF k] by (simp add: mi_align_up_def Let_def)
  then show ?thesis unfolding k by (simp only: and_not_mask_dvd)
next
  case False
  let ?x = "sz + (alignment - 1)"
  have "unat (?x div alignment) * unat alignment \<le> unat ?x"
    by (simp only: unat_div_distrib div_mult_le_power)
  then have "unat (?x div alignment * alignment) = unat (?x div alignment) * unat alignment"
    using le_less_trans [OF _ unat_less_64 [of ?x]] by (intro unat_mult_bounded) simp
  with False show ?thesis by (simp add: mi_align_up_def Let_def)
qed

text \<open>Rounding a multiple changes nothing.\<close>

lemma unat_mi_align_up_idem:
  assumes "alignment \<noteq> 0" and "unat alignment dvd unat sz"
    and "unat sz + unat alignment - 1 < 2 ^ 64"
  shows "mi_align_up sz alignment = sz"
proof -
  obtain k where k: "unat sz = unat alignment * k" using assms(2) by (elim dvdE)
  have pos: "0 < unat alignment" using assms(1) by (simp add: unat_gt_0)
  then have "unat alignment * k + unat alignment - 1 = (unat alignment - 1) + unat alignment * k" by simp
  then have "(unat alignment * k + unat alignment - 1) div unat alignment = k"
    using pos by (simp only: div_mult_self2) simp
  then have "unat (mi_align_up sz alignment) = unat sz"
    using unat_mi_align_up [OF assms(1,3)] k by (simp add: mult.commute)
  then show ?thesis by (rule unsigned_word_eqI)
qed

lemma round_up_props:
  fixes s d :: nat
  assumes "0 < d"
  shows "s \<le> (s + d - 1) div d * d" and "(s + d - 1) div d * d < s + d"
proof -
  have "(s + d - 1) div d * d + (s + d - 1) mod d = s + d - 1" by simp
  moreover have "(s + d - 1) mod d < d" using assms by simp
  ultimately show "s \<le> (s + d - 1) div d * d" and "(s + d - 1) div d * d < s + d"
    using assms by linarith+
qed

text \<open>
  \<open>_mi_align_up\<close>: on every input whose rounding does not leave the 64-bit range the
  result is a multiple of the alignment, at least the argument, and less than one alignment
  above it, on the bit-mask path for powers of two as on the division path.
\<close>

theorem mi_align_up_correct:
  assumes "alignment \<noteq> 0" and "unat sz + unat alignment - 1 < 2 ^ 64"
  shows "unat alignment dvd unat (mi_align_up sz alignment)
    \<and> unat sz \<le> unat (mi_align_up sz alignment)
    \<and> unat (mi_align_up sz alignment) < unat sz + unat alignment"
  using assms round_up_props [of "unat alignment" "unat sz"]
  by (simp add: unat_mi_align_up unat_gt_0)

lemma mi_align_up_correct_witness:
  "unat (24 :: u64) dvd unat (mi_align_up 100 24) \<and> unat (100 :: u64) \<le> unat (mi_align_up 100 24)
    \<and> unat (mi_align_up 100 24) < unat (100 :: u64) + unat (24 :: u64)"
  by (rule mi_align_up_correct) simp_all

lemma unat_mi_divide_up:
  assumes "d \<noteq> 0" and "unat s + unat d - 1 < 2 ^ 64"
  shows "unat (mi_divide_up s d) = (unat s + unat d - 1) div unat d"
proof -
  have pos: "0 < unat d" and pred: "unat (d - 1) = unat d - 1"
    using assms(1) by (simp_all add: unat_gt_0 unat_pred_nonzero)
  have "unat (s + d - 1) = unat (s + (d - 1))" by (simp only: add_diff_eq)
  also have "\<dots> = unat s + unat (d - 1)"
    by (rule unat_add_bounded) (use assms(2) pos pred in simp)
  also have "\<dots> = unat s + unat d - 1"
    using pos pred by simp
  finally show ?thesis using assms(1) by (simp add: mi_divide_up_def unat_div_distrib)
qed

text \<open>
  \<open>_mi_divide_up\<close>: the contract of its comment, \<open>s <= divide_up(s,d)*d < s+d\<close>,
  for every divisor that is not zero while the sum stays in 64 bits.
\<close>

theorem mi_divide_up_correct:
  assumes "d \<noteq> 0" and "unat s + unat d - 1 < 2 ^ 64"
  shows "unat s \<le> unat (mi_divide_up s d) * unat d
    \<and> unat (mi_divide_up s d) * unat d < unat s + unat d"
  using assms round_up_props [of "unat d" "unat s"]
  by (simp add: unat_mi_divide_up unat_gt_0)

lemma mi_divide_up_correct_witness:
  "unat (1000 :: u64) \<le> unat (mi_divide_up 1000 24) * unat (24 :: u64)
    \<and> unat (mi_divide_up 1000 24) * unat (24 :: u64) < unat (1000 :: u64) + unat (24 :: u64)"
  by (rule mi_divide_up_correct) simp_all

lemma unat_mi_wsize_from_size:
  assumes "unat sz + 7 < 2 ^ 64"
  shows "unat (mi_wsize_from_size sz) = (unat sz + 7) div 8"
proof -
  have "unat (sz + 8 - 1) = unat (sz + 7)" by (simp add: add.commute)
  also have "\<dots> = unat sz + 7" using assms by (simp add: unat_add_bounded)
  finally show ?thesis
    by (simp add: mi_wsize_from_size_def MI_INTPTR_SIZE_def unat_div_distrib)
qed

section \<open>Multiplication overflow\<close>

lemma portable_overflow_iff:
  fixes a b :: nat
  assumes "a < 2 ^ 64" and "b < 2 ^ 64"
  shows "((2 ^ 32 \<le> b \<or> 2 ^ 32 \<le> a) \<and> 0 < b \<and> (2 ^ 64 - 1) div b < a) \<longleftrightarrow> 2 ^ 64 \<le> a * b"
proof (cases "0 < b")
  case True
  have div: "(2 ^ 64 - 1) div b < a \<longleftrightarrow> 2 ^ 64 - 1 < a * b"
    using True by (simp only: div_less_iff_less_mult)
  have small: "\<not> (2 ^ 32 \<le> b \<or> 2 ^ 32 \<le> a) \<Longrightarrow> a * b < 2 ^ 64"
  proof -
    assume "\<not> (2 ^ 32 \<le> b \<or> 2 ^ 32 \<le> a)"
    then have "a \<le> 2 ^ 32 - 1" and "b \<le> 2 ^ 32 - 1" by auto
    then have "a * b \<le> (2 ^ 32 - 1) * (2 ^ 32 - 1)" by (rule mult_le_mono)
    then show ?thesis by simp
  qed
  show ?thesis
  proof (cases "2 ^ 32 \<le> b \<or> 2 ^ 32 \<le> a")
    case True
    with \<open>0 < b\<close> div show ?thesis by auto
  next
    case False
    from small [OF this] show ?thesis using False by auto
  qed
qed simp

lemma unat_SIZE_MAX: "unat SIZE_MAX = 2 ^ 64 - 1"
  by (simp add: SIZE_MAX_def unsigned_minus_1_eq_mask mask_eq_exp_minus_1)

text \<open>
  The portable overflow test of \<open>mi_mul_overflow\<close> agrees with the compiler builtin on
  every pair of 64-bit operands: same flag, same stored product.
\<close>

theorem mi_mul_overflow_portable_eq:
  "mi_mul_overflow_portable count sz = mi_mul_overflow count sz"
proof -
  have c: "unat MI_MUL_NO_OVERFLOW = 2 ^ 32"
    by (simp add: MI_MUL_NO_OVERFLOW_def)
  have "fst (mi_mul_overflow_portable count sz) \<longleftrightarrow>
    ((2 ^ 32 \<le> unat sz \<or> 2 ^ 32 \<le> unat count) \<and> 0 < unat sz
      \<and> (2 ^ 64 - 1) div unat sz < unat count)"
    by (simp only: mi_mul_overflow_portable_def word_le_nat_alt word_less_nat_alt c
        unat_div_distrib unat_SIZE_MAX fst_conv unat_0)
  also have "\<dots> \<longleftrightarrow> 2 ^ 64 \<le> unat count * unat sz"
    by (rule portable_overflow_iff) (simp_all add: unat_less_64)
  finally show ?thesis
    by (simp add: mi_mul_overflow_def mi_mul_overflow_portable_def)
qed

text \<open>
  \<open>mi_count_size_overflow\<close> reports an overflow exactly when the mathematical product
  needs more than 64 bits, and then stores \<open>SIZE_MAX\<close>; otherwise the stored total is the
  exact product.
\<close>

theorem mi_count_size_overflow_exact:
  "mi_count_size_overflow count sz =
    (if 2 ^ 64 \<le> unat count * unat sz then (True, SIZE_MAX)
     else (False, word_of_nat (unat count * unat sz)))"
proof (cases "count = 1")
  case True
  then show ?thesis by (simp add: mi_count_size_overflow_def not_le unat_less_64)
next
  case False
  then show ?thesis
    by (simp add: mi_count_size_overflow_def mi_mul_overflow_def)
qed

section \<open>Pointer encoding\<close>

lemma unat_mod_64: "unat (s mod 64 :: u64) = unat s mod 64"
  by (simp add: unat_mod_distrib)

lemma c_shr_64_minus:
  assumes "unat s mod 64 \<noteq> 0"
  shows "unat (64 - s mod 64 :: u64) = 64 - unat s mod 64"
  by (subst unat_sub_bounded) (simp_all add: unat_mod_64 less_imp_le)

lemma rot_mod_zero: "unat s mod 64 = 0 \<Longrightarrow> mi_rotl x s = None \<and> mi_rotr x s = None"
proof -
  assume "unat s mod 64 = 0"
  then have "s mod 64 = 0" by (metis unat_eq_0 unat_mod_64)
  then show ?thesis by (simp add: mi_rotl_def mi_rotr_def c_shl_def c_shr_def)
qed

lemma mi_rotl_eq:
  "unat s mod 64 = k \<Longrightarrow> k \<noteq> 0 \<Longrightarrow> mi_rotl x s = Some (push_bit k x OR drop_bit (64 - k) x)"
  by (auto simp: mi_rotl_def c_shl_def c_shr_def unat_mod_64 c_shr_64_minus)

lemma mi_rotr_eq:
  "unat s mod 64 = k \<Longrightarrow> k \<noteq> 0 \<Longrightarrow> mi_rotr x s = Some (drop_bit k x OR push_bit (64 - k) x)"
  by (auto simp: mi_rotr_def c_shl_def c_shr_def unat_mod_64 c_shr_64_minus)

lemma rotr_rotl_inverse:
  fixes x :: u64
  assumes "k < 64"
  shows "drop_bit k (push_bit k x OR drop_bit (64 - k) x)
    OR push_bit (64 - k) (push_bit k x OR drop_bit (64 - k) x) = x"
proof (rule bit_word_eqI)
  fix n assume "n < LENGTH(64)"
  with assms show "bit (drop_bit k (push_bit k x OR drop_bit (64 - k) x)
    OR push_bit (64 - k) (push_bit k x OR drop_bit (64 - k) x)) n = bit x n"
    by (cases "k + n < 64")
      (auto simp: bit_or_iff bit_drop_bit_eq bit_push_bit_iff dest: bit_imp_le_length)
qed

lemma mi_rotr_rotl:
  assumes "unat s mod 64 \<noteq> 0"
  shows "\<exists>r. mi_rotl x s = Some r \<and> mi_rotr r s = Some x"
  by (simp only: mi_rotl_eq [OF refl assms] mi_rotr_eq [OF refl assms] option.inject simp_thms
      rotr_rotl_inverse mod_less_divisor zero_less_numeral ex_simps)

text \<open>
  Free-list encoding: with a first key that is not a multiple of 64, decoding the encoded
  pointer under the same keys and the same \<open>null\<close> gives the pointer back (and \<open>NULL\<close> for the
  value that stands for it). When the first key is a multiple of 64, the C expressions shift
  a 64-bit word by 64, and no value is defined.
\<close>

theorem mi_ptr_encode_decode:
  "Option.bind (mi_ptr_encode null p (k0, k1)) (\<lambda>x. mi_ptr_decode null x (k0, k1)) =
    (if unat k0 mod 64 = 0 then None else Some (if p = null then 0 else p))"
proof (cases "unat k0 mod 64 = 0")
  case True
  then show ?thesis by (simp add: mi_ptr_encode_def rot_mod_zero)
next
  case False
  let ?x = "(if p = 0 then null else p) XOR k1"
  obtain r where "mi_rotl ?x k0 = Some r" and "mi_rotr r k0 = Some ?x"
    using mi_rotr_rotl [OF False] by blast
  then show ?thesis using False
    by (auto simp: mi_ptr_encode_def mi_ptr_decode_def Let_def xor.assoc)
qed

section \<open>The shuffle never yields zero\<close>

lemma xorshift_nonzero:
  fixes x :: u64
  assumes "x \<noteq> 0" and "0 < n"
  shows "x XOR drop_bit n x \<noteq> 0"
proof
  assume eq: "x XOR drop_bit n x = 0"
  have "x = (x XOR drop_bit n x) XOR drop_bit n x" by (simp add: xor.assoc)
  with eq have "x = drop_bit n x" by simp
  then have "unat x = unat x div 2 ^ n" by (metis unat_drop_bit_div)
  moreover have "unat x div 2 ^ n < unat x"
    using assms one_less_power [of "2 :: nat" n] by (intro div_less_dividend) (auto simp: unat_gt_0)
  ultimately show False by simp
qed

lemma odd_mult_nonzero:
  fixes x c d :: u64
  assumes "x \<noteq> 0" and "c * d = 1"
  shows "x * c \<noteq> 0"
proof
  assume "x * c = 0"
  then have "x * (c * d) = 0" by (metis mult.assoc mult_zero_left)
  with assms show False by simp
qed

text \<open>
  \<open>_mi_random_shuffle\<close> keeps its promise not to get stuck generating zeros: the result
  is nonzero for every seed, zero included.
\<close>

theorem mi_random_shuffle_nonzero: "mi_random_shuffle x \<noteq> 0"
proof -
  have nz: "(if x = 0 then 17 else x) \<noteq> 0" by simp
  have mul1: "y * 0xbf58476d1ce4e5b9 \<noteq> 0" if "y \<noteq> 0" for y :: u64
    by (rule odd_mult_nonzero [OF that, where d = "0x96de1b173f119089"]) simp
  have mul2: "y * 0x94d049bb133111eb \<noteq> 0" if "y \<noteq> 0" for y :: u64
    by (rule odd_mult_nonzero [OF that, where d = "0x319642b2d24d8ec3"]) simp
  show ?thesis
    unfolding mi_random_shuffle_def Let_def
    by (rule xorshift_nonzero mul1 mul2 nz | simp only: zero_less_numeral)+
qed

section \<open>Thread-free words\<close>

lemma three_eq_mask: "(3 :: u64) = mask 2"
  by (simp add: mask_eq_exp_minus_1)

lemma mi_delayed_val_high: "mi_delayed_val d AND NOT 3 = 0"
  by (cases d) simp_all

lemma mi_tf_block_make [simp]: "block AND 3 = 0 \<Longrightarrow> mi_tf_block (mi_tf_make block d) = block"
proof -
  assume low: "block AND 3 = 0"
  have "block = (block AND 3) OR (block AND NOT 3)"
    by (simp flip: bit.conj_disj_distrib)
  with low have "block AND NOT 3 = block" by simp
  then show ?thesis
    using mi_delayed_val_high [of d]
    by (simp only: mi_tf_block_def mi_tf_make_def bit.conj_disj_distrib2) simp
qed

lemma mi_tf_delayed_make [simp]: "block AND 3 = 0 \<Longrightarrow> mi_tf_delayed (mi_tf_make block d) = d"
  by (cases d) (simp_all add: mi_tf_delayed_def mi_tf_make_def bit.conj_disj_distrib2)

lemma mi_tf_block_aligned [simp]: "mi_tf_block tf AND 3 = 0"
  by (simp add: mi_tf_block_def and.assoc)

text \<open>
  Packing: for a block address whose two low bits are clear, the block and the flag read
  back from \<open>mi_tf_make\<close> are the ones put in, and the two setters change one part of any
  thread-free word and keep the other.
\<close>

theorem mi_tf_roundtrip:
  assumes "block AND 3 = 0"
  shows "mi_tf_block (mi_tf_make block d) = block \<and> mi_tf_delayed (mi_tf_make block d) = d
    \<and> mi_tf_block (mi_tf_set_delayed tf d) = mi_tf_block tf
    \<and> mi_tf_delayed (mi_tf_set_delayed tf d) = d
    \<and> mi_tf_block (mi_tf_set_block tf block) = block
    \<and> mi_tf_delayed (mi_tf_set_block tf block) = mi_tf_delayed tf"
  using assms by (simp add: mi_tf_set_delayed_def mi_tf_set_block_def)

lemma mi_tf_roundtrip_witness:
  "mi_tf_block (mi_tf_make 4096 MI_NO_DELAYED_FREE) = 4096
    \<and> mi_tf_delayed (mi_tf_make 4096 MI_NO_DELAYED_FREE) = MI_NO_DELAYED_FREE
    \<and> mi_tf_block (mi_tf_set_delayed 8195 MI_NO_DELAYED_FREE) = mi_tf_block 8195
    \<and> mi_tf_delayed (mi_tf_set_delayed 8195 MI_NO_DELAYED_FREE) = MI_NO_DELAYED_FREE
    \<and> mi_tf_block (mi_tf_set_block 8195 4096) = 4096
    \<and> mi_tf_delayed (mi_tf_set_block 8195 4096) = mi_tf_delayed 8195"
  by (rule mi_tf_roundtrip) simp

section \<open>Tagged segment pointers\<close>

lemma mi_tagged_segment_ptr_tagged:
  "segment AND MI_SEGMENT_MASK = 0 \<Longrightarrow>
    mi_tagged_segment_ptr (mi_tagged_segment segment ts) = segment"
  unfolding mi_tagged_segment_ptr_def mi_tagged_segment_def MI_TAGGED_MASK_def
    MI_SEGMENT_MASK_eq_mask Let_def
  by (auto simp: bit_eq_iff bit_simps)

lemma mi_tagged_segment_tag:
  "segment AND MI_SEGMENT_MASK = 0 \<Longrightarrow>
    unat (mi_tagged_segment segment ts AND MI_TAGGED_MASK) =
      (unat (ts AND MI_TAGGED_MASK) + 1) mod 2 ^ 17"
proof -
  assume "segment AND MI_SEGMENT_MASK = 0"
  then have "mi_tagged_segment segment ts AND MI_TAGGED_MASK =
      ((ts AND MI_TAGGED_MASK) + 1) AND MI_TAGGED_MASK"
    by (simp add: mi_tagged_segment_def MI_TAGGED_MASK_def Let_def bit.conj_disj_distrib2 and.assoc)
  moreover have "unat (ts AND mask 17) < 2 ^ 17"
    by (simp add: unat_and_mask)
  then have "unat ((ts AND mask 17) + 1) = unat (ts AND mask 17) + 1"
    by (intro trans [OF unat_add_bounded]) simp_all
  ultimately show ?thesis
    by (simp add: MI_TAGGED_MASK_def MI_SEGMENT_MASK_eq_mask unat_and_mask)
qed

end
