(* ===== verification/Bins.thy ===== *)
theory Bins
  imports Arith
begin

text \<open>
  Size classes: the bit scans and \<open>_mi_bin\<close> of \<open>page-queue.c\<close>, the table of block sizes in
  \<open>_mi_heap_empty\<close> (\<open>init.c\<close>), and \<open>mi_good_size\<close>. The build aligns to two machine words
  (\<open>MI_ALIGN2W\<close>), so bins 3, 5 and 7 are never used.
\<close>

section \<open>Bit scans\<close>

text \<open>The compiler's count of leading zeros (its value for 0 is not used by the code).\<close>

fun clz_from :: "nat \<Rightarrow> u32 \<Rightarrow> nat" where
  "clz_from 0 x = 0"
| "clz_from (Suc n) x = (if bit x n then 0 else Suc (clz_from n x))"

definition builtin_clz :: "u32 \<Rightarrow> nat" where
  "builtin_clz x = clz_from 32 x"

definition mi_bsr32 :: "u32 \<Rightarrow> u8" where
  "mi_bsr32 x = word_of_nat (31 - builtin_clz x)"

text \<open>The portable version: smear the highest bit downwards and look a product up.\<close>

definition debruijn :: "u8 list" where
  "debruijn =
     [31,  0, 22,  1, 28, 23, 18,  2, 29, 26, 24, 10, 19,  7,  3, 12,
      30, 21, 27, 17, 25,  9,  6, 11, 20, 16,  8,  5, 15,  4, 14, 13]"

definition mi_bsr32_portable :: "u32 \<Rightarrow> u8" where
  "mi_bsr32_portable x0 =
     (let x = x0 OR drop_bit 1 x0;
          x = x OR drop_bit 2 x;
          x = x OR drop_bit 4 x;
          x = x OR drop_bit 8 x;
          x = x OR drop_bit 16 x;
          x = x + 1
      in debruijn ! unat (drop_bit 27 (x * 0x076be629)))"

definition mi_bsr :: "u64 \<Rightarrow> u8" where
  "mi_bsr x =
     (if x = 0 then 0
      else let hi = ucast (drop_bit 32 x) :: u32 in
        (if hi = 0 then mi_bsr32 (ucast x) else 32 + mi_bsr32 hi))"

section \<open>Bins\<close>

definition MI_SMALL_OBJ_SIZE_MAX :: u64 where [mi_consts]: "MI_SMALL_OBJ_SIZE_MAX = 2048"
definition MI_MEDIUM_OBJ_SIZE_MAX :: u64 where [mi_consts]: "MI_MEDIUM_OBJ_SIZE_MAX = 8192"
definition MI_LARGE_OBJ_SIZE_MAX :: u64 where [mi_consts]: "MI_LARGE_OBJ_SIZE_MAX = 65536"
definition MI_LARGE_OBJ_WSIZE_MAX :: u64 where [mi_consts]: "MI_LARGE_OBJ_WSIZE_MAX = 8192"
definition MI_BIN_HUGE :: u8 where [mi_consts]: "MI_BIN_HUGE = 73"
definition MI_BIN_FULL :: u8 where [mi_consts]: "MI_BIN_FULL = 74"

definition mi_bin :: "u64 \<Rightarrow> u8" where
  "mi_bin sz =
     (let wsize = mi_wsize_from_size sz in
      if wsize \<le> 1 then 1
      else if wsize \<le> 8 then ucast ((wsize + 1) AND NOT 1)
      else if wsize > MI_LARGE_OBJ_WSIZE_MAX then MI_BIN_HUGE
      else let w = wsize - 1;
               b = mi_bsr32 (ucast w)
           in (push_bit 2 b + ucast (drop_bit (unat (b - 2)) w AND 3)) - 3)"

text \<open>The block sizes of the empty heap's queues, in machine words.\<close>

definition mi_bin_wsizes :: "nat list" where
  "mi_bin_wsizes =
    [1,
     1, 2, 3, 4, 5, 6, 7, 8,
     10, 12, 14, 16, 20, 24, 28, 32,
     40, 48, 56, 64, 80, 96, 112, 128,
     160, 192, 224, 256, 320, 384, 448, 512,
     640, 768, 896, 1024, 1280, 1536, 1792, 2048,
     2560, 3072, 3584, 4096, 5120, 6144, 7168, 8192,
     10240, 12288, 14336, 16384, 20480, 24576, 28672, 32768,
     40960, 49152, 57344, 65536, 81920, 98304, 114688, 131072,
     163840, 196608, 229376, 262144, 327680, 393216, 458752, 524288,
     8192 + 1,
     8192 + 2]"

definition mi_bin_size :: "u8 \<Rightarrow> u64" where
  "mi_bin_size bin = word_of_nat (mi_bin_wsizes ! unat bin) * MI_INTPTR_SIZE"

definition mi_good_size :: "u64 \<Rightarrow> u64 \<Rightarrow> u64" where
  "mi_good_size os_page_size sz =
     (if sz \<le> MI_LARGE_OBJ_SIZE_MAX then mi_bin_size (mi_bin sz)
      else mi_align_up sz os_page_size)"

section \<open>The bit scans find the highest bit\<close>

lemma clz_from_le: "clz_from n x \<le> n"
  by (induction n) auto

lemma clz_from_spec:
  "take_bit n x \<noteq> 0 \<Longrightarrow> clz_from n x < n \<and> bit x (n - 1 - clz_from n x)
    \<and> (\<forall>m. n - 1 - clz_from n x < m \<longrightarrow> m < n \<longrightarrow> \<not> bit x m)"
proof (induction n)
  case 0
  then show ?case by simp
next
  case (Suc n)
  show ?case
  proof (cases "bit x n")
    case False
    from Suc.prems obtain m where "bit (take_bit (Suc n) x) m"
      by (auto simp: bit_eq_iff)
    with False have "bit (take_bit n x) m"
      by (cases "m = n") (auto simp: bit_take_bit_iff)
    then have "take_bit n x \<noteq> 0" by auto
    with Suc.IH False show ?thesis
      by (auto simp: less_Suc_eq)
  qed auto
qed

definition highest_bit :: "u32 \<Rightarrow> nat \<Rightarrow> bool" where
  "highest_bit x b \<longleftrightarrow> bit x b \<and> (\<forall>m > b. \<not> bit x m)"

lemma mi_bsr32_highest:
  assumes "x \<noteq> 0"
  shows "highest_bit x (unat (mi_bsr32 x))" and "unat (mi_bsr32 x) < 32"
proof -
  have "take_bit 32 x = x"
    by (rule bit_word_eqI) (auto simp: bit_simps)
  with assms have spec: "builtin_clz x < 32 \<and> bit x (31 - builtin_clz x)
    \<and> (\<forall>m. 31 - builtin_clz x < m \<longrightarrow> m < 32 \<longrightarrow> \<not> bit x m)"
    using clz_from_spec [of 32 x] by (simp add: builtin_clz_def)
  have u: "unat (mi_bsr32 x) = 31 - builtin_clz x"
    by (simp add: mi_bsr32_def unat_of_nat)
  have "m < 32" if "bit x m" for m
    using bit_imp_le_length [OF that] by simp
  with spec show "highest_bit x (unat (mi_bsr32 x))"
    unfolding highest_bit_def u by auto
  show "unat (mi_bsr32 x) < 32" unfolding u by simp
qed

lemma highest_bit_unique: "highest_bit x b \<Longrightarrow> highest_bit x c \<Longrightarrow> b = c"
  by (metis highest_bit_def linorder_neqE_nat)

lemma highest_bit_bounds:
  assumes "highest_bit x b"
  shows "2 ^ b \<le> unat x" and "unat x < 2 ^ (b + 1)" and "b < 32"
proof -
  have bitb: "bit (unat x) b" using assms by (simp add: highest_bit_def bit_unsigned_iff)
  then have "0 < unat x div 2 ^ b" by (metis bit_iff_odd even_zero neq0_conv)
  then show "2 ^ b \<le> unat x" by (simp add: div_greater_zero_iff)
  have "take_bit (b + 1) x = x"
    using assms
    by (intro bit_word_eqI)
      (auto simp: highest_bit_def bit_take_bit_iff less_Suc_eq_le simp flip: not_less)
  then have "unat x mod 2 ^ (b + 1) = unat x"
    by (metis take_bit_eq_mod unsigned_take_bit_eq)
  then show "unat x < 2 ^ (b + 1)" by (metis mod_less_divisor zero_less_numeral zero_less_power)
  show "b < 32" using assms by (auto simp: highest_bit_def dest: bit_imp_le_length)
qed

text \<open>One smearing step doubles the run of ones below the highest bit.\<close>

definition smeared :: "nat \<Rightarrow> nat \<Rightarrow> u32 \<Rightarrow> bool" where
  "smeared b k x \<longleftrightarrow> (\<forall>i. (i \<le> b \<longrightarrow> b < i + k \<longrightarrow> bit x i) \<and> (b < i \<longrightarrow> \<not> bit x i))"

lemma smeared_start: "highest_bit x b \<Longrightarrow> smeared b 1 x"
  by (auto simp: smeared_def highest_bit_def less_Suc_eq_le dest: le_antisym)

lemma smeared_step: "smeared b k x \<Longrightarrow> smeared b (k + k) (x OR drop_bit k x)"
  unfolding smeared_def
proof (intro allI conjI impI)
  fix i
  assume sm: "\<forall>i. (i \<le> b \<longrightarrow> b < i + k \<longrightarrow> bit x i) \<and> (b < i \<longrightarrow> \<not> bit x i)"
  { assume "i \<le> b" "b < i + (k + k)"
    then show "bit (x OR drop_bit k x) i"
      using sm by (cases "b < i + k") (auto simp: bit_or_iff bit_drop_bit_eq add.commute) }
  { assume "b < i"
    then show "\<not> bit (x OR drop_bit k x) i"
      using sm by (auto simp: bit_or_iff bit_drop_bit_eq) }
qed

lemma smeared_mask: "b < 32 \<Longrightarrow> smeared b 32 x \<Longrightarrow> x = mask (b + 1)"
  by (rule bit_word_eqI) (auto simp: smeared_def bit_mask_iff less_Suc_eq_le not_less)

lemma debruijn_table:
  "b < 32 \<Longrightarrow> debruijn ! unat (drop_bit 27 ((mask (b + 1) + 1 :: u32) * 0x076be629)) = word_of_nat b"
proof -
  assume "b < 32"
  then have "b \<in> set [0..<32]" by simp
  moreover have "list_all (\<lambda>b. debruijn ! unat (drop_bit 27 ((mask (b + 1) + 1 :: u32) * 0x076be629))
      = word_of_nat b) [0..<32]"
    by code_simp
  ultimately show ?thesis by (simp only: list_all_iff)
qed

text \<open>
  The portable de Bruijn version of \<open>mi_bsr32\<close> computes the same bit index as the
  builtin version for every nonzero word, and that index is the position of the highest bit.
\<close>

theorem mi_bsr32_portable_eq:
  assumes "x \<noteq> 0"
  shows "mi_bsr32_portable x = mi_bsr32 x
    \<and> 2 ^ unat (mi_bsr32 x) \<le> unat x \<and> unat x < 2 ^ (unat (mi_bsr32 x) + 1)"
proof -
  let ?b = "unat (mi_bsr32 x)"
  note hb = mi_bsr32_highest [OF assms]
  have s1: "smeared ?b 2 (x OR drop_bit 1 x)"
    using smeared_step [OF smeared_start [OF hb(1)]] by (simp only: one_add_one)
  note s2 = smeared_step [OF s1, simplified]
  note s4 = smeared_step [OF s2, simplified]
  note s8 = smeared_step [OF s4, simplified]
  note s16 = smeared_step [OF s8, simplified]
  have "mi_bsr32_portable x = debruijn ! unat (drop_bit 27 ((mask (?b + 1) + 1 :: u32) * 0x076be629))"
    unfolding mi_bsr32_portable_def Let_def
    using smeared_mask [OF hb(2) s16] by simp
  also have "\<dots> = mi_bsr32 x"
    by (simp only: debruijn_table [OF hb(2)]) simp
  finally show ?thesis
    using highest_bit_bounds [OF hb(1)] by simp
qed

lemma mi_bsr32_portable_eq_witness:
  "mi_bsr32_portable 0x00012345 = mi_bsr32 0x00012345
    \<and> 2 ^ unat (mi_bsr32 0x00012345) \<le> unat (0x00012345 :: u32)
    \<and> unat (0x00012345 :: u32) < 2 ^ (unat (mi_bsr32 0x00012345) + 1)"
  by (rule mi_bsr32_portable_eq) simp

section \<open>The bin of a size\<close>

text \<open>Bins with an even number of words up to 8 words, then four per doubling.\<close>

definition bin_used :: "nat \<Rightarrow> bool" where
  "bin_used k \<longleftrightarrow> k \<in> {1, 2, 4, 6, 8} \<or> 9 \<le> k \<and> k \<le> 72"

definition bin_pred :: "nat \<Rightarrow> nat" where
  "bin_pred k = (if k \<le> 2 then k - 1 else if k \<le> 8 then k - 2 else k - 1)"

lemma wsizes_sorted: "sorted (take 73 mi_bin_wsizes)"
  by (simp add: mi_bin_wsizes_def)

lemma length_wsizes: "length mi_bin_wsizes = 75"
  by (simp add: mi_bin_wsizes_def)

lemma wsizes_mono: "i \<le> j \<Longrightarrow> j \<le> 72 \<Longrightarrow> mi_bin_wsizes ! i \<le> mi_bin_wsizes ! j"
  using sorted_nth_mono [OF wsizes_sorted, of i j]
  by (simp only: length_take nth_take) (simp add: length_wsizes)

lemma wsizes_step:
  assumes "3 \<le> b" and "b < 18" and "q < 4"
  shows "mi_bin_wsizes ! (4 * b + q - 3) = (q + 5) * 2 ^ (b - 2)"
    and "mi_bin_wsizes ! (4 * b + q - 4) = (q + 4) * 2 ^ (b - 2)"
proof -
  have b: "b \<in> {3, 4, 5, 6, 7, 8, 9, 10, 11, 12, 13, 14, 15, 16, 17}"
    using assms(1,2) unfolding insert_iff empty_iff by presburger
  have q: "q \<in> {0, 1, 2, 3}"
    using assms(3) by auto
  have *: "mi_bin_wsizes ! (4 * b + q - 3) = (q + 5) * 2 ^ (b - 2)
    \<and> mi_bin_wsizes ! (4 * b + q - 4) = (q + 4) * 2 ^ (b - 2)"
    using b q unfolding insert_iff empty_iff
    by (elim disjE FalseE; hypsubst; simp add: mi_bin_wsizes_def)
  then show "mi_bin_wsizes ! (4 * b + q - 3) = (q + 5) * 2 ^ (b - 2)"
    and "mi_bin_wsizes ! (4 * b + q - 4) = (q + 4) * 2 ^ (b - 2)"
    by simp_all
qed

text \<open>The word arithmetic of the last branch of \<open>mi_bin\<close> does not wrap.\<close>

lemma mi_bin_large_unat:
  fixes w :: u64
  assumes "8 \<le> w" and "w < MI_LARGE_OBJ_WSIZE_MAX"
  defines "b \<equiv> unat (mi_bsr32 (ucast w))"
  defines "q \<equiv> unat w div 2 ^ (b - 2) mod 4"
  shows "unat (push_bit 2 (mi_bsr32 (ucast w))
      + ucast (drop_bit (unat (mi_bsr32 (ucast w) - 2)) w AND 3) - 3 :: u8) = 4 * b + q - 3"
    and "3 \<le> b" and "b < 18" and "q < 4"
    and "(q + 4) * 2 ^ (b - 2) \<le> unat w" and "unat w < (q + 5) * 2 ^ (b - 2)"
proof -
  have wb: "8 \<le> unat w" "unat w < 8192"
    using assms(1,2) by (simp_all add: MI_LARGE_OBJ_WSIZE_MAX_def word_le_nat_alt word_less_nat_alt)
  have uc: "unat (ucast w :: u32) = unat w"
    using wb by (simp add: unsigned_ucast_eq take_bit_nat_eq_self)
  have nz: "(ucast w :: u32) \<noteq> 0"
    using wb uc by (metis le_zero_eq unat_0 zero_neq_numeral)
  note hb = highest_bit_bounds [OF mi_bsr32_highest(1) [OF nz], folded b_def, unfolded uc]
  have "2 ^ 3 < (2::nat) ^ (b + 1)" using hb(2) wb by simp
  then show b3: "3 \<le> b" by (simp only: power_strict_increasing_iff)
  have "(2::nat) ^ b < 2 ^ 18" using hb(1) wb by simp
  then show b18: "b < 18" by (simp only: power_strict_increasing_iff)
  define c where "c = b - 2"
  then have c: "b = c + 2" using b3 by simp
  let ?d = "unat w div 2 ^ c"
  have "4 \<le> ?d" using hb(1) by (simp add: c less_eq_div_iff_mult_less_eq power_add)
  moreover have "?d < 8" using hb(2) by (simp add: c less_mult_imp_div_less power_add)
  ultimately have d: "?d = q + 4" and q4: "q < 4"
    unfolding q_def c by (simp_all add: mod_if)
  show "q < 4" by (rule q4)
  show "(q + 4) * 2 ^ (b - 2) \<le> unat w" by (simp add: c flip: d)
  have "unat w < (?d + 1) * 2 ^ c" by (simp add: mult.commute dividend_less_times_div)
  then show "unat w < (q + 5) * 2 ^ (b - 2)" by (simp add: c d add.commute)
  have u1: "unat (push_bit 2 (mi_bsr32 (ucast w))) = 4 * b"
    using b18 by (subst unat_push_bit_bounded) (simp_all flip: b_def)
  have u2: "unat (mi_bsr32 (ucast w) - 2) = b - 2"
    using b3 by (subst unat_sub_bounded) (simp_all flip: b_def)
  have "(3 :: u64) = mask 2" by (simp add: mask_eq_decr_exp)
  then have u3: "unat (drop_bit (unat (mi_bsr32 (ucast w) - 2)) w AND 3) = q"
    by (simp only: unat_and_mask u2 unat_drop_bit_div q_def) simp
  have u4: "unat (ucast (drop_bit (unat (mi_bsr32 (ucast w) - 2)) w AND 3) :: u8) = q"
    using q4 by (simp only: unsigned_ucast_eq u3) (simp add: take_bit_nat_eq_self)
  show "unat (push_bit 2 (mi_bsr32 (ucast w))
      + ucast (drop_bit (unat (mi_bsr32 (ucast w) - 2)) w AND 3) - 3 :: u8) = 4 * b + q - 3"
  proof -
    have "unat (push_bit 2 (mi_bsr32 (ucast w)) + ucast (drop_bit (unat (mi_bsr32 (ucast w) - 2)) w AND 3) :: u8)
        = 4 * b + q"
      by (subst unat_add_bounded; unfold u1 u4) (use b18 q4 in simp_all)
    with b3 show ?thesis
      by (subst unat_sub_bounded) simp_all
  qed
qed

lemma small_bin:
  assumes "w \<le> (8 :: u64)" and "1 < w"
  shows "unat (ucast ((w + 1) AND NOT 1) :: u8) = (unat w + 1) div 2 * 2"
proof -
  have w: "unat w \<le> 8" using assms(1) by (simp add: word_le_nat_alt)
  have "(NOT 1 :: u64) = NOT (mask 1)" by (simp add: mask_eq_decr_exp)
  then have "unat ((w + 1) AND NOT 1) = (unat w + 1) div 2 * 2"
    using w by (simp only: unat_and_not_mask) (simp add: unat_add_bounded minus_mod_eq_div_mult)
  with w show ?thesis
    by (simp only: unsigned_ucast_eq) (simp add: take_bit_nat_eq_self)
qed

lemma mi_bin_char:
  assumes "sz \<le> MI_LARGE_OBJ_SIZE_MAX"
  defines "k \<equiv> unat (mi_bin sz)" and "w \<equiv> unat (mi_wsize_from_size sz)"
  shows "bin_used k \<and> w \<le> mi_bin_wsizes ! k \<and> (1 < k \<longrightarrow> mi_bin_wsizes ! bin_pred k < w)
    \<and> (8 < k \<longrightarrow> 4 * mi_bin_wsizes ! k \<le> 5 * w)"
proof -
  let ?w = "mi_wsize_from_size sz"
  have uw: "w = (unat sz + 7) div 8" and le: "w \<le> 8192"
    using assms(1) by (simp_all add: w_def unat_mi_wsize_from_size word_le_nat_alt mi_consts)
  consider "w \<le> 1" | "1 < w" "w \<le> 8" | "8 < w" by linarith
  then show ?thesis
  proof cases
    case 1
    then have "?w \<le> 1" by (simp add: w_def word_le_nat_alt)
    then have "k = 1" by (simp add: k_def mi_bin_def)
    with 1 show ?thesis by (simp add: bin_used_def mi_bin_wsizes_def)
  next
    case 2
    then have "1 < ?w" "?w \<le> 8" by (simp_all add: w_def word_le_nat_alt word_less_nat_alt)
    then have k: "k = (w + 1) div 2 * 2"
      using small_bin [of ?w] by (simp add: k_def mi_bin_def Let_def w_def not_le)
    from 2 have "w \<in> {2, 3, 4, 5, 6, 7, 8}" by auto
    then show ?thesis unfolding k insert_iff empty_iff
      by (elim disjE FalseE; hypsubst; simp add: bin_used_def bin_pred_def mi_bin_wsizes_def)
  next
    case 3
    let ?v = "?w - 1"
    have w8: "8 < ?w" "\<not> ?w > MI_LARGE_OBJ_WSIZE_MAX"
      using 3 le by (simp_all add: w_def word_le_nat_alt word_less_nat_alt mi_consts)
    have v: "unat ?v = w - 1" using 3 by (simp add: unat_sub_bounded w_def)
    have v8: "8 \<le> ?v" "?v < MI_LARGE_OBJ_WSIZE_MAX"
      using 3 le v by (simp_all add: word_le_nat_alt word_less_nat_alt mi_consts)
    have gt: "\<not> ?w \<le> 1" "\<not> ?w \<le> 8" using 3 by (simp_all add: w_def word_le_nat_alt)
    obtain b q where k: "k = 4 * b + q - 3" and r: "3 \<le> b" "b < 18" "q < 4"
      and lo: "(q + 4) * 2 ^ (b - 2) \<le> w - 1" and hi: "w - 1 < (q + 5) * 2 ^ (b - 2)"
    proof
      show "k = 4 * unat (mi_bsr32 (ucast ?v)) + unat ?v div 2 ^ (unat (mi_bsr32 (ucast ?v)) - 2) mod 4 - 3"
        unfolding k_def mi_bin_def Let_def
        using w8 gt by (simp only: if_False mi_bin_large_unat(1) [OF v8])
    qed (use mi_bin_large_unat(2-6) [OF v8] v in simp_all)
    note S = wsizes_step [OF r, folded k]
    have p: "bin_pred k = 4 * b + q - 4" and k9: "9 \<le> k" "k \<le> 72"
      using r by (simp_all add: k bin_pred_def)
    let ?n = "2 ^ (b - 2) :: nat"
    have "4 * ((q + 5) * ?n) \<le> 5 * ((q + 4) * ?n)" by (simp add: algebra_simps)
    also have "\<dots> \<le> 5 * w" using lo by linarith
    finally show ?thesis
      using k9 lo hi 3 by (simp only: S p) (auto simp: bin_used_def)
  qed
qed

lemma mi_bin_wsize_unat:
  assumes "sz \<le> MI_LARGE_OBJ_SIZE_MAX"
  shows "unat (mi_bin_size (mi_bin sz)) = mi_bin_wsizes ! unat (mi_bin sz) * 8"
proof -
  have "unat (mi_bin sz) \<le> 72" using mi_bin_char [OF assms] by (auto simp: bin_used_def)
  then have "mi_bin_wsizes ! unat (mi_bin sz) \<le> mi_bin_wsizes ! 72"
    by (rule wsizes_mono) simp
  also have "\<dots> = 524288" by (simp add: mi_bin_wsizes_def)
  finally show ?thesis
    by (simp add: mi_bin_size_def unat_mult_bounded unat_of_nat mi_consts)
qed

lemma bin_used_pred: "bin_used j \<Longrightarrow> bin_used k \<Longrightarrow> j < k \<Longrightarrow> j \<le> bin_pred k"
  by (auto simp: bin_used_def bin_pred_def)

lemma mi_bin_least:
  assumes "sz \<le> MI_LARGE_OBJ_SIZE_MAX" and "bin_used j"
    and "unat (mi_wsize_from_size sz) \<le> mi_bin_wsizes ! j"
  shows "unat (mi_bin sz) \<le> j"
proof (rule ccontr)
  let ?k = "unat (mi_bin sz)"
  assume "\<not> ?k \<le> j"
  then have jk: "j < ?k" by simp
  note C = mi_bin_char [OF assms(1)]
  have "j \<le> bin_pred ?k" "1 < ?k" "bin_pred ?k \<le> 72"
    using bin_used_pred [OF assms(2) _ jk] C jk assms(2) by (auto simp: bin_used_def bin_pred_def)
  then have "mi_bin_wsizes ! j \<le> mi_bin_wsizes ! bin_pred ?k" by (intro wsizes_mono)
  with C \<open>1 < ?k\<close> assms(3) show False by simp
qed

text \<open>
  C40. Every size up to the large-object limit is put in one of the bins 1 to 72 whose block
  size holds it, and in the smallest such bin that any size uses; the block it gets is at most
  a quarter larger than the request rounded up to words once the request exceeds eight words.
\<close>

theorem mi_bin_best_fit:
  assumes "sz \<le> MI_LARGE_OBJ_SIZE_MAX"
  shows "1 \<le> mi_bin sz \<and> mi_bin sz < MI_BIN_HUGE \<and> sz \<le> mi_bin_size (mi_bin sz)
    \<and> (\<forall>sz'. sz' \<le> MI_LARGE_OBJ_SIZE_MAX \<longrightarrow> sz \<le> mi_bin_size (mi_bin sz') \<longrightarrow> mi_bin sz \<le> mi_bin sz')
    \<and> (64 < sz \<longrightarrow> 4 * unat (mi_bin_size (mi_bin sz)) \<le> 5 * ((unat sz + 7) div 8 * 8))"
proof (intro conjI allI impI)
  note C = mi_bin_char [OF assms]
  have uw: "unat (mi_wsize_from_size sz) = (unat sz + 7) div 8"
    using assms by (simp add: unat_mi_wsize_from_size word_le_nat_alt mi_consts)
  note B = mi_bin_wsize_unat [OF assms]
  show "1 \<le> mi_bin sz" "mi_bin sz < MI_BIN_HUGE"
    using C by (auto simp: bin_used_def word_le_nat_alt word_less_nat_alt mi_consts)
  have "(unat sz + 7) div 8 \<le> mi_bin_wsizes ! unat (mi_bin sz)"
    using C by (simp only: uw)
  then have "unat sz \<le> mi_bin_wsizes ! unat (mi_bin sz) * 8" by linarith
  then show "sz \<le> mi_bin_size (mi_bin sz)"
    by (simp only: word_le_nat_alt B)
  show "mi_bin sz \<le> mi_bin sz'"
    if big: "sz' \<le> MI_LARGE_OBJ_SIZE_MAX" and fits: "sz \<le> mi_bin_size (mi_bin sz')" for sz'
  proof -
    have "unat sz \<le> mi_bin_wsizes ! unat (mi_bin sz') * 8"
      using fits by (simp only: word_le_nat_alt mi_bin_wsize_unat [OF big])
    then have "unat (mi_wsize_from_size sz) \<le> mi_bin_wsizes ! unat (mi_bin sz')"
      unfolding uw by linarith
    then show ?thesis
      using mi_bin_least [OF assms] mi_bin_char [OF big] by (simp add: word_le_nat_alt)
  qed
  show "4 * unat (mi_bin_size (mi_bin sz)) \<le> 5 * ((unat sz + 7) div 8 * 8)" if "64 < sz"
  proof -
    have w8: "8 < unat (mi_wsize_from_size sz)"
      using that by (simp add: uw word_less_nat_alt)
    have "8 < unat (mi_bin sz)"
    proof (rule ccontr)
      assume "\<not> 8 < unat (mi_bin sz)"
      then have "mi_bin_wsizes ! unat (mi_bin sz) \<le> mi_bin_wsizes ! 8"
        by (intro wsizes_mono) simp_all
      also have "\<dots> = 8" by (simp add: mi_bin_wsizes_def)
      finally show False using C w8 by simp
    qed
    with C have "4 * mi_bin_wsizes ! unat (mi_bin sz) \<le> 5 * unat (mi_wsize_from_size sz)"
      by simp
    then show ?thesis unfolding B uw by linarith
  qed
qed

lemma mi_bin_best_fit_witness:
  "1 \<le> mi_bin 1000 \<and> mi_bin 1000 < MI_BIN_HUGE \<and> 1000 \<le> mi_bin_size (mi_bin 1000)
    \<and> mi_bin 1000 \<le> mi_bin 5000
    \<and> 4 * unat (mi_bin_size (mi_bin 1000)) \<le> 5 * ((unat (1000 :: u64) + 7) div 8 * 8)"
proof -
  have lim: "(1000 :: u64) \<le> MI_LARGE_OBJ_SIZE_MAX" "(5000 :: u64) \<le> MI_LARGE_OBJ_SIZE_MAX"
    by (simp_all add: mi_consts)
  have "(1000 :: u64) \<le> 5000" by simp
  also have "\<dots> \<le> mi_bin_size (mi_bin 5000)"
    using mi_bin_best_fit [OF lim(2)] by blast
  finally show ?thesis
    using mi_bin_best_fit [OF lim(1)] lim by simp
qed

text \<open>
  \<open>mi_good_size\<close> never returns less than the request when the request can be rounded up
  to OS pages without overflow.
\<close>

theorem mi_good_size_ge:
  assumes "os_page_size \<noteq> 0" and "unat sz + unat os_page_size \<le> 2 ^ 64"
  shows "sz \<le> mi_good_size os_page_size sz"
proof (cases "sz \<le> MI_LARGE_OBJ_SIZE_MAX")
  case True
  note C = mi_bin_char [OF True]
  have "(unat sz + 7) div 8 \<le> mi_bin_wsizes ! unat (mi_bin sz)"
    using C True by (simp add: unat_mi_wsize_from_size word_le_nat_alt mi_consts)
  then have "unat sz \<le> mi_bin_wsizes ! unat (mi_bin sz) * 8" by linarith
  with True show ?thesis
    by (simp add: mi_good_size_def word_le_nat_alt mi_bin_wsize_unat)
next
  case False
  have "unat sz \<le> unat (mi_align_up sz os_page_size)"
    using assms unat_mi_align_up [of os_page_size sz] round_up_props [of "unat os_page_size" "unat sz"]
    by (simp add: unat_gt_0)
  with False show ?thesis
    by (simp add: mi_good_size_def word_le_nat_alt)
qed

lemma mi_good_size_ge_witness: "(5000000 :: u64) \<le> mi_good_size 4096 5000000"
  by (rule mi_good_size_ge) simp_all

end
