(* ===== verification/Bitmap.thy ===== *)
theory Bitmap
  imports Bins "HOL-Library.Monad_Syntax"
begin

text \<open>
  The atomic bitmap of \<open>bitmap.inc.c\<close>: an array of 64-bit fields in which the arenas and the
  regions claim runs of bits. A bitmap is the list of its fields. The operations here are the
  bodies of the C functions run by one thread; the compare-and-swap in the search takes the
  values other threads store as an argument, so a failed swap and its retry are part of the
  model. \<open>None\<close> is undefined behaviour (a shift by the full width) or a search that never
  returns; it is proved which calls return.
\<close>

section \<open>Indices and masks\<close>

type_synonym mi_bitmap = "u64 list"

definition MI_BITMAP_FIELD_BITS :: u64 where [mi_consts]: "MI_BITMAP_FIELD_BITS = 64"
definition MI_BITMAP_FIELD_FULL :: u64 where [mi_consts]: "MI_BITMAP_FIELD_FULL = NOT 0"

definition mi_bitmap_index_create :: "u64 \<Rightarrow> u64 \<Rightarrow> u64" where
  "mi_bitmap_index_create idx bitidx = idx * MI_BITMAP_FIELD_BITS + bitidx"

definition mi_bitmap_index_field :: "u64 \<Rightarrow> u64" where
  "mi_bitmap_index_field bitmap_idx = bitmap_idx div MI_BITMAP_FIELD_BITS"

definition mi_bitmap_index_bit_in_field :: "u64 \<Rightarrow> u64" where
  "mi_bitmap_index_bit_in_field bitmap_idx = bitmap_idx mod MI_BITMAP_FIELD_BITS"

definition mi_bitmap_mask :: "u64 \<Rightarrow> u64 \<Rightarrow> u64" where
  "mi_bitmap_mask count bitidx =
     (if count = MI_BITMAP_FIELD_BITS then MI_BITMAP_FIELD_FULL
      else push_bit (unat bitidx) (push_bit (unat count) 1 - 1))"

text \<open>Scans from the low and the high end; the compiler builtins count the zeros there.\<close>

definition builtin_ctzl :: "u64 \<Rightarrow> nat" where
  "builtin_ctzl x = length (takeWhile (\<lambda>i. \<not> bit x i) [0..<64])"

definition builtin_clzl :: "u64 \<Rightarrow> nat" where
  "builtin_clzl x = length (takeWhile (\<lambda>i. \<not> bit x (63 - i)) [0..<64])"

definition bitmap_bsf :: "u64 \<Rightarrow> u64" where
  "bitmap_bsf x = (if x = 0 then 64 else word_of_nat (builtin_ctzl x))"

definition bitmap_bsr :: "u64 \<Rightarrow> u64" where
  "bitmap_bsr x = (if x = 0 then 64 else 63 - word_of_nat (builtin_clzl x))"

section \<open>Claiming bits\<close>

definition mi_bitmap_try_claim_field ::
    "mi_bitmap \<Rightarrow> u64 \<Rightarrow> u64 \<Rightarrow> u64 \<Rightarrow> bool \<times> mi_bitmap" where
  "mi_bitmap_try_claim_field bitmap bitmap_fields count bitmap_idx =
     (let idx = mi_bitmap_index_field bitmap_idx;
          bitidx = mi_bitmap_index_bit_in_field bitmap_idx;
          m = mi_bitmap_mask count bitidx;
          field = bitmap ! unat idx
      in if field AND m = 0 then (True, bitmap[unat idx := field OR m])
         else (False, bitmap))"

text \<open>
  The scan loop. \<open>others\<close> lists what the successive compare-and-swaps find: while it is not
  empty a swap fails and the field is read again with the listed value; then the swap succeeds.
  The result is the bit index that was claimed, if any, and the final value of the field.
\<close>

partial_function (option) mi_bitmap_scan ::
    "u64 \<Rightarrow> u64 list \<Rightarrow> u64 \<Rightarrow> u64 \<Rightarrow> u64 \<Rightarrow> (u64 option \<times> u64) option" where
  "mi_bitmap_scan count others field bitidx m =
     (if bitidx \<le> MI_BITMAP_FIELD_BITS - count then
        (if field AND m = 0 then
           (case others of
              [] \<Rightarrow> Some (Some bitidx, field OR m)
            | v # others' \<Rightarrow> mi_bitmap_scan count others' v bitidx m)
         else do {
           let shift = (if count = 1 then 1 else bitmap_bsr (field AND m) - bitidx + 1);
           m' \<leftarrow> c_shl m shift;
           mi_bitmap_scan count others field (bitidx + shift) m'
         })
      else Some (None, field))"

definition mi_bitmap_try_find_claim_field ::
    "u64 list \<Rightarrow> mi_bitmap \<Rightarrow> u64 \<Rightarrow> u64 \<Rightarrow> (u64 option \<times> mi_bitmap) option" where
  "mi_bitmap_try_find_claim_field others bitmap idx count =
     (let field = bitmap ! unat idx in
      if field = MI_BITMAP_FIELD_FULL then Some (None, bitmap)
      else do {
        let msk = mi_bitmap_mask count 0;
        let bitidx = bitmap_bsf (NOT field);
        m \<leftarrow> c_shl msk bitidx;
        (found, field') \<leftarrow> mi_bitmap_scan count others field bitidx m;
        Some (map_option (\<lambda>b. mi_bitmap_index_create idx b) found, bitmap[unat idx := field'])
      })"

function mi_bitmap_try_find_claim_from ::
    "u64 \<Rightarrow> mi_bitmap \<Rightarrow> u64 \<Rightarrow> u64 \<Rightarrow> (u64 option \<times> mi_bitmap) option" where
  "mi_bitmap_try_find_claim_from idx bitmap bitmap_fields count =
     (if idx < bitmap_fields then do {
        (found, bitmap') \<leftarrow> mi_bitmap_try_find_claim_field [] bitmap idx count;
        (case found of
           Some b \<Rightarrow> Some (Some b, bitmap')
         | None \<Rightarrow> mi_bitmap_try_find_claim_from (idx + 1) bitmap' bitmap_fields count)
      }
      else Some (None, bitmap))"
  by pat_completeness auto

termination
proof (relation "measure (\<lambda>(idx, _, fields, _). unat fields - unat idx)")
  fix idx fields :: u64 and bitmap bitmap' count
  assume "idx < fields"
  then show "((idx + 1, bitmap', fields, count), idx, bitmap, fields, count)
      \<in> measure (\<lambda>(idx, _, fields, _). unat fields - unat idx)"
    by (simp add: unat_plus_one_less word_less_nat_alt)
qed simp

declare mi_bitmap_try_find_claim_from.simps [simp del]

definition mi_bitmap_try_find_claim ::
    "mi_bitmap \<Rightarrow> u64 \<Rightarrow> u64 \<Rightarrow> (u64 option \<times> mi_bitmap) option" where
  "mi_bitmap_try_find_claim bitmap bitmap_fields count =
     mi_bitmap_try_find_claim_from 0 bitmap bitmap_fields count"

definition mi_bitmap_unclaim ::
    "mi_bitmap \<Rightarrow> u64 \<Rightarrow> u64 \<Rightarrow> u64 \<Rightarrow> bool \<times> mi_bitmap" where
  "mi_bitmap_unclaim bitmap bitmap_fields count bitmap_idx =
     (let idx = mi_bitmap_index_field bitmap_idx;
          bitidx = mi_bitmap_index_bit_in_field bitmap_idx;
          m = mi_bitmap_mask count bitidx;
          prev = bitmap ! unat idx
      in (prev AND m = m, bitmap[unat idx := prev AND NOT m]))"

text \<open>Returns whether all bits were 0, whether any was 0, and the bitmap.\<close>

definition mi_bitmap_claim ::
    "mi_bitmap \<Rightarrow> u64 \<Rightarrow> u64 \<Rightarrow> u64 \<Rightarrow> bool \<times> bool \<times> mi_bitmap" where
  "mi_bitmap_claim bitmap bitmap_fields count bitmap_idx =
     (let idx = mi_bitmap_index_field bitmap_idx;
          bitidx = mi_bitmap_index_bit_in_field bitmap_idx;
          m = mi_bitmap_mask count bitidx;
          prev = bitmap ! unat idx
      in (prev AND m = 0, prev AND m \<noteq> m, bitmap[unat idx := prev OR m]))"

definition mi_bitmap_is_claimedx ::
    "mi_bitmap \<Rightarrow> u64 \<Rightarrow> u64 \<Rightarrow> u64 \<Rightarrow> bool \<times> bool" where
  "mi_bitmap_is_claimedx bitmap bitmap_fields count bitmap_idx =
     (let idx = mi_bitmap_index_field bitmap_idx;
          bitidx = mi_bitmap_index_bit_in_field bitmap_idx;
          m = mi_bitmap_mask count bitidx;
          field = bitmap ! unat idx
      in (field AND m = m, field AND m \<noteq> 0))"

definition mi_bitmap_is_claimed :: "mi_bitmap \<Rightarrow> u64 \<Rightarrow> u64 \<Rightarrow> u64 \<Rightarrow> bool" where
  "mi_bitmap_is_claimed bitmap bitmap_fields count bitmap_idx =
     fst (mi_bitmap_is_claimedx bitmap bitmap_fields count bitmap_idx)"

definition mi_bitmap_is_any_claimed :: "mi_bitmap \<Rightarrow> u64 \<Rightarrow> u64 \<Rightarrow> u64 \<Rightarrow> bool" where
  "mi_bitmap_is_any_claimed bitmap bitmap_fields count bitmap_idx =
     snd (mi_bitmap_is_claimedx bitmap bitmap_fields count bitmap_idx)"

section \<open>Masks and bit scans\<close>

lemma low_ones_mask: "push_bit c 1 - 1 = (mask c :: u64)"
  by (simp add: push_bit_eq_mult mask_eq_exp_minus_1)

lemma bit_low_ones: "c < 64 \<Longrightarrow> bit (push_bit c 1 - 1 :: u64) n \<longleftrightarrow> n < c"
  unfolding low_ones_mask by (auto simp: bit_mask_iff)

lemma bit_mi_bitmap_mask:
  assumes "unat bitidx + unat count \<le> 64"
  shows "bit (mi_bitmap_mask count bitidx) n \<longleftrightarrow> unat bitidx \<le> n \<and> n < unat bitidx + unat count"
proof (cases "count = MI_BITMAP_FIELD_BITS")
  case True
  with assms have "unat bitidx = 0" by (simp add: mi_consts)
  with True show ?thesis by (simp add: mi_bitmap_mask_def mi_consts)
next
  case False
  have "unat count \<noteq> 64"
  proof
    assume "unat count = 64"
    then have "unat count = unat (64 :: u64)" by simp
    then have "count = 64" by (simp only: unsigned_word_eqI)
    with False show False by (simp add: mi_consts)
  qed
  with assms have "unat count < 64" by simp
  with False assms show ?thesis
    unfolding mi_bitmap_mask_def low_ones_mask by (auto simp: bit_push_bit_iff bit_mask_iff)
qed

definition free_run :: "u64 \<Rightarrow> nat \<Rightarrow> nat \<Rightarrow> bool" where
  "free_run field b c \<longleftrightarrow> (\<forall>j. b \<le> j \<longrightarrow> j < b + c \<longrightarrow> \<not> bit field j)"

lemma and_eq_0_bits: "x AND y = 0 \<longleftrightarrow> (\<forall>n. \<not> (bit x n \<and> bit y n))" for x y :: "'a::len word"
proof
  show "x AND y = 0 \<Longrightarrow> \<forall>n. \<not> (bit x n \<and> bit y n)"
    by (metis bit_and_iff bit_0_eq bot_apply bot_bool_def)
  show "\<forall>n. \<not> (bit x n \<and> bit y n) \<Longrightarrow> x AND y = 0"
    by (rule bit_word_eqI) (simp add: bit_and_iff)
qed

lemma and_mask_free_run:
  assumes "unat bitidx + unat count \<le> 64"
  shows "field AND mi_bitmap_mask count bitidx = 0 \<longleftrightarrow> free_run field (unat bitidx) (unat count)"
  by (auto simp: and_eq_0_bits bit_mi_bitmap_mask [OF assms] free_run_def)

lemma takeWhile_upt_props:
  assumes "\<not> P i" and "i < n"
  defines "k \<equiv> length (takeWhile P [0..<n])"
  shows "k < n" and "\<not> P k" and "\<And>j. j < k \<Longrightarrow> P j" and "k \<le> i"
proof -
  have all: "P j" if "j < k" for j
  proof -
    have "takeWhile P [0..<n] ! j = [0..<n] ! j"
      using that by (simp add: k_def takeWhile_nth)
    moreover have "takeWhile P [0..<n] ! j \<in> set (takeWhile P [0..<n])"
      using that by (simp add: k_def)
    then have "P (takeWhile P [0..<n] ! j)"
      by (blast dest: set_takeWhileD)
    moreover have "j < n"
      using that length_takeWhile_le [of P "[0..<n]"] by (simp add: k_def)
    ultimately show ?thesis by simp
  qed
  then show "\<And>j. j < k \<Longrightarrow> P j" by blast
  have ki: "\<not> i < k" using assms(1) all [of i] by blast
  then show "k \<le> i" by simp
  with \<open>i < n\<close> show kn: "k < n" by simp
  then have "\<not> P ([0..<n] ! k)"
    unfolding k_def by (intro nth_length_takeWhile) simp
  with kn show "\<not> P k" by simp
qed

lemma bit_less_64: "bit (x :: u64) n \<Longrightarrow> n < 64"
  using bit_imp_le_length [of x n] by simp

lemma bitmap_bsf_props:
  assumes "x \<noteq> 0"
  shows "unat (bitmap_bsf x) < 64" and "bit x (unat (bitmap_bsf x))"
    and "\<And>j. j < unat (bitmap_bsf x) \<Longrightarrow> \<not> bit x j"
proof -
  obtain i where i: "bit x i" using assms by (auto simp: bit_eq_iff)
  note tw = takeWhile_upt_props [of "\<lambda>i. \<not> bit x i" i 64, folded builtin_ctzl_def]
  have u: "unat (bitmap_bsf x) = builtin_ctzl x"
    using tw(1) i bit_less_64 [OF i] assms by (simp add: bitmap_bsf_def unat_of_nat)
  show "unat (bitmap_bsf x) < 64" and "bit x (unat (bitmap_bsf x))"
    and "\<And>j. j < unat (bitmap_bsf x) \<Longrightarrow> \<not> bit x j"
    unfolding u using tw(1-3) i bit_less_64 [OF i] by auto
qed

lemma bitmap_bsr_props:
  assumes "x \<noteq> 0"
  shows "unat (bitmap_bsr x) < 64" and "bit x (unat (bitmap_bsr x))"
    and "\<And>j. unat (bitmap_bsr x) < j \<Longrightarrow> \<not> bit x j"
proof -
  obtain i where i: "bit x i" using assms by (auto simp: bit_eq_iff)
  then have i64: "i < 64" by (rule bit_less_64)
  note tw = takeWhile_upt_props [of "\<lambda>i. \<not> bit x (63 - i)" "63 - i" 64, folded builtin_clzl_def]
  have tw': "builtin_clzl x < 64" "bit x (63 - builtin_clzl x)"
    "\<And>j. j < builtin_clzl x \<Longrightarrow> \<not> bit x (63 - j)"
    using tw(1-3) i i64 by auto
  have u: "unat (bitmap_bsr x) = 63 - builtin_clzl x"
    using tw'(1) assms by (simp add: bitmap_bsr_def unat_sub_bounded unat_of_nat)
  show "unat (bitmap_bsr x) < 64" and "bit x (unat (bitmap_bsr x))"
    unfolding u using tw' by auto
  fix j assume j: "unat (bitmap_bsr x) < j"
  show "\<not> bit x j"
  proof
    assume b: "bit x j"
    then have "j < 64" by (rule bit_less_64)
    with j tw'(1) have "63 - j < builtin_clzl x" unfolding u by simp
    from tw'(3) [OF this] b \<open>j < 64\<close> show False by simp
  qed
qed

section \<open>The scan\<close>

text \<open>The mask of a run of \<open>c\<close> bits at \<open>b\<close>, bits past the field dropped.\<close>

definition run_at :: "nat \<Rightarrow> nat \<Rightarrow> u64" where
  "run_at c b = push_bit b (push_bit c 1 - 1)"

lemma bit_run_at: "c \<le> 64 \<Longrightarrow> bit (run_at c b) n \<longleftrightarrow> b \<le> n \<and> n < b + c \<and> n < 64"
  unfolding run_at_def push_bit_of_1 mask_eq_exp_minus_1 [symmetric] bit_push_bit_iff bit_mask_iff by auto

lemma run_at_full: "run_at 64 0 = MI_BITMAP_FIELD_FULL"
  by (rule bit_eqI) (simp add: bit_run_at mi_consts)

lemma run_at_mask: "unat count < 64 \<Longrightarrow> mi_bitmap_mask count bitidx = run_at (unat count) (unat bitidx)"
  by (auto simp: mi_bitmap_mask_def run_at_def mi_consts)

lemma run_at_shift: "push_bit k (run_at c b) = run_at c (b + k)"
  by (simp add: run_at_def push_bit_push_bit add.commute del: push_bit_minus_one)

lemma run_at_mask_fits:
  assumes "0 < unat count" and "unat bitidx + unat count \<le> 64"
  shows "mi_bitmap_mask count bitidx = run_at (unat count) (unat bitidx)"
proof (cases "unat count < 64")
  case False
  with assms have "unat count = unat (64 :: u64)" "unat bitidx = 0" by simp_all
  then have "count = 64" "bitidx = 0" by (simp_all only: unsigned_word_eqI unat_eq_0)
  then show ?thesis by (simp add: mi_bitmap_mask_def mi_consts run_at_full)
qed (simp add: run_at_mask)

lemma run_at_mask_0: "0 < unat count \<Longrightarrow> unat count \<le> 64 \<Longrightarrow> mi_bitmap_mask count 0 = run_at (unat count) 0"
  using run_at_mask_fits [of count 0] by simp

text \<open>One step of the scan over an occupied range: it moves just past an occupied bit.\<close>

lemma scan_shift:
  assumes c: "0 < unat count" "unat count \<le> 64"
    and m: "m = run_at (unat count) (unat bitidx)" and ne: "field AND m \<noteq> 0"
    and b: "unat bitidx + unat count \<le> 64"
  defines "shift \<equiv> if count = 1 then 1 else bitmap_bsr (field AND m) - bitidx + 1"
  shows "1 \<le> unat shift" and "unat shift \<le> unat count"
    and "bit field (unat bitidx + unat shift - 1)"
    and "unat shift < 64 \<Longrightarrow> c_shl m shift = Some (run_at (unat count) (unat bitidx + unat shift))"
    and "unat (bitidx + shift) = unat bitidx + unat shift"
proof -
  let ?s = "bitmap_bsr (field AND m)"
  have "bit (field AND m) (unat ?s)" by (rule bitmap_bsr_props [OF ne])
  then have s: "bit field (unat ?s)" "unat bitidx \<le> unat ?s" "unat ?s < unat bitidx + unat count"
    using c by (auto simp: bit_and_iff m bit_run_at)
  have us: "unat shift = unat ?s - unat bitidx + 1"
  proof (cases "count = 1")
    case True
    with s show ?thesis by (simp add: shift_def)
  next
    case False
    have "unat (?s - bitidx) = unat ?s - unat bitidx" using s by (simp add: unat_sub_bounded)
    then show ?thesis using False s b by (simp add: shift_def unat_add_bounded)
  qed
  show "1 \<le> unat shift" "unat shift \<le> unat count" "bit field (unat bitidx + unat shift - 1)"
    using s by (simp_all add: us)
  show "c_shl m shift = Some (run_at (unat count) (unat bitidx + unat shift))" if "unat shift < 64"
    using that by (simp add: c_shl_def m run_at_shift)
  show "unat (bitidx + shift) = unat bitidx + unat shift"
    using b s by (simp add: us unat_add_bounded)
qed

text \<open>
  The scan returns on every sequence of interfering writes. What it claims was free in the
  value \<open>v\<close> that its last swap saw. Without interference it finds the first free run.
\<close>

definition scan_result :: "nat \<Rightarrow> u64 list \<Rightarrow> u64 \<Rightarrow> nat \<Rightarrow> u64 option \<times> u64 \<Rightarrow> bool" where
  "scan_result c others field b res \<longleftrightarrow>
     (\<exists>v \<in> insert field (set others).
       (case fst res of
          None \<Rightarrow> snd res = v
        | Some x \<Rightarrow> b \<le> unat x \<and> unat x + c \<le> 64 \<and> free_run v (unat x) c
            \<and> snd res = v OR run_at c (unat x)))
     \<and> (others = [] \<longrightarrow>
       (case fst res of
          None \<Rightarrow> snd res = field \<and> (\<forall>i \<ge> b. i + c \<le> 64 \<longrightarrow> \<not> free_run field i c)
        | Some x \<Rightarrow> b \<le> unat x \<and> unat x + c \<le> 64 \<and> free_run field (unat x) c
            \<and> snd res = field OR run_at c (unat x)
            \<and> (\<forall>i. b \<le> i \<longrightarrow> i < unat x \<longrightarrow> \<not> free_run field i c)))"

lemma scan_result_others:
  "scan_result c others v b res \<Longrightarrow> scan_result c (v # others) field b res"
  by (auto simp: scan_result_def)

lemma scan_result_skip:
  assumes "scan_result c others field (b + s) res" and "1 \<le> s" and "s \<le> c"
    and "bit field (b + s - 1)"
  shows "scan_result c others field b res"
proof -
  have skip: "\<not> free_run field i c" if "b \<le> i" "i < b + s" for i
    unfolding free_run_def using assms(2-4) that by (auto intro!: exI [of _ "b + s - 1"])
  show ?thesis
  proof (cases "fst res")
    case None
    with assms(1) skip show ?thesis
      unfolding scan_result_def by simp (metis not_le)
  next
    case (Some x)
    with assms(1) skip show ?thesis
      unfolding scan_result_def by (auto simp: not_le) (metis not_le)
  qed
qed

lemma mi_bitmap_scan_returns:
  assumes "0 < unat count" and "unat count < 64" and "unat bitidx \<le> 64"
    and "m = run_at (unat count) (unat bitidx)"
  shows "\<exists>res. mi_bitmap_scan count others field bitidx m = Some res
    \<and> scan_result (unat count) others field (unat bitidx) res"
  using assms(3,4)
proof (induction "(others, 64 - unat bitidx)" arbitrary: others field bitidx m
    rule: wf_induct [OF wf_lex_prod [OF wf_measure [of length] wf_measure [of id]], consumes 0, case_names less])
  case (less others bitidx field m)
  have IH: "\<exists>res. mi_bitmap_scan count others' field' bitidx' m' = Some res
      \<and> scan_result (unat count) others' field' (unat bitidx') res"
    if "length others' < length others \<or> others' = others \<and> unat bitidx < unat bitidx'"
      and "unat bitidx' \<le> 64" and "m' = run_at (unat count) (unat bitidx')"
    for others' field' bitidx' m'
  proof -
    have lex: "((others', 64 - unat bitidx'), (others, 64 - unat bitidx))
        \<in> measure length <*lex*> measure id"
      using that(1,2) by auto
    show ?thesis using less(1) [rule_format, OF lex] that(2,3) by simp
  qed
  show ?case
  proof (cases "bitidx \<le> MI_BITMAP_FIELD_BITS - count")
    case False
    then have "64 < unat bitidx + unat count"
      using assms(2) by (simp add: mi_consts word_le_nat_alt unat_sub_bounded)
    then show ?thesis
      using False by (simp add: mi_bitmap_scan.simps [of _ _ _ bitidx] scan_result_def)
  next
    case True
    then have fits: "unat bitidx + unat count \<le> 64"
      using assms(2) by (simp add: mi_consts word_le_nat_alt unat_sub_bounded)
    show ?thesis
    proof (cases "field AND m = 0")
      case free: True
      then have run: "free_run field (unat bitidx) (unat count)"
        using and_mask_free_run [OF fits] less.prems assms(2) by (simp add: run_at_mask)
      show ?thesis
      proof (cases others)
        case Nil
        then show ?thesis
          using True free fits run less.prems
          by (simp add: mi_bitmap_scan.simps [of _ _ _ bitidx] scan_result_def)
      next
        case (Cons v others')
        then obtain res where "mi_bitmap_scan count others' v bitidx m = Some res"
          "scan_result (unat count) others' v (unat bitidx) res"
          using IH [of others' bitidx m v] less.prems by auto
        then show ?thesis
          using True free Cons scan_result_others
          by (auto simp: mi_bitmap_scan.simps [of _ _ _ bitidx])
      qed
    next
      case occ: False
      define shift where "shift = (if count = 1 then 1 else bitmap_bsr (field AND m) - bitidx + 1)"
      note S = scan_shift [OF assms(1) less_imp_le [OF assms(2)] less.prems(2) occ fits, folded shift_def]
      have le: "unat (bitidx + shift) \<le> 64" using S fits by simp
      obtain res where res: "mi_bitmap_scan count others field (bitidx + shift)
            (run_at (unat count) (unat bitidx + unat shift)) = Some res"
          "scan_result (unat count) others field (unat bitidx + unat shift) res"
        using IH [of others "bitidx + shift" "run_at (unat count) (unat bitidx + unat shift)" field] S le
        by auto
      have "mi_bitmap_scan count others field bitidx m = Some res"
        using True occ res(1) S(4) le_less_trans [OF S(2) assms(2)]
        by (simp add: mi_bitmap_scan.simps [of _ _ _ bitidx] shift_def Let_def)
      with scan_result_skip [OF res(2) S(1-3)] show ?thesis by blast
    qed
  qed
qed

section \<open>Searching the bitmap\<close>

lemma index_create_props:
  assumes "unat b < 64" and "unat idx * 64 + 63 < 2 ^ 64"
  shows "unat (mi_bitmap_index_create idx b) = unat idx * 64 + unat b"
    and "mi_bitmap_index_field (mi_bitmap_index_create idx b) = idx"
    and "mi_bitmap_index_bit_in_field (mi_bitmap_index_create idx b) = b"
proof -
  show u: "unat (mi_bitmap_index_create idx b) = unat idx * 64 + unat b"
    using assms by (simp add: mi_bitmap_index_create_def mi_consts unat_simps)
  have "unat (mi_bitmap_index_field (mi_bitmap_index_create idx b)) = unat idx"
    using assms(1) by (simp add: mi_bitmap_index_field_def mi_consts unat_div_distrib u)
  then show "mi_bitmap_index_field (mi_bitmap_index_create idx b) = idx"
    by (rule unsigned_word_eqI)
  have "unat (mi_bitmap_index_bit_in_field (mi_bitmap_index_create idx b)) = unat b"
    using assms(1) by (simp add: mi_bitmap_index_bit_in_field_def mi_consts unat_mod_distrib u)
  then show "mi_bitmap_index_bit_in_field (mi_bitmap_index_create idx b) = b"
    by (rule unsigned_word_eqI)
qed

lemma find_claim_field_result:
  assumes c: "0 < unat count" "unat count < 64"
  shows "\<exists>found field'.
      mi_bitmap_try_find_claim_field others bitmap idx count
        = Some (map_option (mi_bitmap_index_create idx) found, bitmap[unat idx := field'])
    \<and> scan_result (unat count) others (bitmap ! unat idx) 0 (found, field')"
proof (cases "bitmap ! unat idx = MI_BITMAP_FIELD_FULL")
  case True
  then have "\<not> free_run (bitmap ! unat idx) i (unat count)" if "i + unat count \<le> 64" for i
    using that c by (auto simp: free_run_def mi_consts)
  then have "scan_result (unat count) others (bitmap ! unat idx) 0 (None, bitmap ! unat idx)"
    by (auto simp: scan_result_def)
  moreover have "mi_bitmap_try_find_claim_field others bitmap idx count
      = Some (map_option (mi_bitmap_index_create idx) None, bitmap[unat idx := bitmap ! unat idx])"
    by (simp only: list_update_id) (simp add: mi_bitmap_try_find_claim_field_def True)
  ultimately show ?thesis by blast
next
  case False
  let ?f = "bitmap ! unat idx"
  let ?b = "bitmap_bsf (NOT ?f)"
  have nz: "NOT ?f \<noteq> 0"
    using False by (metis MI_BITMAP_FIELD_FULL_def bit.double_compl)
  note B = bitmap_bsf_props [OF nz]
  have "c_shl (mi_bitmap_mask count 0) ?b = Some (run_at (unat count) (unat ?b))"
    using B(1) c by (simp add: c_shl_def run_at_mask run_at_shift)
  moreover obtain found field' where
    "mi_bitmap_scan count others ?f ?b (run_at (unat count) (unat ?b)) = Some (found, field')"
    and R: "scan_result (unat count) others ?f (unat ?b) (found, field')"
    using mi_bitmap_scan_returns [OF c, of ?b "run_at (unat count) (unat ?b)" others ?f] B(1) by auto
  ultimately have E: "mi_bitmap_try_find_claim_field others bitmap idx count
      = Some (map_option (mi_bitmap_index_create idx) found, bitmap[unat idx := field'])"
    using False by (simp add: mi_bitmap_try_find_claim_field_def Let_def)
  have occ: "\<not> free_run ?f i (unat count)" if "i < unat ?b" for i
    using B(3) [OF that] B(1) that c by (auto simp: free_run_def bit_not_iff)
  then have "scan_result (unat count) others ?f 0 (found, field')"
    using R unfolding scan_result_def by (auto split: option.splits) (meson not_le)+
  with E show ?thesis by blast
qed

text \<open>
  A search for all 64 bits of a field shifts its mask by 64 places, which C leaves undefined, when
  the field has its first bit clear and its last bit set. Elsewhere the search of a field,
  undisturbed, is exact up to the full width.
\<close>

definition shift_defined :: "u64 \<Rightarrow> u64 \<Rightarrow> bool" where
  "shift_defined count field \<longleftrightarrow> unat count < 64 \<or> (bit field 63 \<longrightarrow> bit field 0)"

lemma full_run_search:
  assumes c: "count = 64" and nf: "bitmap ! unat idx \<noteq> MI_BITMAP_FIELD_FULL"
    and ok: "bit (bitmap ! unat idx) 63 \<longrightarrow> bit (bitmap ! unat idx) 0"
  shows "mi_bitmap_try_find_claim_field [] bitmap idx count
      = (if bitmap ! unat idx = 0
         then Some (Some (mi_bitmap_index_create idx 0), bitmap[unat idx := MI_BITMAP_FIELD_FULL])
         else Some (None, bitmap))"
proof -
  let ?f = "bitmap ! unat idx" and ?b = "bitmap_bsf (NOT (bitmap ! unat idx))"
  have nz: "NOT ?f \<noteq> 0" using nf by (metis MI_BITMAP_FIELD_FULL_def bit.double_compl)
  note B = bitmap_bsf_props [OF nz]
  have shl: "c_shl (mi_bitmap_mask count 0) ?b = Some (run_at 64 (unat ?b))"
  proof -
    have "mi_bitmap_mask count 0 = run_at 64 0"
      by (simp add: c run_at_full mi_bitmap_mask_def mi_consts)
    then show ?thesis using B(1) by (simp add: c_shl_def run_at_shift)
  qed
  note D = mi_bitmap_try_find_claim_field_def Let_def shl
  have out: "mi_bitmap_scan count [] ?f x m = Some (None, ?f)" if "x \<noteq> 0" for x m
    using that by (subst mi_bitmap_scan.simps) (simp add: c mi_consts word_le_nat_alt unat_eq_0)
  show ?thesis
  proof (cases "bit ?f 0")
    case True
    then have "?f \<noteq> 0" by auto
    moreover have "?b \<noteq> 0" using B(2) True by (metis bit_not_iff unat_0)
    ultimately show ?thesis using nf out by (simp add: D)
  next
    case False
    have "\<not> 0 < unat ?b" using B(3) [of 0] False B(1) by (auto simp: bit_not_iff)
    then have b0: "?b = 0" by (simp add: unat_gt_0)
    show ?thesis
    proof (cases "?f = 0")
      case True
      then have "mi_bitmap_scan count [] ?f 0 MI_BITMAP_FIELD_FULL = Some (Some 0, MI_BITMAP_FIELD_FULL)"
        by (subst mi_bitmap_scan.simps) (simp add: c mi_consts)
      then show ?thesis
        using nf True unfolding D unfolding b0 by (simp add: run_at_full)
    next
      case fz: False
      note R = bitmap_bsr_props [OF fz]
      have "unat (bitmap_bsr ?f) \<noteq> 63" using R(2) ok False by auto
      then have "unat (bitmap_bsr ?f) < 63" using R(1) by simp
      then have lt: "unat (bitmap_bsr ?f + 1) = unat (bitmap_bsr ?f) + 1"
        by (simp add: unat_add_bounded)
      then have "bitmap_bsr ?f + 1 \<noteq> 0" by (metis unat_0 add_is_0 one_neq_zero)
      moreover obtain m' where "c_shl MI_BITMAP_FIELD_FULL (bitmap_bsr ?f + 1) = Some m'"
        using lt \<open>unat (bitmap_bsr ?f) < 63\<close> by (auto simp: c_shl_def)
      ultimately have "mi_bitmap_scan count [] ?f 0 MI_BITMAP_FIELD_FULL = Some (None, ?f)"
        using fz out by (subst mi_bitmap_scan.simps) (simp add: c mi_consts)
      then show ?thesis using nf fz unfolding D unfolding b0 by (simp add: run_at_full)
    qed
  qed
qed

lemma find_claim_field_alone:
  assumes c: "0 < unat count" "unat count \<le> 64" and ok: "shift_defined count (bitmap ! unat idx)"
  shows "\<exists>found field'.
      mi_bitmap_try_find_claim_field [] bitmap idx count
        = Some (map_option (mi_bitmap_index_create idx) found, bitmap[unat idx := field'])
    \<and> scan_result (unat count) [] (bitmap ! unat idx) 0 (found, field')"
proof (cases "unat count < 64")
  case True
  with c show ?thesis using find_claim_field_result by blast
next
  case False
  with c have "unat count = unat (64 :: u64)" by simp
  then have c64: "count = 64" by (rule unsigned_word_eqI)
  let ?f = "bitmap ! unat idx"
  have all: "free_run ?f i 64 \<longleftrightarrow> ?f = 0" if "i + 64 \<le> 64" for i
  proof -
    have "i = 0" using that by simp
    then show ?thesis
      unfolding free_run_def bit_eq_iff [of ?f 0] using bit_less_64 [of ?f] by auto
  qed
  show ?thesis
  proof (cases "?f = 0")
    case True
    then have "mi_bitmap_try_find_claim_field [] bitmap idx count
        = Some (map_option (mi_bitmap_index_create idx) (Some 0), bitmap[unat idx := MI_BITMAP_FIELD_FULL])"
      using full_run_search [OF c64, of bitmap idx] by (simp add: mi_consts)
    moreover have "scan_result (unat count) [] ?f 0 (Some 0, MI_BITMAP_FIELD_FULL)"
      using True all [of 0] by (simp add: c64 scan_result_def run_at_full)
    ultimately show ?thesis by blast
  next
    case nz: False
    have "mi_bitmap_try_find_claim_field [] bitmap idx count = Some (None, bitmap)"
    proof (cases "?f = MI_BITMAP_FIELD_FULL")
      case True
      then show ?thesis by (simp add: mi_bitmap_try_find_claim_field_def)
    next
      case False
      then show ?thesis
        using full_run_search [OF c64 False] ok nz c64 by (simp add: shift_defined_def)
    qed
    then have "mi_bitmap_try_find_claim_field [] bitmap idx count
        = Some (map_option (mi_bitmap_index_create idx) None, bitmap[unat idx := ?f])"
      by simp
    moreover have "scan_result (unat count) [] ?f 0 (None, ?f)"
      using nz all by (simp add: c64 scan_result_def)
    ultimately show ?thesis by blast
  qed
qed

text \<open>
  C30. For a run of fewer than 64 bits: whatever other threads store into the field while the
  search runs, the search in a field returns; if it reports an index, that index names this field and a run of \<open>count\<close> bits that
  was entirely free in the value its successful swap replaced, exactly those bits are set on
  top of that value, and every other field is unchanged.
\<close>

theorem mi_bitmap_find_field_interference:
  assumes "0 < unat count" and "unat count < 64"
    and "unat idx < length bitmap" and "unat idx * 64 + 63 < 2 ^ 64"
  shows "\<exists>found bitmap'. mi_bitmap_try_find_claim_field others bitmap idx count = Some (found, bitmap')
    \<and> (\<exists>v \<in> insert (bitmap ! unat idx) (set others).
        (case found of
           None \<Rightarrow> bitmap' = bitmap[unat idx := v]
         | Some p \<Rightarrow>
             (let b = unat (mi_bitmap_index_bit_in_field p) in
                mi_bitmap_index_field p = idx \<and> b + unat count \<le> 64
                \<and> free_run v b (unat count)
                \<and> bitmap' = bitmap[unat idx := v OR run_at (unat count) b])))"
proof -
  obtain found field' where E: "mi_bitmap_try_find_claim_field others bitmap idx count
      = Some (map_option (mi_bitmap_index_create idx) found, bitmap[unat idx := field'])"
    and R: "scan_result (unat count) others (bitmap ! unat idx) 0 (found, field')"
    using find_claim_field_result [OF assms(1,2)] by blast
  from R obtain v where v: "v \<in> insert (bitmap ! unat idx) (set others)"
    and V: "case found of None \<Rightarrow> field' = v
        | Some x \<Rightarrow> unat x + unat count \<le> 64 \<and> free_run v (unat x) (unat count)
            \<and> field' = v OR run_at (unat count) (unat x)"
    unfolding scan_result_def fst_conv snd_conv by (cases found) auto
  show ?thesis
  proof (cases found)
    case None
    with E v V show ?thesis by auto
  next
    case (Some x)
    then have "unat x < 64" using V assms(1) by simp
    note I = index_create_props [OF this assms(4)]
    show ?thesis
      using E v V Some by (auto simp: I Let_def intro!: bexI [of _ v])
  qed
qed

lemma mi_bitmap_find_field_interference_witness:
  "\<exists>found bitmap'. mi_bitmap_try_find_claim_field [7, 1] [0, 3] 1 2 = Some (found, bitmap')
    \<and> (\<exists>v. v \<in> {3, 7, 1} \<and>
        (case found of
           None \<Rightarrow> bitmap' = [0, v]
         | Some p \<Rightarrow>
             (let b = unat (mi_bitmap_index_bit_in_field p) in
                mi_bitmap_index_field p = 1 \<and> b + 2 \<le> 64
                \<and> free_run v b 2 \<and> bitmap' = [0, v OR run_at 2 b])))"
  using mi_bitmap_find_field_interference [of 2 1 "[0, 3]" "[7, 1]"]
  by (auto simp: Let_def cong: option.case_cong)

text \<open>The first free run of the whole bitmap, fields in order.\<close>

definition first_fit :: "mi_bitmap \<Rightarrow> nat \<Rightarrow> nat \<Rightarrow> nat \<Rightarrow> nat \<Rightarrow> nat \<Rightarrow> bool" where
  "first_fit bitmap from c i b limit \<longleftrightarrow>
     from \<le> i \<and> i < limit \<and> b + c \<le> 64 \<and> free_run (bitmap ! i) b c
   \<and> (\<forall>b' < b. \<not> free_run (bitmap ! i) b' c)
   \<and> (\<forall>i'. from \<le> i' \<and> i' < i \<longrightarrow> (\<forall>b'. b' + c \<le> 64 \<longrightarrow> \<not> free_run (bitmap ! i') b' c))"

definition no_fit :: "mi_bitmap \<Rightarrow> nat \<Rightarrow> nat \<Rightarrow> nat \<Rightarrow> bool" where
  "no_fit bitmap from c limit \<longleftrightarrow>
     (\<forall>i'. from \<le> i' \<and> i' < limit \<longrightarrow> (\<forall>b'. b' + c \<le> 64 \<longrightarrow> \<not> free_run (bitmap ! i') b' c))"

definition find_claim_ok :: "mi_bitmap \<Rightarrow> nat \<Rightarrow> nat \<Rightarrow> nat \<Rightarrow> u64 option \<Rightarrow> mi_bitmap \<Rightarrow> bool" where
  "find_claim_ok bitmap from c limit found bitmap' \<longleftrightarrow>
     (case found of
        None \<Rightarrow> bitmap' = bitmap \<and> no_fit bitmap from c limit
      | Some p \<Rightarrow>
          (let i = unat (mi_bitmap_index_field p); b = unat (mi_bitmap_index_bit_in_field p) in
             first_fit bitmap from c i b limit \<and> bitmap' = bitmap[i := bitmap ! i OR run_at c b]))"

lemma find_claim_ok_next:
  assumes "find_claim_ok bitmap (from + 1) c limit found bitmap'"
    and "\<forall>b'. b' + c \<le> 64 \<longrightarrow> \<not> free_run (bitmap ! from) b' c"
  shows "find_claim_ok bitmap from c limit found bitmap'"
proof -
  have step: "from \<le> i' \<longleftrightarrow> i' = from \<or> from + 1 \<le> i'" for i' by auto
  show ?thesis
    using assms unfolding find_claim_ok_def first_fit_def no_fit_def
    by (cases found) (auto simp: Let_def step)
qed

lemma find_claim_from_ok:
  assumes c: "0 < unat count" "unat count \<le> 64"
    and "\<forall>i < unat fields. shift_defined count (bitmap ! i)"
    and "unat fields \<le> length bitmap" and "unat fields * 64 < 2 ^ 64"
  shows "\<exists>found bitmap'. mi_bitmap_try_find_claim_from idx bitmap fields count = Some (found, bitmap')
    \<and> find_claim_ok bitmap (unat idx) (unat count) (unat fields) found bitmap'"
  using assms
proof (induction idx bitmap fields count rule: mi_bitmap_try_find_claim_from.induct)
  case (1 idx bitmap fields count)
  show ?case
  proof (cases "idx < fields")
    case False
    then show ?thesis
      by (auto simp: mi_bitmap_try_find_claim_from.simps [of idx] find_claim_ok_def no_fit_def
          word_less_nat_alt)
  next
    case True
    then have lt: "unat idx < unat fields" by (simp add: word_less_nat_alt)
    with "1.prems" have idx: "unat idx < length bitmap" "unat idx * 64 + 63 < 2 ^ 64" by simp_all
    obtain found field' where E: "mi_bitmap_try_find_claim_field [] bitmap idx count
        = Some (map_option (mi_bitmap_index_create idx) found, bitmap[unat idx := field'])"
      and R: "scan_result (unat count) [] (bitmap ! unat idx) 0 (found, field')"
      using find_claim_field_alone [OF "1.prems"(1,2)] "1.prems"(3) lt by blast
    show ?thesis
    proof (cases found)
      case (Some x)
      with R "1.prems"(1) have x: "unat x < 64" by (simp add: scan_result_def)
      have "mi_bitmap_try_find_claim_from idx bitmap fields count
          = Some (Some (mi_bitmap_index_create idx x), bitmap[unat idx := field'])"
        using True E Some by (simp add: mi_bitmap_try_find_claim_from.simps [of idx])
      moreover have "find_claim_ok bitmap (unat idx) (unat count) (unat fields)
          (Some (mi_bitmap_index_create idx x)) (bitmap[unat idx := field'])"
        using R Some lt by (simp add: find_claim_ok_def first_fit_def Let_def scan_result_def
            index_create_props [OF x idx(2)]) linarith
      ultimately show ?thesis by blast
    next
      case None
      then have same: "bitmap[unat idx := field'] = bitmap"
        and occ: "\<forall>b'. b' + unat count \<le> 64 \<longrightarrow> \<not> free_run (bitmap ! unat idx) b' (unat count)"
        using R by (simp_all add: scan_result_def)
      have E': "mi_bitmap_try_find_claim_field [] bitmap idx count = Some (None, bitmap)"
        using E None same by simp
      obtain found' bitmap' where
        "mi_bitmap_try_find_claim_from (idx + 1) bitmap fields count = Some (found', bitmap')"
        and ok: "find_claim_ok bitmap (unat (idx + 1)) (unat count) (unat fields) found' bitmap'"
        by (rule exE [OF "1.IH" [OF True E' refl refl "1.prems"]]) blast
      then have "mi_bitmap_try_find_claim_from idx bitmap fields count = Some (found', bitmap')"
        using True E' by (simp add: mi_bitmap_try_find_claim_from.simps [of idx])
      moreover have "find_claim_ok bitmap (unat idx) (unat count) (unat fields) found' bitmap'"
        using ok occ unfolding unat_plus_one_less [OF True]
        by (intro find_claim_ok_next [of _ "unat idx"]) simp_all
      ultimately show ?thesis by blast
    qed
  qed
qed

text \<open>
  C31. \<open>mi_bitmap_try_find_claim\<close>, alone on the bitmap, returns for every run length from 1 to the
  field width of 64, where for a run of 64 no field may have its first bit clear and its last bit
  set (there the code shifts by 64, see \<open>mi_bitmap_find_full_field_undefined\<close>); it claims the first free run of the bitmap in field and bit order, setting
  exactly its bits, and reports failure, leaving the bitmap as it was, only if no field has a
  free run of that length.
\<close>

theorem mi_bitmap_try_find_claim_first_fit:
  assumes "0 < unat count" and "unat count \<le> 64"
    and "\<forall>i < unat fields. shift_defined count (bitmap ! i)"
    and "unat fields \<le> length bitmap" and "unat fields * 64 < 2 ^ 64"
  shows "\<exists>found bitmap'. mi_bitmap_try_find_claim bitmap fields count = Some (found, bitmap')
    \<and> (case found of
         None \<Rightarrow> bitmap' = bitmap \<and> no_fit bitmap 0 (unat count) (unat fields)
       | Some p \<Rightarrow>
           (let i = unat (mi_bitmap_index_field p); b = unat (mi_bitmap_index_bit_in_field p) in
              first_fit bitmap 0 (unat count) i b (unat fields)
              \<and> bitmap' = bitmap[i := bitmap ! i OR run_at (unat count) b]))"
  using find_claim_from_ok [OF assms, of 0]
  by (simp add: mi_bitmap_try_find_claim_def find_claim_ok_def)

lemma mi_bitmap_try_find_claim_first_fit_witness:
  "\<exists>found bitmap'. mi_bitmap_try_find_claim [- 1, 11, 0] 3 64 = Some (found, bitmap')
    \<and> (case found of
         None \<Rightarrow> bitmap' = [- 1, 11, 0] \<and> no_fit [- 1, 11, 0] 0 64 3
       | Some p \<Rightarrow>
           (let i = unat (mi_bitmap_index_field p); b = unat (mi_bitmap_index_bit_in_field p) in
              first_fit [- 1, 11, 0] 0 64 i b 3
              \<and> bitmap' = [- 1, 11, 0][i := [- 1, 11, 0] ! i OR run_at 64 b]))"
proof -
  have "\<forall>i < 3. shift_defined 64 ([- 1, 11, 0] ! i)"
    by (simp add: shift_defined_def less_Suc_eq numeral_3_eq_3)
  then have "\<forall>i < unat (3 :: u64). shift_defined 64 ([- 1, 11, 0] ! i)" by simp
  then show ?thesis
    using mi_bitmap_try_find_claim_first_fit [of 64 3 "[- 1, 11, 0]"]
    by (simp add: Let_def cong: option.case_cong)
qed

text \<open>
  The one run length the search does not survive: for 64 bits at once in a field whose bit 0
  is clear and bit 63 set, the scan shifts its mask by 64 places, which C leaves undefined.
\<close>

theorem mi_bitmap_find_full_field_undefined:
  assumes "\<not> bit (bitmap ! unat idx) 0" and "bit (bitmap ! unat idx) 63"
  shows "mi_bitmap_try_find_claim_field others bitmap idx MI_BITMAP_FIELD_BITS = None"
proof -
  let ?f = "bitmap ! unat idx"
  have nfull: "?f \<noteq> MI_BITMAP_FIELD_FULL" using assms(1) by (auto simp: mi_consts)
  have nz: "NOT ?f \<noteq> 0"
    using nfull by (metis MI_BITMAP_FIELD_FULL_def bit.double_compl)
  have "\<not> 0 < unat (bitmap_bsf (NOT ?f))"
    using bitmap_bsf_props(3) [OF nz, of 0] assms(1) by (auto simp: bit_not_iff)
  then have b0: "bitmap_bsf (NOT ?f) = 0" by (simp add: unat_gt_0)
  have fz: "?f \<noteq> 0" using assms(2) by auto
  have "\<not> unat (bitmap_bsr ?f) < 63"
    using bitmap_bsr_props(3) [OF fz, of 63] assms(2) by auto
  with bitmap_bsr_props(1) [OF fz] have "unat (bitmap_bsr ?f) = unat (63 :: u64)" by simp
  then have b63: "bitmap_bsr ?f = 63" by (rule unsigned_word_eqI)
  show ?thesis
    using nfull fz
    by (simp add: mi_bitmap_try_find_claim_field_def Let_def b0 mi_bitmap_mask_def c_shl_def
        mi_bitmap_scan.simps [of _ _ _ 0] mi_consts b63)
qed

lemma mi_bitmap_find_full_field_undefined_witness:
  "mi_bitmap_try_find_claim_field [] [0x8000000000000000] 0 MI_BITMAP_FIELD_BITS = None"
  by (rule mi_bitmap_find_full_field_undefined) code_simp+

text \<open>
  Claiming a run that is free and then unclaiming it reports success both times, marks the
  run claimed in between and leaves the bitmap as it was.
\<close>

theorem mi_bitmap_claim_unclaim:
  assumes "unat (mi_bitmap_index_field p) < length bitmap"
    and "mi_bitmap_try_claim_field bitmap fields count p = (True, bitmap')"
  shows "mi_bitmap_is_claimed bitmap' fields count p \<and> mi_bitmap_unclaim bitmap' fields count p = (True, bitmap)"
proof -
  let ?i = "unat (mi_bitmap_index_field p)" and ?m = "mi_bitmap_mask count (mi_bitmap_index_bit_in_field p)"
  have free: "bitmap ! ?i AND ?m = 0" and b': "bitmap' = bitmap[?i := bitmap ! ?i OR ?m]"
    using assms(2) by (auto simp: mi_bitmap_try_claim_field_def Let_def split: if_splits)
  have "(bitmap ! ?i OR ?m) AND NOT ?m = bitmap ! ?i"
    using free by (intro bit_word_eqI) (auto simp: bit_simps and_eq_0_bits)
  moreover have "(bitmap ! ?i OR ?m) AND ?m = ?m"
    by (intro bit_word_eqI) (auto simp: bit_simps)
  ultimately show ?thesis
    using assms(1) by (simp add: b' mi_bitmap_is_claimed_def mi_bitmap_is_claimedx_def
        mi_bitmap_unclaim_def Let_def)
qed

lemma mi_bitmap_claim_unclaim_witness:
  "mi_bitmap_is_claimed [1, 0x31] 2 2 68 \<and> mi_bitmap_unclaim [1, 0x31] 2 2 68 = (True, [1, 1])"
  by (rule mi_bitmap_claim_unclaim) (code_simp)+


end
