(* ===== verification/BitmapConc.thy ===== *)
theory BitmapConc
  imports Bitmap
begin

text \<open>
  The bitmap under concurrency. Each thread runs the search and unclaim loops of
  \<open>bitmap.inc.c\<close> one atomic access at a time; between two accesses any other thread may run.
  The reachable states keep the runs that threads hold apart.
\<close>

section \<open>Threads\<close>

text \<open>
  A thread outside the bitmap; inside the scan of \<open>mi_bitmap_try_find_claim_field\<close> with its
  locals \<open>idx\<close>, \<open>count\<close>, \<open>map\<close>, \<open>bitidx\<close> and \<open>m\<close>; inside \<open>mi_bitmap_try_claim_field\<close> between the
  read of the field and its swap; or holding a run it has claimed.
\<close>

datatype bitmap_pc =
    Outside
  | Scanning u64 u64 u64 u64 u64
  | Claiming u64 u64 u64 u64
  | Holding u64 u64 u64

record bitmap_sys =
  bs_fields :: mi_bitmap
  bs_pc :: "nat \<Rightarrow> bitmap_pc"

text \<open>The local step of the scan over an occupied range.\<close>

definition scan_next :: "u64 \<Rightarrow> u64 \<Rightarrow> u64 \<Rightarrow> u64 \<Rightarrow> (u64 \<times> u64) option" where
  "scan_next count field bitidx m =
     (let shift = (if count = 1 then 1 else bitmap_bsr (field AND m) - bitidx + 1) in
      map_option (\<lambda>m'. (bitidx + shift, m')) (c_shl m shift))"

text \<open>
  Runs have up to 64 bits. Where the scan for 64 bits would shift by 64, which C leaves undefined,
  the thread has no step (see \<open>mi_bitmap_find_full_field_undefined\<close>).
\<close>

inductive bitmap_step :: "bitmap_sys \<Rightarrow> bitmap_sys \<Rightarrow> bool" where
  scan_enter:
  "\<lbrakk> bs_pc s t = Outside; unat idx < length (bs_fields s); 0 < count; count \<le> 64;
     field = bs_fields s ! unat idx; field \<noteq> MI_BITMAP_FIELD_FULL;
     bitidx = bitmap_bsf (NOT field); c_shl (mi_bitmap_mask count 0) bitidx = Some m \<rbrakk>
   \<Longrightarrow> bitmap_step s (s\<lparr>bs_pc := (bs_pc s)(t := Scanning idx count field bitidx m)\<rparr>)"
| scan_skip:
  "\<lbrakk> bs_pc s t = Scanning idx count field bitidx m; bitidx \<le> MI_BITMAP_FIELD_BITS - count;
     field AND m \<noteq> 0; scan_next count field bitidx m = Some (bitidx', m') \<rbrakk>
   \<Longrightarrow> bitmap_step s (s\<lparr>bs_pc := (bs_pc s)(t := Scanning idx count field bitidx' m')\<rparr>)"
| scan_swap_ok:
  "\<lbrakk> bs_pc s t = Scanning idx count field bitidx m; bitidx \<le> MI_BITMAP_FIELD_BITS - count;
     field AND m = 0; bs_fields s ! unat idx = field \<rbrakk>
   \<Longrightarrow> bitmap_step s (s\<lparr>bs_fields := (bs_fields s)[unat idx := field OR m],
                      bs_pc := (bs_pc s)(t := Holding idx count bitidx)\<rparr>)"
| scan_swap_fail:
  "\<lbrakk> bs_pc s t = Scanning idx count field bitidx m; bitidx \<le> MI_BITMAP_FIELD_BITS - count;
     field AND m = 0 \<rbrakk>
   \<Longrightarrow> bitmap_step s (s\<lparr>bs_pc := (bs_pc s)(t := Scanning idx count (bs_fields s ! unat idx) bitidx m)\<rparr>)"
| scan_give_up:
  "\<lbrakk> bs_pc s t = Scanning idx count field bitidx m; \<not> bitidx \<le> MI_BITMAP_FIELD_BITS - count \<rbrakk>
   \<Longrightarrow> bitmap_step s (s\<lparr>bs_pc := (bs_pc s)(t := Outside)\<rparr>)"
| claim_read:
  "\<lbrakk> bs_pc s t = Outside; unat (mi_bitmap_index_field p) < length (bs_fields s);
     unat (mi_bitmap_index_bit_in_field p) + unat count \<le> 64;
     field = bs_fields s ! unat (mi_bitmap_index_field p);
     field AND mi_bitmap_mask count (mi_bitmap_index_bit_in_field p) = 0 \<rbrakk>
   \<Longrightarrow> bitmap_step s (s\<lparr>bs_pc := (bs_pc s)(t :=
         Claiming (mi_bitmap_index_field p) count field (mi_bitmap_index_bit_in_field p))\<rparr>)"
| claim_swap_ok:
  "\<lbrakk> bs_pc s t = Claiming idx count field bitidx; bs_fields s ! unat idx = field \<rbrakk>
   \<Longrightarrow> bitmap_step s (s\<lparr>bs_fields := (bs_fields s)[unat idx := field OR mi_bitmap_mask count bitidx],
                      bs_pc := (bs_pc s)(t := Holding idx count bitidx)\<rparr>)"
| claim_swap_fail:
  "\<lbrakk> bs_pc s t = Claiming idx count field bitidx; bs_fields s ! unat idx \<noteq> field \<rbrakk>
   \<Longrightarrow> bitmap_step s (s\<lparr>bs_pc := (bs_pc s)(t := Outside)\<rparr>)"
| unclaim:
  "bs_pc s t = Holding idx count bitidx
   \<Longrightarrow> bitmap_step s (s\<lparr>bs_fields := (bs_fields s)[unat idx :=
           bs_fields s ! unat idx AND NOT (mi_bitmap_mask count bitidx)],
                      bs_pc := (bs_pc s)(t := Outside)\<rparr>)"

inductive_cases bitmap_stepE: "bitmap_step s s'"

definition bitmap_init :: "mi_bitmap \<Rightarrow> bitmap_sys" where
  "bitmap_init bm = \<lparr>bs_fields = bm, bs_pc = (\<lambda>_. Outside)\<rparr>"

section \<open>The invariant\<close>

definition local_ok :: "nat \<Rightarrow> bitmap_pc \<Rightarrow> bool" where
  "local_ok n pc =
     (case pc of
        Outside \<Rightarrow> True
      | Scanning idx count field bitidx m \<Rightarrow>
          unat idx < n \<and> 0 < unat count \<and> unat count \<le> 64 \<and> unat bitidx \<le> 64
          \<and> m = run_at (unat count) (unat bitidx)
      | Claiming idx count field bitidx \<Rightarrow>
          unat idx < n \<and> unat bitidx + unat count \<le> 64
          \<and> field AND mi_bitmap_mask count bitidx = 0
      | Holding idx count bitidx \<Rightarrow> unat idx < n \<and> unat bitidx + unat count \<le> 64)"

lemma local_ok_simps [simp]:
  "local_ok n Outside"
  "local_ok n (Scanning idx count field bitidx m) \<longleftrightarrow>
     unat idx < n \<and> 0 < unat count \<and> unat count \<le> 64 \<and> unat bitidx \<le> 64
     \<and> m = run_at (unat count) (unat bitidx)"
  "local_ok n (Claiming idx count field bitidx) \<longleftrightarrow>
     unat idx < n \<and> unat bitidx + unat count \<le> 64 \<and> field AND mi_bitmap_mask count bitidx = 0"
  "local_ok n (Holding idx count bitidx) \<longleftrightarrow> unat idx < n \<and> unat bitidx + unat count \<le> 64"
  by (simp_all add: local_ok_def)

text \<open>The bits a thread holds in a field.\<close>

definition held :: "bitmap_pc \<Rightarrow> nat \<Rightarrow> u64" where
  "held pc i =
     (case pc of Holding idx count bitidx \<Rightarrow> if unat idx = i then mi_bitmap_mask count bitidx else 0
      | _ \<Rightarrow> 0)"

lemma held_simps [simp]:
  "held Outside i = 0" "held (Scanning a b c d e) i = 0" "held (Claiming a b c d) i = 0"
  "held (Holding idx count bitidx) i = (if unat idx = i then mi_bitmap_mask count bitidx else 0)"
  by (simp_all add: held_def)

definition bitmap_inv :: "bitmap_sys \<Rightarrow> bool" where
  "bitmap_inv s \<longleftrightarrow>
     (\<forall>t. local_ok (length (bs_fields s)) (bs_pc s t))
   \<and> (\<forall>t i. i < length (bs_fields s) \<longrightarrow> held (bs_pc s t) i AND NOT (bs_fields s ! i) = 0)
   \<and> (\<forall>t u i. t \<noteq> u \<longrightarrow> held (bs_pc s t) i AND held (bs_pc s u) i = 0)"

lemma bitmap_inv_local_ok: "bitmap_inv s \<Longrightarrow> local_ok (length (bs_fields s)) (bs_pc s t)"
  by (simp add: bitmap_inv_def)

lemma bitmap_inv_subset:
  "bitmap_inv s \<Longrightarrow> i < length (bs_fields s) \<Longrightarrow> held (bs_pc s t) i AND NOT (bs_fields s ! i) = 0"
  by (simp add: bitmap_inv_def)

lemma bitmap_inv_disjoint:
  "bitmap_inv s \<Longrightarrow> t \<noteq> u \<Longrightarrow> held (bs_pc s t) i AND held (bs_pc s u) i = 0"
  by (simp add: bitmap_inv_def)

lemma bitmap_inv_init: "bitmap_inv (bitmap_init bm)"
  by (simp add: bitmap_inv_def bitmap_init_def local_ok_def)

text \<open>A thread that holds nothing before or after its step disturbs nobody.\<close>

lemma bitmap_inv_local:
  assumes "bitmap_inv s" and "local_ok (length (bs_fields s)) pc"
    and "\<And>i. held pc i = 0"
  shows "bitmap_inv (s\<lparr>bs_pc := (bs_pc s)(t := pc)\<rparr>)"
  using assms by (auto simp: bitmap_inv_def)

text \<open>Setting bits that were clear: nobody else can hold them.\<close>

lemma bitmap_inv_acquire:
  assumes inv: "bitmap_inv s" and i: "unat idx < length (bs_fields s)"
    and fit: "unat bitidx + unat count \<le> 64"
    and free: "bs_fields s ! unat idx AND mi_bitmap_mask count bitidx = 0"
  shows "bitmap_inv (s\<lparr>bs_fields := (bs_fields s)[unat idx := bs_fields s ! unat idx OR mi_bitmap_mask count bitidx],
                      bs_pc := (bs_pc s)(t := Holding idx count bitidx)\<rparr>)"
    (is "bitmap_inv ?s'")
proof -
  let ?f = "bs_fields s ! unat idx" and ?m = "mi_bitmap_mask count bitidx"
  have sub: "held (bs_pc s u) (unat idx) AND NOT ?f = 0" for u
    using inv i by (simp add: bitmap_inv_def)
  then have other: "held (bs_pc s u) (unat idx) AND ?m = 0" for u
    using free by (simp add: and_eq_0_bits bit_not_iff) (metis bit_less_64)
  have sub': "held (bs_pc s u) (unat idx) AND NOT (?f OR ?m) = 0" for u
    using sub [of u] by (auto simp: and_eq_0_bits bit_simps)
  have "?m AND NOT (?f OR ?m) = 0"
    by (auto simp: and_eq_0_bits bit_simps)
  then show ?thesis
    using inv i fit other sub'
    by (auto simp: bitmap_inv_def local_ok_def nth_list_update and.commute)
qed

lemma bitmap_inv_release:
  assumes inv: "bitmap_inv s" and pc: "bs_pc s t = Holding idx count bitidx"
  shows "bitmap_inv (s\<lparr>bs_fields := (bs_fields s)[unat idx :=
           bs_fields s ! unat idx AND NOT (mi_bitmap_mask count bitidx)],
                      bs_pc := (bs_pc s)(t := Outside)\<rparr>)"
    (is "bitmap_inv ?s'")
proof -
  let ?f = "bs_fields s ! unat idx" and ?m = "mi_bitmap_mask count bitidx"
  have "unat idx < length (bs_fields s)"
    using bitmap_inv_local_ok [OF inv, of t] pc by simp
  then have sub: "held (bs_pc s u) (unat idx) AND NOT ?f = 0" for u
    using inv by (simp add: bitmap_inv_def)
  have "held (bs_pc s u) (unat idx) AND held (bs_pc s t) (unat idx) = 0" if "u \<noteq> t" for u
    using inv that by (simp add: bitmap_inv_def)
  with pc have dis: "held (bs_pc s u) (unat idx) AND ?m = 0" if "u \<noteq> t" for u
    using that by simp
  have sub': "held (bs_pc s u) (unat idx) AND NOT (?f AND NOT ?m) = 0" if "u \<noteq> t" for u
    using sub [of u] dis [OF that] by (auto simp: and_eq_0_bits bit_simps)
  show ?thesis
    unfolding bitmap_inv_def
  proof (intro conjI allI impI)
    fix u v :: nat and i assume "u \<noteq> v"
    then show "held (bs_pc ?s' u) i AND held (bs_pc ?s' v) i = 0"
      using bitmap_inv_disjoint [OF inv, of u v i] by simp
  next
    fix u :: nat and i assume "i < length (bs_fields ?s')"
    then show "held (bs_pc ?s' u) i AND NOT (bs_fields ?s' ! i) = 0"
      using bitmap_inv_subset [OF inv, of i u] sub' [of u]
      by (cases "u = t"; cases "i = unat idx") (simp_all add: nth_list_update)
  qed (use bitmap_inv_local_ok [OF inv] in simp)
qed

text \<open>Every step keeps the invariant.\<close>

lemma scan_next_ok:
  assumes "local_ok n (Scanning idx count field bitidx m)" and "bitidx \<le> MI_BITMAP_FIELD_BITS - count"
    and "field AND m \<noteq> 0" and "scan_next count field bitidx m = Some (bitidx', m')"
  shows "local_ok n (Scanning idx count field bitidx' m')"
proof -
  have c: "0 < unat count" "unat count \<le> 64" and m: "m = run_at (unat count) (unat bitidx)"
    using assms(1) by simp_all
  have fit: "unat bitidx + unat count \<le> 64"
    using assms(2) c by (simp add: mi_consts word_le_nat_alt unat_sub_bounded)
  note S = scan_shift [OF c m assms(3) fit]
  define shift where "shift = (if count = 1 then 1 else bitmap_bsr (field AND m) - bitidx + 1)"
  have "c_shl m shift = Some m'" and b': "bitidx' = bitidx + shift"
    using assms(4) by (auto simp: scan_next_def shift_def Let_def)
  then have "unat shift < 64" and "m' = run_at (unat count) (unat bitidx + unat shift)"
    using S(4) by (auto simp: c_shl_def shift_def split: if_splits)
  then show ?thesis
    using assms(1) S(2,5) fit b' by (simp add: shift_def)
qed

lemma bitmap_step_inv:
  assumes "bitmap_step s s'" and inv: "bitmap_inv s"
  shows "bitmap_inv s'"
  using assms(1)
proof cases
  case (scan_enter t idx count field bitidx m)
  have "NOT field \<noteq> 0"
    using scan_enter(7) by (metis MI_BITMAP_FIELD_FULL_def bit.double_compl)
  then have b: "unat bitidx < 64" using bitmap_bsf_props(1) scan_enter(8) by simp
  have c: "0 < unat count" "unat count \<le> 64"
    using scan_enter(4,5) by (simp_all add: word_less_nat_alt word_le_nat_alt)
  then have "m = run_at (unat count) (unat bitidx)"
    using scan_enter(9) b by (simp add: c_shl_def run_at_mask_0 run_at_shift)
  then show ?thesis
    unfolding scan_enter(1) using scan_enter(3) b c by (intro bitmap_inv_local [OF inv]) simp_all
next
  case (scan_skip t idx count field bitidx m bitidx' m')
  have L: "local_ok (length (bs_fields s)) (Scanning idx count field bitidx m)"
    using bitmap_inv_local_ok [OF inv, of t] scan_skip(2) by simp
  show ?thesis
    unfolding scan_skip(1)
    by (intro bitmap_inv_local [OF inv] scan_next_ok [OF L scan_skip(3-5)]) simp
next
  case (scan_swap_ok t idx count field bitidx m)
  have L: "local_ok (length (bs_fields s)) (Scanning idx count field bitidx m)"
    using bitmap_inv_local_ok [OF inv, of t] scan_swap_ok(2) by simp
  then have fit: "unat bitidx + unat count \<le> 64"
    using scan_swap_ok(3) by (auto simp: mi_consts word_le_nat_alt unat_sub_bounded)
  then have m: "m = mi_bitmap_mask count bitidx" using L by (simp add: run_at_mask_fits)
  show ?thesis
    using fit bitmap_inv_acquire [OF inv, of idx bitidx count t] L scan_swap_ok(4,5)
    unfolding scan_swap_ok(1) m by simp
next
  case (scan_swap_fail t idx count field bitidx m)
  then show ?thesis
    using bitmap_inv_local_ok [OF inv, of t]
    unfolding scan_swap_fail(1) by (intro bitmap_inv_local [OF inv]) simp_all
next
  case (claim_read t p count field)
  then show ?thesis
    unfolding claim_read(1) by (intro bitmap_inv_local [OF inv]) simp_all
next
  case (claim_swap_ok t idx count field bitidx)
  have "local_ok (length (bs_fields s)) (Claiming idx count field bitidx)"
    using bitmap_inv_local_ok [OF inv, of t] claim_swap_ok(2) by simp
  then show ?thesis
    using bitmap_inv_acquire [OF inv, of idx bitidx count t] claim_swap_ok(3)
    unfolding claim_swap_ok(1) by simp
next
  case (unclaim t idx count bitidx)
  show ?thesis unfolding unclaim(1) by (rule bitmap_inv_release [OF inv unclaim(2)])
qed (auto intro: bitmap_inv_local [OF inv])

lemma bitmap_reachable_inv: "bitmap_step\<^sup>*\<^sup>* (bitmap_init bm) s \<Longrightarrow> bitmap_inv s"
  by (induction rule: rtranclp_induct) (auto intro: bitmap_inv_init bitmap_step_inv)

text \<open>
  C17. Mutual exclusion of concurrent claims: in every state that any interleaving of searches,
  claims and unclaims of any number of threads can reach, two threads that hold runs of the
  same field hold disjoint runs, and all bits of a held run are set in the bitmap.
\<close>

theorem bitmap_claims_disjoint:
  assumes "bitmap_step\<^sup>*\<^sup>* (bitmap_init bm) s"
    and "bs_pc s t = Holding idx c b" and "bs_pc s u = Holding idx c' b'" and "t \<noteq> u"
  shows "(unat b + unat c \<le> unat b' \<or> unat b' + unat c' \<le> unat b \<or> c = 0 \<or> c' = 0)
    \<and> bs_fields s ! unat idx AND mi_bitmap_mask c b = mi_bitmap_mask c b"
proof
  note inv = bitmap_reachable_inv [OF assms(1)]
  have L: "unat idx < length (bs_fields s)" "unat b + unat c \<le> 64" "unat b' + unat c' \<le> 64"
    using bitmap_inv_local_ok [OF inv, of t] bitmap_inv_local_ok [OF inv, of u] assms(2,3) by simp_all
  have "mi_bitmap_mask c b AND mi_bitmap_mask c' b' = 0"
    using bitmap_inv_disjoint [OF inv assms(4), of "unat idx"] assms(2,3) by simp
  then have dis: "\<not> (unat b \<le> n \<and> n < unat b + unat c \<and> unat b' \<le> n \<and> n < unat b' + unat c')" for n
    by (simp add: and_eq_0_bits bit_mi_bitmap_mask L)
  show "unat b + unat c \<le> unat b' \<or> unat b' + unat c' \<le> unat b \<or> c = 0 \<or> c' = 0"
    using dis [of "max (unat b) (unat b')"] by (auto simp: unat_eq_0 max_def split: if_splits)
  have "mi_bitmap_mask c b AND NOT (bs_fields s ! unat idx) = 0"
    using bitmap_inv_subset [OF inv L(1), of t] assms(2) by simp
  then show "bs_fields s ! unat idx AND mi_bitmap_mask c b = mi_bitmap_mask c b"
    by (intro bit_word_eqI) (auto simp: and_eq_0_bits bit_simps)
qed

text \<open>Two threads claim bits 0 to 1 and 2 to 4 of the same field, their steps interleaved.\<close>

lemma bitmap_claims_disjoint_witness:
  "(unat (0 :: u64) + unat (2 :: u64) \<le> unat (2 :: u64) \<or> unat (2 :: u64) + unat (3 :: u64) \<le> unat (0 :: u64)
      \<or> (2 :: u64) = 0 \<or> (3 :: u64) = 0)
    \<and> [0x1F] ! unat (0 :: u64) AND mi_bitmap_mask 2 0 = mi_bitmap_mask 2 0"
proof -
  let ?st = "\<lambda>f p q. \<lparr>bs_fields = [f], bs_pc = (\<lambda>_. Outside)(0 := p, 1 := q)\<rparr>"
  have f: "mi_bitmap_index_field 0 = 0" "mi_bitmap_index_field 2 = 0"
    "mi_bitmap_index_bit_in_field 0 = 0" "mi_bitmap_index_bit_in_field 2 = 2"
    by code_simp+
  have m: "mi_bitmap_mask 2 0 = 3" "mi_bitmap_mask 3 2 = 0x1C"
    by code_simp+
  have 0: "bitmap_init [0] = ?st 0 Outside Outside"
    by (simp add: bitmap_init_def fun_upd_idem)
  have 1: "bitmap_step (?st 0 Outside Outside) (?st 0 (Claiming 0 2 0 0) Outside)"
    using claim_read [of "?st 0 Outside Outside" 0 0 2 0] by (simp add: f m fun_upd_twist)
  have 2: "bitmap_step (?st 0 (Claiming 0 2 0 0) Outside) (?st 3 (Holding 0 2 0) Outside)"
    using claim_swap_ok [of "?st 0 (Claiming 0 2 0 0) Outside" 0 0 2 0 0] by (simp add: f m fun_upd_twist)
  have 3: "bitmap_step (?st 3 (Holding 0 2 0) Outside) (?st 3 (Holding 0 2 0) (Claiming 0 3 3 2))"
    using claim_read [of "?st 3 (Holding 0 2 0) Outside" 1 2 3 3] by (simp add: f m fun_upd_twist)
  have 4: "bitmap_step (?st 3 (Holding 0 2 0) (Claiming 0 3 3 2)) (?st 0x1F (Holding 0 2 0) (Holding 0 3 2))"
    using claim_swap_ok [of "?st 3 (Holding 0 2 0) (Claiming 0 3 3 2)" 1 0 3 3 2] by (simp add: f m fun_upd_twist)
  have "bitmap_step\<^sup>*\<^sup>* (bitmap_init [0]) (?st 0x1F (Holding 0 2 0) (Holding 0 3 2))"
    unfolding 0
    by (rule converse_rtranclp_into_rtranclp, rule 1, rule converse_rtranclp_into_rtranclp, rule 2,
        rule converse_rtranclp_into_rtranclp, rule 3, rule r_into_rtranclp, rule 4)
  from bitmap_claims_disjoint [OF this, of 0 0 2 0 1 3 2] show ?thesis
    by simp
qed

end
