(* ===== verification/Chacha.thy ===== *)
theory Chacha
  imports Arith
begin

text \<open>
  The ChaCha20 generator of \<open>random.c\<close>. In this tree the entry points are disabled: the
  initialisation returns at once, splitting is empty and \<open>_mi_random_next\<close> returns 0; they are
  modelled that way. The block function, the word-by-word output and the byte order are the
  live definitions; the quarter round is checked against the vectors of RFC 8439 quoted at the end
  of the file.
\<close>

record mi_random_ctx =
  rnd_input :: "u32 list"
  rnd_output :: "u32 list"
  rnd_available :: int

definition MI_CHACHA_ROUNDS :: nat where [mi_consts]: "MI_CHACHA_ROUNDS = 20"

definition rotl32 :: "u32 \<Rightarrow> nat \<Rightarrow> u32" where
  "rotl32 x shift = push_bit shift x OR drop_bit (32 - shift) x"

definition qround :: "u32 list \<Rightarrow> nat \<Rightarrow> nat \<Rightarrow> nat \<Rightarrow> nat \<Rightarrow> u32 list" where
  "qround x a b c d =
     (let x = x[a := x ! a + x ! b]; x = x[d := rotl32 (x ! d XOR x ! a) 16];
          x = x[c := x ! c + x ! d]; x = x[b := rotl32 (x ! b XOR x ! c) 12];
          x = x[a := x ! a + x ! b]; x = x[d := rotl32 (x ! d XOR x ! a) 8];
          x = x[c := x ! c + x ! d]; x = x[b := rotl32 (x ! b XOR x ! c) 7]
      in x)"

definition chacha_double_round :: "u32 list \<Rightarrow> u32 list" where
  "chacha_double_round x =
     (let x = qround x 0 4 8 12;
          x = qround x 1 5 9 13;
          x = qround x 2 6 10 14;
          x = qround x 3 7 11 15;
          x = qround x 0 5 10 15;
          x = qround x 1 6 11 12;
          x = qround x 2 7 8 13;
          x = qround x 3 4 9 14
      in x)"

function chacha_rounds :: "nat \<Rightarrow> u32 list \<Rightarrow> u32 list" where
  "chacha_rounds i x =
     (if i < MI_CHACHA_ROUNDS then chacha_rounds (i + 2) (chacha_double_round x) else x)"

  by pat_completeness auto

termination
  by (relation "measure (\<lambda>(i, _). MI_CHACHA_ROUNDS - i)") auto

declare chacha_rounds.simps [simp del]

definition chacha_count :: "u32 list \<Rightarrow> u32 list" where
  "chacha_count inp =
     (let inp = inp[12 := inp ! 12 + 1] in
      if inp ! 12 = 0 then
        (let inp = inp[13 := inp ! 13 + 1] in
         if inp ! 13 = 0 then inp[14 := inp ! 14 + 1] else inp)
      else inp)"

definition chacha_block :: "mi_random_ctx \<Rightarrow> mi_random_ctx" where
  "chacha_block ctx =
     (let x = chacha_rounds 0 (take 16 (rnd_input ctx)) in
      ctx\<lparr>rnd_output := map2 (+) x (take 16 (rnd_input ctx)),
          rnd_available := 16,
          rnd_input := chacha_count (rnd_input ctx)\<rparr>)"

definition chacha_next32 :: "mi_random_ctx \<Rightarrow> u32 \<times> mi_random_ctx" where
  "chacha_next32 ctx =
     (let ctx = (if rnd_available ctx \<le> 0 then (chacha_block ctx)\<lparr>rnd_available := 16\<rparr> else ctx);
          i = nat (16 - rnd_available ctx);
          x = rnd_output ctx ! i
      in (x, ctx\<lparr>rnd_output := (rnd_output ctx)[i := 0],
                  rnd_available := rnd_available ctx - 1\<rparr>))"

definition read32 :: "u8 list \<Rightarrow> nat \<Rightarrow> u32" where
  "read32 p idx32 =
     (let i = 4 * idx32 in
      ucast (p ! i) OR push_bit 8 (ucast (p ! (i + 1)))
      OR push_bit 16 (ucast (p ! (i + 2))) OR push_bit 24 (ucast (p ! (i + 3))))"

text \<open>The disabled entry points.\<close>

definition chacha_init :: "mi_random_ctx \<Rightarrow> u8 list \<Rightarrow> u64 \<Rightarrow> mi_random_ctx" where
  "chacha_init ctx key nonce = ctx"

definition mi_random_split :: "mi_random_ctx \<Rightarrow> mi_random_ctx \<Rightarrow> mi_random_ctx \<times> mi_random_ctx" where
  "mi_random_split ctx ctx_new = (ctx, ctx_new)"

definition mi_random_next :: "mi_random_ctx \<Rightarrow> u64 \<times> mi_random_ctx" where
  "mi_random_next ctx = (0, ctx)"

definition mi_random_init :: "mi_random_ctx \<Rightarrow> mi_random_ctx" where
  "mi_random_init ctx = ctx"

section \<open>Properties\<close>

lemma qround_short_vector:
  "qround [0x11111111, 0x01020304, 0x9b8d6f43, 0x01234567] 0 1 2 3
     = [0xea2a92f4, 0xcb1cf8ce, 0x4581472e, 0x5881c4bb]"
  by code_simp

lemma nth_qround_other:
  "i \<notin> {a, b, c, d} \<Longrightarrow> qround x a b c d ! i = x ! i"
  by (simp add: qround_def Let_def)

text \<open>
  The quarter round reproduces the vector of RFC 8439 that the file quotes in its disabled
  self test, and on any state it changes only the four words it names.
\<close>

theorem qround_rfc8439:
  "qround [0x11111111, 0x01020304, 0x9b8d6f43, 0x01234567] 0 1 2 3
     = [0xea2a92f4, 0xcb1cf8ce, 0x4581472e, 0x5881c4bb]
   \<and> (\<forall>x i. i \<notin> {a, b, c, d} \<longrightarrow> qround x a b c d ! i = x ! i)
   \<and> length (qround x a b c d) = length x"
proof (intro conjI allI impI)
  show "length (qround x a b c d) = length x" by (simp add: qround_def Let_def)
qed (rule qround_short_vector, rule nth_qround_other)

lemma qround_rfc8439_witness: "qround [1, 2, 3, 4, 5] 0 1 2 3 ! 4 = 5"
  using qround_rfc8439 [of 0 1 2 3 "[1, 2, 3, 4, 5]"] by simp

text \<open>The three counter words, least significant first, as one number.\<close>

definition chacha_counter :: "u32 list \<Rightarrow> nat" where
  "chacha_counter inp = unat (inp ! 12) + 2 ^ 32 * unat (inp ! 13) + 2 ^ 64 * unat (inp ! 14)"

lemma unat_plus1_u32: "unat (x + 1 :: u32) = (unat x + 1) mod 2 ^ 32"
  by (simp add: unat_word_ariths)

lemma word32_plus1_zero: "(x + 1 = (0 :: u32)) \<longleftrightarrow> unat x + 1 = 2 ^ 32"
proof -
  have "(x + 1 = 0) \<longleftrightarrow> unat (x + 1) = 0" by (simp add: unat_eq_0)
  also have "\<dots> \<longleftrightarrow> unat x + 1 = 2 ^ 32"
  proof (cases "unat x + 1 < 4294967296")
    case False
    then have "unat x + 1 = 4294967296" using unat_less_32 [of x] by linarith
    then show ?thesis unfolding unat_plus1_u32 by simp
  qed (simp add: unat_plus1_u32)
  finally show ?thesis .
qed

lemma unat_plus1_small: "x + 1 \<noteq> (0 :: u32) \<Longrightarrow> unat (x + 1) = unat x + 1"
proof -
  assume "x + 1 \<noteq> 0"
  then have "unat x + 1 \<noteq> 4294967296"
    using word32_plus1_zero [of x] by simp
  then have "unat x + 1 < 4294967296"
    using unat_less_32 [of x] by linarith
  then show ?thesis unfolding unat_plus1_u32 by simp
qed

lemma counter_bound:
  "a < 4294967296 \<Longrightarrow> b < 4294967296 \<Longrightarrow> c < 4294967296
    \<Longrightarrow> a + 4294967296 * b + 18446744073709551616 * c < (79228162514264337593543950336 :: nat)"
  by linarith

text \<open>
  Each block advances the 96-bit counter in words 12 to 14 by one, with carries, modulo
  \<open>2 ^ 96\<close>, and changes no other word of the input: keys and the last nonce word are kept.
\<close>

theorem chacha_block_counter:
  assumes "length (rnd_input ctx) = 16"
  shows "chacha_counter (rnd_input (chacha_block ctx)) = (chacha_counter (rnd_input ctx) + 1) mod 2 ^ 96
    \<and> take 12 (rnd_input (chacha_block ctx)) = take 12 (rnd_input ctx)
    \<and> rnd_input (chacha_block ctx) ! 15 = rnd_input ctx ! 15"
proof -
  define inp where "inp = rnd_input ctx"
  let ?a = "inp ! 12" and ?b = "inp ! 13" and ?c = "inp ! 14"
  have len: "length inp = 16" using assms by (simp add: inp_def)
  have R: "rnd_input (chacha_block ctx) = chacha_count inp"
    by (simp add: chacha_block_def inp_def Let_def)
  have small: "chacha_counter inp < 2 ^ 96"
    using counter_bound [of "unat ?a" "unat ?b" "unat ?c"] by (simp add: chacha_counter_def)
  have C: "chacha_counter (chacha_count inp) = (chacha_counter inp + 1) mod 2 ^ 96"
  proof (cases "?a + 1 = 0")
    case False
    then have "chacha_counter (chacha_count inp) = chacha_counter inp + 1"
      by (simp add: chacha_count_def chacha_counter_def len unat_plus1_small Let_def)
    moreover have "chacha_counter inp + 1 < 2 ^ 96"
      using counter_bound [OF unat_less_32 [of "?a + 1", unfolded unat_plus1_small [OF False]]
          unat_less_32 [of ?b] unat_less_32 [of ?c]]
      unfolding chacha_counter_def by simp
    ultimately show ?thesis by simp
  next
    case a: True
    then have ua: "unat ?a = 2 ^ 32 - 1" by (simp add: word32_plus1_zero)
    show ?thesis
    proof (cases "?b + 1 = 0")
      case False
      then have "chacha_counter (chacha_count inp) = chacha_counter inp + 1"
        using a ua by (simp add: chacha_count_def chacha_counter_def len unat_plus1_small Let_def)
      moreover have "chacha_counter inp + 1 < 2 ^ 96"
        using counter_bound [OF _ unat_less_32 [of "?b + 1", unfolded unat_plus1_small [OF False]]
            unat_less_32 [of ?c], of 0] ua
        unfolding chacha_counter_def by simp
      ultimately show ?thesis by simp
    next
      case b: True
      then have ub: "unat ?b = 2 ^ 32 - 1" by (simp add: word32_plus1_zero)
      have "chacha_counter (chacha_count inp) = 2 ^ 64 * ((unat ?c + 1) mod 2 ^ 32)"
        using a b by (simp add: chacha_count_def chacha_counter_def len unat_plus1_u32 Let_def)
      also have "\<dots> = (2 ^ 64 * (unat ?c + 1)) mod 2 ^ 96"
        by (simp add: mult_mod_right)
      also have "2 ^ 64 * (unat ?c + 1) = chacha_counter inp + 1"
        using ua ub by (simp add: chacha_counter_def)
      finally show ?thesis .
    qed
  qed
  have "take 12 (chacha_count inp) = take 12 inp" "chacha_count inp ! 15 = inp ! 15"
    by (simp_all add: chacha_count_def Let_def)
  with C show ?thesis by (simp add: R inp_def)
qed

lemma chacha_block_counter_witness:
  "chacha_counter (rnd_input (chacha_block \<lparr>rnd_input = replicate 12 7 @ [- 1, 3, 0, 5],
      rnd_output = [], rnd_available = 0\<rparr>)) = 4 * 2 ^ 32"
proof -
  have "unat (- 1 :: u32) = 2 ^ 32 - 1" by (simp add: unsigned_minus_1_eq_mask mask_eq_exp_minus_1)
  then have "chacha_counter (replicate 12 7 @ [- 1, 3, 0, 5]) = 4 * 2 ^ 32 - 1"
    unfolding chacha_counter_def by (simp add: nth_append)
  then show ?thesis
    using chacha_block_counter [of "\<lparr>rnd_input = replicate 12 7 @ [- 1, 3, 0, 5],
      rnd_output = [], rnd_available = 0\<rparr>"] by simp
qed

lemma length_qround [simp]: "length (qround x a b c d) = length x"
  by (simp add: qround_def Let_def)

lemma length_chacha_rounds [simp]: "length (chacha_rounds i x) = length x"
proof (induction i x rule: chacha_rounds.induct)
  case (1 i x)
  then show ?case
    by (subst chacha_rounds.simps) (simp add: chacha_double_round_def Let_def)
qed

fun chacha_take :: "nat \<Rightarrow> mi_random_ctx \<Rightarrow> u32 list \<times> mi_random_ctx" where
  "chacha_take 0 ctx = ([], ctx)"
| "chacha_take (Suc n) ctx =
     (let (x, ctx) = chacha_next32 ctx; (xs, ctx) = chacha_take n ctx in (x # xs, ctx))"

lemma chacha_take_available:
  assumes "length (rnd_output ctx) = 16" and "rnd_available ctx = int n" and "n \<le> 16"
    and "\<forall>i < 16 - n. rnd_output ctx ! i = 0"
  shows "chacha_take n ctx
    = (drop (16 - n) (rnd_output ctx), ctx\<lparr>rnd_output := replicate 16 0, rnd_available := 0\<rparr>)"
  using assms
proof (induction n arbitrary: ctx)
  case 0
  then have "rnd_output ctx = replicate 16 0"
    by (intro nth_equalityI) auto
  with 0 show ?case by simp
next
  case (Suc n)
  let ?i = "15 - n"
  let ?ctx' = "ctx\<lparr>rnd_output := (rnd_output ctx)[?i := 0], rnd_available := int n\<rparr>"
  have "nat (16 - rnd_available ctx) = ?i" using Suc.prems by simp
  then have step: "chacha_next32 ctx = (rnd_output ctx ! ?i, ?ctx')"
    using Suc.prems by (simp add: chacha_next32_def Let_def)
  have IH: "chacha_take n ?ctx' = (drop (16 - n) (rnd_output ?ctx'),
      ?ctx'\<lparr>rnd_output := replicate 16 0, rnd_available := 0\<rparr>)"
    using Suc.prems by (intro Suc.IH) (auto simp: nth_list_update less_Suc_eq)
  have "16 - n = Suc ?i" "?i < 16" using Suc.prems by simp_all
  then have "rnd_output ctx ! ?i # drop (16 - n) (rnd_output ctx) = drop ?i (rnd_output ctx)"
    using Suc.prems(1) by (simp add: Cons_nth_drop_Suc)
  moreover have "drop (16 - n) (rnd_output ?ctx') = drop (16 - n) (rnd_output ctx)"
    using Suc.prems by simp
  ultimately show ?case
    using step IH by simp
qed

text \<open>
  From an exhausted context the next sixteen calls of \<open>chacha_next32\<close> hand out the sixteen
  words of one fresh block, in order, each once, and wipe them from the context.
\<close>

theorem chacha_next32_block:
  assumes "length (rnd_input ctx) = 16" and "rnd_available ctx \<le> 0"
  shows "chacha_take 16 ctx = (rnd_output (chacha_block ctx),
    (chacha_block ctx)\<lparr>rnd_output := replicate 16 0, rnd_available := 0\<rparr>)"
proof -
  have len: "length (rnd_output (chacha_block ctx)) = 16"
    using assms(1) by (simp add: chacha_block_def Let_def)
  have av: "rnd_available (chacha_block ctx) = 16"
    by (simp add: chacha_block_def Let_def)
  have "(if rnd_available ctx \<le> 0 then (chacha_block ctx)\<lparr>rnd_available := 16\<rparr> else ctx) = chacha_block ctx"
    using assms(2) av by simp
  moreover have "(if rnd_available (chacha_block ctx) \<le> 0
      then (chacha_block (chacha_block ctx))\<lparr>rnd_available := 16\<rparr> else chacha_block ctx) = chacha_block ctx"
    unfolding av by simp
  ultimately have "chacha_next32 ctx = chacha_next32 (chacha_block ctx)"
    unfolding chacha_next32_def by (simp only:)
  then have "chacha_take (Suc 15) ctx = chacha_take (Suc 15) (chacha_block ctx)"
    by (simp only: chacha_take.simps)
  then have "chacha_take 16 ctx = chacha_take 16 (chacha_block ctx)"
    by simp
  also have "\<dots> = (drop (16 - 16) (rnd_output (chacha_block ctx)),
      (chacha_block ctx)\<lparr>rnd_output := replicate 16 0, rnd_available := 0\<rparr>)"
    by (rule chacha_take_available) (use len av in simp_all)
  finally show ?thesis by simp
qed

lemma chacha_next32_block_witness:
  "length (fst (chacha_take 16 \<lparr>rnd_input = replicate 16 9, rnd_output = [], rnd_available = 0\<rparr>))
    = length (rnd_output (chacha_block \<lparr>rnd_input = replicate 16 9, rnd_output = [], rnd_available = 0\<rparr>))"
  by (subst chacha_next32_block) simp_all

end
