(* ===== verification/Stats.thy ===== *)
theory Stats
  imports Arith
begin

text \<open>
  The statistics of \<open>stats.c\<close>: counters with their peak, the statistics of a thread and of the
  process, their merging, the line-buffered output and the decimal scaling of amounts. Counters
  are 64-bit two's-complement words; comparisons are signed. The main statistics are updated
  with atomic adds and the thread ones with plain adds: the values are the same.
\<close>

section \<open>Counters\<close>

type_synonym i64 = "64 word"

record mi_stat_count =
  stat_allocated :: i64
  stat_freed :: i64
  stat_peak :: i64
  stat_current :: i64

record mi_stat_counter =
  ctr_total :: i64
  ctr_count :: i64

definition mi_stat_update :: "i64 \<Rightarrow> mi_stat_count \<Rightarrow> mi_stat_count" where
  "mi_stat_update amount stat =
     (if amount = 0 then stat
      else let stat = stat\<lparr>stat_current := stat_current stat + amount\<rparr>;
               stat = (if sint (stat_peak stat) < sint (stat_current stat)
                       then stat\<lparr>stat_peak := stat_current stat\<rparr> else stat)
           in (if 0 < sint amount then stat\<lparr>stat_allocated := stat_allocated stat + amount\<rparr>
               else stat\<lparr>stat_freed := stat_freed stat + (- amount)\<rparr>))"

definition mi_stat_increase :: "u64 \<Rightarrow> mi_stat_count \<Rightarrow> mi_stat_count" where
  "mi_stat_increase amount stat = mi_stat_update amount stat"

definition mi_stat_decrease :: "u64 \<Rightarrow> mi_stat_count \<Rightarrow> mi_stat_count" where
  "mi_stat_decrease amount stat = mi_stat_update (- amount) stat"

definition mi_stat_counter_increase :: "u64 \<Rightarrow> mi_stat_counter \<Rightarrow> mi_stat_counter" where
  "mi_stat_counter_increase amount stat =
     stat\<lparr>ctr_count := ctr_count stat + 1, ctr_total := ctr_total stat + amount\<rparr>"

text \<open>Adding one statistic to another one (the caller has checked that they differ).\<close>

definition mi_stat_add :: "mi_stat_count \<Rightarrow> mi_stat_count \<Rightarrow> i64 \<Rightarrow> mi_stat_count" where
  "mi_stat_add stat src unit =
     stat\<lparr>stat_allocated := stat_allocated stat + stat_allocated src * unit,
         stat_current := stat_current stat + stat_current src * unit,
         stat_freed := stat_freed stat + stat_freed src * unit,
         stat_peak := stat_peak stat + stat_peak src * unit\<rparr>"

definition mi_stat_counter_add :: "mi_stat_counter \<Rightarrow> mi_stat_counter \<Rightarrow> i64 \<Rightarrow> mi_stat_counter" where
  "mi_stat_counter_add stat src unit =
     stat\<lparr>ctr_total := ctr_total stat + ctr_total src * unit,
         ctr_count := ctr_count stat + ctr_count src * unit\<rparr>"

section \<open>The statistics of a thread\<close>

record mi_stats =
  sts_segments :: mi_stat_count
  sts_pages :: mi_stat_count
  sts_reserved :: mi_stat_count
  sts_committed :: mi_stat_count
  sts_reset :: mi_stat_count
  sts_page_committed :: mi_stat_count
  sts_segments_abandoned :: mi_stat_count
  sts_pages_abandoned :: mi_stat_count
  sts_threads :: mi_stat_count
  sts_huge :: mi_stat_count
  sts_giant :: mi_stat_count
  sts_malloc :: mi_stat_count
  sts_segments_cache :: mi_stat_count
  sts_pages_extended :: mi_stat_counter
  sts_mmap_calls :: mi_stat_counter
  sts_commit_calls :: mi_stat_counter
  sts_page_no_retire :: mi_stat_counter
  sts_searches :: mi_stat_counter
  sts_huge_count :: mi_stat_counter
  sts_giant_count :: mi_stat_counter

definition mi_stats_add :: "mi_stats \<Rightarrow> mi_stats \<Rightarrow> mi_stats" where
  "mi_stats_add stats src =
     \<lparr>sts_segments = mi_stat_add (sts_segments stats) (sts_segments src) 1,
      sts_pages = mi_stat_add (sts_pages stats) (sts_pages src) 1,
      sts_reserved = mi_stat_add (sts_reserved stats) (sts_reserved src) 1,
      sts_committed = mi_stat_add (sts_committed stats) (sts_committed src) 1,
      sts_reset = mi_stat_add (sts_reset stats) (sts_reset src) 1,
      sts_page_committed = mi_stat_add (sts_page_committed stats) (sts_page_committed src) 1,
      sts_segments_abandoned = mi_stat_add (sts_segments_abandoned stats) (sts_segments_abandoned src) 1,
      sts_pages_abandoned = mi_stat_add (sts_pages_abandoned stats) (sts_pages_abandoned src) 1,
      sts_threads = mi_stat_add (sts_threads stats) (sts_threads src) 1,
      sts_huge = mi_stat_add (sts_huge stats) (sts_huge src) 1,
      sts_giant = mi_stat_add (sts_giant stats) (sts_giant src) 1,
      sts_malloc = mi_stat_add (sts_malloc stats) (sts_malloc src) 1,
      sts_segments_cache = mi_stat_add (sts_segments_cache stats) (sts_segments_cache src) 1,
      sts_pages_extended = mi_stat_counter_add (sts_pages_extended stats) (sts_pages_extended src) 1,
      sts_mmap_calls = mi_stat_counter_add (sts_mmap_calls stats) (sts_mmap_calls src) 1,
      sts_commit_calls = mi_stat_counter_add (sts_commit_calls stats) (sts_commit_calls src) 1,
      sts_page_no_retire = mi_stat_counter_add (sts_page_no_retire stats) (sts_page_no_retire src) 1,
      sts_searches = mi_stat_counter_add (sts_searches stats) (sts_searches src) 1,
      sts_huge_count = mi_stat_counter_add (sts_huge_count stats) (sts_huge_count src) 1,
      sts_giant_count = mi_stat_counter_add (sts_giant_count stats) (sts_giant_count src) 1\<rparr>"

definition mi_stat_count_zero :: mi_stat_count where
  "mi_stat_count_zero = \<lparr>stat_allocated = 0, stat_freed = 0, stat_peak = 0, stat_current = 0\<rparr>"

definition mi_stat_counter_zero :: mi_stat_counter where
  "mi_stat_counter_zero = \<lparr>ctr_total = 0, ctr_count = 0\<rparr>"

text \<open>\<open>MI_STATS_NULL\<close>.\<close>

definition mi_stats_zero :: mi_stats where
  "mi_stats_zero =
     \<lparr>sts_segments = mi_stat_count_zero, sts_pages = mi_stat_count_zero,
      sts_reserved = mi_stat_count_zero, sts_committed = mi_stat_count_zero,
      sts_reset = mi_stat_count_zero, sts_page_committed = mi_stat_count_zero,
      sts_segments_abandoned = mi_stat_count_zero, sts_pages_abandoned = mi_stat_count_zero,
      sts_threads = mi_stat_count_zero, sts_huge = mi_stat_count_zero,
      sts_giant = mi_stat_count_zero, sts_malloc = mi_stat_count_zero,
      sts_segments_cache = mi_stat_count_zero, sts_pages_extended = mi_stat_counter_zero,
      sts_mmap_calls = mi_stat_counter_zero, sts_commit_calls = mi_stat_counter_zero,
      sts_page_no_retire = mi_stat_counter_zero, sts_searches = mi_stat_counter_zero,
      sts_huge_count = mi_stat_counter_zero, sts_giant_count = mi_stat_counter_zero\<rparr>"

text \<open>
  A \<open>mi_stats_t*\<close> is the statistics of the process or those of the thread data at an address.
\<close>

datatype stats_ref = MainStats | TldStats addr

record stats_state =
  st_stats :: "stats_ref \<Rightarrow> mi_stats"
  st_time_start :: i64
  st_clock_diff :: i64
  st_clock :: "nat \<Rightarrow> i64"
  st_ticks :: nat

definition stats_apply ::
    "stats_ref \<Rightarrow> (mi_stats \<Rightarrow> mi_stats) \<Rightarrow> 'a stats_state_scheme \<Rightarrow> 'a stats_state_scheme" where
  "stats_apply r f s = s\<lparr>st_stats := (st_stats s)(r := f (st_stats s r))\<rparr>"

definition mi_stats_merge_from :: "stats_ref \<Rightarrow> 'a stats_state_scheme \<Rightarrow> 'a stats_state_scheme" where
  "mi_stats_merge_from r s =
     (if r \<noteq> MainStats then stats_apply MainStats (\<lambda>m. mi_stats_add m (st_stats s r)) s else s)"

definition mi_stats_done :: "stats_ref \<Rightarrow> 'a stats_state_scheme \<Rightarrow> 'a stats_state_scheme" where
  "mi_stats_done r s = mi_stats_merge_from r s"

section \<open>The clock\<close>

text \<open>The reading of the system clock is the external function \<open>st_clock\<close> of the call number.\<close>

definition mi_clock_now :: "'a stats_state_scheme \<Rightarrow> i64 \<times> 'a stats_state_scheme" where
  "mi_clock_now s = (st_clock s (st_ticks s), s\<lparr>st_ticks := st_ticks s + 1\<rparr>)"

definition mi_clock_start :: "'a stats_state_scheme \<Rightarrow> i64 \<times> 'a stats_state_scheme" where
  "mi_clock_start s =
     (let s = (if st_clock_diff s = 0 then
                 (let (t0, s) = mi_clock_now s; (t1, s) = mi_clock_now s in s\<lparr>st_clock_diff := t1 - t0\<rparr>)
               else s)
      in mi_clock_now s)"

definition mi_clock_end :: "i64 \<Rightarrow> 'a stats_state_scheme \<Rightarrow> i64 \<times> 'a stats_state_scheme" where
  "mi_clock_end start s =
     (let (end_t, s) = mi_clock_now s in (end_t - start - st_clock_diff s, s))"

text \<open>The zeroing of \<open>mi_stats_reset\<close> is commented out: only the start time is taken again.\<close>

definition mi_stats_reset :: "'a stats_state_scheme \<Rightarrow> 'a stats_state_scheme" where
  "mi_stats_reset s = (let (t, s) = mi_clock_start s in s\<lparr>st_time_start := t\<rparr>)"

section \<open>Scaling of amounts\<close>

text \<open>C's signed division and remainder truncate towards zero.\<close>

definition sdiv64 :: "i64 \<Rightarrow> i64 \<Rightarrow> i64" where
  "sdiv64 a b = word_of_int (sgn (sint a) * sgn (sint b) * (\<bar>sint a\<bar> div \<bar>sint b\<bar>))"

definition smod64 :: "i64 \<Rightarrow> i64 \<Rightarrow> i64" where
  "smod64 a b = a - sdiv64 a b * b"

datatype magnitude = NoMagnitude | Kilo | Mega | Giga

text \<open>
  The number that \<open>mi_printf_amount\<close> prints: the whole part, the tenths (none below the base),
  the magnitude, and whether the suffix is \<open>b\<close>.
\<close>

definition mi_printf_amount :: "i64 \<Rightarrow> i64 \<Rightarrow> i64 \<times> i64 option \<times> magnitude \<times> bool" where
  "mi_printf_amount n unit =
     (let is_bytes = \<not> sint unit \<le> 0;
          base = (if unit = 0 then 1000 else 1024);
          n = (if 0 < sint unit then n * unit else n);
          pos = (if sint n < 0 then - n else n)
      in if sint pos < sint base then (n, None, NoMagnitude, is_bytes)
         else
           let (divider, magnitude) = (base, Kilo);
               (divider, magnitude) = (if sint (divider * base) \<le> sint pos then (divider * base, Mega)
                                       else (divider, magnitude));
               (divider, magnitude) = (if sint (divider * base) \<le> sint pos then (divider * base, Giga)
                                       else (divider, magnitude));
               tens = sdiv64 n (sdiv64 divider 10)
           in (sdiv64 tens 10, Some (smod64 tens 10), magnitude, is_bytes))"

definition mi_stat_counter_print_avg :: "mi_stat_counter \<Rightarrow> i64 \<times> i64" where
  "mi_stat_counter_print_avg stat =
     (let avg_tens = (if ctr_count stat = 0 then 0 else sdiv64 (ctr_total stat * 10) (ctr_count stat))
      in (sdiv64 avg_tens 10, smod64 avg_tens 10))"

section \<open>Line-buffered output\<close>

text \<open>The characters written so far to the underlying output, line by line, and the buffer.\<close>

record buffered =
  buf_out :: "string list"
  buf_chars :: string
  buf_count :: nat

definition mi_buffered_flush :: "buffered \<Rightarrow> buffered" where
  "mi_buffered_flush buf = buf\<lparr>buf_out := buf_out buf @ [buf_chars buf], buf_chars := []\<rparr>"

fun mi_buffered_out :: "string \<Rightarrow> buffered \<Rightarrow> buffered" where
  "mi_buffered_out [] buf = buf"
| "mi_buffered_out (c # src) buf =
     (let buf = (if buf_count buf \<le> length (buf_chars buf) then mi_buffered_flush buf else buf);
          buf = buf\<lparr>buf_chars := buf_chars buf @ [c]\<rparr>;
          buf = (if c = CHR 0x0A then mi_buffered_flush buf else buf)
      in mi_buffered_out src buf)"

section \<open>Properties\<close>

definition stat_ok :: "mi_stat_count \<Rightarrow> bool" where
  "stat_ok st \<longleftrightarrow> stat_current st = stat_allocated st - stat_freed st
    \<and> sint (stat_current st) \<le> sint (stat_peak st)"

text \<open>
  Every update of a counter keeps the current amount equal to what was allocated less what
  was freed, and the peak at or above it, even when the 64-bit counters wrap around.
\<close>

theorem mi_stat_update_ok:
  assumes "stat_ok st"
  shows "stat_ok (mi_stat_increase n st) \<and> stat_ok (mi_stat_decrease n st)
    \<and> stat_current (mi_stat_increase n st) = stat_current st + n
    \<and> stat_current (mi_stat_decrease n st) = stat_current st - n"
  using assms by (auto simp: stat_ok_def mi_stat_increase_def mi_stat_decrease_def mi_stat_update_def Let_def)

lemma mi_stat_update_ok_witness:
  "stat_ok (mi_stat_increase 5 \<lparr>stat_allocated = 3, stat_freed = 1, stat_peak = 3, stat_current = 2\<rparr>)"
  by (rule mi_stat_update_ok [THEN conjunct1]) (simp add: stat_ok_def)

text \<open>
  Nothing is lost or reordered by the line buffer and it never overflows: the output already
  flushed followed by the buffer is what was there before followed by the message, and the
  buffer stays within its size.
\<close>

theorem mi_buffered_out_lossless:
  assumes "length (buf_chars buf) \<le> buf_count buf" and "0 < buf_count buf"
  shows "concat (buf_out (mi_buffered_out msg buf)) @ buf_chars (mi_buffered_out msg buf)
      = concat (buf_out buf) @ buf_chars buf @ msg
    \<and> length (buf_chars (mi_buffered_out msg buf)) \<le> buf_count buf
    \<and> buf_count (mi_buffered_out msg buf) = buf_count buf"
  using assms
proof (induction msg arbitrary: buf)
  case (Cons c msg)
  let ?b1 = "if buf_count buf \<le> length (buf_chars buf) then mi_buffered_flush buf else buf"
  let ?b2 = "?b1\<lparr>buf_chars := buf_chars ?b1 @ [c]\<rparr>"
  let ?b3 = "if c = CHR 0x0A then mi_buffered_flush ?b2 else ?b2"
  have inv: "length (buf_chars ?b3) \<le> buf_count ?b3" "buf_count ?b3 = buf_count buf"
    "concat (buf_out ?b3) @ buf_chars ?b3 = concat (buf_out buf) @ buf_chars buf @ [c]"
    using Cons.prems by (auto simp: mi_buffered_flush_def)
  have "mi_buffered_out (c # msg) buf = mi_buffered_out msg ?b3"
    by (simp add: Let_def)
  with Cons.IH [OF inv(1)] Cons.prems(2) inv show ?case
    by (simp only: append_assoc [symmetric]) simp
qed simp

lemma mi_buffered_out_lossless_witness:
  "concat (buf_out (mi_buffered_out ''hello'' \<lparr>buf_out = [], buf_chars = ''a'', buf_count = 2\<rparr>))
      @ buf_chars (mi_buffered_out ''hello'' \<lparr>buf_out = [], buf_chars = ''a'', buf_count = 2\<rparr>) = ''ahello''"
  using mi_buffered_out_lossless [of "\<lparr>buf_out = [], buf_chars = ''a'', buf_count = 2\<rparr>" "''hello''"]
  by simp

text \<open>
  Merging is not idempotent: because the zeroing of the thread statistics after a merge is
  commented out, merging the same thread twice counts everything it allocated twice.
\<close>

theorem mi_stats_merge_twice_double_counts:
  assumes "r \<noteq> MainStats"
  shows "stat_allocated (sts_reserved (st_stats (mi_stats_merge_from r (mi_stats_merge_from r s)) MainStats))
    = stat_allocated (sts_reserved (st_stats s MainStats)) + 2 * stat_allocated (sts_reserved (st_stats s r))"
  using assms by (simp add: mi_stats_merge_from_def stats_apply_def mi_stats_add_def mi_stat_add_def)

lemma mi_stats_merge_twice_double_counts_witness:
  "let used = mi_stats_zero\<lparr>sts_reserved := mi_stat_increase 5 mi_stat_count_zero\<rparr>;
       s = \<lparr>st_stats = (\<lambda>r. if r = MainStats then mi_stats_zero else used),
            st_time_start = 0, st_clock_diff = 0, st_clock = (\<lambda>_. 0), st_ticks = 0\<rparr>
   in stat_allocated (sts_reserved (st_stats
        (mi_stats_merge_from (TldStats 0) (mi_stats_merge_from (TldStats 0) s)) MainStats)) = 10"
  by (simp add: Let_def mi_stats_merge_twice_double_counts mi_stats_zero_def mi_stat_count_zero_def
      mi_stat_increase_def mi_stat_update_def)

end
