(* ===== verification/Options.thy ===== *)
theory Options
  imports Stats
begin

text \<open>
  Runtime options and messages (\<open>options.c\<close>). Options are read from the environment on first
  use. In this tree \<open>mi_getenv\<close> returns \<open>false\<close> before it looks, so every option ends up
  defaulted; the parser of option values behind it is modelled as well. The functions that
  would write messages (\<open>_mi_fputs\<close>, \<open>_mi_error_message\<close>, \<open>_mi_verbose_message\<close>) have empty
  bodies in this tree.
\<close>

section \<open>Option table\<close>

datatype mi_option =
    opt_show_errors | opt_show_stats | opt_verbose | opt_eager_commit | opt_eager_region_commit
  | opt_reset_decommits | opt_large_os_pages | opt_reserve_huge_os_pages | opt_segment_cache
  | opt_page_reset | opt_abandoned_page_reset | opt_segment_reset | opt_eager_commit_delay
  | opt_reset_delay | opt_use_numa_nodes | opt_os_tag | opt_max_errors

datatype mi_init = UNINIT | DEFAULTED | INITIALIZED

record mi_option_desc =
  opt_value :: i64
  opt_init :: mi_init

datatype out_fun = OutNull | OutStderr | OutBuf | OutBufStderr | OutUser nat

record opt_state = stats_state +
  st_options :: "mi_option \<Rightarrow> mi_option_desc"
  st_preloading :: bool
  st_max_error_count :: u64
  st_error_count :: u64
  st_msg_recurse :: bool
  st_out_default :: out_fun
  st_out_arg :: addr
  st_out_len :: u64
  st_out_buf :: "nat \<Rightarrow> char"
  st_error_handler :: addr
  st_error_arg :: addr

definition options_default :: "mi_option \<Rightarrow> mi_option_desc" where
  "options_default opt =
     \<lparr>opt_value =
        (case opt of
           opt_show_errors \<Rightarrow> 0 | opt_show_stats \<Rightarrow> 0 | opt_verbose \<Rightarrow> 0
         | opt_eager_commit \<Rightarrow> 1 | opt_eager_region_commit \<Rightarrow> 1 | opt_reset_decommits \<Rightarrow> 0
         | opt_large_os_pages \<Rightarrow> 0 | opt_reserve_huge_os_pages \<Rightarrow> 0 | opt_segment_cache \<Rightarrow> 0
         | opt_page_reset \<Rightarrow> 1 | opt_abandoned_page_reset \<Rightarrow> 0 | opt_segment_reset \<Rightarrow> 0
         | opt_eager_commit_delay \<Rightarrow> 1 | opt_reset_delay \<Rightarrow> 100 | opt_use_numa_nodes \<Rightarrow> 0
         | opt_os_tag \<Rightarrow> 100 | opt_max_errors \<Rightarrow> 16),
      opt_init = UNINIT\<rparr>"

definition opt_write :: "mi_option \<Rightarrow> mi_option_desc \<Rightarrow> 'a opt_state_scheme \<Rightarrow> 'a opt_state_scheme" where
  "opt_write opt d s = s\<lparr>st_options := (st_options s)(opt := d)\<rparr>"

text \<open>The static variables at program load, with a clock that stands still.\<close>

definition opt_state_load :: opt_state where
  "opt_state_load =
     \<lparr>st_stats = (\<lambda>_. mi_stats_zero), st_time_start = 0, st_clock_diff = 0,
      st_clock = (\<lambda>_. 0), st_ticks = 0,
      st_options = options_default, st_preloading = True, st_max_error_count = 16,
      st_error_count = 0, st_msg_recurse = False, st_out_default = OutNull, st_out_arg = 0,
      st_out_len = 0, st_out_buf = (\<lambda>_. CHR 0x00), st_error_handler = 0, st_error_arg = 0\<rparr>"

section \<open>Parsing a value\<close>

definition c_toupper :: "char \<Rightarrow> char" where
  "c_toupper c = (let n = of_char c :: nat in if 97 \<le> n \<and> n \<le> 122 then char_of (n - 32) else c)"

fun c_isprefix :: "string \<Rightarrow> string \<Rightarrow> bool" where
  "c_isprefix [] ys = True"
| "c_isprefix (x # xs) [] = False"
| "c_isprefix (x # xs) (y # ys) = (x = y \<and> c_isprefix xs ys)"

text \<open>\<open>strstr(haystack, needle) != NULL\<close>.\<close>

fun c_strstr :: "string \<Rightarrow> string \<Rightarrow> bool" where
  "c_strstr [] needle = (needle = [])"
| "c_strstr (h # hs) needle = (c_isprefix needle (h # hs) \<or> c_strstr hs needle)"

definition c_isspace :: "char \<Rightarrow> bool" where
  "c_isspace c = (let n = of_char c :: nat in n = 32 \<or> (9 \<le> n \<and> n \<le> 13))"

definition c_isdigit :: "char \<Rightarrow> bool" where
  "c_isdigit c = (let n = of_char c :: nat in 48 \<le> n \<and> n \<le> 57)"

definition digits_value :: "string \<Rightarrow> int" where
  "digits_value ds = foldl (\<lambda>v c. 10 * v + (of_char c - 48)) 0 ds"

definition clamp_long :: "int \<Rightarrow> int" where
  "clamp_long v = max (- (2 ^ 63)) (min (2 ^ 63 - 1) v)"

text \<open>\<open>strtol(s, &end, 10)\<close>: the value and the text from \<open>end\<close> on.\<close>

definition c_strtol :: "string \<Rightarrow> int \<times> string" where
  "c_strtol s =
     (let t = dropWhile c_isspace s;
          (neg, t) = (case t of c # r \<Rightarrow> if c = CHR ''-'' then (True, r)
                                        else if c = CHR ''+'' then (False, r) else (False, t)
                      | [] \<Rightarrow> (False, t));
          ds = takeWhile c_isdigit t
      in if ds = [] then (0, s)
         else (clamp_long (if neg then - digits_value ds else digits_value ds), dropWhile c_isdigit t))"

text \<open>The value of an option from the text of its variable; \<open>None\<close> for an invalid value.\<close>

definition mi_option_parse :: "string \<Rightarrow> i64 option" where
  "mi_option_parse v =
     (let buf = map c_toupper (take 64 v) in
      if buf = [] \<or> c_strstr ''1;TRUE;YES;ON'' buf then Some 1
      else if c_strstr ''0;FALSE;NO;OFF'' buf then Some 0
      else let (value, end_text) = c_strtol buf in
        if end_text = [] then Some (word_of_int value) else None)"

definition mi_getenv :: "string option" where
  "mi_getenv = None"

section \<open>Reading and setting options\<close>

definition mi_option_init :: "mi_option \<Rightarrow> 'a opt_state_scheme \<Rightarrow> 'a opt_state_scheme" where
  "mi_option_init opt s =
     (let desc = st_options s opt in
      if st_preloading s then s
      else case mi_getenv of
        Some v \<Rightarrow>
          (case mi_option_parse v of
             Some value \<Rightarrow> opt_write opt (desc\<lparr>opt_value := value, opt_init := INITIALIZED\<rparr>) s
           | None \<Rightarrow> opt_write opt (desc\<lparr>opt_init := DEFAULTED\<rparr>) s)
      | None \<Rightarrow> opt_write opt (desc\<lparr>opt_init := DEFAULTED\<rparr>) s)"

definition mi_option_get :: "mi_option \<Rightarrow> 'a opt_state_scheme \<Rightarrow> i64 \<times> 'a opt_state_scheme" where
  "mi_option_get opt s =
     (let s = (if opt_init (st_options s opt) = UNINIT then mi_option_init opt s else s)
      in (opt_value (st_options s opt), s))"

definition mi_option_set :: "mi_option \<Rightarrow> i64 \<Rightarrow> 'a opt_state_scheme \<Rightarrow> 'a opt_state_scheme" where
  "mi_option_set opt value s = opt_write opt \<lparr>opt_value = value, opt_init = INITIALIZED\<rparr> s"

definition mi_option_set_default :: "mi_option \<Rightarrow> i64 \<Rightarrow> 'a opt_state_scheme \<Rightarrow> 'a opt_state_scheme" where
  "mi_option_set_default opt value s =
     (let desc = st_options s opt in
      if opt_init desc \<noteq> INITIALIZED then opt_write opt (desc\<lparr>opt_value := value\<rparr>) s else s)"

definition mi_option_is_enabled :: "mi_option \<Rightarrow> 'a opt_state_scheme \<Rightarrow> bool \<times> 'a opt_state_scheme" where
  "mi_option_is_enabled opt s = (let (v, s) = mi_option_get opt s in (v \<noteq> 0, s))"

definition mi_option_set_enabled :: "mi_option \<Rightarrow> bool \<Rightarrow> 'a opt_state_scheme \<Rightarrow> 'a opt_state_scheme" where
  "mi_option_set_enabled opt enable s = mi_option_set opt (if enable then 1 else 0) s"

definition mi_option_set_enabled_default ::
    "mi_option \<Rightarrow> bool \<Rightarrow> 'a opt_state_scheme \<Rightarrow> 'a opt_state_scheme" where
  "mi_option_set_enabled_default opt enable s = mi_option_set_default opt (if enable then 1 else 0) s"

definition mi_option_enable :: "mi_option \<Rightarrow> 'a opt_state_scheme \<Rightarrow> 'a opt_state_scheme" where
  "mi_option_enable opt s = mi_option_set_enabled opt True s"

definition mi_option_disable :: "mi_option \<Rightarrow> 'a opt_state_scheme \<Rightarrow> 'a opt_state_scheme" where
  "mi_option_disable opt s = mi_option_set_enabled opt False s"

section \<open>Delayed output\<close>

definition MI_MAX_DELAY_OUTPUT :: u64 where [mi_consts]: "MI_MAX_DELAY_OUTPUT = 32768"

text \<open>
  \<open>mi_out_buf\<close> claims room for a message; the copy itself is commented out. The result is the
  range of the buffer that the message may use, if any.
\<close>

definition mi_out_buf :: "string \<Rightarrow> 'a opt_state_scheme \<Rightarrow> (u64 \<times> u64) option \<times> 'a opt_state_scheme" where
  "mi_out_buf msg s =
     (if MI_MAX_DELAY_OUTPUT \<le> st_out_len s then (None, s)
      else let n = word_of_nat (length msg) in
        if n = 0 then (None, s)
        else let start = st_out_len s; s = s\<lparr>st_out_len := start + n\<rparr> in
          if MI_MAX_DELAY_OUTPUT \<le> start then (None, s)
          else let n = (if MI_MAX_DELAY_OUTPUT \<le> start + n then MI_MAX_DELAY_OUTPUT - start - 1 else n)
            in (Some (start, n), s))"

text \<open>Flushing: the text handed to the output function, and the state.\<close>

definition mi_out_buf_flush ::
    "out_fun \<Rightarrow> bool \<Rightarrow> 'a opt_state_scheme \<Rightarrow> string option \<times> 'a opt_state_scheme" where
  "mi_out_buf_flush out no_more_buf s =
     (if out = OutNull then (None, s)
      else let count = st_out_len s;
               s = s\<lparr>st_out_len := st_out_len s + (if no_more_buf then MI_MAX_DELAY_OUTPUT else 1)\<rparr>;
               count = (if MI_MAX_DELAY_OUTPUT < count then MI_MAX_DELAY_OUTPUT else count);
               s = s\<lparr>st_out_buf := (st_out_buf s)(unat count := CHR 0x00)\<rparr>;
               txt = takeWhile (\<lambda>c. c \<noteq> CHR 0x00) (map (st_out_buf s) [0..<unat count + 1]);
               s = (if no_more_buf then s else s\<lparr>st_out_buf := (st_out_buf s)(unat count := CHR 0x0A)\<rparr>)
           in (Some txt, s))"

definition mi_register_output :: "out_fun \<Rightarrow> addr \<Rightarrow> 'a opt_state_scheme \<Rightarrow> 'a opt_state_scheme" where
  "mi_register_output out arg s =
     (let s = s\<lparr>st_out_default := (if out = OutNull then OutStderr else out), st_out_arg := arg\<rparr> in
      if out \<noteq> OutNull then snd (mi_out_buf_flush out True s) else s)"

definition mi_add_stderr_output :: "'a opt_state_scheme \<Rightarrow> 'a opt_state_scheme" where
  "mi_add_stderr_output s =
     (let s = snd (mi_out_buf_flush OutStderr False s) in s\<lparr>st_out_default := OutBufStderr\<rparr>)"

section \<open>Messages\<close>

definition mi_recurse_enter :: "'a opt_state_scheme \<Rightarrow> bool \<times> 'a opt_state_scheme" where
  "mi_recurse_enter s = (if st_msg_recurse s then (False, s) else (True, s\<lparr>st_msg_recurse := True\<rparr>))"

definition mi_recurse_exit :: "'a opt_state_scheme \<Rightarrow> 'a opt_state_scheme" where
  "mi_recurse_exit s = s\<lparr>st_msg_recurse := False\<rparr>"

text \<open>The formatting inside the guard is commented out and \<open>_mi_fputs\<close> is empty.\<close>

definition mi_vfprintf :: "'a opt_state_scheme \<Rightarrow> 'a opt_state_scheme" where
  "mi_vfprintf s =
     (let (ok, s) = mi_recurse_enter s in if \<not> ok then s else mi_recurse_exit s)"

definition mi_trace_message :: "'a opt_state_scheme \<Rightarrow> 'a opt_state_scheme" where
  "mi_trace_message s =
     (let (v, s) = mi_option_get opt_verbose s in if sint v \<le> 1 then s else mi_vfprintf s)"

text \<open>
  The warning is shown when errors are shown or in verbose mode, until the maximum count: the
  atomic increment returns the count before it.
\<close>

definition mi_warning_message :: "'a opt_state_scheme \<Rightarrow> bool \<times> 'a opt_state_scheme" where
  "mi_warning_message s =
     (let (show_errors, s) = mi_option_is_enabled opt_show_errors s;
          (verbose, s) = (if show_errors then (False, s) else mi_option_is_enabled opt_verbose s)
      in if \<not> show_errors \<and> \<not> verbose then (False, s)
         else let prev = st_error_count s; s = s\<lparr>st_error_count := prev + 1\<rparr> in
           if st_max_error_count s < prev then (False, s) else (True, mi_vfprintf s))"

definition mi_register_error :: "addr \<Rightarrow> addr \<Rightarrow> 'a opt_state_scheme \<Rightarrow> 'a opt_state_scheme" where
  "mi_register_error f arg s = s\<lparr>st_error_handler := f, st_error_arg := arg\<rparr>"

fun mi_options_load :: "mi_option list \<Rightarrow> 'a opt_state_scheme \<Rightarrow> 'a opt_state_scheme" where
  "mi_options_load [] s = s"
| "mi_options_load (opt # opts) s = mi_options_load opts (snd (mi_option_get opt s))"

definition mi_options_init :: "'a opt_state_scheme \<Rightarrow> 'a opt_state_scheme" where
  "mi_options_init s =
     (let s = mi_add_stderr_output s;
          s = mi_options_load
                [opt_show_errors, opt_show_stats, opt_verbose, opt_eager_commit,
                 opt_eager_region_commit, opt_reset_decommits, opt_large_os_pages,
                 opt_reserve_huge_os_pages, opt_segment_cache, opt_page_reset,
                 opt_abandoned_page_reset, opt_segment_reset, opt_eager_commit_delay,
                 opt_reset_delay, opt_use_numa_nodes, opt_os_tag, opt_max_errors] s;
          (v, s) = mi_option_get opt_max_errors s
      in s\<lparr>st_max_error_count := v\<rparr>)"

section \<open>Properties\<close>

lemma st_options_opt_write [simp]: "st_options (opt_write opt d s) = (st_options s)(opt := d)"
  by (simp add: opt_write_def)

lemma st_preloading_opt_write [simp]: "st_preloading (opt_write opt d s) = st_preloading s"
  by (simp add: opt_write_def)

lemma mi_option_get_init:
  "st_options (snd (mi_option_get opt s)) opt' =
     (if opt' = opt \<and> opt_init (st_options s opt) = UNINIT \<and> \<not> st_preloading s
      then (st_options s opt)\<lparr>opt_init := DEFAULTED\<rparr> else st_options s opt')"
  by (auto simp: mi_option_get_def mi_option_init_def mi_getenv_def Let_def)

lemma mi_option_get_value: "fst (mi_option_get opt s) = opt_value (st_options s opt)"
  by (simp add: mi_option_get_def mi_option_init_def mi_getenv_def Let_def)

text \<open>
  An explicitly set option wins: after \<open>mi_option_set\<close> reading it gives the set value, and
  neither a later read of any option nor a later \<open>mi_option_set_default\<close> changes it, while a
  default given to an option that was never set is what a read returns.
\<close>

theorem mi_option_set_wins:
  "fst (mi_option_get opt (mi_option_set_default opt d (snd (mi_option_get opt' (mi_option_set opt v s))))) = v
   \<and> (opt_init (st_options s opt) \<noteq> INITIALIZED \<longrightarrow>
        fst (mi_option_get opt (mi_option_set_default opt d s)) = d)"
  by (simp add: mi_option_get_value mi_option_get_init mi_option_set_def mi_option_set_default_def Let_def)

lemma mi_option_set_wins_witness:
  "fst (mi_option_get opt_verbose (mi_option_set_default opt_verbose 7
     opt_state_load)) = 7"
  using mi_option_set_wins [of opt_verbose 7 opt_verbose 0 opt_state_load]
  by (simp add: opt_state_load_def options_default_def)

text \<open>
  The delayed output buffer is never overrun: whatever was logged before, the range that
  \<open>mi_out_buf\<close> hands out lies inside the first \<open>MI_MAX_DELAY_OUTPUT\<close> bytes, and consecutive
  messages get disjoint ranges in order.
\<close>

theorem mi_out_buf_bounds:
  assumes "mi_out_buf msg s = (Some (start, n), s')" and "length msg < 2 ^ 32"
    and "mi_out_buf msg' s' = (Some (start', n'), s'')" and "length msg' < 2 ^ 32"
  shows "unat start + unat n \<le> unat start' \<and> unat start' + unat n' < unat MI_MAX_DELAY_OUTPUT"
proof -
  have bound: "unat st + unat k < 32768 \<and> unat st + unat k \<le> unat (st_out_len t')"
    if m: "mi_out_buf ms t = (Some (st, k), t')" and len: "length ms < 2 ^ 32" for ms t t' st k
  proof -
    let ?n = "word_of_nat (length ms) :: u64"
    have un: "unat ?n = length ms" using len by (simp add: unat_of_nat)
    have st: "st = st_out_len t" and lt: "unat (st_out_len t) < 32768"
      and t': "st_out_len t' = st_out_len t + ?n"
      and k: "k = (if 32768 \<le> st_out_len t + ?n then 32768 - st_out_len t - 1 else ?n)"
      using m by (auto simp: mi_out_buf_def Let_def MI_MAX_DELAY_OUTPUT_def word_le_nat_alt not_le split: if_splits)
    have sum: "unat (st_out_len t + ?n) = unat (st_out_len t) + length ms"
      using lt len by (simp add: unat_add_bounded un)
    have sub1: "unat (32768 - st_out_len t) = 32768 - unat (st_out_len t)"
      using lt by (subst unat_sub_bounded) simp_all
    have sub: "unat (32768 - st_out_len t - 1) = 32767 - unat (st_out_len t)"
      using lt by (subst unat_sub_bounded) (simp_all add: sub1)
    show ?thesis
      using lt sum sub un unfolding st t' k by (auto simp: word_le_nat_alt)
  qed
  have "start' = st_out_len s'"
    using assms(3) by (auto simp: mi_out_buf_def Let_def split: if_splits)
  with bound [OF assms(1,2)] bound [OF assms(3,4)] show ?thesis
    by (simp add: MI_MAX_DELAY_OUTPUT_def)
qed

lemma mi_out_buf_bounds_witness:
  "unat (0 :: u64) + unat (2 :: u64) \<le> unat (2 :: u64) \<and> unat (2 :: u64) + unat (3 :: u64) < unat MI_MAX_DELAY_OUTPUT"
proof -
  have "mi_out_buf ''ab'' opt_state_load = (Some (0, 2), opt_state_load\<lparr>st_out_len := 2\<rparr>)"
    "mi_out_buf ''xyz'' (opt_state_load\<lparr>st_out_len := 2\<rparr>) = (Some (2, 3), opt_state_load\<lparr>st_out_len := 5\<rparr>)"
    by (simp_all add: mi_out_buf_def opt_state_load_def MI_MAX_DELAY_OUTPUT_def)
  then show ?thesis
    using mi_out_buf_bounds [of "''ab''" opt_state_load 0 2 "opt_state_load\<lparr>st_out_len := 2\<rparr>" "''xyz''" 2 3]
    by simp
qed

end
