(* ===== verification/Os.thy ===== *)
theory Os
  imports Options
begin

text \<open>
  The operating system layer (\<open>os.c\<close>, the Linux/\<open>mmap\<close> code). The system calls are not code
  of this repository: they are the fields of \<open>os_env\<close>, arbitrary functions of the calls made so
  far and of their arguments; \<open>env_malloc_words\<close> are the words that fresh C heap memory holds. Every call is recorded in a log, which the properties speak of.
\<close>

section \<open>The system interface\<close>

datatype mmap_kind = MmapNormal | MmapHuge2MB | MmapHuge1GB

text \<open>
  The size code that Linux keeps in the flags of a huge mapping. The codes of 2MiB and 1GiB have
  bits in common.
\<close>

fun mmap_bits :: "mmap_kind \<Rightarrow> u32" where
  "mmap_bits MmapNormal = 0"
| "mmap_bits MmapHuge2MB = push_bit 26 21"
| "mmap_bits MmapHuge1GB = push_bit 26 30"

datatype madvise_kind = MADV_FREE | MADV_DONTNEED | MADV_HUGEPAGE

datatype sys_result = SysOk | SysEINVAL | SysError

datatype os_event =
    EvMmap addr u64
  | EvMunmap addr u64 bool
  | EvMprotect addr u64 bool
  | EvMadvise addr u64 madvise_kind
  | EvMmapFixed addr u64
  | EvMalloc addr u64

record os_env =
  env_mmap :: "os_event list \<Rightarrow> addr \<Rightarrow> u64 \<Rightarrow> bool \<Rightarrow> mmap_kind \<Rightarrow> addr option"
  env_mmap_fixed :: "os_event list \<Rightarrow> addr \<Rightarrow> u64 \<Rightarrow> addr option"
  env_munmap :: "os_event list \<Rightarrow> addr \<Rightarrow> u64 \<Rightarrow> sys_result"
  env_mprotect :: "os_event list \<Rightarrow> addr \<Rightarrow> u64 \<Rightarrow> bool \<Rightarrow> sys_result"
  env_madvise :: "os_event list \<Rightarrow> addr \<Rightarrow> u64 \<Rightarrow> madvise_kind \<Rightarrow> sys_result"
  env_mbind :: "os_event list \<Rightarrow> addr \<Rightarrow> u64 \<Rightarrow> u64 \<Rightarrow> sys_result"
  env_malloc :: "os_event list \<Rightarrow> u64 \<Rightarrow> addr"
  env_malloc_words :: "os_event list \<Rightarrow> nat \<Rightarrow> u64"
  env_pagesize :: i64
  env_getcpu :: "os_event list \<Rightarrow> u64 option"
  env_node_exists :: "nat \<Rightarrow> bool"

record os_state = opt_state +
  st_env :: os_env
  st_log :: "os_event list"
  st_page_size :: u64
  st_alloc_granularity :: u64
  st_large_page_size :: u64
  st_large_page_try_ok :: u64
  st_huge_available :: bool
  st_aligned_base :: u64
  st_huge_start :: u64
  st_reset_advice :: madvise_kind
  st_numa_count :: u64

definition os_event :: "os_event \<Rightarrow> 'a os_state_scheme \<Rightarrow> 'a os_state_scheme" where
  "os_event ev s = s\<lparr>st_log := st_log s @ [ev]\<rparr>"

definition sys_mmap ::
    "addr \<Rightarrow> u64 \<Rightarrow> bool \<Rightarrow> mmap_kind \<Rightarrow> 'a os_state_scheme \<Rightarrow> addr \<times> 'a os_state_scheme" where
  "sys_mmap hint sz rw kind s =
     (case env_mmap (st_env s) (st_log s) hint sz rw kind of
        Some p \<Rightarrow> (p, os_event (EvMmap p sz) s)
      | None \<Rightarrow> (0, os_event (EvMmap 0 sz) s))"

definition sys_munmap :: "addr \<Rightarrow> u64 \<Rightarrow> 'a os_state_scheme \<Rightarrow> sys_result \<times> 'a os_state_scheme" where
  "sys_munmap p sz s =
     (let err = env_munmap (st_env s) (st_log s) p sz
      in (err, os_event (EvMunmap p sz (err = SysOk)) s))"

definition sys_mprotect :: "addr \<Rightarrow> u64 \<Rightarrow> bool \<Rightarrow> 'a os_state_scheme \<Rightarrow> sys_result \<times> 'a os_state_scheme" where
  "sys_mprotect p sz rw s =
     (env_mprotect (st_env s) (st_log s) p sz rw, os_event (EvMprotect p sz rw) s)"

definition sys_madvise ::
    "addr \<Rightarrow> u64 \<Rightarrow> madvise_kind \<Rightarrow> 'a os_state_scheme \<Rightarrow> sys_result \<times> 'a os_state_scheme" where
  "sys_madvise p sz advice s =
     (env_madvise (st_env s) (st_log s) p sz advice, os_event (EvMadvise p sz advice) s)"

section \<open>Sizes\<close>

definition KiB :: u64 where [mi_consts]: "KiB = 1024"
definition MiB :: u64 where [mi_consts]: "MiB = 1048576"
definition GiB :: u64 where [mi_consts]: "GiB = 1073741824"
definition MI_HUGE_OS_PAGE_SIZE :: u64 where [mi_consts]: "MI_HUGE_OS_PAGE_SIZE = 1073741824"

definition mi_align_down :: "u64 \<Rightarrow> u64 \<Rightarrow> u64" where
  "mi_align_down sz alignment = (sz div alignment) * alignment"

definition mi_os_page_size :: "'a os_state_scheme \<Rightarrow> u64" where
  "mi_os_page_size s = st_page_size s"

definition mi_os_large_page_size :: "'a os_state_scheme \<Rightarrow> u64" where
  "mi_os_large_page_size s = (if st_large_page_size s \<noteq> 0 then st_large_page_size s else mi_os_page_size s)"

definition use_large_os_page :: "u64 \<Rightarrow> u64 \<Rightarrow> 'a os_state_scheme \<Rightarrow> bool \<times> 'a os_state_scheme" where
  "use_large_os_page sz alignment s =
     (if st_large_page_size s = 0 then (False, s)
      else let (en, s) = mi_option_is_enabled opt_large_os_pages s in
        if \<not> en then (False, s)
        else (sz mod st_large_page_size s = 0 \<and> alignment mod st_large_page_size s = 0, s))"

definition mi_os_good_alloc_size :: "u64 \<Rightarrow> u64 \<Rightarrow> u64" where
  "mi_os_good_alloc_size page_size sz =
     (let align_size =
            (if sz < 512 * KiB then page_size
             else if sz < 2 * MiB then 64 * KiB
             else if sz < 8 * MiB then 256 * KiB
             else if sz < 32 * MiB then MiB
             else 4 * MiB)
      in if SIZE_MAX - align_size \<le> sz then sz else mi_align_up sz align_size)"

definition mi_os_init :: "'a os_state_scheme \<Rightarrow> 'a os_state_scheme" where
  "mi_os_init s =
     (let result = env_pagesize (st_env s);
          s = (if 0 < sint result then s\<lparr>st_page_size := result, st_alloc_granularity := result\<rparr> else s)
      in s\<lparr>st_large_page_size := 2 * MiB\<rparr>)"

section \<open>Raw allocation\<close>

definition mi_os_mem_free ::
    "addr \<Rightarrow> u64 \<Rightarrow> bool \<Rightarrow> stats_ref \<Rightarrow> 'a os_state_scheme \<Rightarrow> bool \<times> 'a os_state_scheme" where
  "mi_os_mem_free p sz was_committed stats s =
     (if p = 0 \<or> sz = 0 then (True, s)
      else let (err, s) = sys_munmap p sz s;
               s = (if was_committed then stats_apply stats (sts_committed_update (mi_stat_decrease sz)) s else s);
               s = stats_apply stats (sts_reserved_update (mi_stat_decrease sz)) s
           in if err \<noteq> SysOk then (False, snd (mi_warning_message s)) else (True, s))"

text \<open>
  A hint for an aligned address in the range from 4TiB to 30TiB. The random offset is 0 because
  \<open>_mi_random_next\<close> returns 0 in this tree.
\<close>

definition os_random :: u64 where "os_random = 0"

definition mi_os_get_aligned_hint :: "u64 \<Rightarrow> u64 \<Rightarrow> 'a os_state_scheme \<Rightarrow> addr \<times> 'a os_state_scheme" where
  "mi_os_get_aligned_hint try_alignment sz s =
     (if try_alignment = 0 \<or> MI_SEGMENT_SIZE < try_alignment then (0, s)
      else if sz mod MI_SEGMENT_SIZE \<noteq> 0 then (0, s)
      else let hint = st_aligned_base s;
               s = s\<lparr>st_aligned_base := hint + sz\<rparr>;
               (hint, s) =
                 (if hint = 0 \<or> push_bit 40 30 < hint then
                    (let init = push_bit 40 4 + MI_SEGMENT_SIZE * (drop_bit 17 os_random AND 0xFFFFF);
                         s = (if st_aligned_base s = hint + sz then s\<lparr>st_aligned_base := init\<rparr> else s);
                         hint = st_aligned_base s
                     in (hint, s\<lparr>st_aligned_base := hint + sz\<rparr>))
                  else (hint, s))
           in if hint mod try_alignment \<noteq> 0 then (0, s) else (hint, s))"

definition mi_unix_mmapx ::
    "addr \<Rightarrow> u64 \<Rightarrow> u64 \<Rightarrow> bool \<Rightarrow> mmap_kind \<Rightarrow> 'a os_state_scheme \<Rightarrow> addr \<times> 'a os_state_scheme" where
  "mi_unix_mmapx p0 sz try_alignment rw kind s =
     (let (p, s) =
            (if p0 = 0 then
               (let (hint, s) = mi_os_get_aligned_hint try_alignment sz s in
                if hint \<noteq> 0 then sys_mmap hint sz rw kind s else (0, s))
             else (0, s))
      in if p = 0 then sys_mmap p0 sz rw kind s else (p, s))"

text \<open>The attempt with large OS pages inside \<open>mi_unix_mmap\<close>.\<close>

definition mi_unix_mmap_large ::
    "addr \<Rightarrow> u64 \<Rightarrow> u64 \<Rightarrow> bool \<Rightarrow> bool \<Rightarrow> 'a os_state_scheme \<Rightarrow> addr \<times> 'a os_state_scheme" where
  "mi_unix_mmap_large p0 sz try_alignment rw large_only s =
     (let try_ok = st_large_page_try_ok s in
      if \<not> large_only \<and> 0 < try_ok then (0, s\<lparr>st_large_page_try_ok := try_ok - 1\<rparr>)
      else
        let kind = (if sz mod GiB = 0 \<and> st_huge_available s then MmapHuge1GB else MmapHuge2MB);
            (p, s) = mi_unix_mmapx p0 sz try_alignment rw kind s;
            (p, s) =
              (if p = 0 \<and> mmap_bits kind AND mmap_bits MmapHuge1GB \<noteq> 0 then
                 mi_unix_mmapx p0 sz try_alignment rw MmapHuge2MB
                   (snd (mi_warning_message (s\<lparr>st_huge_available := False\<rparr>)))
               else (p, s));
            s = (if \<not> large_only \<and> p = 0 then s\<lparr>st_large_page_try_ok := 10\<rparr> else s)
        in (p, s))"

text \<open>Returns the address and whether large OS pages are used.\<close>

definition mi_unix_mmap ::
    "addr \<Rightarrow> u64 \<Rightarrow> u64 \<Rightarrow> bool \<Rightarrow> bool \<Rightarrow> bool \<Rightarrow> 'a os_state_scheme \<Rightarrow> addr \<times> bool \<times> 'a os_state_scheme" where
  "mi_unix_mmap p0 sz try_alignment rw large_only allow_large s =
     (let (try_large, s) = (if large_only then (True, s) else use_large_os_page sz try_alignment s);
          (p, s) = (if try_large \<and> allow_large
                    then mi_unix_mmap_large p0 sz try_alignment rw large_only s else (0, s))
      in if (large_only \<and> allow_large) \<or> p \<noteq> 0 then (p, True, s)
         else
           let (p, s) = mi_unix_mmapx p0 sz try_alignment rw MmapNormal s;
               (use_large, s) = (if allow_large then use_large_os_page sz try_alignment s else (False, s));
               (is_large, s) =
                 (if use_large then
                    (let (err, s) = sys_madvise p sz MADV_HUGEPAGE s in (err = SysOk, s))
                  else (False, s))
           in (p, is_large, s))"

definition mi_os_mem_alloc ::
    "u64 \<Rightarrow> u64 \<Rightarrow> bool \<Rightarrow> bool \<Rightarrow> stats_ref \<Rightarrow> 'a os_state_scheme \<Rightarrow> addr \<times> bool option \<times> 'a os_state_scheme" where
  "mi_os_mem_alloc sz try_alignment commit allow_large stats s =
     (if sz = 0 then (0, None, s)
      else let allow_large = (if \<not> commit then False else allow_large);
               (p, is_large, s) = mi_unix_mmap 0 sz try_alignment commit False allow_large s;
               s = (if p \<noteq> 0 then
                      (let s = stats_apply stats (sts_reserved_update (mi_stat_increase sz)) s in
                       if commit then stats_apply stats (sts_committed_update (mi_stat_increase sz)) s else s)
                    else s)
           in (p, Some is_large, s))"

text \<open>
  The value a call leaves in \<open>*is_large\<close>: \<open>None\<close> when it is not written.
\<close>

definition written :: "bool \<Rightarrow> bool option \<Rightarrow> bool" where
  "written old new = (case new of None \<Rightarrow> old | Some b \<Rightarrow> b)"

text \<open>Unmapping the parts of an over-allocation before and after the aligned part.\<close>

definition cut_down ::
    "addr \<Rightarrow> addr \<Rightarrow> u64 \<Rightarrow> u64 \<Rightarrow> bool \<Rightarrow> stats_ref \<Rightarrow> 'a os_state_scheme \<Rightarrow> 'a os_state_scheme" where
  "cut_down p aligned_p over_size mid_size commit stats s =
     (let pre_size = aligned_p - p;
          post_size = over_size - pre_size - mid_size;
          s = (if 0 < pre_size then snd (mi_os_mem_free p pre_size commit stats s) else s)
      in if 0 < post_size then snd (mi_os_mem_free (aligned_p + mid_size) post_size commit stats s) else s)"

definition mi_os_mem_alloc_aligned ::
    "u64 \<Rightarrow> u64 \<Rightarrow> bool \<Rightarrow> bool \<Rightarrow> bool \<Rightarrow> stats_ref \<Rightarrow> 'a os_state_scheme \<Rightarrow> addr \<times> bool \<times> 'a os_state_scheme" where
  "mi_os_mem_alloc_aligned sz alignment commit allow_large is_large stats s =
     (let allow_large = (if \<not> commit then False else allow_large) in
      if \<not> (mi_os_page_size s \<le> alignment \<and> alignment AND (alignment - 1) = 0) then (0, is_large, s)
      else
        let sz = mi_align_up sz (mi_os_page_size s);
            (p, lg, s) = mi_os_mem_alloc sz alignment commit allow_large stats s;
            is_large = written is_large lg
        in if p = 0 then (0, is_large, s)
           else if p mod alignment \<noteq> 0 then
             let s = snd (mi_os_mem_free p sz commit stats s) in
             if SIZE_MAX - alignment \<le> sz then (0, is_large, s)
             else
               let over_size = sz + alignment;
                   (p, lg, s) = mi_os_mem_alloc over_size alignment commit False stats s;
                   is_large = written is_large lg
               in if p = 0 then (0, is_large, s)
                  else
                    let aligned_p = mi_align_up p alignment in
                    (aligned_p, is_large,
                     cut_down p aligned_p over_size (mi_align_up sz (mi_os_page_size s)) commit stats s)
           else (p, is_large, s))"

section \<open>The interface for the rest of the allocator\<close>

text \<open>\<open>_mi_os_alloc\<close> calls the C library's \<open>malloc\<close> in this tree; \<open>_mi_os_free\<close> unmaps.\<close>

definition mi_os_alloc :: "u64 \<Rightarrow> stats_ref \<Rightarrow> 'a os_state_scheme \<Rightarrow> addr \<times> 'a os_state_scheme" where
  "mi_os_alloc sz stats s =
     (let p = env_malloc (st_env s) (st_log s) sz in (p, os_event (EvMalloc p sz) s))"

definition mi_os_free_ex ::
    "addr \<Rightarrow> u64 \<Rightarrow> bool \<Rightarrow> stats_ref \<Rightarrow> 'a os_state_scheme \<Rightarrow> 'a os_state_scheme" where
  "mi_os_free_ex p sz was_committed stats s =
     (if sz = 0 \<or> p = 0 then s
      else snd (mi_os_mem_free p (mi_os_good_alloc_size (mi_os_page_size s) sz) was_committed stats s))"

definition mi_os_free :: "addr \<Rightarrow> u64 \<Rightarrow> stats_ref \<Rightarrow> 'a os_state_scheme \<Rightarrow> 'a os_state_scheme" where
  "mi_os_free p sz stats s = mi_os_free_ex p sz True stats s"

text \<open>\<open>large\<close> is \<open>None\<close> for a null pointer; the flag is returned.\<close>

definition mi_os_alloc_aligned ::
    "u64 \<Rightarrow> u64 \<Rightarrow> bool \<Rightarrow> bool option \<Rightarrow> stats_ref \<Rightarrow> 'a os_state_scheme \<Rightarrow> addr \<times> bool option \<times> 'a os_state_scheme" where
  "mi_os_alloc_aligned sz alignment commit large stats s =
     (if sz = 0 then (0, large, s)
      else
        let sz = mi_os_good_alloc_size (mi_os_page_size s) sz;
            alignment = mi_align_up alignment (mi_os_page_size s);
            allow_large = (case large of None \<Rightarrow> False | Some l \<Rightarrow> l);
            (p, lg, s) = mi_os_mem_alloc_aligned sz alignment commit allow_large False stats s
        in (p, map_option (\<lambda>_. lg) large, s))"

text \<open>The page-aligned area inside or around a range: its start and size, if it is not empty.\<close>

definition mi_os_page_align_areax :: "bool \<Rightarrow> addr \<Rightarrow> u64 \<Rightarrow> u64 \<Rightarrow> addr \<times> u64" where
  "mi_os_page_align_areax conservative p sz page_size =
     (if sz = 0 \<or> p = 0 then (0, 0)
      else
        let start = (if conservative then mi_align_up p page_size else mi_align_down p page_size);
            end_p = (if conservative then mi_align_down (p + sz) page_size else mi_align_up (p + sz) page_size);
            diff = end_p - start
        in if sint diff \<le> 0 then (0, 0) else (start, diff))"

text \<open>Returns success and, when it is asked for, whether the memory is known to be zero.\<close>

definition mi_os_commitx ::
    "addr \<Rightarrow> u64 \<Rightarrow> bool \<Rightarrow> bool \<Rightarrow> stats_ref \<Rightarrow> 'a os_state_scheme \<Rightarrow> bool \<times> bool \<times> 'a os_state_scheme" where
  "mi_os_commitx p sz commit conservative stats s =
     (let (start, csize) = mi_os_page_align_areax conservative p sz (mi_os_page_size s) in
      if csize = 0 then (True, False, s)
      else
        let s = (if commit then
                   stats_apply stats (sts_commit_calls_update (mi_stat_counter_increase 1))
                     (stats_apply stats (sts_committed_update (mi_stat_increase csize)) s)
                 else stats_apply stats (sts_committed_update (mi_stat_decrease csize)) s);
            (ok, s) =
              (if \<not> commit then
                 (let r = env_mmap_fixed (st_env s) (st_log s) start csize in
                  (r = Some start, os_event (EvMmapFixed start csize) s))
               else (let (err, s) = sys_mprotect start csize True s in (err = SysOk, s)));
            s = (if \<not> ok then snd (mi_warning_message s) else s)
        in (ok, False, s))"

definition mi_os_commit ::
    "addr \<Rightarrow> u64 \<Rightarrow> stats_ref \<Rightarrow> 'a os_state_scheme \<Rightarrow> bool \<times> bool \<times> 'a os_state_scheme" where
  "mi_os_commit p sz stats s = mi_os_commitx p sz True False stats s"

definition mi_os_decommit ::
    "addr \<Rightarrow> u64 \<Rightarrow> stats_ref \<Rightarrow> 'a os_state_scheme \<Rightarrow> bool \<times> 'a os_state_scheme" where
  "mi_os_decommit p sz stats s = (let (ok, _, s) = mi_os_commitx p sz False True stats s in (ok, s))"

definition mi_os_commit_unreset ::
    "addr \<Rightarrow> u64 \<Rightarrow> stats_ref \<Rightarrow> 'a os_state_scheme \<Rightarrow> bool \<times> bool \<times> 'a os_state_scheme" where
  "mi_os_commit_unreset p sz stats s = mi_os_commitx p sz True True stats s"

definition mi_os_resetx ::
    "addr \<Rightarrow> u64 \<Rightarrow> bool \<Rightarrow> stats_ref \<Rightarrow> 'a os_state_scheme \<Rightarrow> bool \<times> 'a os_state_scheme" where
  "mi_os_resetx p sz reset stats s =
     (let (start, csize) = mi_os_page_align_areax True p sz (mi_os_page_size s) in
      if csize = 0 then (True, s)
      else
        let s = stats_apply stats (sts_reset_update
                  (if reset then mi_stat_increase csize else mi_stat_decrease csize)) s
        in if \<not> reset then (True, s)
           else
             let (err, s) = sys_madvise start csize (st_reset_advice s) s;
                 (err, s) =
                   (if err = SysEINVAL \<and> st_reset_advice s = MADV_FREE then
                      sys_madvise start csize MADV_DONTNEED (s\<lparr>st_reset_advice := MADV_DONTNEED\<rparr>)
                    else (err, s))
             in if err \<noteq> SysOk then (False, snd (mi_warning_message s)) else (True, s))"

definition mi_os_reset :: "addr \<Rightarrow> u64 \<Rightarrow> stats_ref \<Rightarrow> 'a os_state_scheme \<Rightarrow> bool \<times> 'a os_state_scheme" where
  "mi_os_reset p sz stats s =
     (let (decommits, s) = mi_option_is_enabled opt_reset_decommits s in
      if decommits then mi_os_decommit p sz stats s else mi_os_resetx p sz True stats s)"

definition mi_os_unreset ::
    "addr \<Rightarrow> u64 \<Rightarrow> stats_ref \<Rightarrow> 'a os_state_scheme \<Rightarrow> bool \<times> bool \<times> 'a os_state_scheme" where
  "mi_os_unreset p sz stats s =
     (let (decommits, s) = mi_option_is_enabled opt_reset_decommits s in
      if decommits then mi_os_commit_unreset p sz stats s
      else (let (ok, s) = mi_os_resetx p sz False stats s in (ok, False, s)))"

definition mi_os_protectx :: "addr \<Rightarrow> u64 \<Rightarrow> bool \<Rightarrow> 'a os_state_scheme \<Rightarrow> bool \<times> 'a os_state_scheme" where
  "mi_os_protectx p sz protect s =
     (let (start, csize) = mi_os_page_align_areax True p sz (mi_os_page_size s) in
      if csize = 0 then (False, s)
      else
        let (err, s) = sys_mprotect start csize (\<not> protect) s;
            s = (if err \<noteq> SysOk then snd (mi_warning_message s) else s)
        in (err = SysOk, s))"

definition mi_os_protect :: "addr \<Rightarrow> u64 \<Rightarrow> 'a os_state_scheme \<Rightarrow> bool \<times> 'a os_state_scheme" where
  "mi_os_protect p sz s = mi_os_protectx p sz True s"

definition mi_os_unprotect :: "addr \<Rightarrow> u64 \<Rightarrow> 'a os_state_scheme \<Rightarrow> bool \<times> 'a os_state_scheme" where
  "mi_os_unprotect p sz s = mi_os_protectx p sz False s"

definition mi_os_shrink ::
    "addr \<Rightarrow> u64 \<Rightarrow> u64 \<Rightarrow> stats_ref \<Rightarrow> 'a os_state_scheme \<Rightarrow> bool \<times> 'a os_state_scheme" where
  "mi_os_shrink p oldsize newsize stats s =
     (if oldsize < newsize \<or> p = 0 then (False, s)
      else if oldsize = newsize then (True, s)
      else
        let q = p + newsize;
            (start, sz) = mi_os_page_align_areax True q (oldsize - newsize) (mi_os_page_size s)
        in if sz = 0 \<or> start \<noteq> q then (False, s) else mi_os_mem_free start sz True stats s)"

section \<open>Huge pages and NUMA nodes\<close>

definition mi_os_alloc_huge_os_pagesx ::
    "addr \<Rightarrow> u64 \<Rightarrow> int \<Rightarrow> 'a os_state_scheme \<Rightarrow> addr \<times> 'a os_state_scheme" where
  "mi_os_alloc_huge_os_pagesx p0 sz numa_node s =
     (let (p, _, s) = mi_unix_mmap p0 sz MI_SEGMENT_SIZE True True True s in
      if p = 0 then (0, s)
      else if 0 \<le> numa_node \<and> numa_node < 64 then
        (let err = env_mbind (st_env s) (st_log s) p sz (push_bit (nat numa_node) 1);
             s = (if err \<noteq> SysOk then snd (mi_warning_message s) else s)
         in (p, s))
      else (p, s))"

text \<open>Claims an address range; returns its start and its size.\<close>

definition mi_os_claim_huge_pages :: "u64 \<Rightarrow> 'a os_state_scheme \<Rightarrow> addr \<times> u64 \<times> 'a os_state_scheme" where
  "mi_os_claim_huge_pages pages s =
     (let sz = pages * MI_HUGE_OS_PAGE_SIZE;
          start = (if st_huge_start s = 0
                   then push_bit 40 32 + MI_HUGE_OS_PAGE_SIZE * (drop_bit 17 os_random AND 0x0FFF)
                   else st_huge_start s);
          end_p = start + sz
      in (start, sz, s\<lparr>st_huge_start := end_p\<rparr>))"

text \<open>The loop over the pages from \<open>page\<close> on; returns the number of pages obtained.\<close>

function mi_os_alloc_huge_loop ::
    "addr \<Rightarrow> u64 \<Rightarrow> u64 \<Rightarrow> int \<Rightarrow> i64 \<Rightarrow> i64 \<Rightarrow> 'a os_state_scheme \<Rightarrow> u64 \<times> 'a os_state_scheme" where
  "mi_os_alloc_huge_loop start page pages numa_node max_msecs start_t s =
     (if \<not> page < pages then (page, s)
      else
        let p0 = start + page * MI_HUGE_OS_PAGE_SIZE;
            (p, s) = mi_os_alloc_huge_os_pagesx p0 MI_HUGE_OS_PAGE_SIZE numa_node s
        in if p \<noteq> p0 then
             (if p \<noteq> 0
              then (page, mi_os_free p MI_HUGE_OS_PAGE_SIZE MainStats (snd (mi_warning_message s)))
              else (page, s))
           else
             let s = stats_apply MainStats (sts_committed_update (mi_stat_increase MI_HUGE_OS_PAGE_SIZE)) s;
                 s = stats_apply MainStats (sts_reserved_update (mi_stat_increase MI_HUGE_OS_PAGE_SIZE)) s;
                 (stop, s) =
                   (if 0 < sint max_msecs then
                      (let (elapsed, s) = mi_clock_end start_t s;
                           elapsed =
                             (if 1 \<le> page \<and> sint (2 * max_msecs) < sint ((elapsed div (page + 1)) * pages)
                              then max_msecs + 1 else elapsed)
                       in if sint max_msecs < sint elapsed then (True, snd (mi_warning_message s)) else (False, s))
                    else (False, s))
             in if stop then (page, s)
                else mi_os_alloc_huge_loop start (page + 1) pages numa_node max_msecs start_t s)"
  by pat_completeness auto

termination
proof (relation "measure (\<lambda>(_, page, pages, _). unat pages - unat page)", goal_cases)
  case 1 then show ?case by simp
next
  case (2 start page pages numa_node max_msecs start_t s)
  then show ?case by (simp add: unat_plus_one_less word_less_nat_alt)
qed

declare mi_os_alloc_huge_loop.simps [simp del]

text \<open>Returns the start, the number of pages reserved and their size.\<close>

definition mi_os_alloc_huge_os_pages ::
    "u64 \<Rightarrow> int \<Rightarrow> i64 \<Rightarrow> 'a os_state_scheme \<Rightarrow> addr \<times> u64 \<times> u64 \<times> 'a os_state_scheme" where
  "mi_os_alloc_huge_os_pages pages numa_node max_msecs s =
     (let (start, _, s) = mi_os_claim_huge_pages pages s in
      if start = 0 then (0, 0, 0, s)
      else
        let (start_t, s) = mi_clock_start s;
            (page, s) = mi_os_alloc_huge_loop start 0 pages numa_node max_msecs start_t s
        in (if page = 0 then 0 else start, page, page * MI_HUGE_OS_PAGE_SIZE, s))"

text \<open>The loop frees at \<open>base\<close>, which it never advances.\<close>

function mi_os_free_huge_loop ::
    "addr \<Rightarrow> u64 \<Rightarrow> stats_ref \<Rightarrow> 'a os_state_scheme \<Rightarrow> 'a os_state_scheme" where
  "mi_os_free_huge_loop base sz stats s =
     (if MI_HUGE_OS_PAGE_SIZE \<le> sz
      then mi_os_free_huge_loop base (sz - MI_HUGE_OS_PAGE_SIZE) stats
             (mi_os_free base MI_HUGE_OS_PAGE_SIZE stats s)
      else s)"
  by pat_completeness auto

termination
proof (relation "measure (\<lambda>(_, sz, _). unat sz)", goal_cases)
  case 1 then show ?case by simp
next
  case (2 base sz stats s)
  then show ?case
    by (simp add: unat_sub_bounded word_le_nat_alt MI_HUGE_OS_PAGE_SIZE_def)
qed

declare mi_os_free_huge_loop.simps [simp del]

definition mi_os_free_huge_pages :: "addr \<Rightarrow> u64 \<Rightarrow> stats_ref \<Rightarrow> 'a os_state_scheme \<Rightarrow> 'a os_state_scheme" where
  "mi_os_free_huge_pages p sz stats s =
     (if p = 0 \<or> sz = 0 then s else mi_os_free_huge_loop p sz stats s)"

definition mi_os_numa_nodex :: "'a os_state_scheme \<Rightarrow> u64" where
  "mi_os_numa_nodex s = (case env_getcpu (st_env s) (st_log s) of None \<Rightarrow> 0 | Some node \<Rightarrow> node)"

text \<open>Counts \<open>/sys/devices/system/node/node<n+1>\<close> for \<open>n < 256\<close> until one is missing.\<close>

definition mi_os_numa_node_countx :: "'a os_state_scheme \<Rightarrow> u64" where
  "mi_os_numa_node_countx s =
     word_of_nat (length (takeWhile (\<lambda>n. env_node_exists (st_env s) (n + 1)) [0..<256]) + 1)"

definition mi_os_numa_node_count_get :: "'a os_state_scheme \<Rightarrow> u64 \<times> 'a os_state_scheme" where
  "mi_os_numa_node_count_get s =
     (if st_numa_count s = 0 then
        (let (ncount, s) = mi_option_get opt_use_numa_nodes s;
             ncount = (if sint ncount \<le> 0 then mi_os_numa_node_countx s else ncount);
             count = (if sint ncount \<le> 0 then 1 else ncount)
         in (count, s\<lparr>st_numa_count := count\<rparr>))
      else (st_numa_count s, s))"

definition mi_os_numa_node_get :: "'a os_state_scheme \<Rightarrow> u64 \<times> 'a os_state_scheme" where
  "mi_os_numa_node_get s =
     (let (numa_count, s) = mi_os_numa_node_count_get s in
      if numa_count \<le> 1 then (0, s)
      else let numa_node = mi_os_numa_nodex s in
        ((if numa_count \<le> numa_node then numa_node mod numa_count else numa_node), s))"

definition mi_os_numa_node :: "'a os_state_scheme \<Rightarrow> u64 \<times> 'a os_state_scheme" where
  "mi_os_numa_node s = (if st_numa_count s = 1 then (0, s) else mi_os_numa_node_get s)"

definition mi_os_numa_node_count :: "'a os_state_scheme \<Rightarrow> u64 \<times> 'a os_state_scheme" where
  "mi_os_numa_node_count s = (if 0 < st_numa_count s then (st_numa_count s, s) else mi_os_numa_node_count_get s)"

section \<open>What is mapped\<close>

definition addr_range :: "addr \<Rightarrow> u64 \<Rightarrow> nat set" where
  "addr_range p sz = {unat p ..< unat p + unat sz}"

fun event_effect :: "os_event \<Rightarrow> nat set \<Rightarrow> nat set" where
  "event_effect (EvMmap p sz) m = (if p = 0 then m else m \<union> addr_range p sz)"
| "event_effect (EvMunmap p sz ok) m = (if ok then m - addr_range p sz else m)"
| "event_effect _ m = m"

definition mapped :: "os_event list \<Rightarrow> nat set" where
  "mapped log = fold event_effect log {}"

lemma mapped_append [simp]: "mapped (log @ [ev]) = event_effect ev (mapped log)"
  by (simp add: mapped_def)

text \<open>The ranges that a run of events should have unmapped and, as \<open>munmap\<close> failed, did not.\<close>

fun leaked :: "os_event list \<Rightarrow> nat set" where
  "leaked [] = {}"
| "leaked (EvMunmap p sz False # evs) = addr_range p sz \<union> leaked evs"
| "leaked (_ # evs) = leaked evs"

lemma leaked_append [simp]: "leaked (evs @ evs') = leaked evs \<union> leaked evs'"
  by (induction evs rule: leaked.induct) auto

lemma leaked_munmap: "leaked [EvMunmap p sz ok] = (if ok then {} else addr_range p sz)"
  by (cases ok) simp_all

lemma leaked_none: "(\<forall>p sz. EvMunmap p sz False \<notin> set evs) \<Longrightarrow> leaked evs = {}"
  by (induction evs rule: leaked.induct) auto

text \<open>
  What \<open>mmap\<close> promises: a mapping lies inside the address space, not at address 0, and does
  not overlap what is mapped already.
\<close>

definition mmap_fresh :: "os_env \<Rightarrow> bool" where
  "mmap_fresh env \<longleftrightarrow>
     (\<forall>log hint sz rw kind p. env_mmap env log hint sz rw kind = Some p \<longrightarrow>
        p \<noteq> 0 \<and> unat p + unat sz < 2 ^ 64 \<and> addr_range p sz \<inter> mapped log = {})"

section \<open>What the other state components keep\<close>

named_theorems os_frame \<open>operations that leave the log, the system and the page size alone\<close>

definition os_same :: "'a os_state_scheme \<Rightarrow> 'a os_state_scheme \<Rightarrow> bool" where
  "os_same s s' \<longleftrightarrow> st_log s' = st_log s \<and> st_env s' = st_env s \<and> st_page_size s' = st_page_size s"

lemma os_same_refl [os_frame]: "os_same s s"
  by (simp add: os_same_def)

lemma os_same_trans: "os_same s s' \<Longrightarrow> os_same s' s'' \<Longrightarrow> os_same s s''"
  by (simp add: os_same_def)

lemma stats_apply_frame [os_frame]: "os_same s (stats_apply r f s)"
  by (simp add: os_same_def stats_apply_def)

lemma option_get_frame [os_frame]: "os_same s (snd (mi_option_get opt s))"
  by (simp add: os_same_def mi_option_get_def mi_option_init_def mi_getenv_def opt_write_def Let_def)

lemma is_enabled_frame [os_frame]: "os_same s (snd (mi_option_is_enabled opt s))"
  using option_get_frame [of s opt] by (simp add: mi_option_is_enabled_def split_beta)

lemma vfprintf_fields [simp]:
  "st_log (mi_vfprintf s) = st_log s" "st_env (mi_vfprintf s) = st_env s"
  "st_page_size (mi_vfprintf s) = st_page_size s"
  by (simp_all add: mi_vfprintf_def mi_recurse_enter_def mi_recurse_exit_def)

lemma warning_frame [os_frame]: "os_same s (snd (mi_warning_message s))"
  using is_enabled_frame [of s opt_show_errors]
    is_enabled_frame [of "snd (mi_option_is_enabled opt_show_errors s)" opt_verbose]
  unfolding mi_warning_message_def Let_def split_beta
  by (simp add: os_same_def)

lemma use_large_frame [os_frame]: "os_same s (snd (use_large_os_page sz al s))"
  using is_enabled_frame [of s opt_large_os_pages]
  by (simp add: use_large_os_page_def split_beta os_frame)

lemma hint_frame [os_frame]: "os_same s (snd (mi_os_get_aligned_hint al sz s))"
  by (simp add: mi_os_get_aligned_hint_def Let_def os_same_def)

lemmas os_frame_eqs = os_frame [unfolded os_same_def, THEN conjunct1]
  os_frame [unfolded os_same_def, THEN conjunct2, THEN conjunct1]
  os_frame [unfolded os_same_def, THEN conjunct2, THEN conjunct2]

lemma os_event_fields [simp]:
  "st_log (os_event ev s) = st_log s @ [ev]" "st_env (os_event ev s) = st_env s"
  "st_page_size (os_event ev s) = st_page_size s"
  by (simp_all add: os_event_def)

section \<open>Raw allocation: what is mapped\<close>

text \<open>
  An operation gives a fresh range or nothing: the outcome \<open>(p, s')\<close> of a request for \<open>sz\<close> bytes.
  Besides that range, what the events of the operation leave mapped is what its \<open>munmap\<close> calls
  failed to release.
\<close>

definition fresh_run :: "nat set \<Rightarrow> u64 \<Rightarrow> addr \<Rightarrow> nat set \<Rightarrow> nat set \<Rightarrow> bool" where
  "fresh_run m sz p lk m' \<longleftrightarrow>
     (if p = 0 then m' = m \<union> lk
      else unat p + unat sz < 2 ^ 64 \<and> addr_range p sz \<inter> (m \<union> lk) = {}
        \<and> m' = m \<union> lk \<union> addr_range p sz)"

definition fresh_range :: "'a os_state_scheme \<Rightarrow> u64 \<Rightarrow> addr \<Rightarrow> 'a os_state_scheme \<Rightarrow> bool" where
  "fresh_range s sz p s' \<longleftrightarrow>
     st_env s' = st_env s \<and> st_page_size s' = st_page_size s
   \<and> (\<exists>evs. st_log s' = st_log s @ evs
        \<and> fresh_run (mapped (st_log s)) sz p (leaked evs) (mapped (st_log s')))"

lemma fresh_range_keeps:
  "fresh_range s sz p s' \<Longrightarrow> st_env s' = st_env s"
  "fresh_range s sz p s' \<Longrightarrow> st_page_size s' = st_page_size s"
  by (simp_all add: fresh_range_def)

lemma fresh_run_none [simp]: "fresh_run m sz 0 lk m' \<longleftrightarrow> m' = m \<union> lk"
  by (simp add: fresh_run_def)

lemma fresh_run_retry:
  "fresh_run m sz 0 lk m' \<Longrightarrow> fresh_run m' sz' p lk' m'' \<Longrightarrow> fresh_run m sz' p (lk \<union> lk') m''"
  by (auto simp: fresh_run_def split: if_splits)

lemma fresh_range_null: "fresh_range s sz 0 s' \<Longrightarrow> fresh_range s sz' 0 s'"
  by (simp add: fresh_range_def)

lemma fresh_range_frame:
  "fresh_range s sz p s' \<Longrightarrow> os_same s' s'' \<Longrightarrow> fresh_range s sz p s''"
  "os_same s0 s \<Longrightarrow> fresh_range s sz p s' \<Longrightarrow> fresh_range s0 sz p s'"
  by (simp_all add: fresh_range_def os_same_def)

lemma fresh_range_retry:
  assumes "fresh_range s sz 0 s'" and "fresh_range s' sz' p s''"
  shows "fresh_range s sz' p s''"
proof -
  obtain evs evs' where "st_log s' = st_log s @ evs" "st_log s'' = st_log s' @ evs'"
    and "fresh_run (mapped (st_log s)) sz 0 (leaked evs) (mapped (st_log s'))"
      "fresh_run (mapped (st_log s')) sz' p (leaked evs') (mapped (st_log s''))"
    using assms unfolding fresh_range_def by blast
  then have "st_log s'' = st_log s @ (evs @ evs')"
    and "fresh_run (mapped (st_log s)) sz' p (leaked (evs @ evs')) (mapped (st_log s''))"
    using fresh_run_retry by auto
  then show ?thesis using assms by (auto simp: fresh_range_def)
qed

lemma fresh_range_none: "os_same s s' \<Longrightarrow> fresh_range s sz 0 s'"
  by (auto simp: fresh_range_def os_same_def intro: exI [of _ "[]"])

lemma sys_mmap_fresh:
  assumes "mmap_fresh (st_env s)" and "sys_mmap hint sz rw kind s = (p, s')"
  shows "fresh_range s sz p s'"
proof (cases "env_mmap (st_env s) (st_log s) hint sz rw kind")
  case None
  then show ?thesis using assms(2) by (auto simp: sys_mmap_def fresh_range_def)
next
  case (Some q)
  then have "q \<noteq> 0 \<and> unat q + unat sz < 2 ^ 64 \<and> addr_range q sz \<inter> mapped (st_log s) = {}"
    using assms(1) unfolding mmap_fresh_def by blast
  then show ?thesis using assms(2) Some by (auto simp: sys_mmap_def fresh_range_def fresh_run_def)
qed

lemma mi_unix_mmapx_fresh:
  assumes env: "mmap_fresh (st_env s)" and run: "mi_unix_mmapx p0 sz al rw kind s = (p, s')"
  shows "fresh_range s sz p s'"
proof -
  obtain hint s1 where h: "mi_os_get_aligned_hint al sz s = (hint, s1)" by fastforce
  then have s1: "os_same s s1" using hint_frame [of s al sz] by simp
  show ?thesis
  proof (cases "p0 = 0")
    case False
    then show ?thesis using run env sys_mmap_fresh by (simp add: mi_unix_mmapx_def)
  next
    case True
    show ?thesis
    proof (cases "hint = 0")
      case hz: True
      then have "sys_mmap p0 sz rw kind s1 = (p, s')"
        using run True h by (simp add: mi_unix_mmapx_def)
      then show ?thesis
        using sys_mmap_fresh [of s1] env s1 fresh_range_frame(2) [OF s1] by (auto simp: os_same_def)
    next
      case False
      obtain q s2 where q: "sys_mmap hint sz rw kind s1 = (q, s2)" by fastforce
      have F: "fresh_range s sz q s2"
        using sys_mmap_fresh [OF _ q] env s1 fresh_range_frame(2) [OF s1] by (auto simp: os_same_def)
      show ?thesis
      proof (cases "q = 0")
        case qz: True
        then have "sys_mmap p0 sz rw kind s2 = (p, s')"
          using run True h q False by (simp add: mi_unix_mmapx_def)
        moreover have "st_env s2 = st_env s" using F by (simp add: fresh_range_def)
        ultimately show ?thesis
          using sys_mmap_fresh [of s2] env fresh_range_retry F qz by (metis (no_types, lifting))
      next
        case qn: False
        then show ?thesis
          using run True h q False F by (simp add: mi_unix_mmapx_def)
      qed
    qed
  qed
qed

lemma mi_unix_mmap_large_fresh:
  assumes env: "mmap_fresh (st_env s)" and run: "mi_unix_mmap_large p0 sz al rw lo s = (p, s')"
  shows "fresh_range s sz p s'"
proof (cases "\<not> lo \<and> 0 < st_large_page_try_ok s")
  case True
  with run have "p = 0" "os_same s s'"
    by (auto simp: mi_unix_mmap_large_def os_same_def)
  then show ?thesis by (simp add: fresh_range_none)
next
  case False
  define kind where "kind = (if sz mod GiB = 0 \<and> st_huge_available s then MmapHuge1GB else MmapHuge2MB)"
  obtain q s1 where q: "mi_unix_mmapx p0 sz al rw kind s = (q, s1)" by fastforce
  note F1 = mi_unix_mmapx_fresh [OF env q]
  define s2 where "s2 = snd (mi_warning_message (s1\<lparr>st_huge_available := False\<rparr>))"
  have s2: "os_same s1 s2"
    unfolding s2_def
    by (rule os_same_trans [OF _ warning_frame]) (simp add: os_same_def)
  obtain r s3 where r: "mi_unix_mmapx p0 sz al rw MmapHuge2MB s2 = (r, s3)" by fastforce
  let ?retry = "q = 0 \<and> mmap_bits kind AND mmap_bits MmapHuge1GB \<noteq> 0"
  have p: "p = (if ?retry then r else q)"
    and s': "os_same (if ?retry then s3 else s1) s'"
    using run q r False
    by (auto simp: mi_unix_mmap_large_def Let_def kind_def s2_def os_same_def split: if_splits)
  show ?thesis
  proof (cases ?retry)
    case True
    then have "fresh_range s sz 0 s2"
      using fresh_range_frame(1) [OF F1 s2] by simp
    moreover have "mmap_fresh (st_env s2)"
      using env F1 s2 by (simp add: fresh_range_def os_same_def)
    ultimately have "fresh_range s sz r s3"
      using mi_unix_mmapx_fresh [OF _ r] fresh_range_retry by blast
    with p s' True show ?thesis using fresh_range_frame(1) by auto
  next
    case False
    with p s' F1 show ?thesis using fresh_range_frame(1) by auto
  qed
qed

lemma madvise_frame: "fresh_range s sz p s' \<Longrightarrow> fresh_range s sz p (snd (sys_madvise q n k s'))"
  by (auto simp: fresh_range_def sys_madvise_def split: if_splits)

lemma mi_unix_mmap_fresh:
  assumes env: "mmap_fresh (st_env s)" and run: "mi_unix_mmap p0 sz al rw lo allow s = (p, lg, s')"
  shows "fresh_range s sz p s'"
proof -
  obtain try_large s1 where t: "(if lo then (True, s) else use_large_os_page sz al s) = (try_large, s1)"
    by fastforce
  then have s1: "os_same s s1"
    using use_large_frame [of s sz al] by (auto simp: os_same_refl split: if_splits)
  obtain q s2 where q: "(if try_large \<and> allow then mi_unix_mmap_large p0 sz al rw lo s1 else (0, s1)) = (q, s2)"
    by fastforce
  have F: "fresh_range s sz q s2"
  proof (cases "try_large \<and> allow")
    case True
    then have "fresh_range s1 sz q s2"
      using q mi_unix_mmap_large_fresh [of s1] env s1 by (auto simp: os_same_def)
    then show ?thesis by (rule fresh_range_frame(2) [OF s1])
  next
    case False
    then show ?thesis using q s1 by (auto intro: fresh_range_none)
  qed
  show ?thesis
  proof (cases "lo \<and> allow \<or> q \<noteq> 0")
    case True
    then have "p = q \<and> s' = s2" using run t q by (auto simp: mi_unix_mmap_def)
    with F show ?thesis by simp
  next
    case False
    obtain r s3 where r: "mi_unix_mmapx p0 sz al rw MmapNormal s2 = (r, s3)" by fastforce
    have "mmap_fresh (st_env s2)" using env F by (simp add: fresh_range_def)
    from mi_unix_mmapx_fresh [OF this r] have F3: "fresh_range s sz r s3"
      using F False fresh_range_retry by blast
    obtain ul s4 where ul: "(if allow then use_large_os_page sz al s3 else (False, s3)) = (ul, s4)" by fastforce
    then have "os_same s3 s4"
      using use_large_frame [of s3 sz al] by (auto simp: os_same_refl split: if_splits)
    then have F4: "fresh_range s sz r s4" by (rule fresh_range_frame(1) [OF F3])
    have "p = r \<and> (s' = s4 \<or> s' = snd (sys_madvise r sz MADV_HUGEPAGE s4))"
      using run t q False r ul by (auto simp: mi_unix_mmap_def split_beta Let_def split: if_splits)
    with F4 madvise_frame [OF F4] show ?thesis by auto
  qed
qed

lemma mi_os_mem_alloc_fresh:
  assumes env: "mmap_fresh (st_env s)" and run: "mi_os_mem_alloc sz al commit allow st s = (p, lg, s')"
  shows "fresh_range s sz p s'"
proof (cases "sz = 0")
  case True
  with run have "p = 0" "s' = s" by (simp_all add: mi_os_mem_alloc_def)
  then show ?thesis by (simp add: fresh_range_def)
next
  case False
  let ?allow = "if \<not> commit then False else allow"
  obtain q il s1 where q: "mi_unix_mmap 0 sz al commit False ?allow s = (q, il, s1)" by (metis prod_cases3)
  have "p = q" and "os_same s1 s'"
    using run q False
    by (auto simp: mi_os_mem_alloc_def Let_def os_same_def stats_apply_def split: if_splits)
  then show ?thesis
    using mi_unix_mmap_fresh [OF env q] fresh_range_frame(1) by blast
qed

text \<open>A \<open>munmap\<close> of the range \<open>A\<close>: it has gone, or the call failed and it has leaked.\<close>

definition unmap_run :: "nat set \<Rightarrow> nat set \<Rightarrow> nat set \<Rightarrow> nat set \<Rightarrow> bool" where
  "unmap_run m A lk m' \<longleftrightarrow> lk = {} \<and> m' = m - A \<or> lk = A \<and> m' = m"

definition unmap_step :: "'a os_state_scheme \<Rightarrow> nat set \<Rightarrow> 'a os_state_scheme \<Rightarrow> bool" where
  "unmap_step s A s' \<longleftrightarrow>
     st_env s' = st_env s \<and> st_page_size s' = st_page_size s
   \<and> (\<exists>evs. st_log s' = st_log s @ evs
        \<and> unmap_run (mapped (st_log s)) A (leaked evs) (mapped (st_log s')))"

lemma unmap_step_refl: "unmap_step s {} s"
  by (simp add: unmap_step_def unmap_run_def)

lemma mi_os_mem_free_log:
  assumes "p \<noteq> 0" and "sz \<noteq> 0"
  shows "os_same (os_event (EvMunmap p sz (env_munmap (st_env s) (st_log s) p sz = SysOk)) s)
           (snd (mi_os_mem_free p sz c st s))"
proof -
  have w: "os_same t u \<Longrightarrow> os_same t (snd (mi_warning_message u))" for t u :: "'a os_state_scheme"
    using os_same_trans warning_frame by blast
  show ?thesis
    using assms by (auto simp: mi_os_mem_free_def Let_def sys_munmap_def intro!: w)
      (auto simp: os_same_def stats_apply_def)
qed

lemma mi_os_mem_free_keeps:
  "st_env (snd (mi_os_mem_free p sz c st s)) = st_env s"
  "st_page_size (snd (mi_os_mem_free p sz c st s)) = st_page_size s"
  using mi_os_mem_free_log [of p sz s c st]
  by (cases "p = 0 \<or> sz = 0"; auto simp: mi_os_mem_free_def os_same_def)+

lemma mi_os_mem_free_unmap:
  assumes "p \<noteq> 0"
  shows "unmap_step s (addr_range p sz) (snd (mi_os_mem_free p sz c st s))"
proof (cases "sz = 0")
  case True
  then show ?thesis by (simp add: mi_os_mem_free_def addr_range_def unmap_step_refl)
next
  case False
  then show ?thesis
    using mi_os_mem_free_log [OF assms False, of s c st]
    by (simp add: unmap_step_def unmap_run_def os_same_def leaked_munmap)
qed

text \<open>The parts cut off an over-allocation and the part kept.\<close>

lemma aligned_split:
  fixes p al sz :: u64
  assumes "al \<noteq> 0" and over: "unat p + (unat sz + unat al) < 2 ^ 64"
  defines "q \<equiv> mi_align_up p al"
  defines "pre \<equiv> q - p"
  defines "post \<equiv> sz + al - pre - sz"
  shows "unat al dvd unat q" and "unat p \<le> unat q"
    and "unat pre = unat q - unat p" and "unat post = unat p + unat al - unat q"
    and "unat (q + sz) = unat q + unat sz" and "unat q < unat p + unat al"
proof -
  have pos: "0 < unat al" using assms(1) by (simp add: unat_gt_0)
  have q: "unat q = (unat p + unat al - 1) div unat al * unat al"
    using over by (simp add: q_def unat_mi_align_up [OF assms(1)])
  show "unat al dvd unat q" by (simp add: q)
  note R = round_up_props [OF pos, of "unat p", folded q]
  show "unat p \<le> unat q" "unat q < unat p + unat al" by (fact R)+
  show pre: "unat pre = unat q - unat p" using R by (simp add: pre_def unat_sub_bounded)
  have "post = al - pre" by (simp add: post_def)
  then show "unat post = unat p + unat al - unat q"
    using R pre by (simp add: unat_sub_bounded)
  show "unat (q + sz) = unat q + unat sz"
    using R over by (simp add: unat_add_bounded)
qed

text \<open>
  Freeing again what was just mapped leaves the mapped memory as it was, except for what a failed
  \<open>munmap\<close> has leaked.
\<close>

lemma fresh_run_freed:
  "fresh_run m sz p lk m' \<Longrightarrow> p \<noteq> 0 \<Longrightarrow> unmap_run m' (addr_range p sz) lk' m''
    \<Longrightarrow> m'' = m \<union> (lk \<union> lk')"
  unfolding fresh_run_def unmap_run_def by auto

lemma fresh_range_freed:
  assumes F: "fresh_range s sz p s'" and p: "p \<noteq> 0"
  shows "fresh_range s sz' 0 (snd (mi_os_mem_free p sz c st s'))"
proof -
  let ?t = "snd (mi_os_mem_free p sz c st s')"
  have U: "unmap_step s' (addr_range p sz) ?t" by (rule mi_os_mem_free_unmap [OF p])
  obtain evs where evs: "st_log s' = st_log s @ evs"
    and run: "fresh_run (mapped (st_log s)) sz p (leaked evs) (mapped (st_log s'))"
    using F unfolding fresh_range_def by blast
  obtain evs' where evs': "st_log ?t = st_log s' @ evs'"
    and gone: "unmap_run (mapped (st_log s')) (addr_range p sz) (leaked evs') (mapped (st_log ?t))"
    using U unfolding unmap_step_def by blast
  have "mapped (st_log ?t) = mapped (st_log s) \<union> leaked (evs @ evs')"
    using fresh_run_freed [OF run p gone] by simp
  then show ?thesis
    using evs evs' F U by (auto simp: fresh_range_def unmap_step_def intro!: exI [of _ "evs @ evs'"])
qed

text \<open>
  Cutting an over-allocation down to the aligned part leaves that part, and the cut-off parts whose
  \<open>munmap\<close> failed.
\<close>

lemma unmap_run_cut:
  assumes "unmap_run (m \<union> R) A lk1 m1" and "unmap_run m1 B lk2 m2"
    and "R = A \<union> Q \<union> B" and "A \<inter> Q = {}" "A \<inter> B = {}" "Q \<inter> B = {}" and "R \<inter> m = {}"
  shows "m2 = m \<union> (lk1 \<union> lk2) \<union> Q" and "Q \<inter> (m \<union> (lk1 \<union> lk2)) = {}"
  using assms unfolding unmap_run_def by auto

lemma cut_down_unmaps:
  fixes p q over_size mid :: u64
  defines "pre \<equiv> q - p"
  defines "post \<equiv> over_size - pre - mid"
  assumes p: "p \<noteq> 0" and q: "q + mid \<noteq> 0 \<or> post = 0"
  shows "\<exists>t. unmap_step s (addr_range p pre) t
           \<and> unmap_step t (addr_range (q + mid) post) (cut_down p q over_size mid commit st s)"
proof -
  define t where "t = (if 0 < pre then snd (mi_os_mem_free p pre commit st s) else s)"
  have none: "addr_range x n = {}" if "\<not> 0 < n" for x n
    using that by (simp add: addr_range_def word_gt_0)
  have "unmap_step s (addr_range p pre) t"
    using none mi_os_mem_free_unmap [OF p] by (auto simp: t_def unmap_step_refl)
  moreover have "cut_down p q over_size mid commit st s =
      (if 0 < post then snd (mi_os_mem_free (q + mid) post commit st t) else t)"
    by (simp add: cut_down_def Let_def pre_def [symmetric] post_def [symmetric] t_def)
  then have "unmap_step t (addr_range (q + mid) post) (cut_down p q over_size mid commit st s)"
    using none mi_os_mem_free_unmap [of "q + mid"] q by (auto simp: unmap_step_refl)
  ultimately show ?thesis by blast
qed

text \<open>The three parts of an over-allocation.\<close>

lemma aligned_parts:
  fixes p al sz :: u64
  defines "q \<equiv> mi_align_up p al"
  defines "pre \<equiv> q - p"
  defines "post \<equiv> sz + al - pre - sz"
  assumes al: "al \<noteq> 0" and p: "p \<noteq> 0" and over: "unat p + unat (sz + al) < 2 ^ 64"
    and fit: "unat sz + unat al < 2 ^ 64"
  shows "addr_range p (sz + al) = addr_range p pre \<union> addr_range q sz \<union> addr_range (q + sz) post"
    and "addr_range p pre \<inter> addr_range q sz = {}" and "addr_range p pre \<inter> addr_range (q + sz) post = {}"
    and "addr_range q sz \<inter> addr_range (q + sz) post = {}"
    and "q \<noteq> 0" and "q + sz \<noteq> 0" and "unat q + unat sz < 2 ^ 64"
proof -
  have sum: "unat (sz + al) = unat sz + unat al" using fit by (simp add: unat_add_bounded)
  have over': "unat p + (unat sz + unat al) < 2 ^ 64" using over by (simp only: sum)
  note A = aligned_split [OF al over', folded q_def, folded pre_def, folded post_def]
  show "addr_range p (sz + al) = addr_range p pre \<union> addr_range q sz \<union> addr_range (q + sz) post"
    and "addr_range p pre \<inter> addr_range q sz = {}" and "addr_range p pre \<inter> addr_range (q + sz) post = {}"
    and "addr_range q sz \<inter> addr_range (q + sz) post = {}"
    using A unfolding addr_range_def sum by auto
  show q0: "q \<noteq> 0" using A(2) p by (metis le_zero_eq unat_0 unsigned_eq_0_iff)
  show "unat q + unat sz < 2 ^ 64" using A(6) over' by linarith
  have "unat (q + sz) \<noteq> 0" using A(5) q0 by (simp add: unat_eq_0)
  then show "q + sz \<noteq> 0" by (simp add: unat_eq_0)
qed

lemma cut_down_fresh:
  assumes F: "fresh_range s (sz + al) p s'" and p: "p \<noteq> 0" and al: "al \<noteq> 0"
    and fit: "unat sz + unat al < 2 ^ 64"
  shows "fresh_range s sz (mi_align_up p al) (cut_down p (mi_align_up p al) (sz + al) sz commit st s')"
proof -
  let ?q = "mi_align_up p al"
  let ?u = "cut_down p ?q (sz + al) sz commit st s'"
  define pre where "pre = ?q - p"
  define post where "post = sz + al - pre - sz"
  obtain evs where evs: "st_log s' = st_log s @ evs"
    and over: "unat p + unat (sz + al) < 2 ^ 64"
    and new: "addr_range p (sz + al) \<inter> (mapped (st_log s) \<union> leaked evs) = {}"
      "mapped (st_log s') = mapped (st_log s) \<union> leaked evs \<union> addr_range p (sz + al)"
    using F p unfolding fresh_range_def fresh_run_def by (auto simp del: Int_Un_distrib)
  note A = aligned_parts [OF al p over fit, folded pre_def, folded post_def]
  obtain t where U1: "unmap_step s' (addr_range p pre) t"
    and U2: "unmap_step t (addr_range (?q + sz) post) ?u"
    using cut_down_unmaps [OF p disjI1 [OF A(6)]] unfolding pre_def post_def by blast
  obtain evs1 where evs1: "st_log t = st_log s' @ evs1"
    and run1: "unmap_run (mapped (st_log s) \<union> leaked evs \<union> addr_range p (sz + al))
        (addr_range p pre) (leaked evs1) (mapped (st_log t))"
    using U1 unfolding unmap_step_def new(2) by blast
  obtain evs2 where evs2: "st_log ?u = st_log t @ evs2"
    and run2: "unmap_run (mapped (st_log t)) (addr_range (?q + sz) post) (leaked evs2) (mapped (st_log ?u))"
    using U2 unfolding unmap_step_def by blast
  note C = unmap_run_cut [OF run1 run2 A(1-4) new(1)]
  have "st_log ?u = st_log s @ (evs @ evs1 @ evs2)"
    and "fresh_run (mapped (st_log s)) sz ?q (leaked (evs @ evs1 @ evs2)) (mapped (st_log ?u))"
    using C A(5,7) evs evs1 evs2 by (simp_all add: fresh_run_def Un_assoc)
  then show ?thesis
    using F U1 U2 unfolding fresh_range_def unmap_step_def by metis
qed

lemma unat_SIZE_MAX_minus: "unat (SIZE_MAX - x) = 2 ^ 64 - 1 - unat x"
proof -
  have m: "unat SIZE_MAX = 2 ^ 64 - 1"
    by (simp add: SIZE_MAX_def unsigned_minus_1_eq_mask mask_eq_exp_minus_1)
  have "2 ^ 64 - 1 = (18446744073709551615 :: nat)" by simp
  then have "unat x \<le> 2 ^ 64 - 1" using unat_less_64 [of x] by linarith
  then have "unat (SIZE_MAX - x) = unat SIZE_MAX - unat x"
    unfolding m [symmetric] by (rule unat_sub_bounded)
  with m show ?thesis by simp
qed

lemma power_of_two_al: "al AND (al - 1) = 0 \<Longrightarrow> mi_is_power_of_two al"
  by (simp add: mi_is_power_of_two_def)

text \<open>The first attempt, with the range that \<open>mmap\<close> returned freed again where it is not aligned.\<close>

lemma first_attempt_freed:
  assumes "mmap_fresh (st_env s)" and "mi_os_mem_alloc n al commit allow stats s = (p, lg, s')" and "p \<noteq> 0"
  shows "fresh_range s m 0 (snd (mi_os_mem_free p n commit stats s'))"
  by (rule fresh_range_freed [OF mi_os_mem_alloc_fresh]) (fact assms)+

text \<open>The second attempt: over-allocate, and cut down to the aligned part.\<close>

lemma over_allocate_fresh:
  assumes env: "mmap_fresh (st_env s)" and F: "fresh_range s 0 0 s2" and al: "al \<noteq> 0"
    and fit: "unat n + unat al < 2 ^ 64"
    and run: "mi_os_mem_alloc (n + al) al commit False stats s2 = (p2, lg2, s3)"
  shows "if p2 = 0 then fresh_range s n 0 s3
         else unat al dvd unat (mi_align_up p2 al)
           \<and> fresh_range s n (mi_align_up p2 al) (cut_down p2 (mi_align_up p2 al) (n + al) n commit stats s3)"
proof -
  have "mmap_fresh (st_env s2)" using fresh_range_keeps(1) [OF F] env by simp
  from fresh_range_retry [OF F mi_os_mem_alloc_fresh [OF this run]]
  have F3: "fresh_range s (n + al) p2 s3" .
  show ?thesis
  proof (cases "p2 = 0")
    case True
    with F3 fresh_range_null show ?thesis by auto
  next
    case False
    with cut_down_fresh [OF F3 False al fit] mi_align_up_dvd [OF al] show ?thesis by simp
  qed
qed

lemma mi_os_mem_alloc_aligned_fresh:
  assumes env: "mmap_fresh (st_env s)" and al: "alignment \<noteq> 0" and ps: "st_page_size s \<noteq> 0"
    and run: "mi_os_mem_alloc_aligned sz alignment commit allow_large is_large stats s = (p, lg, s')"
  shows "unat alignment dvd unat p \<and> fresh_range s (mi_align_up sz (st_page_size s)) p s'"
proof (cases "mi_os_page_size s \<le> alignment \<and> alignment AND (alignment - 1) = 0")
  case False
  then have "p = 0" "s' = s" using run by (auto simp: mi_os_mem_alloc_aligned_def)
  then show ?thesis by (simp add: fresh_range_none [OF os_same_refl])
next
  case ok: True
  let ?sz = "mi_align_up sz (st_page_size s)"
  note D = mi_os_mem_alloc_aligned_def mi_os_page_size_def Let_def
  obtain p1 lg1 s1 where a1: "mi_os_mem_alloc ?sz alignment commit (if \<not> commit then False else allow_large) stats s = (p1, lg1, s1)"
    by (metis prod_cases3)
  note F1 = mi_os_mem_alloc_fresh [OF env a1]
  show ?thesis
  proof (cases "p1 = 0 \<or> p1 mod alignment = 0")
    case True
    have "p = p1 \<and> s' = s1" using run ok a1
    proof (cases "p1 = 0")
      case False
      with True have "p1 mod alignment = 0" by blast
      with False show ?thesis using run ok a1 by (auto simp: D)
    qed (auto simp: D)
    then have "p = p1" "s' = s1" by simp_all
    moreover have "unat alignment dvd unat p1"
      using True by (metis unat_0 unat_mod_distrib dvd_eq_mod_eq_0 dvd_0_right)
    ultimately show ?thesis using F1 by simp
  next
    case False
    define s2 where "s2 = snd (mi_os_mem_free p1 ?sz commit stats s1)"
    have F2: "fresh_range s n 0 s2" for n
      unfolding s2_def using first_attempt_freed [OF env a1] False by blast
    show ?thesis
    proof (cases "SIZE_MAX - alignment \<le> ?sz")
      case True
      then have "p = 0" "s' = s2" using run ok a1 False by (auto simp: D s2_def)
      with F2 show ?thesis by simp
    next
      case small: False
      have fit: "unat ?sz + unat alignment < 2 ^ 64 - 1"
        using small unat_SIZE_MAX_minus [of alignment] by (simp add: word_le_nat_alt)
      obtain p2 lg2 s3 where a2: "mi_os_mem_alloc (?sz + alignment) alignment commit False stats s2 = (p2, lg2, s3)"
        by (metis prod_cases3)
      have fit': "unat ?sz + unat alignment < 2 ^ 64" using fit by simp
      note O = over_allocate_fresh [OF env F2 al fit' a2]
      have ps2: "st_page_size s3 = st_page_size s"
        using fresh_range_keeps(2) [OF F2 [of 0]] mi_os_mem_alloc_fresh [OF _ a2] env
          fresh_range_keeps [OF F2 [of 0]] fresh_range_keeps(2) by metis
      have "unat (st_page_size s) \<le> unat alignment"
        using ok by (simp add: mi_os_page_size_def word_le_nat_alt)
      then have mid: "mi_align_up ?sz (st_page_size s) = ?sz"
        using fit by (intro unat_mi_align_up_idem ps mi_align_up_dvd) simp_all
      show ?thesis
      proof (cases "p2 = 0")
        case True
        then have "p = 0" "s' = s3" using run ok a1 a2 False small by (auto simp: D s2_def)
        with O True show ?thesis by simp
      next
        case p2: False
        have "p = mi_align_up p2 alignment"
          "s' = cut_down p2 (mi_align_up p2 alignment) (?sz + alignment) ?sz commit stats s3"
          using run ok a1 a2 False small p2 by (auto simp: D s2_def [symmetric] ps2 mid)
        with O p2 show ?thesis by simp
      qed
    qed
  qed
qed

text \<open>
  C29. Aligned allocation from the OS, whether \<open>mmap\<close> happens to return an aligned address or the
  code has to over-allocate and unmap around the aligned part: a non-null result is a multiple
  of the alignment, and of the whole address space exactly the requested range (rounded up to
  OS pages) and the ranges whose \<open>munmap\<close> failed during the call have become mapped; the result
  overlaps neither what was mapped before nor what leaked. A null result leaves the mapped memory
  as it was, but for what leaked. If every \<open>munmap\<close> of the call succeeds nothing leaks
  (\<open>leaked_none\<close>); a failure is ignored by the code, which then really leaks. No path unmaps
  foreign memory. \<open>mmap_fresh\<close> is what \<open>mmap\<close> promises.
\<close>

theorem mi_os_mem_alloc_aligned_exact:
  assumes env: "mmap_fresh (st_env s)" and al: "alignment \<noteq> 0" and ps: "st_page_size s \<noteq> 0"
    and run: "mi_os_mem_alloc_aligned sz alignment commit allow_large is_large stats s = (p, lg, s')"
  shows "unat alignment dvd unat p
    \<and> (\<exists>evs. st_log s' = st_log s @ evs
       \<and> (if p = 0 then mapped (st_log s') = mapped (st_log s) \<union> leaked evs
          else addr_range p (mi_align_up sz (st_page_size s)) \<inter> (mapped (st_log s) \<union> leaked evs) = {}
            \<and> mapped (st_log s') =
                mapped (st_log s) \<union> leaked evs \<union> addr_range p (mi_align_up sz (st_page_size s))))"
  using mi_os_mem_alloc_aligned_fresh [OF env al ps run]
  unfolding fresh_range_def fresh_run_def by (auto split: if_splits)

text \<open>A system whose first \<open>mmap\<close> succeeds at 4MiB and whose other calls fail.\<close>

definition os_env_once :: os_env where
  "os_env_once =
     \<lparr>env_mmap = (\<lambda>log hint sz rw kind. if log = [] \<and> sz < 0x100000000 then Some 0x400000 else None),
      env_mmap_fixed = (\<lambda>_ _ _. None), env_munmap = (\<lambda>_ _ _. SysOk),
      env_mprotect = (\<lambda>_ _ _ _. SysOk), env_madvise = (\<lambda>_ _ _ _. SysOk),
      env_mbind = (\<lambda>_ _ _ _. SysOk), env_malloc = (\<lambda>_ _. 0), env_malloc_words = (\<lambda>_ _. 0),
      env_pagesize = 4096, env_getcpu = (\<lambda>_. None), env_node_exists = (\<lambda>_. False)\<rparr>"

text \<open>The static variables of \<open>os.c\<close> at program load, on a given system.\<close>

definition os_state_load :: "os_env \<Rightarrow> os_state" where
  "os_state_load env =
     opt_state.extend opt_state_load
       \<lparr>st_env = env, st_log = [], st_page_size = 4096, st_alloc_granularity = 4096,
        st_large_page_size = 0, st_large_page_try_ok = 0, st_huge_available = True,
        st_aligned_base = 0, st_huge_start = 0, st_reset_advice = MADV_FREE, st_numa_count = 0\<rparr>"

lemma os_env_once_fresh: "mmap_fresh os_env_once"
proof -
  have "unat (0x400000 :: u64) + unat sz < 2 ^ 64" if "sz < (0x100000000 :: u64)" for sz
    using that by (simp add: word_less_nat_alt)
  then show ?thesis by (simp add: mmap_fresh_def os_env_once_def mapped_def)
qed

text \<open>
  A system that maps the first range off the alignment, so that the code over-allocates, and then
  refuses to unmap the part before the aligned range.
\<close>

definition os_env_over :: os_env where
  "os_env_over = os_env_once
     \<lparr>env_mmap := (\<lambda>log hint sz rw kind.
        if log = [] \<and> sz = 0x2000 then Some 0x400000001000
        else if log = [EvMmap 0x400000001000 0x2000, EvMunmap 0x400000001000 0x2000 True] \<and> sz = 0x12000
        then Some 0x500000001000 else None),
      env_munmap := (\<lambda>_ p _. if p = 0x500000001000 then SysError else SysOk)\<rparr>"

lemma os_env_over_fresh: "mmap_fresh os_env_over"
  by (simp add: mmap_fresh_def os_env_over_def mapped_def addr_range_def)

lemma os_env_over_run:
  fixes r defines "r \<equiv> mi_os_mem_alloc_aligned 0x2000 0x10000 True False False MainStats (os_state_load os_env_over)"
  shows "fst r = 0x500000010000"
    and "st_log (snd (snd r)) =
      [EvMmap 0x400000001000 0x2000, EvMunmap 0x400000001000 0x2000 True, EvMmap 0x500000001000 0x12000,
       EvMunmap 0x500000001000 0xF000 False, EvMunmap 0x500000012000 0x1000 True]"
  by (simp_all add: r_def mi_os_mem_alloc_aligned_def mi_os_page_size_def mi_align_up_def SIZE_MAX_def
      mi_os_mem_alloc_def mi_unix_mmap_def mi_unix_mmapx_def sys_mmap_def mi_os_get_aligned_hint_def
      use_large_os_page_def os_state_load_def opt_state.defs opt_state_load_def MI_SEGMENT_SIZE_def
      os_env_over_def os_env_once_def Let_def stats_apply_def cut_down_def mi_os_mem_free_def
      sys_munmap_def os_event_def warning_frame [unfolded os_same_def])

lemma mi_os_mem_alloc_aligned_exact_witness:
  "\<exists>evs. st_log (snd (snd (mi_os_mem_alloc_aligned 0x2000 0x10000 True False False MainStats
           (os_state_load os_env_over)))) = evs
     \<and> leaked evs = addr_range 0x500000001000 0xF000
     \<and> mapped evs = addr_range 0x500000001000 0xF000 \<union> addr_range 0x500000010000 0x2000"
proof -
  let ?s = "os_state_load os_env_over"
  let ?r = "mi_os_mem_alloc_aligned 0x2000 0x10000 True False False MainStats ?s"
  have s: "st_env ?s = os_env_over" "st_page_size ?s = 4096" "st_log ?s = []"
    by (simp_all add: os_state_load_def opt_state.defs opt_state_load_def)
  have a: "mi_align_up 0x2000 4096 = 0x2000" by code_simp
  obtain p lg s' where run: "?r = (p, lg, s')" by (metis prod_cases3)
  note E = os_env_over_run [unfolded run fst_conv snd_conv]
  have "mapped (st_log s') = leaked (st_log s') \<union> addr_range 0x500000010000 0x2000"
    using mi_os_mem_alloc_aligned_exact [OF _ _ _ run] os_env_over_fresh s a E(1) by (auto simp: mapped_def)
  moreover have "leaked (st_log s') = addr_range 0x500000001000 0xF000" unfolding E(2) by simp
  ultimately show ?thesis unfolding run by simp
qed
section \<open>Page areas and sizes\<close>

lemma unat_mi_align_down: "unat (mi_align_down x n) = unat x div unat n * unat n"
proof -
  have "unat (x div n) * unat n \<le> unat x"
    by (simp only: unat_div_distrib div_mult_le_power)
  then have "unat (x div n * n) = unat (x div n) * unat n"
    using le_less_trans [OF _ unat_less_64 [of x]] by (intro unat_mult_bounded) simp
  then show ?thesis by (simp only: mi_align_down_def unat_div_distrib)
qed

lemma signed_take_bit_diff:
  "a < 9223372036854775808 \<Longrightarrow> b < 9223372036854775808
    \<Longrightarrow> signed_take_bit 63 (int b - int a) = int b - int a"
  by (intro signed_take_bit_int_eq_self) simp_all

lemma sint_small: "unat (x :: u64) < 9223372036854775808 \<Longrightarrow> sint x = int (unat x)"
proof -
  assume x: "unat x < 9223372036854775808"
  have "sint x = signed_take_bit 63 (int (unat x))"
    by (simp add: sint_uint)
  also have "\<dots> = int (unat x)"
    using signed_take_bit_diff [of 0, OF _ x] by simp
  finally show ?thesis .
qed

lemma sint_diff_small:
  fixes a b :: u64
  assumes "unat a < 9223372036854775808" and "unat b < 9223372036854775808"
  shows "sint (b - a) = int (unat b) - int (unat a)"
proof -
  have "sint (b - a) = signed_take_bit 63 (int (unat b) - int (unat a))"
    using assms by (simp only: sint_word_ariths sint_small) simp
  also have "\<dots> = int (unat b) - int (unat a)"
    by (rule signed_take_bit_diff [OF assms])
  finally show ?thesis .
qed

lemma multiples_between:
  fixes p e d :: nat
  assumes "0 < d" and "e div d * d \<le> (p + d - 1) div d * d"
  shows "\<not> (p \<le> k * d \<and> (k + 1) * d \<le> e)"
proof
  assume k: "p \<le> k * d \<and> (k + 1) * d \<le> e"
  then have "k + 1 \<le> e div d" using assms(1) by (simp only: less_eq_div_iff_mult_less_eq)
  moreover have "(p + d - 1) div d < k + 1"
    using assms(1) k by (intro div_less_iff_less_mult [THEN iffD2]) auto
  ultimately have "(p + d - 1) div d * d < e div d * d"
    using assms(1) by (intro mult_strict_right_mono) linarith+
  with assms(2) show False by simp
qed

lemma div_mult_gt:
  fixes e d :: nat
  assumes "0 < d" shows "e < e div d * d + d"
  using assms by (metis div_mult_mod_eq mod_less_divisor nat_add_left_cancel_less)

text \<open>
  The conservative page area of a range lies inside the range, and is reported as size 0
  only when no whole OS page lies inside; the liberal one covers the range. Both start and end
  on OS page boundaries.
\<close>

theorem mi_os_page_align_areax_correct:
  assumes ps: "page_size \<noteq> 0" and p: "p \<noteq> 0" and sz: "sz \<noteq> 0"
    and fit: "unat p + unat sz + unat page_size < 2 ^ 63"
    and run: "mi_os_page_align_areax conservative p sz page_size = (start, n)"
  shows "if conservative
     then (n = 0 \<and> (\<forall>k. \<not> (unat p \<le> k * unat page_size \<and> (k + 1) * unat page_size \<le> unat p + unat sz)))
       \<or> (n \<noteq> 0 \<and> unat p \<le> unat start \<and> unat start + unat n \<le> unat p + unat sz
          \<and> unat page_size dvd unat start \<and> unat page_size dvd unat n)
     else unat start \<le> unat p \<and> unat p + unat sz \<le> unat start + unat n
       \<and> unat page_size dvd unat start \<and> unat page_size dvd unat n"
proof -
  let ?d = "unat page_size" and ?e = "unat p + unat sz"
  have d: "0 < ?d" using ps by (simp add: unat_gt_0)
  have s0: "0 < unat sz" using sz by (simp add: unat_gt_0)
  have fit': "?e + ?d < 9223372036854775808" using fit by simp
  have e: "unat (p + sz) = ?e" using fit' by (simp add: unat_add_bounded)
  have up: "unat (mi_align_up x page_size) = (unat x + ?d - 1) div ?d * ?d"
    if "unat x \<le> ?e" for x
    using that fit' by (intro unat_mi_align_up ps) simp
  note R = round_up_props [OF d]
  have dn: "unat x div ?d * ?d \<le> unat x" for x :: u64 by simp
  define st where "st = (if conservative then mi_align_up p page_size else mi_align_down p page_size)"
  define en where "en = (if conservative then mi_align_down (p + sz) page_size else mi_align_up (p + sz) page_size)"
  have st: "unat st = (if conservative then (unat p + ?d - 1) div ?d * ?d else unat p div ?d * ?d)"
    by (simp add: st_def up unat_mi_align_down)
  have en: "unat en = (if conservative then ?e div ?d * ?d else (?e + ?d - 1) div ?d * ?d)"
    by (simp add: en_def up unat_mi_align_down e)
  have dvd: "?d dvd unat st" "?d dvd unat en" by (simp_all add: st en)
  have "unat st < 9223372036854775808" "unat en < 9223372036854775808"
    using R(2) [of "unat p"] R(2) [of ?e] dn [of p] dn [of "p + sz", unfolded e] fit'
    unfolding st en by (cases conservative; simp only: if_True if_False; linarith)+
  from sint_diff_small [OF this] have diff: "sint (en - st) \<le> 0 \<longleftrightarrow> unat en \<le> unat st"
    by linarith
  have res: "(start, n) = (if unat en \<le> unat st then (0, 0) else (st, en - st))"
    using run p sz by (simp add: mi_os_page_align_areax_def Let_def diff flip: st_def en_def)
  show ?thesis
  proof (cases conservative)
    case True
    show ?thesis
    proof (cases "unat en \<le> unat st")
      case empty: True
      then have "n = 0" using res by simp
      moreover have "?e div ?d * ?d \<le> (unat p + ?d - 1) div ?d * ?d"
        using empty True by (simp only: st en if_True)
      then have "\<not> (unat p \<le> k * ?d \<and> (k + 1) * ?d \<le> ?e)" for k
        by (rule multiples_between [OF d])
      ultimately show ?thesis using True by simp
    next
      case False
      then have n: "start = st" "n = en - st" using res by simp_all
      then have un: "unat n = unat en - unat st" using False by (simp add: unat_sub_bounded)
      then have "n \<noteq> 0" using False by auto
      moreover have "unat p \<le> unat st" "unat en \<le> ?e"
        using R(1) [of "unat p"] dn [of "p + sz"] True unfolding st en e by simp_all
      ultimately show ?thesis using True False n un dvd by (auto intro: dvd_diff_nat)
    qed
  next
    case False
    have "unat st \<le> unat p" "?e \<le> unat en"
      using R(1) [of ?e] dn [of p] False unfolding st en by simp_all
    with s0 have lt: "\<not> unat en \<le> unat st" by simp
    then have n: "start = st" "n = en - st" using res by simp_all
    then have "unat n = unat en - unat st" using lt by (simp add: unat_sub_bounded)
    then show ?thesis
      using False n lt dvd \<open>unat st \<le> unat p\<close> \<open>?e \<le> unat en\<close> by (auto intro: dvd_diff_nat)
  qed
qed

lemma mi_os_page_align_areax_correct_witness:
  "unat (0x1000 :: u64) dvd unat (fst (mi_os_page_align_areax False 0x1234 0x2000 0x1000))"
proof -
  obtain st n where run: "mi_os_page_align_areax False 0x1234 0x2000 0x1000 = (st, n)" by fastforce
  then show ?thesis
    using mi_os_page_align_areax_correct [OF _ _ _ _ run] by simp
qed

text \<open>
  \<open>_mi_os_good_alloc_size\<close>: from 512KiB on, the size is rounded up by less than an eighth
  of the request, as its comment promises; below that it is rounded to one OS page. It never
  shrinks the request.
\<close>

theorem mi_os_good_alloc_size_waste:
  assumes "page_size \<noteq> 0" and "unat page_size \<le> 65536"
  shows "sz \<le> mi_os_good_alloc_size page_size sz
    \<and> (524288 \<le> unat sz \<longrightarrow> 8 * (unat (mi_os_good_alloc_size page_size sz) - unat sz) < unat sz)
    \<and> (unat sz < 524288 \<longrightarrow> unat (mi_os_good_alloc_size page_size sz) < unat sz + unat page_size)"
proof -
  define al where "al = (if sz < 512 * KiB then page_size
             else if sz < 2 * MiB then 64 * KiB
             else if sz < 8 * MiB then 256 * KiB
             else if sz < 32 * MiB then MiB
             else 4 * MiB)"
  have g: "mi_os_good_alloc_size page_size sz = (if SIZE_MAX - al \<le> sz then sz else mi_align_up sz al)"
    by (simp add: mi_os_good_alloc_size_def al_def)
  have al0: "al \<noteq> 0" using assms(1) by (simp add: al_def KiB_def MiB_def)
  have al8: "524288 \<le> unat sz \<Longrightarrow> 8 * unat al \<le> unat sz"
    and alp: "unat sz < 524288 \<Longrightarrow> al = page_size"
    and alm: "unat al \<le> 4194304"
    using assms(2) by (auto simp: al_def KiB_def MiB_def word_less_nat_alt)
  show ?thesis
  proof (cases "SIZE_MAX - al \<le> sz")
    case True
    have "524288 \<le> unat sz"
      using True alm by (simp add: word_le_nat_alt unat_SIZE_MAX_minus)
    with True g show ?thesis by simp
  next
    case False
    then have fit: "unat sz + unat al - 1 < 2 ^ 64"
      by (simp add: word_le_nat_alt unat_SIZE_MAX_minus)
    have pos: "0 < unat al" using al0 by (simp add: unat_gt_0)
    have u: "unat (mi_os_good_alloc_size page_size sz) = (unat sz + unat al - 1) div unat al * unat al"
      using False by (simp add: g unat_mi_align_up [OF al0 fit])
    note R = round_up_props [OF pos, of "unat sz", folded u]
    show ?thesis
    proof (intro conjI impI)
      show "sz \<le> mi_os_good_alloc_size page_size sz" using R by (simp add: word_le_nat_alt)
      assume "524288 \<le> unat sz"
      then show "8 * (unat (mi_os_good_alloc_size page_size sz) - unat sz) < unat sz"
        using R al8 pos by linarith
    next
      assume "unat sz < 524288"
      then show "unat (mi_os_good_alloc_size page_size sz) < unat sz + unat page_size"
        using R alp by simp
    qed
  qed
qed

lemma mi_os_good_alloc_size_waste_witness: "(600000 :: u64) \<le> mi_os_good_alloc_size 4096 600000"
  using mi_os_good_alloc_size_waste [of 4096 600000] by simp

text \<open>
  \<open>_mi_os_free_huge_pages\<close> never advances its base: for a range of several huge pages every
  call unmaps the first page again, and no byte of the other pages is ever unmapped.
\<close>

theorem mi_os_free_huge_pages_stuck:
  assumes "st_page_size s = 4096"
  shows "\<exists>evs. st_log (mi_os_free_huge_pages p sz stats s) = st_log s @ evs
    \<and> set evs \<subseteq> range (EvMunmap p MI_HUGE_OS_PAGE_SIZE)
    \<and> length evs = (if p = 0 then 0 else unat sz div unat MI_HUGE_OS_PAGE_SIZE)"
proof -
  have good: "mi_os_good_alloc_size 4096 MI_HUGE_OS_PAGE_SIZE = MI_HUGE_OS_PAGE_SIZE"
    by (simp add: mi_os_good_alloc_size_def mi_align_up_def KiB_def MiB_def MI_HUGE_OS_PAGE_SIZE_def SIZE_MAX_def)
  have one: "st_log (mi_os_free p MI_HUGE_OS_PAGE_SIZE stats s) = st_log s @ [EvMunmap p MI_HUGE_OS_PAGE_SIZE (env_munmap (st_env s) (st_log s) p MI_HUGE_OS_PAGE_SIZE = SysOk)]
      \<and> st_page_size (mi_os_free p MI_HUGE_OS_PAGE_SIZE stats s) = 4096"
    if "p \<noteq> 0" "st_page_size s = 4096" for p stats and s :: "'a os_state_scheme"
  proof -
    have nz: "MI_HUGE_OS_PAGE_SIZE \<noteq> 0" by (simp add: MI_HUGE_OS_PAGE_SIZE_def)
    have w: "st_log (snd (mi_warning_message t)) = st_log t" for t :: "'a os_state_scheme"
      using warning_frame [of t] by (simp add: os_same_def)
    show ?thesis
      using that nz
      by (auto simp: mi_os_free_def mi_os_free_ex_def mi_os_page_size_def good mi_os_mem_free_keeps(2))
        (simp add: mi_os_mem_free_def Let_def sys_munmap_def w stats_apply_def)
  qed
  have loop: "\<exists>evs. st_log (mi_os_free_huge_loop p sz stats s) = st_log s @ evs
      \<and> set evs \<subseteq> range (EvMunmap p MI_HUGE_OS_PAGE_SIZE)
      \<and> length evs = unat sz div unat MI_HUGE_OS_PAGE_SIZE"
    if "p \<noteq> 0" "st_page_size s = 4096" for p sz stats and s :: "'a os_state_scheme"
    using that
  proof (induction p sz stats s rule: mi_os_free_huge_loop.induct)
    case (1 p sz stats s)
    show ?case
    proof (cases "MI_HUGE_OS_PAGE_SIZE \<le> sz")
      case False
      then have "unat sz div unat MI_HUGE_OS_PAGE_SIZE = 0" by (simp add: word_le_nat_alt)
      with False show ?thesis by (subst mi_os_free_huge_loop.simps) simp
    next
      case True
      let ?H = "unat MI_HUGE_OS_PAGE_SIZE"
      have le: "?H \<le> unat sz" using True by (simp add: word_le_nat_alt)
      then have sub: "unat (sz - MI_HUGE_OS_PAGE_SIZE) = unat sz - ?H" by (rule unat_sub_bounded)
      have H: "0 < ?H" by (simp add: MI_HUGE_OS_PAGE_SIZE_def)
      obtain evs where evs: "st_log (mi_os_free_huge_loop p (sz - MI_HUGE_OS_PAGE_SIZE) stats
            (mi_os_free p MI_HUGE_OS_PAGE_SIZE stats s))
          = st_log (mi_os_free p MI_HUGE_OS_PAGE_SIZE stats s) @ evs"
        "set evs \<subseteq> range (EvMunmap p MI_HUGE_OS_PAGE_SIZE)" "length evs = (unat sz - ?H) div ?H"
        using "1.IH" [OF True "1.prems"(1)] one [OF "1.prems"] unfolding sub by blast
      have "unat sz div ?H = Suc ((unat sz - ?H) div ?H)" using H le by (rule le_div_geq)
      then show ?thesis
        using evs one [OF "1.prems"] True
        by (subst mi_os_free_huge_loop.simps) (auto intro!: exI [of _ "EvMunmap p MI_HUGE_OS_PAGE_SIZE (env_munmap (st_env s) (st_log s) p MI_HUGE_OS_PAGE_SIZE = SysOk) # evs"])
    qed
  qed
  show ?thesis
    using loop [of p s sz stats] assms by (cases "p = 0 \<or> sz = 0") (auto simp: mi_os_free_huge_pages_def)
qed

lemma mi_os_free_huge_pages_stuck_witness:
  "\<exists>evs. st_log (mi_os_free_huge_pages 0x200000000000 (3 * MI_HUGE_OS_PAGE_SIZE) MainStats (os_state_load os_env_once))
       = st_log (os_state_load os_env_once) @ evs
    \<and> set evs \<subseteq> range (EvMunmap 0x200000000000 MI_HUGE_OS_PAGE_SIZE) \<and> length evs = 3"
  using mi_os_free_huge_pages_stuck [of "os_state_load os_env_once" "0x200000000000" "3 * MI_HUGE_OS_PAGE_SIZE" MainStats]
  by (simp add: os_state_load_def opt_state.defs opt_state_load_def MI_HUGE_OS_PAGE_SIZE_def)

end
