(* ===== verification/Arena.thy ===== *)
theory Arena
  imports Os Bitmap
begin

text \<open>
  Arenas (\<open>arena.c\<close>): large memory areas, at most 64 of them, whose 1MiB blocks are claimed in
  an atomic bitmap. An arena descriptor lives at an address; the table \<open>mi_arenas\<close> holds the
  addresses, 0 at its unused entries. \<open>None\<close> is the undefined shift of the bitmap search.
\<close>

definition MI_ARENA_BLOCK_SIZE :: u64 where [mi_consts]: "MI_ARENA_BLOCK_SIZE = 8 * MI_SEGMENT_SIZE"
definition MI_ARENA_MAX_OBJ_SIZE :: u64 where
  [mi_consts]: "MI_ARENA_MAX_OBJ_SIZE = MI_BITMAP_FIELD_BITS * MI_ARENA_BLOCK_SIZE"
definition MI_ARENA_MIN_OBJ_SIZE :: u64 where [mi_consts]: "MI_ARENA_MIN_OBJ_SIZE = MI_ARENA_BLOCK_SIZE div 2"
definition MI_MAX_ARENAS :: u64 where [mi_consts]: "MI_MAX_ARENAS = 64"
definition MI_MEMID_OS :: u64 where [mi_consts]: "MI_MEMID_OS = 0"

record mi_arena =
  arena_start :: addr
  arena_block_count :: u64
  arena_field_count :: u64
  arena_numa_node :: int
  arena_is_zero_init :: bool
  arena_is_committed :: bool
  arena_is_large :: bool
  arena_search_idx :: u64
  arena_blocks_dirty :: mi_bitmap
  arena_blocks_committed :: mi_bitmap
  arena_blocks_inuse :: mi_bitmap

record arena_state = os_state +
  st_arena :: "addr \<Rightarrow> mi_arena"
  st_arenas :: "addr list"
  st_arena_count :: u64

definition arena_write :: "addr \<Rightarrow> mi_arena \<Rightarrow> 'a arena_state_scheme \<Rightarrow> 'a arena_state_scheme" where
  "arena_write a d s = s\<lparr>st_arena := (st_arena s)(a := d)\<rparr>"

section \<open>Memory ids\<close>

definition mi_arena_id_create :: "u64 \<Rightarrow> u64 \<Rightarrow> u64" where
  "mi_arena_id_create arena_index bitmap_index =
     push_bit 8 bitmap_index OR ((arena_index + 1) AND 0xFF)"

definition mi_arena_id_indices :: "u64 \<Rightarrow> u64 \<times> u64" where
  "mi_arena_id_indices memid = ((memid AND 0xFF) - 1, drop_bit 8 memid)"

definition mi_block_count_of_size :: "u64 \<Rightarrow> u64" where
  "mi_block_count_of_size sz = mi_divide_up sz MI_ARENA_BLOCK_SIZE"

section \<open>Claiming blocks\<close>

text \<open>The search visits every field once, from the field of the last success on.\<close>

function mi_arena_alloc_loop ::
    "u64 \<Rightarrow> u64 \<Rightarrow> u64 \<Rightarrow> u64 \<Rightarrow> mi_bitmap \<Rightarrow> (u64 option \<times> u64 \<times> mi_bitmap) option" where
  "mi_arena_alloc_loop visited idx fcount blocks inuse =
     (if \<not> visited < fcount then Some (None, idx, inuse)
      else
        let idx = (if fcount \<le> idx then 0 else idx) in do {
          (found, inuse) \<leftarrow> mi_bitmap_try_find_claim_field [] inuse idx blocks;
          (case found of
             Some b \<Rightarrow> Some (Some b, idx, inuse)
           | None \<Rightarrow> mi_arena_alloc_loop (visited + 1) (idx + 1) fcount blocks inuse)
        })"
  by pat_completeness auto

termination
proof (relation "measure (\<lambda>(visited, _, fcount, _, _). unat fcount - unat visited)", goal_cases)
  case 1 then show ?case by simp
next
  case 2 then show ?case by (simp add: unat_plus_one_less word_less_nat_alt)
qed

declare mi_arena_alloc_loop.simps [simp del]

definition mi_arena_alloc :: "mi_arena \<Rightarrow> u64 \<Rightarrow> (u64 option \<times> mi_arena) option" where
  "mi_arena_alloc arena blocks =
     do {
       (found, idx, inuse) \<leftarrow> mi_arena_alloc_loop 0 (arena_search_idx arena) (arena_field_count arena)
                                blocks (arena_blocks_inuse arena);
       let arena = arena\<lparr>arena_blocks_inuse := inuse\<rparr>;
       Some (found, (case found of None \<Rightarrow> arena | Some _ \<Rightarrow> arena\<lparr>arena_search_idx := idx\<rparr>))
     }"

text \<open>What an allocation returns besides the pointer.\<close>

record mem_info =
  mi_commit :: bool
  mi_large :: bool
  mi_is_zero :: bool
  mi_memid :: u64

definition mi_arena_alloc_from ::
    "addr \<Rightarrow> u64 \<Rightarrow> u64 \<Rightarrow> mem_info \<Rightarrow> stats_ref \<Rightarrow> 'a arena_state_scheme
       \<Rightarrow> (addr \<times> mem_info \<times> 'a arena_state_scheme) option" where
  "mi_arena_alloc_from a arena_index needed_bcount info stats s =
     do {
       (found, arena) \<leftarrow> mi_arena_alloc (st_arena s a) needed_bcount;
       (case found of
          None \<Rightarrow> Some (0, info, arena_write a arena s)
        | Some bitmap_index \<Rightarrow>
            let p = arena_start arena + bitmap_index * MI_ARENA_BLOCK_SIZE;
                (fresh, _, dirty) = mi_bitmap_claim (arena_blocks_dirty arena) (arena_field_count arena)
                                      needed_bcount bitmap_index;
                arena = arena\<lparr>arena_blocks_dirty := dirty\<rparr>;
                info = info\<lparr>mi_memid := mi_arena_id_create arena_index bitmap_index,
                            mi_is_zero := fresh, mi_large := arena_is_large arena\<rparr>;
                s = arena_write a arena s
            in if arena_is_committed arena then Some (p, info\<lparr>mi_commit := True\<rparr>, s)
               else if mi_commit info then
                 let (_, any_uncommitted, committed) =
                       mi_bitmap_claim (arena_blocks_committed arena) (arena_field_count arena)
                         needed_bcount bitmap_index;
                     s = arena_write a (arena\<lparr>arena_blocks_committed := committed\<rparr>) s
                 in if any_uncommitted then
                      let (_, commit_zero, s) = mi_os_commit p (needed_bcount * MI_ARENA_BLOCK_SIZE) stats s
                      in Some (p, (if commit_zero then info\<lparr>mi_is_zero := True\<rparr> else info), s)
                    else Some (p, info, s)
               else
                 Some (p, info\<lparr>mi_commit := mi_bitmap_is_claimed (arena_blocks_committed arena)
                                  (arena_field_count arena) needed_bcount bitmap_index\<rparr>, s))
     }"

text \<open>The two loops over the arenas: first the local NUMA node, then the others.\<close>

fun mi_arena_try ::
    "addr list \<Rightarrow> u64 \<Rightarrow> bool \<Rightarrow> int \<Rightarrow> u64 \<Rightarrow> mem_info \<Rightarrow> stats_ref \<Rightarrow> 'a arena_state_scheme
       \<Rightarrow> (addr \<times> mem_info \<times> 'a arena_state_scheme) option" where
  "mi_arena_try [] i local_only numa_node bcount info stats s = Some (0, info, s)"
| "mi_arena_try (a # as) i local_only numa_node bcount info stats s =
     (if a = 0 then Some (0, info, s)
      else
        let arena = st_arena s a;
            node = arena_numa_node arena;
            eligible = (if local_only then node < 0 \<or> node = numa_node else 0 \<le> node \<and> node \<noteq> numa_node)
        in if eligible \<and> (mi_large info \<or> \<not> arena_is_large arena) then do {
             (p, info, s) \<leftarrow> mi_arena_alloc_from a i bcount info stats s;
             if p \<noteq> 0 then Some (p, info, s)
             else mi_arena_try as (i + 1) local_only numa_node bcount info stats s
           }
           else mi_arena_try as (i + 1) local_only numa_node bcount info stats s)"

definition mi_arena_alloc_aligned ::
    "u64 \<Rightarrow> u64 \<Rightarrow> bool \<Rightarrow> bool \<Rightarrow> stats_ref \<Rightarrow> 'a arena_state_scheme
       \<Rightarrow> (addr \<times> mem_info \<times> 'a arena_state_scheme) option" where
  "mi_arena_alloc_aligned sz alignment commit large stats s =
     (let info = \<lparr>mi_commit = commit, mi_large = large, mi_is_zero = False, mi_memid = MI_MEMID_OS\<rparr> in do {
        (p, info, s) \<leftarrow>
          (if alignment \<le> MI_SEGMENT_SIZE \<and> sz \<le> MI_ARENA_MAX_OBJ_SIZE \<and> MI_ARENA_MIN_OBJ_SIZE \<le> sz then
             let bcount = mi_block_count_of_size sz;
                 (numa_node, s) = mi_os_numa_node s
             in do {
               (p, info, s) \<leftarrow> mi_arena_try (st_arenas s) 0 True (sint (numa_node)) bcount info stats s;
               if p \<noteq> 0 then Some (p, info, s)
               else mi_arena_try (st_arenas s) 0 False (sint (numa_node)) bcount info stats s
             }
           else Some (0, info, s));
        if p \<noteq> 0 then Some (p, info, s)
        else
          let info = info\<lparr>mi_is_zero := True, mi_memid := MI_MEMID_OS\<rparr>;
              (p, lg, s) = mi_os_alloc_aligned sz alignment (mi_commit info) (Some (mi_large info)) stats s
          in Some (p, info\<lparr>mi_large := (case lg of None \<Rightarrow> mi_large info | Some l \<Rightarrow> l)\<rparr>, s)
      })"

definition mi_arena_alloc_mem ::
    "u64 \<Rightarrow> bool \<Rightarrow> bool \<Rightarrow> stats_ref \<Rightarrow> 'a arena_state_scheme
       \<Rightarrow> (addr \<times> mem_info \<times> 'a arena_state_scheme) option" where
  "mi_arena_alloc_mem sz commit large stats s =
     mi_arena_alloc_aligned sz MI_ARENA_BLOCK_SIZE commit large stats s"

section \<open>Freeing\<close>

datatype mi_error = EFAULT | EINVAL | EAGAIN | ENOMEM | EOVERFLOW

text \<open>The error that the call reports, if any; \<open>_mi_error_message\<close> itself does nothing.\<close>

definition mi_arena_free ::
    "addr \<Rightarrow> u64 \<Rightarrow> u64 \<Rightarrow> bool \<Rightarrow> stats_ref \<Rightarrow> 'a arena_state_scheme
       \<Rightarrow> mi_error option \<times> 'a arena_state_scheme" where
  "mi_arena_free p sz memid all_committed stats s =
     (if p = 0 \<or> sz = 0 then (None, s)
      else if memid = MI_MEMID_OS then (None, mi_os_free_ex p sz all_committed stats s)
      else
        let (arena_idx, bitmap_idx) = mi_arena_id_indices memid;
            a = st_arenas s ! unat arena_idx
        in if a = 0 then (Some EINVAL, s)
           else
             let arena = st_arena s a in
             if arena_field_count arena \<le> mi_bitmap_index_field bitmap_idx then (Some EINVAL, s)
             else
               let blocks = mi_block_count_of_size sz;
                   (ones, inuse) = mi_bitmap_unclaim (arena_blocks_inuse arena) (arena_field_count arena)
                                     blocks bitmap_idx;
                   s = arena_write a (arena\<lparr>arena_blocks_inuse := inuse\<rparr>) s
               in if \<not> ones then (Some EAGAIN, s) else (None, s))"

section \<open>Adding arenas\<close>

text \<open>The atomic increment returns the count before it.\<close>

definition mi_arena_add :: "addr \<Rightarrow> 'a arena_state_scheme \<Rightarrow> bool \<times> 'a arena_state_scheme" where
  "mi_arena_add a s =
     (let i = st_arena_count s;
          s = s\<lparr>st_arena_count := i + 1\<rparr>
      in if MI_MAX_ARENAS \<le> i then (False, s\<lparr>st_arena_count := st_arena_count s - 1\<rparr>)
         else (True, s\<lparr>st_arenas := (st_arenas s)[unat i := a]\<rparr>))"

definition mi_arena_size :: u64 where "mi_arena_size = 80"

text \<open>
  Reserving huge pages at a NUMA node. The descriptor and its bitmaps come from the C heap and
  are not cleared: the bitmaps start with whatever words that memory holds.
\<close>

definition mi_reserve_huge_os_pages_at ::
    "u64 \<Rightarrow> int \<Rightarrow> u64 \<Rightarrow> 'a arena_state_scheme \<Rightarrow> mi_error option \<times> 'a arena_state_scheme" where
  "mi_reserve_huge_os_pages_at pages numa_node timeout_msecs s =
     (if pages = 0 then (None, s)
      else
        let numa_node = (if numa_node < -1 then -1 else numa_node);
            (numa_node, s) =
              (if 0 \<le> numa_node
               then (let (count, s) = mi_os_numa_node_count s in (numa_node mod uint count, s))
               else (numa_node, s));
            (p, pages_reserved, hsize, s) = mi_os_alloc_huge_os_pages pages numa_node timeout_msecs s
        in if p = 0 \<or> pages_reserved = 0 then (Some ENOMEM, snd (mi_warning_message s))
           else
             let bcount = mi_block_count_of_size hsize;
                 fields = mi_divide_up bcount MI_BITMAP_FIELD_BITS;
                 asize = mi_arena_size + 2 * fields * 8;
                 words = env_malloc_words (st_env s) (st_log s);
                 (a, s) = mi_os_alloc asize MainStats s
             in if a = 0 then (Some ENOMEM, mi_os_free_huge_pages p hsize MainStats s)
                else
                  let inuse = map words [0..<unat fields];
                      dirty = map words [unat fields..<2 * unat fields];
                      post = fields * MI_BITMAP_FIELD_BITS - bcount;
                      inuse = (if 0 < sint post then
                                 (let postidx = mi_bitmap_index_create (fields - 1) (MI_BITMAP_FIELD_BITS - post);
                                      (_, _, inuse) = mi_bitmap_claim inuse fields post postidx
                                  in inuse)
                               else inuse);
                      s = arena_write a
                            \<lparr>arena_start = p, arena_block_count = bcount, arena_field_count = fields,
                             arena_numa_node = numa_node, arena_is_zero_init = True,
                             arena_is_committed = True, arena_is_large = True, arena_search_idx = 0,
                             arena_blocks_dirty = dirty, arena_blocks_committed = [],
                             arena_blocks_inuse = inuse\<rparr> s
                  in (None, snd (mi_arena_add a s)))"

text \<open>Spreading huge pages over the NUMA nodes.\<close>

function mi_reserve_interleave_loop ::
    "u64 \<Rightarrow> u64 \<Rightarrow> u64 \<Rightarrow> u64 \<Rightarrow> u64 \<Rightarrow> u64 \<Rightarrow> 'a arena_state_scheme
       \<Rightarrow> mi_error option \<times> 'a arena_state_scheme" where
  "mi_reserve_interleave_loop numa_node numa_count pages pages_per pages_mod timeout_per s =
     (if \<not> (numa_node < numa_count \<and> 0 < pages) then (None, s)
      else
        let node_pages = (if numa_node < pages_mod then pages_per + 1 else pages_per);
            (err, s) = mi_reserve_huge_os_pages_at node_pages (sint (ucast numa_node :: u32)) timeout_per s
        in if err \<noteq> None then (err, s)
           else mi_reserve_interleave_loop (numa_node + 1) numa_count
                  (if pages < node_pages then 0 else pages - node_pages) pages_per pages_mod timeout_per s)"
  by pat_completeness auto

termination
proof (relation "measure (\<lambda>(numa_node, numa_count, _, _, _, _, _). unat numa_count - unat numa_node)", goal_cases)
  case 1 then show ?case by simp
next
  case (2 numa_node numa_count)
  then have "numa_node < numa_count" by simp
  then show ?case using unat_plus_one_less [of numa_node numa_count] by (simp add: word_less_nat_alt)
qed

declare mi_reserve_interleave_loop.simps [simp del]

definition mi_reserve_huge_os_pages_interleave ::
    "u64 \<Rightarrow> u64 \<Rightarrow> u64 \<Rightarrow> 'a arena_state_scheme \<Rightarrow> mi_error option \<times> 'a arena_state_scheme" where
  "mi_reserve_huge_os_pages_interleave pages numa_nodes timeout_msecs s =
     (if pages = 0 then (None, s)
      else
        let (numa_count, s) = (if 0 < numa_nodes then (numa_nodes, s) else mi_os_numa_node_count s);
            numa_count = (if numa_count = 0 then 1 else numa_count);
            timeout_per = (if timeout_msecs = 0 then 0 else timeout_msecs div numa_count + 50)
        in mi_reserve_interleave_loop 0 numa_count pages (pages div numa_count) (pages mod numa_count)
             timeout_per s)"

section \<open>Properties\<close>

text \<open>
  A memory id gives back the arena index and the bitmap index it was made from, and is never
  the id of memory that came directly from the OS.
\<close>

theorem mi_arena_id_roundtrip:
  assumes "arena_index < 0xFE" and "unat bitmap_index < 2 ^ 56"
  shows "mi_arena_id_indices (mi_arena_id_create arena_index bitmap_index) = (arena_index, bitmap_index)
    \<and> mi_arena_id_create arena_index bitmap_index \<noteq> MI_MEMID_OS"
proof -
  let ?id = "mi_arena_id_create arena_index bitmap_index"
  have m: "(0xFF :: u64) = mask 8" by (simp add: mask_eq_decr_exp)
  have ua: "unat (arena_index + 1) = unat arena_index + 1" "unat arena_index < 254"
    using assms(1) by (simp_all add: unat_add_bounded word_less_nat_alt)
  have low: "?id AND 0xFF = (arena_index + 1) AND 0xFF"
    unfolding m mi_arena_id_create_def
    by (rule bit_word_eqI) (auto simp: bit_simps)
  moreover have "unat ((arena_index + 1) AND 0xFF) = unat arena_index + 1"
    using ua unfolding m by (simp only: unat_and_mask) simp
  then have "unat ((arena_index + 1) AND 0xFF) = unat (arena_index + 1)"
    using ua by simp
  then have ai: "(arena_index + 1) AND 0xFF = arena_index + 1"
    by (rule unsigned_word_eqI)
  ultimately have a: "(?id AND 0xFF) - 1 = arena_index" by simp
  have top: "\<not> bit bitmap_index n" if "56 \<le> n" for n
  proof -
    have "unat bitmap_index < 2 ^ n"
      using assms(2) power_increasing [OF that, of "2::nat"] by (rule order_less_le_trans) simp
    then have "\<not> bit (unat bitmap_index) n" by (simp add: bit_iff_odd)
    then show ?thesis by (simp add: bit_unsigned_iff) 
  qed
  have "drop_bit 8 ?id = bitmap_index"
  proof (rule bit_word_eqI)
    fix n assume "n < LENGTH(64)"
    have "\<not> bit ((0xFF :: u64)) (8 + n)" unfolding m by (simp add: bit_mask_iff)
    then show "bit (drop_bit 8 ?id) n = bit bitmap_index n"
      using top [of n] bit_less_64 [of bitmap_index n]
      unfolding mi_arena_id_create_def
      by (cases "56 \<le> n") (auto simp: bit_simps)
  qed
  moreover have "?id \<noteq> 0"
  proof
    assume "?id = 0"
    with low ai have "arena_index + 1 = 0" by simp
    with ua show False by simp
  qed
  ultimately show ?thesis
    using a by (simp add: mi_arena_id_indices_def MI_MEMID_OS_def)
qed

lemma mi_arena_id_roundtrip_witness: "mi_arena_id_indices (mi_arena_id_create 3 1000) = (3, 1000)"
  using mi_arena_id_roundtrip [of 3 1000] by simp

text \<open>The fields that the search of an arena visits, in order.\<close>

lemma mi_arena_alloc_loop_result:
  assumes c: "0 < unat blocks" "unat blocks \<le> 64"
    and "\<forall>i < unat fcount. shift_defined blocks (inuse ! i)"
    and "unat idx \<le> unat fcount" and "unat fcount < 2 ^ 32"
  shows "\<exists>found idx' inuse'.
      mi_arena_alloc_loop visited idx fcount blocks inuse = Some (found, idx', inuse')
    \<and> (case found of
         None \<Rightarrow> inuse' = inuse
           \<and> (\<forall>k. unat visited + k < unat fcount \<longrightarrow>
                (\<forall>b. b + unat blocks \<le> 64 \<longrightarrow>
                   \<not> free_run (inuse ! ((unat idx + k) mod unat fcount)) b (unat blocks)))
       | Some p \<Rightarrow> (let i = unat (mi_bitmap_index_field p); b = unat (mi_bitmap_index_bit_in_field p) in
           i < unat fcount \<and> b + unat blocks \<le> 64 \<and> free_run (inuse ! i) b (unat blocks)
           \<and> unat p = 64 * i + b \<and> idx' = mi_bitmap_index_field p
           \<and> inuse' = inuse[i := inuse ! i OR run_at (unat blocks) b]))"
  using assms
proof (induction visited idx fcount blocks inuse rule: mi_arena_alloc_loop.induct)
  case (1 visited idx fcount blocks inuse)
  show ?case
  proof (cases "visited < fcount")
    case False
    then have "\<not> unat visited + k < unat fcount" for k by (simp add: word_less_nat_alt)
    with False show ?thesis by (subst mi_arena_alloc_loop.simps) simp
  next
    case True
    define i where "i = (if fcount \<le> idx then 0 else idx)"
    have f0: "0 < unat fcount" using True by (simp add: word_less_nat_alt)
    have i: "unat i < unat fcount" "unat i mod unat fcount = unat idx mod unat fcount"
      using "1.prems"(4) f0 by (auto simp: i_def word_le_nat_alt)
    obtain found field' where
      E: "mi_bitmap_try_find_claim_field [] inuse i blocks
        = Some (map_option (mi_bitmap_index_create i) found, inuse[unat i := field'])"
      and R: "scan_result (unat blocks) [] (inuse ! unat i) 0 (found, field')"
      using find_claim_field_alone [OF "1.prems"(1,2)] "1.prems"(3) i(1) by blast
    show ?thesis
    proof (cases found)
      case (Some x)
      have x: "unat x < 64" using R Some "1.prems"(1) by (simp add: scan_result_def)
      have "unat i * 64 + 63 < 2 ^ 64" using i(1) "1.prems"(5) by simp
      note I = index_create_props [OF x this]
      have "mi_arena_alloc_loop visited idx fcount blocks inuse
          = Some (Some (mi_bitmap_index_create i x), i, inuse[unat i := field'])"
        using True E Some by (subst mi_arena_alloc_loop.simps) (simp add: i_def Let_def)
      then show ?thesis
        using R Some i(1) by (simp add: I Let_def scan_result_def)
    next
      case None
      then have same: "inuse[unat i := field'] = inuse"
        and occ: "\<forall>b. b + unat blocks \<le> 64 \<longrightarrow> \<not> free_run (inuse ! unat i) b (unat blocks)"
        using R by (simp_all add: scan_result_def)
      have E': "mi_bitmap_try_find_claim_field [] inuse i blocks = Some (None, inuse)"
        using E None same by simp
      have u1: "unat (i + 1) = unat i + 1"
        using i(1) "1.prems"(5) by (simp add: unat_add_bounded)
      have uv: "unat (visited + 1) = unat visited + 1"
        using unat_plus_one_less [OF True] by simp
      obtain found' idx' inuse' where
        L: "mi_arena_alloc_loop (visited + 1) (i + 1) fcount blocks inuse = Some (found', idx', inuse')"
        and IH: "case found' of
         None \<Rightarrow> inuse' = inuse
           \<and> (\<forall>k. unat (visited + 1) + k < unat fcount \<longrightarrow>
                (\<forall>b. b + unat blocks \<le> 64 \<longrightarrow>
                   \<not> free_run (inuse ! ((unat (i + 1) + k) mod unat fcount)) b (unat blocks)))
       | Some p \<Rightarrow> (let i = unat (mi_bitmap_index_field p); b = unat (mi_bitmap_index_bit_in_field p) in
           i < unat fcount \<and> b + unat blocks \<le> 64 \<and> free_run (inuse ! i) b (unat blocks)
           \<and> unat p = 64 * i + b \<and> idx' = mi_bitmap_index_field p
           \<and> inuse' = inuse[i := inuse ! i OR run_at (unat blocks) b])"
        using "1.IH" [OF _ i_def E' refl refl] True "1.prems" i(1) u1 by (auto simp: not_less)
      have eq: "mi_arena_alloc_loop visited idx fcount blocks inuse = Some (found', idx', inuse')"
        using True E' L by (subst mi_arena_alloc_loop.simps) (simp add: i_def Let_def)
      have step: "\<not> free_run (inuse ! ((unat idx + k) mod unat fcount)) b (unat blocks)"
        if none: "found' = None" and k: "unat visited + k < unat fcount" and b: "b + unat blocks \<le> 64" for k b
      proof (cases k)
        case 0
        then show ?thesis using occ b i by (metis add.right_neutral mod_less)
      next
        case (Suc k')
        have "(unat idx + k) mod unat fcount = (unat i + k) mod unat fcount"
          using i(2) by (metis mod_add_left_eq)
        also have "\<dots> = (unat (i + 1) + k') mod unat fcount" by (simp add: u1 Suc)
        finally show ?thesis using IH none k b Suc uv by simp
      qed
      show ?thesis
        using eq IH step by (cases found') auto
    qed
  qed
qed

text \<open>
  C34. An arena allocation of 1 to 64 blocks, undisturbed, returns; it claims a run of free blocks
  inside the bitmap, marks exactly that run in use, remembers the field where it found it and
  changes nothing else in the arena; it fails only if no field of the bitmap has a free run
  of that length, whatever field the search starts from. For 64 blocks no field may have its
  first bit clear and its last bit set: there the bitmap search shifts by 64.
\<close>

theorem mi_arena_alloc_correct:
  assumes "0 < unat blocks" and "unat blocks \<le> 64"
    and "\<forall>i < unat (arena_field_count arena). shift_defined blocks (arena_blocks_inuse arena ! i)"
    and "unat (arena_search_idx arena) \<le> unat (arena_field_count arena)"
    and "unat (arena_field_count arena) < 2 ^ 32"
  shows "\<exists>found arena'. mi_arena_alloc arena blocks = Some (found, arena')
    \<and> (case found of
         None \<Rightarrow> arena' = arena \<and> no_fit (arena_blocks_inuse arena) 0 (unat blocks) (unat (arena_field_count arena))
       | Some p \<Rightarrow>
           (let i = unat p div 64; b = unat p mod 64 in
              i < unat (arena_field_count arena) \<and> b + unat blocks \<le> 64
              \<and> free_run (arena_blocks_inuse arena ! i) b (unat blocks)
              \<and> arena' = arena
                  \<lparr>arena_blocks_inuse := (arena_blocks_inuse arena)
                     [i := arena_blocks_inuse arena ! i OR run_at (unat blocks) b],
                   arena_search_idx := word_of_nat i\<rparr>))"
proof -
  let ?inuse = "arena_blocks_inuse arena" and ?idx = "arena_search_idx arena"
    and ?f = "arena_field_count arena"
  obtain found idx' inuse' where
    L: "mi_arena_alloc_loop 0 ?idx ?f blocks ?inuse = Some (found, idx', inuse')"
    and R: "case found of
         None \<Rightarrow> inuse' = ?inuse
           \<and> (\<forall>k. unat (0 :: u64) + k < unat ?f \<longrightarrow>
                (\<forall>b. b + unat blocks \<le> 64 \<longrightarrow>
                   \<not> free_run (?inuse ! ((unat ?idx + k) mod unat ?f)) b (unat blocks)))
       | Some p \<Rightarrow> (let i = unat (mi_bitmap_index_field p); b = unat (mi_bitmap_index_bit_in_field p) in
           i < unat ?f \<and> b + unat blocks \<le> 64 \<and> free_run (?inuse ! i) b (unat blocks)
           \<and> unat p = 64 * i + b \<and> idx' = mi_bitmap_index_field p \<and> inuse' = ?inuse[i := ?inuse ! i OR run_at (unat blocks) b])"
    using mi_arena_alloc_loop_result [OF assms, of 0] by blast
  show ?thesis
  proof (cases found)
    case None
    have "no_fit ?inuse 0 (unat blocks) (unat ?f)"
      unfolding no_fit_def
    proof (intro allI impI)
      fix i b assume i: "0 \<le> i \<and> i < unat ?f" and b: "b + unat blocks \<le> 64"
      obtain k where "k < unat ?f" and "(unat ?idx + k) mod unat ?f = i"
        using i assms(4) by (metis wrap_around_covers)
      then show "\<not> free_run (?inuse ! i) b (unat blocks)"
        using R None b by auto
    qed
    then show ?thesis
      using L R None by (simp add: mi_arena_alloc_def)
  next
    case (Some p)
    let ?i = "unat (mi_bitmap_index_field p)" and ?b = "unat (mi_bitmap_index_bit_in_field p)"
    have "?b < 64" "unat p = 64 * ?i + ?b" using R Some assms(1) by (auto simp: Let_def)
    then have "unat p div 64 = ?i" "unat p mod 64 = ?b" by simp_all
    then show ?thesis
      using L R Some by (simp add: mi_arena_alloc_def Let_def)
  qed
qed

text \<open>An arena with two fields of blocks, the first field in use.\<close>

definition arena_example :: mi_arena where
  "arena_example =
     \<lparr>arena_start = 0x200000000000, arena_block_count = 128, arena_field_count = 2,
      arena_numa_node = -1, arena_is_zero_init = True, arena_is_committed = True,
      arena_is_large = False, arena_search_idx = 0, arena_blocks_dirty = [0, 0],
      arena_blocks_committed = [], arena_blocks_inuse = [- 1, 0]\<rparr>"

lemma mi_arena_alloc_correct_witness: "mi_arena_alloc arena_example 64 \<noteq> None"
proof -
  have "\<forall>i < 2. shift_defined 64 ([- 1, 0] ! i)"
    by (simp add: shift_defined_def less_Suc_eq numeral_2_eq_2)
  then have "\<forall>i < unat (arena_field_count arena_example).
      shift_defined 64 (arena_blocks_inuse arena_example ! i)" by (simp add: arena_example_def)
  then show ?thesis
    using mi_arena_alloc_correct [of 64 arena_example] by (auto simp: arena_example_def)
qed

text \<open>
  Freeing arena memory twice is detected: once a free of an allocated run has succeeded, the
  run's bits are clear and the same free again reports an error and leaves the arena as it is.
\<close>

theorem mi_arena_double_free:
  assumes free: "mi_arena_free p sz memid c stats s = (None, s')"
    and mem: "p \<noteq> 0" "sz \<noteq> 0" "memid \<noteq> MI_MEMID_OS"
    and ids: "mi_arena_id_indices memid = (ai, bi)"
    and fields: "unat (arena_field_count (st_arena s (st_arenas s ! unat ai)))
        \<le> length (arena_blocks_inuse (st_arena s (st_arenas s ! unat ai)))"
    and run: "mi_bitmap_mask (mi_block_count_of_size sz) (mi_bitmap_index_bit_in_field bi) \<noteq> 0"
  shows "mi_arena_free p sz memid c stats s' = (Some EAGAIN, s')"
proof -
  let ?a = "st_arenas s ! unat ai"
  let ?A = "st_arena s ?a"
  let ?i = "unat (mi_bitmap_index_field bi)"
  let ?m = "mi_bitmap_mask (mi_block_count_of_size sz) (mi_bitmap_index_bit_in_field bi)"
  let ?B = "(arena_blocks_inuse ?A)[?i := arena_blocks_inuse ?A ! ?i AND NOT ?m]"
  have ok: "?a \<noteq> 0" "mi_bitmap_index_field bi < arena_field_count ?A"
    and s': "s' = arena_write ?a (?A\<lparr>arena_blocks_inuse := ?B\<rparr>) s"
    using free mem ids
    by (auto simp: mi_arena_free_def mi_bitmap_unclaim_def Let_def not_le split: if_splits)
  have i: "?i < length (arena_blocks_inuse ?A)"
    using ok(2) fields by (simp add: word_less_nat_alt)
  have n: "(x AND NOT ?m) AND ?m = 0" "(x AND NOT ?m) AND NOT ?m = x AND NOT ?m" for x :: u64
    by (rule bit_word_eqI; auto simp: bit_simps)+
  have "?B[?i := ?B ! ?i AND NOT ?m] = ?B"
    using i by (simp add: n)
  then show ?thesis
    using mem ids ok run i
    by (simp add: mi_arena_free_def s' arena_write_def mi_bitmap_unclaim_def Let_def n not_le)
qed

text \<open>The static variables at program load, and a state with one arena.\<close>

definition arena_state_load :: "os_env \<Rightarrow> arena_state" where
  "arena_state_load env =
     os_state.extend (os_state_load env)
       \<lparr>st_arena = (\<lambda>_. arena_example), st_arenas = replicate 64 0, st_arena_count = 0\<rparr>"

definition arena_state_example :: arena_state where
  "arena_state_example =
     snd (mi_arena_add 0x5000 (arena_write 0x5000 arena_example (arena_state_load os_env_once)))"

lemma mi_arena_double_free_witness:
  "mi_arena_free 0x200000000000 0x200000 1 True MainStats
      (snd (mi_arena_free 0x200000000000 0x200000 1 True MainStats arena_state_example))
    = (Some EAGAIN, snd (mi_arena_free 0x200000000000 0x200000 1 True MainStats arena_state_example))"
proof -
  have ids: "mi_arena_id_indices 1 = (0, 0)" by code_simp
  have bc: "mi_block_count_of_size 0x200000 = 2"
    by (simp add: mi_block_count_of_size_def mi_divide_up_def MI_ARENA_BLOCK_SIZE_def MI_SEGMENT_SIZE_def)
  have m: "mi_bitmap_mask 2 0 = 3" "mi_bitmap_index_field 0 = 0" "mi_bitmap_index_bit_in_field 0 = 0"
    by code_simp+
  have a: "st_arenas arena_state_example ! unat 0 = 0x5000"
    and A: "st_arena arena_state_example 0x5000 = arena_example"
    by (simp_all add: arena_state_example_def mi_arena_add_def arena_write_def arena_state_load_def
        os_state.defs os_state_load_def MI_MAX_ARENAS_def Let_def)
  have one: "mi_arena_free 0x200000000000 0x200000 1 True MainStats arena_state_example
      = (None, snd (mi_arena_free 0x200000000000 0x200000 1 True MainStats arena_state_example))"
    using a A by (simp add: mi_arena_free_def ids Let_def bc m mi_bitmap_unclaim_def arena_example_def MI_MEMID_OS_def)
  show ?thesis
    using mi_arena_double_free [OF one _ _ _ ids] a A by (simp add: bc m arena_example_def MI_MEMID_OS_def)
qed

end
