(* ===== verification/OsFrame.thy ===== *)
theory OsFrame
  imports Arena
begin

text \<open>
  Frame facts: the operations of the option, OS and arena layers change neither the environment
  nor the page size, and nothing of the record extensions above their own. \<open>os_frame\<close> (for
  results as equations) and \<open>os_frame_simps\<close> collect them for the OS layer.
\<close>

named_theorems os_frame \<open>the OS operations leave the state above the OS layer alone\<close>
named_theorems os_frame_simps \<open>the same facts as rewrite rules\<close>
named_theorems arena_frame \<open>the arena operations leave the state above the arena layer alone\<close>

definition os_kept :: "'a os_state_scheme \<Rightarrow> os_env \<times> u64 \<times> 'a" where
  "os_kept s = (st_env s, st_page_size s, os_state.more s)"

lemma os_kept_update [simp]:
  "os_kept (st_stats_update f1 s) = os_kept s"
  "os_kept (st_time_start_update f2 s) = os_kept s"
  "os_kept (st_clock_diff_update f3 s) = os_kept s"
  "os_kept (st_ticks_update f4 s) = os_kept s"
  "os_kept (st_options_update f5 s) = os_kept s"
  "os_kept (st_error_count_update f6 s) = os_kept s"
  "os_kept (st_msg_recurse_update f7 s) = os_kept s"
  "os_kept (st_log_update f8 s) = os_kept s"
  "os_kept (st_large_page_try_ok_update f9 s) = os_kept s"
  "os_kept (st_huge_available_update f10 s) = os_kept s"
  "os_kept (st_aligned_base_update f11 s) = os_kept s"
  "os_kept (st_huge_start_update f12 s) = os_kept s"
  "os_kept (st_reset_advice_update f13 s) = os_kept s"
  "os_kept (st_numa_count_update f14 s) = os_kept s"
  by (simp_all add: os_kept_def)

lemma os_kept_eq_iff:
  "os_kept s' = os_kept s \<longleftrightarrow>
     st_env s' = st_env s \<and> st_page_size s' = st_page_size s \<and> os_state.more s' = os_state.more s"
  by (simp add: os_kept_def)

lemma os_event_os_frame [os_frame_simps]: "os_kept (os_event ev s) = os_kept s"
  by (simp add: os_event_def)

lemma stats_apply_os_frame [os_frame_simps]: "os_kept (stats_apply r f s) = os_kept s"
  by (simp add: stats_apply_def)

lemma mi_option_get_os_frame [os_frame]: "mi_option_get opt s = (x, s') \<Longrightarrow> os_kept s' = os_kept s"
  by (auto simp: mi_option_get_def mi_option_init_def opt_write_def mi_getenv_def os_frame_simps Let_def split: prod.splits if_splits option.splits dest!: os_frame)

lemma mi_option_get_os_frame_snd [os_frame_simps]: "os_kept (snd (mi_option_get opt s)) = os_kept s"
  by (metis mi_option_get_os_frame prod.collapse)

lemma mi_option_is_enabled_os_frame [os_frame]: "mi_option_is_enabled opt s = (x, s') \<Longrightarrow> os_kept s' = os_kept s"
  by (auto simp: mi_option_is_enabled_def os_frame_simps Let_def split: prod.splits if_splits option.splits dest!: os_frame)

lemma mi_option_is_enabled_os_frame_snd [os_frame_simps]: "os_kept (snd (mi_option_is_enabled opt s)) = os_kept s"
  by (metis mi_option_is_enabled_os_frame prod.collapse)

lemma mi_recurse_enter_os_frame [os_frame]: "mi_recurse_enter s = (x, s') \<Longrightarrow> os_kept s' = os_kept s"
  by (auto simp: mi_recurse_enter_def os_frame_simps Let_def split: prod.splits if_splits option.splits dest!: os_frame)

lemma mi_recurse_enter_os_frame_snd [os_frame_simps]: "os_kept (snd (mi_recurse_enter s)) = os_kept s"
  by (metis mi_recurse_enter_os_frame prod.collapse)

lemma mi_warning_message_os_frame [os_frame]: "mi_warning_message s = (x, s') \<Longrightarrow> os_kept s' = os_kept s"
  by (auto simp: mi_warning_message_def mi_vfprintf_def mi_recurse_exit_def os_frame_simps Let_def split: prod.splits if_splits option.splits dest!: os_frame)

lemma mi_warning_message_os_frame_snd [os_frame_simps]: "os_kept (snd (mi_warning_message s)) = os_kept s"
  by (metis mi_warning_message_os_frame prod.collapse)

lemma mi_clock_start_os_frame [os_frame]: "mi_clock_start s = (x, s') \<Longrightarrow> os_kept s' = os_kept s"
  by (auto simp: mi_clock_start_def mi_clock_now_def os_frame_simps Let_def split: prod.splits if_splits option.splits dest!: os_frame)

lemma mi_clock_start_os_frame_snd [os_frame_simps]: "os_kept (snd (mi_clock_start s)) = os_kept s"
  by (metis mi_clock_start_os_frame prod.collapse)

lemma mi_clock_end_os_frame [os_frame]: "mi_clock_end t s = (x, s') \<Longrightarrow> os_kept s' = os_kept s"
  by (auto simp: mi_clock_end_def mi_clock_now_def os_frame_simps Let_def split: prod.splits if_splits option.splits dest!: os_frame)

lemma mi_clock_end_os_frame_snd [os_frame_simps]: "os_kept (snd (mi_clock_end t s)) = os_kept s"
  by (metis mi_clock_end_os_frame prod.collapse)

lemma sys_mmap_os_frame [os_frame]: "sys_mmap hint sz rw kind s = (x, s') \<Longrightarrow> os_kept s' = os_kept s"
  by (auto simp: sys_mmap_def os_frame_simps Let_def split: prod.splits if_splits option.splits dest!: os_frame)

lemma sys_mmap_os_frame_snd [os_frame_simps]: "os_kept (snd (sys_mmap hint sz rw kind s)) = os_kept s"
  by (metis sys_mmap_os_frame prod.collapse)

lemma sys_munmap_os_frame [os_frame]: "sys_munmap p sz s = (x, s') \<Longrightarrow> os_kept s' = os_kept s"
  by (auto simp: sys_munmap_def os_frame_simps Let_def split: prod.splits if_splits option.splits dest!: os_frame)

lemma sys_munmap_os_frame_snd [os_frame_simps]: "os_kept (snd (sys_munmap p sz s)) = os_kept s"
  by (metis sys_munmap_os_frame prod.collapse)

lemma sys_mprotect_os_frame [os_frame]: "sys_mprotect p sz rw s = (x, s') \<Longrightarrow> os_kept s' = os_kept s"
  by (auto simp: sys_mprotect_def os_frame_simps Let_def split: prod.splits if_splits option.splits dest!: os_frame)

lemma sys_mprotect_os_frame_snd [os_frame_simps]: "os_kept (snd (sys_mprotect p sz rw s)) = os_kept s"
  by (metis sys_mprotect_os_frame prod.collapse)

lemma sys_madvise_os_frame [os_frame]: "sys_madvise p sz advice s = (x, s') \<Longrightarrow> os_kept s' = os_kept s"
  by (auto simp: sys_madvise_def os_frame_simps Let_def split: prod.splits if_splits option.splits dest!: os_frame)

lemma sys_madvise_os_frame_snd [os_frame_simps]: "os_kept (snd (sys_madvise p sz advice s)) = os_kept s"
  by (metis sys_madvise_os_frame prod.collapse)

lemma use_large_os_page_os_frame [os_frame]: "use_large_os_page sz alignment s = (x, s') \<Longrightarrow> os_kept s' = os_kept s"
  by (auto simp: use_large_os_page_def os_frame_simps Let_def split: prod.splits if_splits option.splits dest!: os_frame)

lemma use_large_os_page_os_frame_snd [os_frame_simps]: "os_kept (snd (use_large_os_page sz alignment s)) = os_kept s"
  by (metis use_large_os_page_os_frame prod.collapse)

lemma mi_os_mem_free_os_frame [os_frame]: "mi_os_mem_free p sz c stats s = (x, s') \<Longrightarrow> os_kept s' = os_kept s"
  by (auto simp: mi_os_mem_free_def os_frame_simps Let_def split: prod.splits if_splits option.splits dest!: os_frame)

lemma mi_os_mem_free_os_frame_snd [os_frame_simps]: "os_kept (snd (mi_os_mem_free p sz c stats s)) = os_kept s"
  by (metis mi_os_mem_free_os_frame prod.collapse)

lemma mi_os_get_aligned_hint_os_frame [os_frame]: "mi_os_get_aligned_hint al sz s = (x, s') \<Longrightarrow> os_kept s' = os_kept s"
  by (auto simp: mi_os_get_aligned_hint_def os_frame_simps Let_def split: prod.splits if_splits option.splits dest!: os_frame)

lemma mi_os_get_aligned_hint_os_frame_snd [os_frame_simps]: "os_kept (snd (mi_os_get_aligned_hint al sz s)) = os_kept s"
  by (metis mi_os_get_aligned_hint_os_frame prod.collapse)

lemma mi_unix_mmapx_os_frame [os_frame]: "mi_unix_mmapx p0 sz al rw kind s = (x, s') \<Longrightarrow> os_kept s' = os_kept s"
  by (auto simp: mi_unix_mmapx_def os_frame_simps Let_def split: prod.splits if_splits option.splits dest!: os_frame)

lemma mi_unix_mmapx_os_frame_snd [os_frame_simps]: "os_kept (snd (mi_unix_mmapx p0 sz al rw kind s)) = os_kept s"
  by (metis mi_unix_mmapx_os_frame prod.collapse)

lemma mi_unix_mmap_large_os_frame [os_frame]: "mi_unix_mmap_large p0 sz al rw lo s = (x, s') \<Longrightarrow> os_kept s' = os_kept s"
  by (auto simp: mi_unix_mmap_large_def os_frame_simps Let_def split: prod.splits if_splits option.splits dest!: os_frame)

lemma mi_unix_mmap_large_os_frame_snd [os_frame_simps]: "os_kept (snd (mi_unix_mmap_large p0 sz al rw lo s)) = os_kept s"
  by (metis mi_unix_mmap_large_os_frame prod.collapse)

lemma mi_unix_mmap_os_frame [os_frame]: "mi_unix_mmap p0 sz al rw lo alarge s = (x, y, s') \<Longrightarrow> os_kept s' = os_kept s"
  by (auto simp: mi_unix_mmap_def os_frame_simps Let_def split: prod.splits if_splits option.splits dest!: os_frame)

lemma mi_unix_mmap_os_frame_snd [os_frame_simps]: "os_kept (snd (snd (mi_unix_mmap p0 sz al rw lo alarge s))) = os_kept s"
  by (metis mi_unix_mmap_os_frame prod.collapse)

lemma mi_os_mem_alloc_os_frame [os_frame]: "mi_os_mem_alloc sz al commit alarge stats s = (x, y, s') \<Longrightarrow> os_kept s' = os_kept s"
  by (auto simp: mi_os_mem_alloc_def os_frame_simps Let_def split: prod.splits if_splits option.splits dest!: os_frame)

lemma mi_os_mem_alloc_os_frame_snd [os_frame_simps]: "os_kept (snd (snd (mi_os_mem_alloc sz al commit alarge stats s))) = os_kept s"
  by (metis mi_os_mem_alloc_os_frame prod.collapse)

lemma cut_down_os_frame [os_frame_simps]: "os_kept (cut_down p ap os ms c stats s) = os_kept s"
  by (auto simp: cut_down_def os_frame_simps Let_def split: prod.split dest!: os_frame)

lemma mi_os_mem_alloc_aligned_os_frame [os_frame]: "mi_os_mem_alloc_aligned sz al commit alarge lg stats s = (x, y, s') \<Longrightarrow> os_kept s' = os_kept s"
  by (auto simp: mi_os_mem_alloc_aligned_def os_frame_simps Let_def split: prod.splits if_splits option.splits dest!: os_frame)

lemma mi_os_mem_alloc_aligned_os_frame_snd [os_frame_simps]: "os_kept (snd (snd (mi_os_mem_alloc_aligned sz al commit alarge lg stats s))) = os_kept s"
  by (metis mi_os_mem_alloc_aligned_os_frame prod.collapse)

lemma mi_os_alloc_os_frame [os_frame]: "mi_os_alloc sz stats s = (x, s') \<Longrightarrow> os_kept s' = os_kept s"
  by (auto simp: mi_os_alloc_def os_frame_simps Let_def split: prod.splits if_splits option.splits dest!: os_frame)

lemma mi_os_alloc_os_frame_snd [os_frame_simps]: "os_kept (snd (mi_os_alloc sz stats s)) = os_kept s"
  by (metis mi_os_alloc_os_frame prod.collapse)

lemma mi_os_free_ex_os_frame [os_frame_simps]: "os_kept (mi_os_free_ex p sz c stats s) = os_kept s"
  by (auto simp: mi_os_free_ex_def os_frame_simps Let_def split: prod.split dest!: os_frame)

lemma mi_os_free_os_frame [os_frame_simps]: "os_kept (mi_os_free p sz stats s) = os_kept s"
  by (auto simp: mi_os_free_def os_frame_simps Let_def split: prod.split dest!: os_frame)

lemma mi_os_alloc_aligned_os_frame [os_frame]: "mi_os_alloc_aligned sz al commit lg stats s = (x, y, s') \<Longrightarrow> os_kept s' = os_kept s"
  by (auto simp: mi_os_alloc_aligned_def os_frame_simps Let_def split: prod.splits if_splits option.splits dest!: os_frame)

lemma mi_os_alloc_aligned_os_frame_snd [os_frame_simps]: "os_kept (snd (snd (mi_os_alloc_aligned sz al commit lg stats s))) = os_kept s"
  by (metis mi_os_alloc_aligned_os_frame prod.collapse)

lemma mi_os_commitx_os_frame [os_frame]: "mi_os_commitx p sz c cons stats s = (x, y, s') \<Longrightarrow> os_kept s' = os_kept s"
  by (auto simp: mi_os_commitx_def os_frame_simps Let_def split: prod.splits if_splits option.splits dest!: os_frame)

lemma mi_os_commitx_os_frame_snd [os_frame_simps]: "os_kept (snd (snd (mi_os_commitx p sz c cons stats s))) = os_kept s"
  by (metis mi_os_commitx_os_frame prod.collapse)

lemma mi_os_commit_os_frame [os_frame]: "mi_os_commit p sz stats s = (x, y, s') \<Longrightarrow> os_kept s' = os_kept s"
  by (auto simp: mi_os_commit_def os_frame_simps Let_def split: prod.splits if_splits option.splits dest!: os_frame)

lemma mi_os_commit_os_frame_snd [os_frame_simps]: "os_kept (snd (snd (mi_os_commit p sz stats s))) = os_kept s"
  by (metis mi_os_commit_os_frame prod.collapse)

lemma mi_os_decommit_os_frame [os_frame]: "mi_os_decommit p sz stats s = (x, s') \<Longrightarrow> os_kept s' = os_kept s"
  by (auto simp: mi_os_decommit_def os_frame_simps Let_def split: prod.splits if_splits option.splits dest!: os_frame)

lemma mi_os_decommit_os_frame_snd [os_frame_simps]: "os_kept (snd (mi_os_decommit p sz stats s)) = os_kept s"
  by (metis mi_os_decommit_os_frame prod.collapse)

lemma mi_os_commit_unreset_os_frame [os_frame]: "mi_os_commit_unreset p sz stats s = (x, y, s') \<Longrightarrow> os_kept s' = os_kept s"
  by (auto simp: mi_os_commit_unreset_def os_frame_simps Let_def split: prod.splits if_splits option.splits dest!: os_frame)

lemma mi_os_commit_unreset_os_frame_snd [os_frame_simps]: "os_kept (snd (snd (mi_os_commit_unreset p sz stats s))) = os_kept s"
  by (metis mi_os_commit_unreset_os_frame prod.collapse)

lemma mi_os_resetx_os_frame [os_frame]: "mi_os_resetx p sz r stats s = (x, s') \<Longrightarrow> os_kept s' = os_kept s"
  by (auto simp: mi_os_resetx_def os_frame_simps Let_def split: prod.splits if_splits option.splits dest!: os_frame)

lemma mi_os_resetx_os_frame_snd [os_frame_simps]: "os_kept (snd (mi_os_resetx p sz r stats s)) = os_kept s"
  by (metis mi_os_resetx_os_frame prod.collapse)

lemma mi_os_reset_os_frame [os_frame]: "mi_os_reset p sz stats s = (x, s') \<Longrightarrow> os_kept s' = os_kept s"
  by (auto simp: mi_os_reset_def os_frame_simps Let_def split: prod.splits if_splits option.splits dest!: os_frame)

lemma mi_os_reset_os_frame_snd [os_frame_simps]: "os_kept (snd (mi_os_reset p sz stats s)) = os_kept s"
  by (metis mi_os_reset_os_frame prod.collapse)

lemma mi_os_unreset_os_frame [os_frame]: "mi_os_unreset p sz stats s = (x, y, s') \<Longrightarrow> os_kept s' = os_kept s"
  by (auto simp: mi_os_unreset_def os_frame_simps Let_def split: prod.splits if_splits option.splits dest!: os_frame)

lemma mi_os_unreset_os_frame_snd [os_frame_simps]: "os_kept (snd (snd (mi_os_unreset p sz stats s))) = os_kept s"
  by (metis mi_os_unreset_os_frame prod.collapse)

lemma mi_os_protectx_os_frame [os_frame]: "mi_os_protectx p sz pr s = (x, s') \<Longrightarrow> os_kept s' = os_kept s"
  by (auto simp: mi_os_protectx_def os_frame_simps Let_def split: prod.splits if_splits option.splits dest!: os_frame)

lemma mi_os_protectx_os_frame_snd [os_frame_simps]: "os_kept (snd (mi_os_protectx p sz pr s)) = os_kept s"
  by (metis mi_os_protectx_os_frame prod.collapse)

lemma mi_os_numa_node_count_get_os_frame [os_frame]: "mi_os_numa_node_count_get s = (x, s') \<Longrightarrow> os_kept s' = os_kept s"
  by (auto simp: mi_os_numa_node_count_get_def os_frame_simps Let_def split: prod.splits if_splits option.splits dest!: os_frame)

lemma mi_os_numa_node_count_get_os_frame_snd [os_frame_simps]: "os_kept (snd (mi_os_numa_node_count_get s)) = os_kept s"
  by (metis mi_os_numa_node_count_get_os_frame prod.collapse)

lemma mi_os_numa_node_count_os_frame [os_frame]: "mi_os_numa_node_count s = (x, s') \<Longrightarrow> os_kept s' = os_kept s"
  by (auto simp: mi_os_numa_node_count_def os_frame_simps Let_def split: prod.splits if_splits option.splits dest!: os_frame)

lemma mi_os_numa_node_count_os_frame_snd [os_frame_simps]: "os_kept (snd (mi_os_numa_node_count s)) = os_kept s"
  by (metis mi_os_numa_node_count_os_frame prod.collapse)

lemma mi_os_numa_node_get_os_frame [os_frame]: "mi_os_numa_node_get s = (x, s') \<Longrightarrow> os_kept s' = os_kept s"
  by (auto simp: mi_os_numa_node_get_def os_frame_simps Let_def split: prod.splits if_splits option.splits dest!: os_frame)

lemma mi_os_numa_node_get_os_frame_snd [os_frame_simps]: "os_kept (snd (mi_os_numa_node_get s)) = os_kept s"
  by (metis mi_os_numa_node_get_os_frame prod.collapse)

lemma mi_os_numa_node_os_frame [os_frame]: "mi_os_numa_node s = (x, s') \<Longrightarrow> os_kept s' = os_kept s"
  by (auto simp: mi_os_numa_node_def os_frame_simps Let_def split: prod.splits if_splits option.splits dest!: os_frame)

lemma mi_os_numa_node_os_frame_snd [os_frame_simps]: "os_kept (snd (mi_os_numa_node s)) = os_kept s"
  by (metis mi_os_numa_node_os_frame prod.collapse)


section \<open>The arena layer\<close>

definition arena_kept :: "'a arena_state_scheme \<Rightarrow> os_env \<times> u64 \<times> 'a" where
  "arena_kept s = (st_env s, st_page_size s, arena_state.more s)"

lemma arena_kept_eq_iff:
  "arena_kept s' = arena_kept s \<longleftrightarrow>
     st_env s' = st_env s \<and> st_page_size s' = st_page_size s \<and> arena_state.more s' = arena_state.more s"
  by (simp add: arena_kept_def)

lemma os_kept_arena:
  fixes s s' :: "'a arena_state_scheme"
  assumes "os_kept s' = os_kept s"
  shows "arena_kept s' = arena_kept s" "st_arena s' = st_arena s" "st_arenas s' = st_arenas s"
    "st_arena_count s' = st_arena_count s"
  using assms by (cases s, cases s', simp add: os_kept_def arena_kept_def)+

lemma arena_write_frame [simp]: "arena_kept (arena_write a d s) = arena_kept s"
  by (simp add: arena_write_def arena_kept_def)

lemma arena_write_arenas [simp]: "st_arenas (arena_write a d s) = st_arenas s"
  by (simp add: arena_write_def)

lemma mi_arena_alloc_from_frame [arena_frame]:
  assumes E: "mi_arena_alloc_from a i n info stats s = Some (p, info', s')"
  shows "arena_kept s' = arena_kept s"
proof -
  obtain found b where b: "mi_arena_alloc (st_arena s a) n = Some (found, b)"
    using E by (cases "mi_arena_alloc (st_arena s a) n") (auto simp: mi_arena_alloc_from_def)
  show ?thesis
  proof (cases found)
    case None
    then show ?thesis using E by (auto simp: mi_arena_alloc_from_def b)
  next
    case (Some idx)
    show ?thesis
      using E unfolding mi_arena_alloc_from_def b Some Let_def
      by (simp split: prod.splits if_splits) (auto dest!: os_frame dest: os_kept_arena(1))
  qed
qed

lemma mi_arena_try_frame [arena_frame]:
  "mi_arena_try as i l node n info stats s = Some (p, info', s') \<Longrightarrow> arena_kept s' = arena_kept s"
proof (induction as arbitrary: i info s)
  case (Cons a as)
  then show ?case
    by (auto simp: Let_def bind_eq_Some_iff split: if_splits prod.splits dest!: mi_arena_alloc_from_frame
        dest: Cons.IH)
qed simp

lemma mi_arena_alloc_aligned_frame [arena_frame]:
  "mi_arena_alloc_aligned sz al c l stats s = Some (p, info', s') \<Longrightarrow> arena_kept s' = arena_kept s"
  by (auto simp: mi_arena_alloc_aligned_def Let_def bind_eq_Some_iff split: if_splits prod.splits
      dest!: mi_arena_try_frame os_frame dest!: os_kept_arena(1))

lemma mi_arena_free_frame [arena_frame]:
  "mi_arena_free p sz memid c stats s = (e, s') \<Longrightarrow> arena_kept s' = arena_kept s"
  using os_kept_arena(1) [OF mi_os_free_ex_os_frame [of p sz c stats s]]
  by (auto simp: mi_arena_free_def Let_def split: if_splits prod.splits)

end
