(* ===== verification/Region.thy ===== *)
theory Region
  imports OsFrame
begin

text \<open>
  Regions (\<open>region.c\<close>): 8MiB areas of 64 segments, claimed and tracked with one 64-bit field
  each for in-use, dirty, committed and reset segments. Thread data is named by the address of
  the thread-local data; the statistics of that thread are \<open>TldStats\<close> of that address.
\<close>

definition MI_REGION_SIZE :: u64 where [mi_consts]: "MI_REGION_SIZE = MI_SEGMENT_SIZE * MI_BITMAP_FIELD_BITS"
definition MI_HEAP_REGION_MAX_SIZE :: u64 where [mi_consts]: "MI_HEAP_REGION_MAX_SIZE = 256 * GiB"
definition MI_REGION_MAX :: u64 where [mi_consts]: "MI_REGION_MAX = MI_HEAP_REGION_MAX_SIZE div MI_REGION_SIZE"
definition MI_REGION_MAX_OBJ_BLOCKS :: u64 where [mi_consts]: "MI_REGION_MAX_OBJ_BLOCKS = MI_BITMAP_FIELD_BITS div 4"
definition MI_REGION_MAX_OBJ_SIZE :: u64 where
  [mi_consts]: "MI_REGION_MAX_OBJ_SIZE = MI_REGION_MAX_OBJ_BLOCKS * MI_SEGMENT_SIZE"

record mem_region =
  region_info :: u64
  region_start :: addr
  region_in_use :: u64
  region_dirty :: u64
  region_commit :: u64
  region_reset :: u64
  region_arena_memid :: u64

record region_state = arena_state +
  st_regions :: "nat \<Rightarrow> mem_region"
  st_regions_count :: u64
  st_region_idx :: "addr \<Rightarrow> u64"
  st_abandoned_readers :: u64

definition region_write :: "nat \<Rightarrow> mem_region \<Rightarrow> 'a region_state_scheme \<Rightarrow> 'a region_state_scheme" where
  "region_write i r s = s\<lparr>st_regions := (st_regions s)(i := r)\<rparr>"

section \<open>Region info\<close>

text \<open>The info word packs the NUMA node into 16 bits, then the large and the valid flag.\<close>

definition MI_SHORT_BITS :: nat where "MI_SHORT_BITS = 16"
definition MI_VALID :: u64 where [mi_consts]: "MI_VALID = push_bit (MI_SHORT_BITS + 1) 1"
definition MI_IS_LARGE :: u64 where [mi_consts]: "MI_IS_LARGE = push_bit MI_SHORT_BITS 1"
definition MI_SHORT :: u64 where [mi_consts]: "MI_SHORT = push_bit MI_SHORT_BITS 1 - 1"

definition region_info_make :: "bool \<Rightarrow> u64 \<Rightarrow> u64" where
  "region_info_make is_large numa_node =
     (let value = MI_VALID;
          value = (if is_large then value OR MI_IS_LARGE else value)
      in value OR scast (ucast numa_node :: u16))"

definition region_info_valid :: "u64 \<Rightarrow> bool" where
  "region_info_valid value = (value AND MI_VALID \<noteq> 0)"

definition region_info_is_large :: "u64 \<Rightarrow> bool" where
  "region_info_is_large value = (value AND MI_IS_LARGE \<noteq> 0)"

definition region_info_numa_node :: "u64 \<Rightarrow> int" where
  "region_info_numa_node value = sint (ucast (value AND MI_SHORT) :: u16)"

section \<open>Indices\<close>

definition mi_region_block_count :: "u64 \<Rightarrow> u64" where
  "mi_region_block_count sz = mi_divide_up sz MI_SEGMENT_SIZE"

text \<open>\<open>mi_is_in_heap_region\<close>: the loop from region \<open>i\<close> on.\<close>

fun in_region_from :: "nat \<Rightarrow> nat \<Rightarrow> addr \<Rightarrow> 'a region_state_scheme \<Rightarrow> bool" where
  "in_region_from i 0 p s = False"
| "in_region_from i (Suc n) p s =
     (let start = region_start (st_regions s i) in
      if start \<noteq> 0 \<and> start \<le> p \<and> p < start + MI_REGION_SIZE then True
      else in_region_from (Suc i) n p s)"

definition mi_is_in_heap_region :: "addr \<Rightarrow> 'a region_state_scheme \<Rightarrow> bool" where
  "mi_is_in_heap_region p s = (p \<noteq> 0 \<and> in_region_from 0 (unat (st_regions_count s)) p s)"

definition mi_region_blocks_start :: "mem_region \<Rightarrow> u64 \<Rightarrow> addr" where
  "mi_region_blocks_start region bit_idx = region_start region + bit_idx * MI_SEGMENT_SIZE"

definition mi_memid_create :: "u64 \<Rightarrow> u64 \<Rightarrow> u64" where
  "mi_memid_create idx bit_idx = push_bit 1 (idx * MI_BITMAP_FIELD_BITS + bit_idx)"

definition mi_memid_create_from_arena :: "u64 \<Rightarrow> u64" where
  "mi_memid_create_from_arena arena_memid = push_bit 1 arena_memid OR 1"

datatype region_memid = ArenaMem u64 | RegionMem u64 u64

definition mi_memid_is_arena :: "u64 \<Rightarrow> region_memid" where
  "mi_memid_is_arena memid =
     (if memid AND 1 = 1 then ArenaMem (drop_bit 1 memid)
      else RegionMem (drop_bit 1 memid div MI_BITMAP_FIELD_BITS) (drop_bit 1 memid mod MI_BITMAP_FIELD_BITS))"

section \<open>Memory of a segment\<close>

definition mi_mem_reset :: "addr \<Rightarrow> u64 \<Rightarrow> addr \<Rightarrow> 'a region_state_scheme \<Rightarrow> bool \<times> 'a region_state_scheme" where
  "mi_mem_reset p sz tld s = mi_os_reset p sz (TldStats tld) s"

definition mi_mem_unreset ::
    "addr \<Rightarrow> u64 \<Rightarrow> addr \<Rightarrow> 'a region_state_scheme \<Rightarrow> bool \<times> bool \<times> 'a region_state_scheme" where
  "mi_mem_unreset p sz tld s = mi_os_unreset p sz (TldStats tld) s"

definition mi_mem_commit ::
    "addr \<Rightarrow> u64 \<Rightarrow> addr \<Rightarrow> 'a region_state_scheme \<Rightarrow> bool \<times> bool \<times> 'a region_state_scheme" where
  "mi_mem_commit p sz tld s = mi_os_commit p sz (TldStats tld) s"

definition mi_mem_decommit :: "addr \<Rightarrow> u64 \<Rightarrow> addr \<Rightarrow> 'a region_state_scheme \<Rightarrow> bool \<times> 'a region_state_scheme" where
  "mi_mem_decommit p sz tld s = mi_os_decommit p sz (TldStats tld) s"

definition mi_mem_protect :: "addr \<Rightarrow> u64 \<Rightarrow> 'a region_state_scheme \<Rightarrow> bool \<times> 'a region_state_scheme" where
  "mi_mem_protect p sz s = mi_os_protect p sz s"

definition mi_mem_unprotect :: "addr \<Rightarrow> u64 \<Rightarrow> 'a region_state_scheme \<Rightarrow> bool \<times> 'a region_state_scheme" where
  "mi_mem_unprotect p sz s = mi_os_unprotect p sz s"

text \<open>
  Waits until no thread reads the abandoned list (\<open>segment.c\<close>); \<open>None\<close> when it would wait for
  a reader that the single thread of this model cannot let finish.
\<close>

definition mi_abandoned_await_readers :: "'a region_state_scheme \<Rightarrow> 'a region_state_scheme option" where
  "mi_abandoned_await_readers s = (if st_abandoned_readers s \<noteq> 0 then None else Some s)"

section \<open>Allocating\<close>

text \<open>A fresh region; returns its index, whose first \<open>blocks\<close> segments are claimed.\<close>

definition mi_region_try_alloc_os ::
    "u64 \<Rightarrow> bool \<Rightarrow> bool \<Rightarrow> addr \<Rightarrow> 'a region_state_scheme \<Rightarrow> (nat option \<times> 'a region_state_scheme) option" where
  "mi_region_try_alloc_os blocks commit allow_large tld s =
     (if MI_REGION_MAX - 1 \<le> st_regions_count s then Some (None, s)
      else
        let (eager, s) = (if commit then mi_option_is_enabled opt_eager_region_commit s else (False, s));
            region_commit = (commit \<and> eager);
            region_large = (commit \<and> allow_large)
        in do {
          (start, info, s) \<leftarrow> mi_arena_alloc_aligned MI_REGION_SIZE MI_SEGMENT_SIZE region_commit
                               region_large (TldStats tld) s;
          if start = 0 then Some (None, s)
          else
            let idx = st_regions_count s;
                s = s\<lparr>st_regions_count := idx + 1\<rparr>
            in if MI_REGION_MAX \<le> idx then
                 let s = s\<lparr>st_regions_count := st_regions_count s - 1\<rparr>;
                     s = snd (mi_arena_free start MI_REGION_SIZE (mi_memid info) (mi_commit info) (TldStats tld) s)
                 in Some (None, snd (mi_warning_message s))
               else
                 let (_, _, in_use) = mi_bitmap_claim [0] 1 blocks 0;
                     (numa_node, s) = mi_os_numa_node s;
                     r = \<lparr>region_info = region_info_make (mi_large info) numa_node,
                          region_start = start, region_in_use = hd in_use,
                          region_dirty = (if mi_is_zero info then 0 else MI_BITMAP_FIELD_FULL),
                          region_commit = (if mi_commit info then MI_BITMAP_FIELD_FULL else 0),
                          region_reset = 0, region_arena_memid = mi_memid info\<rparr>
                 in Some (Some (unat idx), region_write (unat idx) r s)
        })"

definition mi_region_is_suitable :: "mem_region \<Rightarrow> int \<Rightarrow> bool \<Rightarrow> bool" where
  "mi_region_is_suitable region numa_node allow_large =
     (let info = region_info region;
          rnode = region_info_numa_node info
      in if \<not> region_info_valid info then False
         else if 0 \<le> numa_node \<and> 0 \<le> rnode \<and> rnode \<noteq> numa_node then False
         else if \<not> allow_large \<and> region_info_is_large info then False
         else True)"

text \<open>Searches the regions once around from \<open>idx\<close>; returns the region and the bit claimed.\<close>

function mi_region_claim_loop ::
    "u64 \<Rightarrow> u64 \<Rightarrow> u64 \<Rightarrow> int \<Rightarrow> u64 \<Rightarrow> bool \<Rightarrow> addr \<Rightarrow> 'a region_state_scheme
       \<Rightarrow> ((nat \<times> u64) option \<times> 'a region_state_scheme) option" where
  "mi_region_claim_loop visited idx count numa_node blocks allow_large tld s =
     (if \<not> visited < count then Some (None, s)
      else
        let idx = (if count \<le> idx then 0 else idx);
            r = st_regions s (unat idx)
        in if mi_region_is_suitable r numa_node allow_large then do {
             (found, in_use) \<leftarrow> mi_bitmap_try_find_claim_field [] [region_in_use r] 0 blocks;
             let s = region_write (unat idx) (r\<lparr>region_in_use := hd in_use\<rparr>) s;
             (case found of
                Some bit_idx \<Rightarrow>
                  Some (Some (unat idx, bit_idx), s\<lparr>st_region_idx := (st_region_idx s)(tld := idx)\<rparr>)
              | None \<Rightarrow> mi_region_claim_loop (visited + 1) (idx + 1) count numa_node blocks allow_large tld s)
           }
           else mi_region_claim_loop (visited + 1) (idx + 1) count numa_node blocks allow_large tld s)"
  by pat_completeness auto

termination
proof (relation "measure (\<lambda>(visited, _, count, _). unat count - unat visited)", goal_cases)
  case 1 then show ?case by simp
next
  case 2 then show ?case by (simp add: unat_plus_one_less word_less_nat_alt)
next
  case 3 then show ?case by (simp add: unat_plus_one_less word_less_nat_alt)
qed

declare mi_region_claim_loop.simps [simp del]

definition mi_region_try_claim ::
    "int \<Rightarrow> u64 \<Rightarrow> bool \<Rightarrow> addr \<Rightarrow> 'a region_state_scheme
       \<Rightarrow> ((nat \<times> u64) option \<times> 'a region_state_scheme) option" where
  "mi_region_try_claim numa_node blocks allow_large tld s =
     mi_region_claim_loop 0 (st_region_idx s tld) (st_regions_count s) numa_node blocks allow_large tld s"

text \<open>
  \<open>blocks\<close> segments from some region, with the segments committed and un-reset as asked. The
  address 0 means that no region could be allocated; then the in-out arguments are unchanged.
\<close>

definition mi_region_init_blocks ::
    "nat \<Rightarrow> u64 \<Rightarrow> u64 \<Rightarrow> mem_info \<Rightarrow> addr \<Rightarrow> 'a region_state_scheme
       \<Rightarrow> addr \<times> mem_info \<times> 'a region_state_scheme" where
  "mi_region_init_blocks i bit_idx blocks info tld s =
     (let r = st_regions s i;
          p = region_start r + mi_bitmap_index_bit_in_field bit_idx * MI_SEGMENT_SIZE;
          (is_zero, _, dirty) = mi_bitmap_claim [region_dirty r] 1 blocks bit_idx;
          r = r\<lparr>region_dirty := hd dirty\<rparr>;
          info = info\<lparr>mi_is_zero := is_zero, mi_large := region_info_is_large (region_info r),
                      mi_memid := mi_memid_create (word_of_nat i) bit_idx\<rparr>;
          (info, r, s) =
            (if mi_commit info then
               let (_, any_uncommitted, commit) = mi_bitmap_claim [region_commit r] 1 blocks bit_idx;
                   r = r\<lparr>region_commit := hd commit\<rparr>
               in if any_uncommitted then
                    let (_, commit_zero, s) = mi_mem_commit p (blocks * MI_SEGMENT_SIZE) tld s
                    in ((if commit_zero then info\<lparr>mi_is_zero := True\<rparr> else info), r, s)
                  else (info, r, s)
             else (info\<lparr>mi_commit := mi_bitmap_is_claimed [region_commit r] 1 blocks bit_idx\<rparr>, r, s));
          (info, r, s) =
            (if mi_bitmap_is_any_claimed [region_reset r] 1 blocks bit_idx then
               let (_, reset) = mi_bitmap_unclaim [region_reset r] 1 blocks bit_idx;
                   r = r\<lparr>region_reset := hd reset\<rparr>;
                   (decommits, s) = (if mi_commit info then (False, s)
                                     else mi_option_is_enabled opt_reset_decommits s)
               in if mi_commit info \<or> \<not> decommits then
                    let (_, reset_zero, s) = mi_mem_unreset p (blocks * MI_SEGMENT_SIZE) tld s
                    in ((if reset_zero then info\<lparr>mi_is_zero := True\<rparr> else info), r, s)
                  else (info, r, s)
             else (info, r, s))
      in (p, info, region_write i r s))"

definition mi_region_try_alloc ::
    "u64 \<Rightarrow> mem_info \<Rightarrow> addr \<Rightarrow> 'a region_state_scheme
       \<Rightarrow> (addr \<times> mem_info \<times> 'a region_state_scheme) option" where
  "mi_region_try_alloc blocks info tld s =
     (let (count, s) = mi_os_numa_node_count s;
          (numa_node, s) = (if count \<le> 1 then (-1, s)
                            else (let (n, s) = mi_os_numa_node s in (sint (ucast n :: u32), s))) in do {
        (claimed, s) \<leftarrow> mi_region_try_claim numa_node blocks (mi_large info) tld s;
        (claimed, s) \<leftarrow>
          (case claimed of
             Some c \<Rightarrow> Some (Some c, s)
           | None \<Rightarrow> do {
               (region, s) \<leftarrow> mi_region_try_alloc_os blocks (mi_commit info) (mi_large info) tld s;
               Some (map_option (\<lambda>i. (i, 0)) region, s)
             });
        (case claimed of
           None \<Rightarrow> Some (0, info, s)
         | Some (i, bit_idx) \<Rightarrow> Some (mi_region_init_blocks i bit_idx blocks info tld s))
      })"

definition mi_mem_alloc_aligned ::
    "u64 \<Rightarrow> u64 \<Rightarrow> bool \<Rightarrow> bool \<Rightarrow> addr \<Rightarrow> 'a region_state_scheme
       \<Rightarrow> (addr \<times> mem_info \<times> 'a region_state_scheme) option" where
  "mi_mem_alloc_aligned sz alignment commit large tld s =
     (let info = \<lparr>mi_commit = commit, mi_large = large, mi_is_zero = False, mi_memid = 0\<rparr> in
      if sz = 0 then Some (0, info, s)
      else
        let sz = mi_align_up sz (mi_os_page_size s);
            blocks = mi_region_block_count sz
        in do {
          (p, info, s) \<leftarrow>
            (if blocks \<le> MI_REGION_MAX_OBJ_BLOCKS \<and> alignment \<le> MI_SEGMENT_SIZE then do {
               (p, info, s) \<leftarrow> mi_region_try_alloc blocks info tld s;
               Some (p, info, (if p = 0 then snd (mi_warning_message s) else s))
             }
             else Some (0, info, s));
          if p \<noteq> 0 then Some (p, info, s)
          else do {
            (p, info, s) \<leftarrow> mi_arena_alloc_aligned sz alignment (mi_commit info) (mi_large info) (TldStats tld) s;
            Some (p, info\<lparr>mi_memid := mi_memid_create_from_arena (mi_memid info)\<rparr>, s)
          }
        })"

section \<open>Freeing\<close>

text \<open>The commit and reset bits that \<open>_mi_mem_free\<close> sets, and whether it resets the memory.\<close>

definition mem_free_mark :: "bool \<Rightarrow> bool \<Rightarrow> u64 \<Rightarrow> u64 \<Rightarrow> u64 \<Rightarrow> mem_region \<Rightarrow> mem_region" where
  "mem_free_mark full_commit any_reset sz blocks bit_idx r =
     (let r = (if full_commit \<and> sz mod MI_SEGMENT_SIZE = 0
               then r\<lparr>region_commit := hd (snd (snd (mi_bitmap_claim [region_commit r] 1 blocks bit_idx)))\<rparr>
               else r)
      in if any_reset
         then r\<lparr>region_reset := hd (snd (snd (mi_bitmap_claim [region_reset r] 1 blocks bit_idx)))\<rparr>
         else r)"

definition mem_free_wants_reset :: "mem_region \<Rightarrow> 'a region_state_scheme \<Rightarrow> bool \<times> 'a region_state_scheme" where
  "mem_free_wants_reset r s =
     (if region_info_is_large (region_info r) then (False, s)
      else
        let (segment_reset, s) = mi_option_is_enabled opt_segment_reset s in
        if \<not> segment_reset then (False, s)
        else
          let (eager, s) = mi_option_is_enabled opt_eager_commit s in
          if eager then (True, s) else mi_option_is_enabled opt_reset_decommits s)"

text \<open>\<open>None\<close> is the endless wait for readers of the abandoned list.\<close>

definition mi_mem_free ::
    "addr \<Rightarrow> u64 \<Rightarrow> u64 \<Rightarrow> bool \<Rightarrow> bool \<Rightarrow> addr \<Rightarrow> 'a region_state_scheme \<Rightarrow> 'a region_state_scheme option" where
  "mi_mem_free p sz memid full_commit any_reset tld s =
     (if p = 0 \<or> sz = 0 then Some s
      else
        let sz = mi_align_up sz (mi_os_page_size s) in
        (case mi_memid_is_arena memid of
           ArenaMem arena_memid \<Rightarrow> Some (snd (mi_arena_free p sz arena_memid full_commit (TldStats tld) s))
         | RegionMem idx bit_idx \<Rightarrow>
             if MI_REGION_MAX_OBJ_SIZE < sz then Some s
             else
               let blocks = mi_region_block_count sz;
                   r = st_regions s (unat idx)
               in if mi_region_blocks_start r bit_idx \<noteq> p \<or> MI_BITMAP_FIELD_BITS < bit_idx + blocks then Some s
                  else
                    let r = mem_free_mark full_commit any_reset sz blocks bit_idx r;
                        (do_reset, s) = mem_free_wants_reset r s
                    in do {
                      (r, s) \<leftarrow>
                        (if do_reset then
                           let (_, any_unreset, reset) = mi_bitmap_claim [region_reset r] 1 blocks bit_idx;
                               r = r\<lparr>region_reset := hd reset\<rparr>
                           in if any_unreset then do {
                                s \<leftarrow> mi_abandoned_await_readers s;
                                Some (r, snd (mi_mem_reset p (blocks * MI_SEGMENT_SIZE) tld s))
                              }
                              else Some (r, s)
                         else Some (r, s));
                      let (_, in_use) = mi_bitmap_unclaim [region_in_use r] 1 blocks bit_idx;
                      Some (region_write (unat idx) (r\<lparr>region_in_use := hd in_use\<rparr>) s)
                    }))"

text \<open>
  Releases every region without segments in use. The code claims the whole region and clears its
  info word; the remaining fields are left as they are.
\<close>

definition mi_mem_collect_region :: "nat \<Rightarrow> addr \<Rightarrow> 'a region_state_scheme \<Rightarrow> 'a region_state_scheme option" where
  "mi_mem_collect_region i tld s =
     (let r = st_regions s i in
      if region_info r \<noteq> 0 \<and> region_in_use r = 0 then
        let s = region_write i (r\<lparr>region_in_use := MI_BITMAP_FIELD_FULL, region_info := 0\<rparr>) s
        in if region_start r \<noteq> 0 then do {
             s \<leftarrow> mi_abandoned_await_readers s;
             Some (snd (mi_arena_free (region_start r) MI_REGION_SIZE (region_arena_memid r)
                          (NOT (region_commit r) = 0) (TldStats tld) s))
           }
           else Some s
      else Some s)"

fun mi_mem_collect_loop :: "nat list \<Rightarrow> addr \<Rightarrow> 'a region_state_scheme \<Rightarrow> 'a region_state_scheme option" where
  "mi_mem_collect_loop [] tld s = Some s"
| "mi_mem_collect_loop (i # is) tld s = do { s \<leftarrow> mi_mem_collect_region i tld s; mi_mem_collect_loop is tld s }"

definition mi_mem_collect :: "addr \<Rightarrow> 'a region_state_scheme \<Rightarrow> 'a region_state_scheme option" where
  "mi_mem_collect tld s = mi_mem_collect_loop [0..<unat (st_regions_count s)] tld s"

section \<open>Frame facts\<close>

definition region_kept :: "'a region_state_scheme \<Rightarrow> os_env \<times> u64 \<times> 'a" where
  "region_kept s = (st_env s, st_page_size s, region_state.more s)"

lemma arena_kept_region:
  fixes s s' :: "'a region_state_scheme"
  assumes "arena_kept s' = arena_kept s"
  shows "region_kept s' = region_kept s" "st_regions s' = st_regions s"
    "st_regions_count s' = st_regions_count s" "st_region_idx s' = st_region_idx s"
    "st_abandoned_readers s' = st_abandoned_readers s"
  using assms by (cases s, cases s', simp add: arena_kept_def region_kept_def)+

lemmas os_kept_region = arena_kept_region [OF os_kept_arena(1)]

lemma region_write_simps [simp]:
  "region_kept (region_write i r s) = region_kept s"
  "st_regions (region_write i r s) = (st_regions s)(i := r)"
  "st_regions_count (region_write i r s) = st_regions_count s"
  "st_abandoned_readers (region_write i r s) = st_abandoned_readers s"
  by (simp_all add: region_write_def region_kept_def)

section \<open>Encodings\<close>

lemma MI_REGION_MAX_value: "MI_REGION_MAX = 32768"
  by code_simp

lemma mi_memid_roundtrip:
  assumes "idx < MI_REGION_MAX" and "unat bit_idx < 64"
  shows "mi_memid_is_arena (mi_memid_create idx bit_idx) = RegionMem idx bit_idx"
proof -
  have "unat idx < 32768"
    using assms(1) by (simp add: MI_REGION_MAX_value word_less_nat_alt)
  note assms = this assms(2)
  have n: "unat (idx * MI_BITMAP_FIELD_BITS + bit_idx) = unat idx * 64 + unat bit_idx"
    using assms by (simp add: unat_simps mi_consts)
  have p: "unat (mi_memid_create idx bit_idx) = 2 * (unat idx * 64 + unat bit_idx)"
    unfolding mi_memid_create_def using assms by (subst unat_push_bit_bounded) (simp_all add: n)
  then have "unat (mi_memid_create idx bit_idx AND mask 1) = 0"
    by (simp only: unat_and_mask) simp
  then have "mi_memid_create idx bit_idx AND 1 \<noteq> 1"
    by (auto simp: mask_eq_decr_exp)
  moreover have d: "unat (drop_bit 1 (mi_memid_create idx bit_idx)) = unat idx * 64 + unat bit_idx"
    using p by (simp add: unat_drop_bit_div)
  have "unat (drop_bit 1 (mi_memid_create idx bit_idx) div 64) = unat idx"
    using assms d by (simp add: unat_div_distrib)
  then have "drop_bit 1 (mi_memid_create idx bit_idx) div 64 = idx"
    by (rule unsigned_word_eqI)
  moreover have "unat (drop_bit 1 (mi_memid_create idx bit_idx) mod 64) = unat bit_idx"
    using assms d by (simp add: unat_mod_distrib)
  then have "drop_bit 1 (mi_memid_create idx bit_idx) mod 64 = bit_idx"
    by (rule unsigned_word_eqI)
  ultimately show ?thesis
    by (simp add: mi_memid_is_arena_def MI_BITMAP_FIELD_BITS_def)
qed

lemma mi_memid_arena_roundtrip:
  assumes "unat arena_memid < 2 ^ 63"
  shows "mi_memid_is_arena (mi_memid_create_from_arena arena_memid) = ArenaMem arena_memid"
proof -
  let ?m = "push_bit 1 arena_memid OR 1"
  have "?m AND 1 = 1" by (rule bit_word_eqI) (auto simp: bit_simps)
  moreover have "drop_bit 1 ?m = arena_memid"
  proof (rule bit_word_eqI)
    fix n assume n: "n < LENGTH(64)"
    have "\<not> bit (unat arena_memid) 63" using assms by (simp add: bit_iff_odd)
    then have "\<not> bit arena_memid 63" by (simp add: bit_unsigned_iff)
    with n show "bit (drop_bit 1 ?m) n = bit arena_memid n"
      using bit_less_64 [of arena_memid n]
      unfolding bit_drop_bit_eq o_def bit_or_iff bit_push_bit_iff bit_1_iff
      by (cases "n = 63") auto
  qed
  ultimately show ?thesis by (simp add: mi_memid_is_arena_def mi_memid_create_from_arena_def)
qed

section \<open>Properties\<close>

lemma mi_region_claim_loop_result:
  assumes c: "0 < unat blocks" "unat blocks < 64"
    and "unat idx \<le> unat count" and "unat count < 2 ^ 32"
  shows "\<exists>found s'. mi_region_claim_loop visited idx count node blocks lg tld s = Some (found, s')
    \<and> (case found of
         None \<Rightarrow> s' = s \<and> (\<forall>k b. unat visited + k < unat count \<longrightarrow> b + unat blocks \<le> 64 \<longrightarrow>
             mi_region_is_suitable (st_regions s ((unat idx + k) mod unat count)) node lg \<longrightarrow>
             \<not> free_run (region_in_use (st_regions s ((unat idx + k) mod unat count))) b (unat blocks))
       | Some (i, b) \<Rightarrow> i < unat count \<and> mi_region_is_suitable (st_regions s i) node lg
           \<and> unat b + unat blocks \<le> 64 \<and> free_run (region_in_use (st_regions s i)) (unat b) (unat blocks)
           \<and> s' = (region_write i ((st_regions s i)\<lparr>region_in_use :=
                      region_in_use (st_regions s i) OR run_at (unat blocks) (unat b)\<rparr>) s)
                   \<lparr>st_region_idx := (st_region_idx s)(tld := word_of_nat i)\<rparr>)"
  using assms
proof (induction visited idx count node blocks lg tld s rule: mi_region_claim_loop.induct)
  case (1 visited idx count node blocks lg tld s)
  show ?case
  proof (cases "visited < count")
    case False
    then have "\<not> unat visited + k < unat count" for k by (simp add: word_less_nat_alt)
    with False show ?thesis by (subst mi_region_claim_loop.simps) simp
  next
    case True
    define i where "i = (if count \<le> idx then 0 else idx)"
    let ?r = "st_regions s (unat i)"
    have f0: "0 < unat count" using True by (simp add: word_less_nat_alt)
    have i: "unat i < unat count" "unat i mod unat count = unat idx mod unat count"
      using "1.prems"(3) f0 by (auto simp: i_def word_le_nat_alt)
    have u1: "unat (i + 1) = unat i + 1"
      using i(1) "1.prems"(4) by (simp add: unat_add_bounded)
    have uv: "unat (visited + 1) = unat visited + 1"
      using unat_plus_one_less [OF True] by simp
    have same: "region_write (unat i) (?r\<lparr>region_in_use := region_in_use ?r\<rparr>) s = s"
      by (simp add: region_write_def)
    have next_loop: ?thesis
      if L: "mi_region_claim_loop visited idx count node blocks lg tld s
          = mi_region_claim_loop (visited + 1) (i + 1) count node blocks lg tld s"
        and here: "\<And>b. mi_region_is_suitable ?r node lg \<Longrightarrow> b + unat blocks \<le> 64
          \<Longrightarrow> \<not> free_run (region_in_use ?r) b (unat blocks)"
        and IH: "\<exists>found s'. mi_region_claim_loop (visited + 1) (i + 1) count node blocks lg tld s = Some (found, s')
          \<and> (case found of
         None \<Rightarrow> s' = s \<and> (\<forall>k b. unat (visited + 1) + k < unat count \<longrightarrow> b + unat blocks \<le> 64 \<longrightarrow>
             mi_region_is_suitable (st_regions s ((unat (i + 1) + k) mod unat count)) node lg \<longrightarrow>
             \<not> free_run (region_in_use (st_regions s ((unat (i + 1) + k) mod unat count))) b (unat blocks))
       | Some (i, b) \<Rightarrow> i < unat count \<and> mi_region_is_suitable (st_regions s i) node lg
           \<and> unat b + unat blocks \<le> 64 \<and> free_run (region_in_use (st_regions s i)) (unat b) (unat blocks)
           \<and> s' = (region_write i ((st_regions s i)\<lparr>region_in_use :=
                      region_in_use (st_regions s i) OR run_at (unat blocks) (unat b)\<rparr>) s)
                   \<lparr>st_region_idx := (st_region_idx s)(tld := word_of_nat i)\<rparr>)"
    proof -
      have k: "\<not> free_run (region_in_use (st_regions s ((unat idx + k) mod unat count))) b (unat blocks)"
        if none: "\<forall>k b. unat (visited + 1) + k < unat count \<longrightarrow> b + unat blocks \<le> 64 \<longrightarrow>
             mi_region_is_suitable (st_regions s ((unat (i + 1) + k) mod unat count)) node lg \<longrightarrow>
             \<not> free_run (region_in_use (st_regions s ((unat (i + 1) + k) mod unat count))) b (unat blocks)"
          and suit: "mi_region_is_suitable (st_regions s ((unat idx + k) mod unat count)) node lg"
          and kb: "unat visited + k < unat count" "b + unat blocks \<le> 64"
        for k b
      proof (cases k)
        case 0
        then show ?thesis using suit kb here [of b] i by (metis add.right_neutral mod_less)
      next
        case (Suc k')
        have "(unat idx + k) mod unat count = (unat i + k) mod unat count"
          using i(2) by (metis mod_add_left_eq)
        also have "\<dots> = (unat (i + 1) + k') mod unat count" by (simp add: u1 Suc)
        finally show ?thesis using none suit kb uv Suc by simp
      qed
      obtain found s' where
        E: "mi_region_claim_loop (visited + 1) (i + 1) count node blocks lg tld s = Some (found, s')"
        using IH by blast
      show ?thesis
      proof (cases found)
        case None
        then show ?thesis using IH k unfolding L E by (simp del: of_nat_add)
      next
        case (Some ib)
        then show ?thesis using IH unfolding L E by simp
      qed
    qed
    show ?thesis
    proof (cases "mi_region_is_suitable ?r node lg")
      case False
      show ?thesis
      proof (rule next_loop)
        show "mi_region_claim_loop visited idx count node blocks lg tld s
            = mi_region_claim_loop (visited + 1) (i + 1) count node blocks lg tld s"
          using True False by (subst mi_region_claim_loop.simps) (simp add: i_def Let_def)
      qed (use False "1.IH"(2) [OF _ i_def refl False] True "1.prems" u1 i(1) in \<open>auto simp: not_less\<close>)
    next
      case suitable: True
      obtain found field' where
        E: "mi_bitmap_try_find_claim_field [] [region_in_use ?r] 0 blocks
          = Some (map_option (mi_bitmap_index_create 0) found, [field'])"
        and R: "scan_result (unat blocks) [] (region_in_use ?r) 0 (found, field')"
        using find_claim_field_result [OF "1.prems"(1,2), of "[]" "[region_in_use ?r]" 0] by auto
      show ?thesis
      proof (cases found)
        case None
        then have f: "field' = region_in_use ?r"
          "\<And>b. b + unat blocks \<le> 64 \<Longrightarrow> \<not> free_run (region_in_use ?r) b (unat blocks)"
          using R by (auto simp: scan_result_def)
        show ?thesis
        proof (rule next_loop)
          show L: "mi_region_claim_loop visited idx count node blocks lg tld s
              = mi_region_claim_loop (visited + 1) (i + 1) count node blocks lg tld s"
            using True suitable E None f(1) same
            by (subst mi_region_claim_loop.simps) (simp add: i_def Let_def)
        qed (use f None E suitable same "1.IH"(1) [OF _ i_def refl suitable] True "1.prems" u1 i(1)
             in \<open>auto simp: not_less\<close>)
      next
        case (Some x)
        have x: "unat x < 64" "unat x + unat blocks \<le> 64" "free_run (region_in_use ?r) (unat x) (unat blocks)"
          "field' = region_in_use ?r OR run_at (unat blocks) (unat x)"
          using R Some "1.prems"(1) by (auto simp: scan_result_def)
        have b: "mi_bitmap_index_create 0 x = x"
          using index_create_props(1) [OF x(1), of 0] by (simp add: unsigned_word_eqI)
        have "mi_region_claim_loop visited idx count node blocks lg tld s
            = Some (Some (unat i, x), (region_write (unat i) (?r\<lparr>region_in_use := field'\<rparr>) s)
                \<lparr>st_region_idx := (st_region_idx s)(tld := i)\<rparr>)"
          using True suitable E Some b
          by (subst mi_region_claim_loop.simps) (simp add: i_def Let_def region_write_def)
        then show ?thesis using x suitable i(1) by simp
      qed
    qed
  qed
qed

text \<open>
  C32. Searching the regions claims a free run in a suitable region, marks exactly that run in
  use and remembers the region for the thread; it fails only if no suitable region, whatever the
  place where the search starts, has a free run of that length.
\<close>

theorem mi_region_try_claim_correct:
  assumes "0 < unat blocks" and "unat blocks < 64"
    and "st_region_idx s tld \<le> st_regions_count s" and "unat (st_regions_count s) < 2 ^ 32"
  shows "\<exists>found s'. mi_region_try_claim node blocks lg tld s = Some (found, s')
    \<and> (case found of
         None \<Rightarrow> s' = s \<and> (\<forall>i b. i < unat (st_regions_count s) \<longrightarrow> mi_region_is_suitable (st_regions s i) node lg
             \<longrightarrow> b + unat blocks \<le> 64 \<longrightarrow> \<not> free_run (region_in_use (st_regions s i)) b (unat blocks))
       | Some (i, b) \<Rightarrow> i < unat (st_regions_count s) \<and> mi_region_is_suitable (st_regions s i) node lg
           \<and> unat b + unat blocks \<le> 64 \<and> free_run (region_in_use (st_regions s i)) (unat b) (unat blocks)
           \<and> s' = (region_write i ((st_regions s i)\<lparr>region_in_use :=
                      region_in_use (st_regions s i) OR run_at (unat blocks) (unat b)\<rparr>) s)
                   \<lparr>st_region_idx := (st_region_idx s)(tld := word_of_nat i)\<rparr>)"
proof -
  let ?n = "unat (st_regions_count s)" and ?idx = "st_region_idx s tld"
  have le: "unat ?idx \<le> ?n" using assms(3) by (simp add: word_le_nat_alt)
  obtain found s' where E: "mi_region_try_claim node blocks lg tld s = Some (found, s')"
    and R: "case found of
         None \<Rightarrow> s' = s \<and> (\<forall>k b. unat (0 :: u64) + k < ?n \<longrightarrow> b + unat blocks \<le> 64 \<longrightarrow>
             mi_region_is_suitable (st_regions s ((unat ?idx + k) mod ?n)) node lg \<longrightarrow>
             \<not> free_run (region_in_use (st_regions s ((unat ?idx + k) mod ?n))) b (unat blocks))
       | Some (i, b) \<Rightarrow> i < ?n \<and> mi_region_is_suitable (st_regions s i) node lg
           \<and> unat b + unat blocks \<le> 64 \<and> free_run (region_in_use (st_regions s i)) (unat b) (unat blocks)
           \<and> s' = (region_write i ((st_regions s i)\<lparr>region_in_use :=
                      region_in_use (st_regions s i) OR run_at (unat blocks) (unat b)\<rparr>) s)
                   \<lparr>st_region_idx := (st_region_idx s)(tld := word_of_nat i)\<rparr>"
    using mi_region_claim_loop_result [OF assms(1,2) le assms(4), of 0 node lg tld s]
    unfolding mi_region_try_claim_def by blast
  show ?thesis
  proof (cases found)
    case None
    have "\<not> free_run (region_in_use (st_regions s i)) b (unat blocks)"
      if i: "i < ?n" "mi_region_is_suitable (st_regions s i) node lg" "b + unat blocks \<le> 64" for i b
    proof -
      obtain k where "k < ?n" and "(unat ?idx + k) mod ?n = i"
        using i(1) le by (rule wrap_around_covers)
      then show ?thesis using R None i by force
    qed
    then show ?thesis using E R None by simp
  next
    case (Some ib)
    then show ?thesis using E R by simp
  qed
qed

text \<open>The state at program load: no region yet.\<close>

definition mem_region_zero :: mem_region where
  "mem_region_zero = \<lparr>region_info = 0, region_start = 0, region_in_use = 0, region_dirty = 0,
     region_commit = 0, region_reset = 0, region_arena_memid = 0\<rparr>"

definition region_state_load :: "os_env \<Rightarrow> region_state" where
  "region_state_load env = arena_state.extend (arena_state_load env)
     \<lparr>st_regions = (\<lambda>_. mem_region_zero), st_regions_count = 0, st_region_idx = (\<lambda>_. 0),
      st_abandoned_readers = 0\<rparr>"

definition region_state_example :: region_state where
  "region_state_example =
     (region_write 0 (mem_region_zero\<lparr>region_info := MI_VALID, region_start := 0x100000000,
          region_in_use := 0x3F\<rparr>) (region_state_load os_env_once))
       \<lparr>st_regions_count := 1, st_page_size := 4096\<rparr>"

lemma region_state_example_simps [simp]:
  "st_regions region_state_example 0
     = mem_region_zero\<lparr>region_info := MI_VALID, region_start := 0x100000000, region_in_use := 0x3F\<rparr>"
  "st_regions_count region_state_example = 1"
  "st_region_idx region_state_example tld = 0"
  "st_abandoned_readers region_state_example = 0"
  "st_page_size region_state_example = 4096"
  by (simp_all add: region_state_example_def region_write_def region_state_load_def arena_state.defs
      arena_state_load_def os_state.defs os_state_load_def)

lemma mi_region_try_claim_correct_witness:
  "\<exists>found s'. mi_region_try_claim (-1) 2 False 0 region_state_example = Some (found, s')"
  using mi_region_try_claim_correct [of 2 region_state_example 0 "-1" False] by auto

text \<open>What a region keeps over every operation but its own allocation.\<close>

definition region_same_area :: "mem_region \<Rightarrow> mem_region \<Rightarrow> bool" where
  "region_same_area r' r \<longleftrightarrow> region_start r' = region_start r \<and> region_arena_memid r' = region_arena_memid r"

lemma fun_upd_eq_iff: "f(i := x) = f(i := y) \<longleftrightarrow> x = y"
  by (metis fun_upd_same)

lemma mi_bitmap_claim_one:
  assumes "unat p < 64"
  shows "mi_bitmap_claim [f] 1 n p = (f AND mi_bitmap_mask n p = 0, f AND mi_bitmap_mask n p \<noteq> mi_bitmap_mask n p,
           [f OR mi_bitmap_mask n p])"
    and "mi_bitmap_unclaim [f] 1 n p = (f AND mi_bitmap_mask n p = mi_bitmap_mask n p, [f AND NOT (mi_bitmap_mask n p)])"
proof -
  have "mi_bitmap_index_create 0 p = p"
    using index_create_props(1) [OF assms, of 0] by (simp add: unsigned_word_eqI)
  then have "mi_bitmap_index_field p = 0" "mi_bitmap_index_bit_in_field p = p"
    using index_create_props(2,3) [OF assms, of 0] by simp_all
  then show "mi_bitmap_claim [f] 1 n p = (f AND mi_bitmap_mask n p = 0, f AND mi_bitmap_mask n p \<noteq> mi_bitmap_mask n p,
           [f OR mi_bitmap_mask n p])"
    and "mi_bitmap_unclaim [f] 1 n p = (f AND mi_bitmap_mask n p = mi_bitmap_mask n p, [f AND NOT (mi_bitmap_mask n p)])"
    by (simp_all add: mi_bitmap_claim_def mi_bitmap_unclaim_def Let_def)
qed

text \<open>
  C33. Freeing segments that came from a region takes exactly their bits out of the in-use field
  of that region; every other region, and the area and the info of this one, stay as they are,
  and nothing above the memory layer changes.
\<close>

theorem mi_mem_free_region:
  assumes memid: "memid = mi_memid_create idx bit_idx" "idx < MI_REGION_MAX" "unat bit_idx < 64"
    and p: "p \<noteq> 0" "p = mi_region_blocks_start (st_regions s (unat idx)) bit_idx"
    and sz: "sz \<noteq> 0" "mi_align_up sz (st_page_size s) \<le> MI_REGION_MAX_OBJ_SIZE"
    and fits: "bit_idx + mi_region_block_count (mi_align_up sz (st_page_size s)) \<le> MI_BITMAP_FIELD_BITS"
    and readers: "st_abandoned_readers s = 0"
  shows "\<exists>s' r'. mi_mem_free p sz memid full any_reset tld s = Some s' \<and> region_kept s' = region_kept s
    \<and> st_regions s' = (st_regions s)(unat idx := r')
    \<and> region_same_area r' (st_regions s (unat idx)) \<and> region_info r' = region_info (st_regions s (unat idx))
    \<and> region_in_use r' = region_in_use (st_regions s (unat idx))
        AND NOT (mi_bitmap_mask (mi_region_block_count (mi_align_up sz (st_page_size s))) bit_idx)"
proof -
  let ?r = "st_regions s (unat idx)"
  let ?sz = "mi_align_up sz (st_page_size s)"
  let ?n = "mi_region_block_count ?sz"
  define r1 where "r1 = mem_free_mark full any_reset ?sz ?n bit_idx ?r"
  have r1: "region_start r1 = region_start ?r" "region_arena_memid r1 = region_arena_memid ?r"
    "region_info r1 = region_info ?r" "region_in_use r1 = region_in_use ?r"
    by (simp_all add: r1_def mem_free_mark_def Let_def)
  obtain do_reset s1 where D: "mem_free_wants_reset r1 s = (do_reset, s1)"
    by (cases "mem_free_wants_reset r1 s")
  have k1: "os_kept s1 = os_kept s"
    using D unfolding mem_free_wants_reset_def by (auto simp: Let_def split: if_splits prod.splits dest!: os_frame)
  note s1 = os_kept_region [OF k1]
  obtain reset_ok s2 where mr: "mi_mem_reset p (mi_region_block_count ?sz * MI_SEGMENT_SIZE) tld s1 = (reset_ok, s2)"
    by (cases "mi_mem_reset p (mi_region_block_count ?sz * MI_SEGMENT_SIZE) tld s1")
  have k2: "os_kept s2 = os_kept s"
    using mr k1 unfolding mi_mem_reset_def by (auto dest!: os_frame)
  note s2 = os_kept_region [OF k2]
  have "\<not> MI_REGION_MAX_OBJ_SIZE < ?sz" "\<not> MI_BITMAP_FIELD_BITS < bit_idx + mi_region_block_count ?sz"
    using sz(2) fits by (simp_all add: not_less)
  then show ?thesis
    using p sz(1) readers s1 s2
    unfolding mi_mem_free_def memid(1) mi_memid_roundtrip [OF memid(2,3)] mi_os_page_size_def
    by (simp add: Let_def mi_bitmap_claim_one [OF memid(3)] r1_def [symmetric] r1 D mr [unfolded p(2)]
        fun_upd_eq_iff mi_abandoned_await_readers_def region_same_area_def)
qed

lemma mi_mem_free_region_witness:
  "\<exists>s' r'. mi_mem_free 0x100020000 0x20000 (mi_memid_create 0 1) True False 0 region_state_example = Some s'
    \<and> region_kept s' = region_kept region_state_example
    \<and> st_regions s' = (st_regions region_state_example)(0 := r') \<and> region_in_use r' = 0x3D"
proof -
  have sz: "mi_align_up 0x20000 0x1000 = 0x20000" "mi_region_block_count 0x20000 = 1"
    by (simp_all add: mi_align_up_def mi_is_power_of_two_def mi_region_block_count_def mi_divide_up_def
        MI_SEGMENT_SIZE_def)
  have m: "0x3F AND NOT (mi_bitmap_mask 1 1) = 0x3D" by code_simp
  let ?r = "mem_region_zero\<lparr>region_info := MI_VALID, region_start := 0x100000000, region_in_use := 0x3F\<rparr>"
  have p: "0x100020000 = mi_region_blocks_start (st_regions region_state_example (unat 0)) 1"
    by (simp add: mi_region_blocks_start_def MI_SEGMENT_SIZE_def)
  obtain s' r' where "mi_mem_free 0x100020000 0x20000 (mi_memid_create 0 1) True False 0 region_state_example = Some s'"
    "region_kept s' = region_kept region_state_example" "st_regions s' = (st_regions region_state_example)(unat 0 := r')"
    "region_in_use r' = region_in_use (st_regions region_state_example (unat 0)) AND NOT (mi_bitmap_mask 1 1)"
    using mi_mem_free_region [OF refl _ _ _ p, of "0x20000" True False 0]
    by (simp add: sz MI_REGION_MAX_value MI_REGION_MAX_OBJ_SIZE_def MI_REGION_MAX_OBJ_BLOCKS_def MI_BITMAP_FIELD_BITS_def MI_SEGMENT_SIZE_def) blast
  then show ?thesis using m by (auto simp: mem_region_zero_def)
qed

text \<open>
  C39. Collecting regions retires exactly the regions that are valid and have no segment in use:
  their info word is cleared and all their segments stay marked in use, so no search finds them
  again; all others are unchanged. Their start address remains, so the test whether an address
  lies in a heap region gives the same answer after the memory was released.
\<close>

theorem mi_mem_collect_correct:
  assumes "st_abandoned_readers s = 0"
  shows "\<exists>s'. mi_mem_collect tld s = Some s' \<and> region_kept s' = region_kept s
    \<and> st_regions s' = (\<lambda>i. let r = st_regions s i in
        if i < unat (st_regions_count s) \<and> region_info r \<noteq> 0 \<and> region_in_use r = 0
        then r\<lparr>region_info := 0, region_in_use := MI_BITMAP_FIELD_FULL\<rparr> else r)
    \<and> mi_is_in_heap_region p s' = mi_is_in_heap_region p s"
proof -
  have one: "\<exists>t'. mi_mem_collect_region i tld t = Some t' \<and> region_kept t' = region_kept t
      \<and> st_regions_count t' = st_regions_count t \<and> st_abandoned_readers t' = 0
      \<and> st_regions t' = (\<lambda>j. let r = st_regions t j in
          if j = i \<and> region_info r \<noteq> 0 \<and> region_in_use r = 0
          then r\<lparr>region_info := 0, region_in_use := MI_BITMAP_FIELD_FULL\<rparr> else r)"
    if rd: "st_abandoned_readers t = 0" for i t
  proof -
    let ?r = "st_regions t i"
    define t1 where "t1 = region_write i (?r\<lparr>region_in_use := MI_BITMAP_FIELD_FULL, region_info := 0\<rparr>) t"
    obtain e t2 where f: "mi_arena_free (region_start ?r) MI_REGION_SIZE (region_arena_memid ?r)
        (NOT (region_commit ?r) = 0) (TldStats tld) t1 = (e, t2)"
      by (cases "mi_arena_free (region_start ?r) MI_REGION_SIZE (region_arena_memid ?r)
        (NOT (region_commit ?r) = 0) (TldStats tld) t1")
    have "arena_kept t2 = arena_kept t1" by (rule mi_arena_free_frame [OF f])
    note t2 = arena_kept_region [OF this]
    have t1: "region_kept t1 = region_kept t" "st_regions_count t1 = st_regions_count t"
      "st_abandoned_readers t1 = 0"
      "st_regions t1 = (st_regions t)(i := ?r\<lparr>region_in_use := MI_BITMAP_FIELD_FULL, region_info := 0\<rparr>)"
      using rd by (simp_all add: t1_def)
    show ?thesis
      using rd t1 t2 f
      by (auto simp: mi_mem_collect_region_def Let_def t1_def [symmetric] mi_abandoned_await_readers_def)
  qed
  have loop: "\<exists>t'. mi_mem_collect_loop is tld t = Some t' \<and> region_kept t' = region_kept t
      \<and> st_regions_count t' = st_regions_count t
      \<and> st_regions t' = (\<lambda>j. let r = st_regions t j in
          if j \<in> set is \<and> region_info r \<noteq> 0 \<and> region_in_use r = 0
          then r\<lparr>region_info := 0, region_in_use := MI_BITMAP_FIELD_FULL\<rparr> else r)"
    if "st_abandoned_readers t = 0" for "is" t
    using that
  proof (induction "is" arbitrary: t)
    case (Cons i "is")
    from one [OF Cons.prems, of i] obtain t1 where
      t1: "mi_mem_collect_region i tld t = Some t1" "st_abandoned_readers t1 = 0"
        "region_kept t1 = region_kept t" "st_regions_count t1 = st_regions_count t"
        "st_regions t1 = (\<lambda>j. let r = st_regions t j in
          if j = i \<and> region_info r \<noteq> 0 \<and> region_in_use r = 0
          then r\<lparr>region_info := 0, region_in_use := MI_BITMAP_FIELD_FULL\<rparr> else r)" by blast
    from Cons.IH [OF t1(2)] t1 show ?case
      by (auto simp: Let_def fun_eq_iff)
  qed simp
  have start: "in_region_from k n q t' = in_region_from k n q t"
    if "\<And>j. region_start (st_regions t' j) = region_start (st_regions t j)"
    for k n q and t t' :: "'a region_state_scheme"
    using that by (induction n arbitrary: k) (simp_all add: Let_def)
  obtain s' where s': "mi_mem_collect tld s = Some s'" "region_kept s' = region_kept s"
    "st_regions_count s' = st_regions_count s"
    "st_regions s' = (\<lambda>j. let r = st_regions s j in
          if j \<in> set [0..<unat (st_regions_count s)] \<and> region_info r \<noteq> 0 \<and> region_in_use r = 0
          then r\<lparr>region_info := 0, region_in_use := MI_BITMAP_FIELD_FULL\<rparr> else r)"
    using loop [OF assms, of "[0..<unat (st_regions_count s)]"] unfolding mi_mem_collect_def by blast
  then have "mi_is_in_heap_region p s' = mi_is_in_heap_region p s"
    unfolding mi_is_in_heap_region_def by (simp add: start [of s' s] Let_def)
  then show ?thesis using s' by (simp add: Let_def)
qed

lemma mi_mem_collect_correct_witness:
  "\<exists>s'. mi_mem_collect 0 region_state_example = Some s'
    \<and> mi_is_in_heap_region 0x100000010 s' = mi_is_in_heap_region 0x100000010 region_state_example"
  using mi_mem_collect_correct [of region_state_example 0 "0x100000010"] by auto

end
