(* ===== verification/State.thy ===== *)
theory State
  imports Region Chacha Bins
begin

text \<open>
  The objects of the allocator above the memory layer (\<open>mimalloc-types.h\<close>): pages, segments,
  heaps and thread data, in one store. Memory is typed: the words of free blocks, the page
  records, the segment headers, the heaps and the thread data are separate maps from their
  addresses. A page is named by its segment and its index in the segment's \<open>pages\<close> array; the
  static page \<open>_mi_page_empty\<close> is page 0 of address 0. Links of the intrusive lists of pages and
  of segments are \<open>None\<close> for a null pointer. A \<open>None\<close> result of an operation stands for
  undefined behaviour (an access through a null pointer) or for a loop that does not end.
\<close>

section \<open>Constants\<close>

definition MI_SMALL_PAGE_SHIFT :: u64 where [mi_consts]: "MI_SMALL_PAGE_SHIFT = 13"
definition MI_MEDIUM_PAGE_SHIFT :: u64 where [mi_consts]: "MI_MEDIUM_PAGE_SHIFT = 15"
definition MI_LARGE_PAGE_SHIFT :: u64 where [mi_consts]: "MI_LARGE_PAGE_SHIFT = 17"
definition MI_HUGE_OBJ_SIZE_MAX :: u64 where [mi_consts]: "MI_HUGE_OBJ_SIZE_MAX = 2097152"
definition MI_HUGE_BLOCK_SIZE :: u32 where [mi_consts]: "MI_HUGE_BLOCK_SIZE = 2097152"
definition MI_SMALL_WSIZE_MAX :: nat where [mi_consts]: "MI_SMALL_WSIZE_MAX = 128"
definition MI_SMALL_SIZE_MAX :: u64 where [mi_consts]: "MI_SMALL_SIZE_MAX = 1024"

section \<open>Pages\<close>

type_synonym page_id = "addr \<times> nat"

record mi_page =
  pg_segment_idx :: u8
  pg_segment_in_use :: bool
  pg_is_reset :: bool
  pg_is_committed :: bool
  pg_is_zero_init :: bool
  pg_capacity :: u16
  pg_reserved :: u16
  pg_in_full :: bool
  pg_has_aligned :: bool
  pg_is_zero :: bool
  pg_retire_expire :: "7 word"
  pg_free :: addr
  pg_used :: u32
  pg_xblock_size :: u32
  pg_local_free :: addr
  pg_xthread_free :: u64
  pg_xheap :: addr
  pg_next :: "page_id option"
  pg_prev :: "page_id option"

definition mi_page_empty :: mi_page where
  "mi_page_empty = \<lparr>pg_segment_idx = 0, pg_segment_in_use = False, pg_is_reset = False,
     pg_is_committed = False, pg_is_zero_init = False, pg_capacity = 0, pg_reserved = 0,
     pg_in_full = False, pg_has_aligned = False, pg_is_zero = False, pg_retire_expire = 0,
     pg_free = 0, pg_used = 0, pg_xblock_size = 0, pg_local_free = 0, pg_xthread_free = 0,
     pg_xheap = 0, pg_next = None, pg_prev = None\<rparr>"

definition page_empty_ref :: page_id where "page_empty_ref = (0, 0)"

record mi_page_queue =
  pq_first :: "page_id option"
  pq_last :: "page_id option"
  pq_block_size :: u64

section \<open>Segments\<close>

datatype mi_page_kind = MI_PAGE_SMALL | MI_PAGE_MEDIUM | MI_PAGE_LARGE | MI_PAGE_HUGE

text \<open>The kinds are ordered as the values of the enumeration.\<close>

fun mi_page_kind_val :: "mi_page_kind \<Rightarrow> nat" where
  "mi_page_kind_val MI_PAGE_SMALL = 0"
| "mi_page_kind_val MI_PAGE_MEDIUM = 1"
| "mi_page_kind_val MI_PAGE_LARGE = 2"
| "mi_page_kind_val MI_PAGE_HUGE = 3"

lemma mi_page_kind_val_inj: "mi_page_kind_val k = mi_page_kind_val l \<Longrightarrow> k = l"
  by (cases k; cases l) simp_all

instantiation mi_page_kind :: linorder
begin

definition less_eq_mi_page_kind :: "mi_page_kind \<Rightarrow> mi_page_kind \<Rightarrow> bool" where
  "k \<le> l \<longleftrightarrow> mi_page_kind_val k \<le> mi_page_kind_val l"

definition less_mi_page_kind :: "mi_page_kind \<Rightarrow> mi_page_kind \<Rightarrow> bool" where
  "k < l \<longleftrightarrow> mi_page_kind_val k < mi_page_kind_val l"

instance
  by standard (auto simp: less_eq_mi_page_kind_def less_mi_page_kind_def intro: mi_page_kind_val_inj)

end

definition page_kind_le_medium :: "mi_page_kind \<Rightarrow> bool" where
  "page_kind_le_medium k \<longleftrightarrow> k \<le> MI_PAGE_MEDIUM"

lemma page_kind_le_medium_iff: "page_kind_le_medium k \<longleftrightarrow> k = MI_PAGE_SMALL \<or> k = MI_PAGE_MEDIUM"
  by (cases k) (simp_all add: page_kind_le_medium_def less_eq_mi_page_kind_def)

record mi_segment =
  sg_memid :: u64
  sg_mem_is_fixed :: bool
  sg_mem_is_committed :: bool
  sg_next :: "addr option"
  sg_prev :: "addr option"
  sg_abandoned_next :: addr
  sg_abandoned :: u64
  sg_abandoned_visits :: u64
  sg_used :: u64
  sg_capacity :: u64
  sg_segment_size :: u64
  sg_info_size :: u64
  sg_cookie :: u64
  sg_page_shift :: u64
  sg_thread_id :: u64
  sg_page_kind :: mi_page_kind

definition mi_segment_zero :: mi_segment where
  "mi_segment_zero = \<lparr>sg_memid = 0, sg_mem_is_fixed = False, sg_mem_is_committed = False,
     sg_next = None, sg_prev = None, sg_abandoned_next = 0, sg_abandoned = 0,
     sg_abandoned_visits = 0, sg_used = 0, sg_capacity = 0, sg_segment_size = 0,
     sg_info_size = 0, sg_cookie = 0, sg_page_shift = 0, sg_thread_id = 0,
     sg_page_kind = MI_PAGE_SMALL\<rparr>"

record mi_segment_queue =
  sq_first :: "addr option"
  sq_last :: "addr option"

section \<open>Heaps and thread data\<close>

record mi_heap =
  hp_tld :: addr
  hp_pages_free_direct :: "nat \<Rightarrow> page_id option"
  hp_pages :: "nat \<Rightarrow> mi_page_queue"
  hp_thread_delayed_free :: addr
  hp_thread_id :: u64
  hp_cookie :: u64
  hp_key0 :: u64
  hp_key1 :: u64
  hp_random :: mi_random_ctx
  hp_page_count :: u64
  hp_page_retired_min :: u64
  hp_page_retired_max :: u64
  hp_next :: addr
  hp_no_reclaim :: bool

text \<open>\<open>MI_PAGE_QUEUES_EMPTY\<close> and \<open>_mi_heap_empty\<close>.\<close>

definition page_queues_empty :: "nat \<Rightarrow> mi_page_queue" where
  "page_queues_empty bin =
     \<lparr>pq_first = None, pq_last = None, pq_block_size = mi_bin_size (word_of_nat bin)\<rparr>"

definition random_ctx_zero :: mi_random_ctx where
  "random_ctx_zero = \<lparr>rnd_input = replicate 16 0, rnd_output = replicate 16 0, rnd_available = 0\<rparr>"

definition mi_heap_empty :: mi_heap where
  "mi_heap_empty = \<lparr>hp_tld = 0, hp_pages_free_direct = (\<lambda>_. Some page_empty_ref),
     hp_pages = page_queues_empty, hp_thread_delayed_free = 0, hp_thread_id = 0, hp_cookie = 0,
     hp_key0 = 0, hp_key1 = 0, hp_random = random_ctx_zero, hp_page_count = 0,
     hp_page_retired_min = ucast MI_BIN_FULL, hp_page_retired_max = 0, hp_next = 0,
     hp_no_reclaim = False\<rparr>"

record mi_tld =
  tl_heartbeat :: u64
  tl_recurse :: bool
  tl_heap_backing :: addr
  tl_heaps :: addr
  tl_small_free :: mi_segment_queue
  tl_medium_free :: mi_segment_queue
  tl_pages_reset :: mi_page_queue
  tl_count :: u64
  tl_peak_count :: u64
  tl_current_size :: u64
  tl_peak_size :: u64
  tl_cache_count :: u64
  tl_cache_size :: u64
  tl_cache :: "addr option"

text \<open>The objects of static storage, by the addresses the model gives them.\<close>

definition heap_empty_ref :: addr where "heap_empty_ref = 0x10"
definition heap_main_ref :: addr where "heap_main_ref = 0x20"
definition tld_main_ref :: addr where "tld_main_ref = 0x30"

definition tld_main_init :: mi_tld where
  "tld_main_init = \<lparr>tl_heartbeat = 0, tl_recurse = False, tl_heap_backing = heap_main_ref,
     tl_heaps = heap_main_ref, tl_small_free = \<lparr>sq_first = None, sq_last = None\<rparr>,
     tl_medium_free = \<lparr>sq_first = None, sq_last = None\<rparr>,
     tl_pages_reset = \<lparr>pq_first = None, pq_last = None, pq_block_size = 0\<rparr>,
     tl_count = 0, tl_peak_count = 0, tl_current_size = 0, tl_peak_size = 0, tl_cache_count = 0,
     tl_cache_size = 0, tl_cache = None\<rparr>"

text \<open>Memory of heaps and thread data that nothing has written to.\<close>

definition mi_heap_zero :: mi_heap where
  "mi_heap_zero = \<lparr>hp_tld = 0, hp_pages_free_direct = (\<lambda>_. None),
     hp_pages = (\<lambda>_. \<lparr>pq_first = None, pq_last = None, pq_block_size = 0\<rparr>),
     hp_thread_delayed_free = 0, hp_thread_id = 0, hp_cookie = 0, hp_key0 = 0, hp_key1 = 0,
     hp_random = random_ctx_zero, hp_page_count = 0, hp_page_retired_min = 0,
     hp_page_retired_max = 0, hp_next = 0, hp_no_reclaim = False\<rparr>"

definition mi_tld_zero :: mi_tld where
  "mi_tld_zero = tld_main_init\<lparr>tl_heap_backing := 0, tl_heaps := 0\<rparr>"

definition heap_main_init :: mi_heap where
  "heap_main_init = mi_heap_empty\<lparr>hp_tld := tld_main_ref,
     hp_random := random_ctx_zero\<lparr>rnd_input := 0x846ca68b # replicate 15 0\<rparr>\<rparr>"

section \<open>The store\<close>

record mstate = region_state +
  st_block :: "addr \<Rightarrow> addr"
  st_page :: "page_id \<Rightarrow> mi_page"
  st_segment :: "addr \<Rightarrow> mi_segment"
  st_heap :: "addr \<Rightarrow> mi_heap"
  st_tld :: "addr \<Rightarrow> mi_tld"
  st_abandoned :: u64
  st_abandoned_visited :: addr
  st_thread_id :: u64
  st_random_weak :: u64
  st_heap_default :: addr
  st_process_init :: bool
  st_process_done :: bool
  st_deferred_free :: addr
  st_deferred_arg :: addr
  st_deferred_calls :: "(bool \<times> u64 \<times> addr) list"

definition block_upd :: "addr \<Rightarrow> addr \<Rightarrow> 'a mstate_scheme \<Rightarrow> 'a mstate_scheme" where
  "block_upd b nxt s = s\<lparr>st_block := (st_block s)(b := nxt)\<rparr>"

definition page_upd :: "page_id \<Rightarrow> (mi_page \<Rightarrow> mi_page) \<Rightarrow> 'a mstate_scheme \<Rightarrow> 'a mstate_scheme" where
  "page_upd p f s = s\<lparr>st_page := (st_page s)(p := f (st_page s p))\<rparr>"

definition page_upd_opt ::
    "page_id option \<Rightarrow> (mi_page \<Rightarrow> mi_page) \<Rightarrow> 'a mstate_scheme \<Rightarrow> 'a mstate_scheme" where
  "page_upd_opt p f s = (case p of None \<Rightarrow> s | Some p \<Rightarrow> page_upd p f s)"

definition segment_upd :: "addr \<Rightarrow> (mi_segment \<Rightarrow> mi_segment) \<Rightarrow> 'a mstate_scheme \<Rightarrow> 'a mstate_scheme" where
  "segment_upd a f s = s\<lparr>st_segment := (st_segment s)(a := f (st_segment s a))\<rparr>"

definition segment_upd_opt ::
    "addr option \<Rightarrow> (mi_segment \<Rightarrow> mi_segment) \<Rightarrow> 'a mstate_scheme \<Rightarrow> 'a mstate_scheme" where
  "segment_upd_opt a f s = (case a of None \<Rightarrow> s | Some a \<Rightarrow> segment_upd a f s)"

definition heap_upd :: "addr \<Rightarrow> (mi_heap \<Rightarrow> mi_heap) \<Rightarrow> 'a mstate_scheme \<Rightarrow> 'a mstate_scheme" where
  "heap_upd h f s = s\<lparr>st_heap := (st_heap s)(h := f (st_heap s h))\<rparr>"

definition tld_upd :: "addr \<Rightarrow> (mi_tld \<Rightarrow> mi_tld) \<Rightarrow> 'a mstate_scheme \<Rightarrow> 'a mstate_scheme" where
  "tld_upd t f s = s\<lparr>st_tld := (st_tld s)(t := f (st_tld s t))\<rparr>"

text \<open>A queue of a heap is named by the heap and its bin.\<close>

type_synonym queue_id = "addr \<times> nat"

definition queue_of :: "queue_id \<Rightarrow> 'a mstate_scheme \<Rightarrow> mi_page_queue" where
  "queue_of q s = hp_pages (st_heap s (fst q)) (snd q)"

definition queue_upd :: "queue_id \<Rightarrow> (mi_page_queue \<Rightarrow> mi_page_queue) \<Rightarrow> 'a mstate_scheme \<Rightarrow> 'a mstate_scheme" where
  "queue_upd q f s =
     heap_upd (fst q) (\<lambda>h. h\<lparr>hp_pages := (hp_pages h)(snd q := f (hp_pages h (snd q)))\<rparr>) s"

section \<open>Reading and writing the store\<close>

named_theorems store_simps \<open>what a write to the store changes\<close>

lemma page_upd_simps [store_simps]:
  "st_page (page_upd p f s) = (st_page s)(p := f (st_page s p))"
  "st_block (page_upd p f s) = st_block s" "st_segment (page_upd p f s) = st_segment s"
  "st_heap (page_upd p f s) = st_heap s" "st_tld (page_upd p f s) = st_tld s"
  "queue_of q (page_upd p f s) = queue_of q s"
  by (simp_all add: page_upd_def queue_of_def)

lemma page_upd_opt_simps [store_simps]:
  "st_page (page_upd_opt p f s) = (\<lambda>q. if Some q = p then f (st_page s q) else st_page s q)"
  "st_block (page_upd_opt p f s) = st_block s" "st_segment (page_upd_opt p f s) = st_segment s"
  "st_heap (page_upd_opt p f s) = st_heap s" "st_tld (page_upd_opt p f s) = st_tld s"
  "queue_of q (page_upd_opt p f s) = queue_of q s"
  by (cases p; auto simp: page_upd_opt_def page_upd_def queue_of_def fun_eq_iff)+

lemma segment_upd_simps [store_simps]:
  "st_segment (segment_upd a f s) = (st_segment s)(a := f (st_segment s a))"
  "st_block (segment_upd a f s) = st_block s" "st_page (segment_upd a f s) = st_page s"
  "st_heap (segment_upd a f s) = st_heap s" "st_tld (segment_upd a f s) = st_tld s"
  "queue_of q (segment_upd a f s) = queue_of q s"
  by (simp_all add: segment_upd_def queue_of_def)

lemma segment_upd_opt_simps [store_simps]:
  "st_segment (segment_upd_opt a f s) = (\<lambda>b. if Some b = a then f (st_segment s b) else st_segment s b)"
  "st_block (segment_upd_opt a f s) = st_block s" "st_page (segment_upd_opt a f s) = st_page s"
  "st_heap (segment_upd_opt a f s) = st_heap s" "st_tld (segment_upd_opt a f s) = st_tld s"
  by (cases a; auto simp: segment_upd_opt_def segment_upd_def fun_eq_iff)+

lemma heap_upd_simps [store_simps]:
  "st_heap (heap_upd h f s) = (st_heap s)(h := f (st_heap s h))"
  "st_block (heap_upd h f s) = st_block s" "st_page (heap_upd h f s) = st_page s"
  "st_segment (heap_upd h f s) = st_segment s" "st_tld (heap_upd h f s) = st_tld s"
  by (simp_all add: heap_upd_def)

lemma tld_upd_simps [store_simps]:
  "st_tld (tld_upd t f s) = (st_tld s)(t := f (st_tld s t))"
  "st_block (tld_upd t f s) = st_block s" "st_page (tld_upd t f s) = st_page s"
  "st_segment (tld_upd t f s) = st_segment s" "st_heap (tld_upd t f s) = st_heap s"
  "queue_of q (tld_upd t f s) = queue_of q s"
  by (simp_all add: tld_upd_def queue_of_def)

lemma block_upd_simps [store_simps]:
  "st_block (block_upd b n s) = (st_block s)(b := n)" "st_page (block_upd b n s) = st_page s"
  "st_segment (block_upd b n s) = st_segment s" "st_heap (block_upd b n s) = st_heap s"
  "st_tld (block_upd b n s) = st_tld s" "queue_of q (block_upd b n s) = queue_of q s"
  by (simp_all add: block_upd_def queue_of_def)

lemma queue_upd_simps [store_simps]:
  "queue_of r (queue_upd q f s) = (if r = q then f (queue_of q s) else queue_of r s)"
  "st_block (queue_upd q f s) = st_block s" "st_page (queue_upd q f s) = st_page s"
  "st_segment (queue_upd q f s) = st_segment s" "st_tld (queue_upd q f s) = st_tld s"
  by (cases q; cases r; auto simp: queue_upd_def queue_of_def heap_upd_def)+

section \<open>Program load\<close>

definition mstate_load :: "os_env \<Rightarrow> mstate" where
  "mstate_load env = region_state.extend (region_state_load env)
     \<lparr>st_block = (\<lambda>_. 0), st_page = (\<lambda>_. mi_page_empty), st_segment = (\<lambda>_. mi_segment_zero),
      st_heap = (\<lambda>a. if a = heap_main_ref then heap_main_init
                      else if a = heap_empty_ref then mi_heap_empty else mi_heap_zero),
      st_tld = (\<lambda>a. if a = tld_main_ref then tld_main_init else mi_tld_zero), st_abandoned = 0,
      st_abandoned_visited = 0, st_thread_id = 1, st_random_weak = 0x1000,
      st_heap_default = heap_empty_ref, st_process_init = False, st_process_done = False,
      st_deferred_free = 0, st_deferred_arg = 0, st_deferred_calls = []\<rparr>"

end
