(* ===== verification/DList.thy ===== *)
theory DList
  imports Prelude
begin

text \<open>
  Intrusive doubly linked lists. The page queues of a heap, the queue of pages to reset and the
  queues of segments are all lists whose links live in the elements: a queue keeps its first and
  last element, an element its neighbours. The first part relates such links to HOL lists; the
  locales then state what the operations on a store promise about links, and derive from it that
  they implement \<open>Cons\<close>, snoc and removal on the lists, for the queue worked on and for every
  other queue of the store.
\<close>

section \<open>Links and lists\<close>

definition first_or :: "'n list \<Rightarrow> 'n option \<Rightarrow> 'n option" where
  "first_or xs b = (if xs = [] then b else Some (hd xs))"

definition last_or :: "'n option \<Rightarrow> 'n list \<Rightarrow> 'n option" where
  "last_or a xs = (if xs = [] then a else Some (last xs))"

lemma first_or_simps [simp]: "first_or [] b = b" "first_or (x # xs) b = Some x"
  by (simp_all add: first_or_def)

lemma last_or_simps [simp]:
  "last_or a [] = a" "last_or a (x # xs) = last_or (Some x) xs" "last_or a (xs @ [x]) = Some x"
  by (simp_all add: last_or_def)

lemma first_or_append [simp]: "first_or (xs @ ys) b = first_or xs (first_or ys b)"
  by (simp add: first_or_def)

lemma last_or_append [simp]: "last_or a (xs @ ys) = last_or (last_or a xs) ys"
  by (simp add: last_or_def)

text \<open>\<open>xs\<close> is linked both ways, between the neighbours \<open>a\<close> and \<open>b\<close>.\<close>

fun links ::
    "('n \<Rightarrow> 'n option) \<Rightarrow> ('n \<Rightarrow> 'n option) \<Rightarrow> 'n option \<Rightarrow> 'n list \<Rightarrow> 'n option \<Rightarrow> bool" where
  "links nx pv a [] b = True"
| "links nx pv a (x # xs) b = (pv x = a \<and> nx x = first_or xs b \<and> links nx pv (Some x) xs b)"

lemma links_append [simp]:
  "links nx pv a (xs @ ys) b \<longleftrightarrow> links nx pv a xs (first_or ys b) \<and> links nx pv (last_or a xs) ys b"
  by (induction xs arbitrary: a) auto

lemma links_cong:
  "(\<And>x. x \<in> set xs \<Longrightarrow> nx x = nx' x \<and> pv x = pv' x) \<Longrightarrow> links nx pv a xs b = links nx' pv' a xs b"
  by (induction xs arbitrary: a) auto

definition dlist ::
    "('n \<Rightarrow> 'n option) \<Rightarrow> ('n \<Rightarrow> 'n option) \<Rightarrow> 'n option \<Rightarrow> 'n option \<Rightarrow> 'n list \<Rightarrow> bool" where
  "dlist nx pv f l xs \<longleftrightarrow>
     distinct xs \<and> links nx pv None xs None \<and> f = first_or xs None \<and> l = last_or None xs"

lemma dlist_Nil [simp]: "dlist nx pv f l [] \<longleftrightarrow> f = None \<and> l = None"
  by (simp add: dlist_def)

lemma dlist_first: "dlist nx pv f l xs \<Longrightarrow> f = first_or xs None"
  by (simp add: dlist_def)

lemma dlist_distinct: "dlist nx pv f l xs \<Longrightarrow> distinct xs"
  by (simp add: dlist_def)

lemma dlist_cong:
  assumes "\<And>x. x \<in> set xs \<Longrightarrow> nx x = nx' x \<and> pv x = pv' x"
  shows "dlist nx pv f l xs = dlist nx' pv' f l xs"
  using links_cong [of xs nx nx' pv pv'] assms by (simp add: dlist_def)

text \<open>A list is determined by its links.\<close>

lemma dlist_unique:
  assumes "dlist nx pv f l xs" and "dlist nx pv f l ys"
  shows "xs = ys"
proof -
  have "links nx pv a xs None \<Longrightarrow> links nx pv a ys None \<Longrightarrow> first_or xs None = first_or ys None \<Longrightarrow> xs = ys"
    for a
  proof (induction xs arbitrary: a ys)
    case Nil
    then show ?case by (cases ys) auto
  next
    case (Cons x xs)
    then show ?case by (cases ys) auto
  qed
  then show ?thesis using assms by (auto simp: dlist_def)
qed

lemma dlist_push:
  assumes "dlist nx pv f l xs" and "n \<notin> set xs"
    and "\<And>m. nx' m = (if m = n then f else nx m)"
    and "\<And>m. pv' m = (if m = n then None else if Some m = f then Some n else pv m)"
  shows "dlist nx' pv' (Some n) (if f = None then Some n else l) (n # xs)"
proof (cases xs)
  case Nil
  then show ?thesis using assms by (simp add: dlist_def)
next
  case (Cons x ys)
  have "links nx' pv' (Some x) ys None = links nx pv (Some x) ys None"
    by (rule links_cong) (use assms Cons in \<open>auto simp: dlist_def\<close>)
  then show ?thesis using assms Cons by (auto simp: dlist_def)
qed

lemma dlist_snoc:
  assumes "dlist nx pv f l xs" and "n \<notin> set xs"
    and "\<And>m. nx' m = (if m = n then None else if Some m = l then Some n else nx m)"
    and "\<And>m. pv' m = (if m = n then l else pv m)"
  shows "dlist nx' pv' (if l = None then Some n else f) (Some n) (xs @ [n])"
proof (cases xs rule: rev_cases)
  case Nil
  then show ?thesis using assms by (simp add: dlist_def)
next
  case (snoc ys y)
  have "links nx' pv' None ys (Some y) = links nx pv None ys (Some y)"
    by (rule links_cong) (use assms snoc in \<open>auto simp: dlist_def\<close>)
  then show ?thesis using assms snoc by (auto simp: dlist_def)
qed

lemma dlist_remove:
  assumes D: "dlist nx pv f l xs" and n: "n \<in> set xs"
    and nx': "\<And>m. m \<noteq> n \<Longrightarrow> nx' m = (if Some m = pv n then nx n else nx m)"
    and pv': "\<And>m. m \<noteq> n \<Longrightarrow> pv' m = (if Some m = nx n then pv n else pv m)"
  shows "dlist nx' pv' (if f = Some n then nx n else f) (if l = Some n then pv n else l) (remove1 n xs)"
proof -
  obtain as bs where xs: "xs = as @ n # bs" using split_list [OF n] by blast
  have d: "distinct as" "distinct bs" "n \<notin> set as" "n \<notin> set bs" "set as \<inter> set bs = {}"
    using dlist_distinct [OF D] xs by auto
  have L: "links nx pv None as (Some n)" "links nx pv (Some n) bs None"
    "pv n = last_or None as" "nx n = first_or bs None"
    using D by (simp_all add: dlist_def xs)
  have nx1: "nx' m = nx m" if "m \<noteq> n" "Some m \<noteq> last_or None as" for m
    using that nx' L(3) by simp
  have pv1: "pv' m = pv m" if "m \<noteq> n" "Some m \<noteq> first_or bs None" for m
    using that pv' L(4) by simp
  have A: "links nx' pv' None as (first_or bs None)"
  proof (cases as rule: rev_cases)
    case (snoc cs c)
    have c: "c \<noteq> n" "Some c \<noteq> first_or bs None" "c \<notin> set cs"
      using d snoc by (auto simp: first_or_def)
    have "nx' x = nx x \<and> pv' x = pv x" if "x \<in> set cs" for x
    proof -
      have "x \<noteq> n" "x \<noteq> c" "Some x \<noteq> first_or bs None"
        using that d snoc c by (auto simp: first_or_def)
      then show ?thesis by (simp add: nx1 pv1 snoc)
    qed
    then have "links nx' pv' None cs (Some c) = links nx pv None cs (Some c)"
      by (rule links_cong)
    moreover have "nx' c = first_or bs None" using nx' [OF c(1)] L(3,4) snoc by simp
    moreover have "pv' c = pv c" using c by (simp add: pv1)
    ultimately show ?thesis using L(1) snoc by simp
  qed simp
  have B: "links nx' pv' (last_or None as) bs None"
  proof (cases bs)
    case (Cons c cs)
    have c: "c \<noteq> n" "Some c \<noteq> last_or None as" "c \<notin> set cs"
      using d Cons by (auto simp: last_or_def)
    have "nx' x = nx x \<and> pv' x = pv x" if "x \<in> set cs" for x
    proof -
      have "x \<noteq> n" "x \<noteq> c" "Some x \<noteq> last_or None as"
        using that d Cons c by (cases as rule: rev_cases; auto)+
      then show ?thesis by (simp add: nx1 pv1 Cons)
    qed
    then have "links nx' pv' (Some c) cs None = links nx pv (Some c) cs None"
      by (rule links_cong)
    moreover have "pv' c = last_or None as" using pv' [OF c(1)] L(3,4) Cons by simp
    moreover have "nx' c = nx c" using c by (simp add: nx1)
    ultimately show ?thesis using L(2) Cons by simp
  qed simp
  have "remove1 n xs = as @ bs" using d by (simp add: xs remove1_append)
  moreover have "(if f = Some n then nx n else f) = first_or as (first_or bs None)"
    using D d L by (auto simp: dlist_def xs first_or_def)
  moreover have "(if l = Some n then pv n else l) = last_or (last_or None as) bs"
    using D d L by (auto simp: dlist_def xs last_or_def)
  ultimately show ?thesis using A B d by (simp add: dlist_def)
qed

section \<open>Lists in a store\<close>

text \<open>A store gives every element its links and every queue its two ends.\<close>

locale dlist_store =
  fixes nxt :: "'s \<Rightarrow> 'n \<Rightarrow> 'n option"
    and prv :: "'s \<Rightarrow> 'n \<Rightarrow> 'n option"
    and fst_of :: "'s \<Rightarrow> 'q \<Rightarrow> 'n option"
    and lst_of :: "'s \<Rightarrow> 'q \<Rightarrow> 'n option"
begin

definition holds :: "'s \<Rightarrow> 'q \<Rightarrow> 'n list \<Rightarrow> bool" where
  "holds s q xs \<longleftrightarrow> dlist (nxt s) (prv s) (fst_of s q) (lst_of s q) xs"

lemma holds_unique: "holds s q xs \<Longrightarrow> holds s q ys \<Longrightarrow> xs = ys"
  unfolding holds_def by (rule dlist_unique)

lemma holds_first: "holds s q xs \<Longrightarrow> fst_of s q = first_or xs None"
  unfolding holds_def by (rule dlist_first)

lemma holds_other:
  assumes "holds s r ys"
    and "\<And>m. m \<in> set ys \<Longrightarrow> nxt s' m = nxt s m \<and> prv s' m = prv s m"
    and "fst_of s' r = fst_of s r" and "lst_of s' r = lst_of s r"
  shows "holds s' r ys"
proof -
  have "dlist (nxt s') (prv s') f l ys = dlist (nxt s) (prv s) f l ys" for f l
    by (rule dlist_cong) (rule assms(2))
  then show ?thesis using assms(1) by (simp only: holds_def assms(3,4))
qed

end

text \<open>Pushing at the front.\<close>

locale dlist_push = dlist_store nxt prv fst_of lst_of
  for nxt prv :: "'s \<Rightarrow> 'n \<Rightarrow> 'n option" and fst_of lst_of :: "'s \<Rightarrow> 'q \<Rightarrow> 'n option" +
  fixes push :: "'q \<Rightarrow> 'n \<Rightarrow> 's \<Rightarrow> 's"
  assumes push_nxt: "nxt (push q n s) m = (if m = n then fst_of s q else nxt s m)"
    and push_prv: "fst_of s q \<noteq> Some n \<Longrightarrow>
      prv (push q n s) m = (if m = n then None else if Some m = fst_of s q then Some n else prv s m)"
    and push_fst: "fst_of (push q n s) r = (if r = q then Some n else fst_of s r)"
    and push_lst: "lst_of (push q n s) r = (if r = q \<and> fst_of s q = None then Some n else lst_of s r)"
begin

lemma push_holds:
  assumes "holds s q xs" and "n \<notin> set xs"
  shows "holds (push q n s) q (n # xs)"
proof -
  have f: "fst_of s q \<noteq> Some n"
    using holds_first [OF assms(1)] assms(2) by (cases xs) auto
  have "dlist (nxt (push q n s)) (prv (push q n s)) (Some n)
      (if fst_of s q = None then Some n else lst_of s q) (n # xs)"
    using assms(1) unfolding holds_def
    by (rule dlist_push) (use assms(2) push_nxt push_prv [OF f] in auto)
  then show ?thesis by (simp add: holds_def push_fst push_lst)
qed

lemma push_holds_other:
  assumes "holds s q xs" and "holds s r ys" and "r \<noteq> q" and "n \<notin> set xs" and "n \<notin> set ys"
    and "set xs \<inter> set ys = {}"
  shows "holds (push q n s) r ys"
proof (rule holds_other [OF assms(2)])
  have f: "fst_of s q \<noteq> Some n"
    using holds_first [OF assms(1)] assms(4) by (cases xs) auto
  show "nxt (push q n s) m = nxt s m \<and> prv (push q n s) m = prv s m" if "m \<in> set ys" for m
    using that assms holds_first [OF assms(1)]
    by (cases xs) (auto simp: push_nxt push_prv [OF f])
qed (use assms(3) in \<open>simp_all add: push_fst push_lst\<close>)

end

text \<open>Appending at the end.\<close>

locale dlist_snoc = dlist_store nxt prv fst_of lst_of
  for nxt prv :: "'s \<Rightarrow> 'n \<Rightarrow> 'n option" and fst_of lst_of :: "'s \<Rightarrow> 'q \<Rightarrow> 'n option" +
  fixes snoc :: "'q \<Rightarrow> 'n \<Rightarrow> 's \<Rightarrow> 's"
  assumes snoc_nxt: "lst_of s q \<noteq> Some n \<Longrightarrow>
      nxt (snoc q n s) m = (if m = n then None else if Some m = lst_of s q then Some n else nxt s m)"
    and snoc_prv: "prv (snoc q n s) m = (if m = n then lst_of s q else prv s m)"
    and snoc_fst: "fst_of (snoc q n s) r = (if r = q \<and> lst_of s q = None then Some n else fst_of s r)"
    and snoc_lst: "lst_of (snoc q n s) r = (if r = q then Some n else lst_of s r)"
begin

lemma holds_last: "holds s q xs \<Longrightarrow> lst_of s q = last_or None xs"
  by (simp add: holds_def dlist_def)

lemma snoc_holds:
  assumes "holds s q xs" and "n \<notin> set xs"
  shows "holds (snoc q n s) q (xs @ [n])"
proof -
  have l: "lst_of s q \<noteq> Some n"
    using holds_last [OF assms(1)] assms(2) by (cases xs rule: rev_cases) auto
  have "dlist (nxt (snoc q n s)) (prv (snoc q n s)) (if lst_of s q = None then Some n else fst_of s q)
      (Some n) (xs @ [n])"
    using assms(1) unfolding holds_def
    by (rule dlist_snoc) (use assms(2) snoc_nxt [OF l] snoc_prv in auto)
  then show ?thesis by (simp add: holds_def snoc_fst snoc_lst)
qed

lemma snoc_holds_other:
  assumes "holds s q xs" and "holds s r ys" and "r \<noteq> q" and "n \<notin> set xs" and "n \<notin> set ys"
    and "set xs \<inter> set ys = {}"
  shows "holds (snoc q n s) r ys"
proof (rule holds_other [OF assms(2)])
  have l: "lst_of s q \<noteq> Some n"
    using holds_last [OF assms(1)] assms(4) by (cases xs rule: rev_cases) auto
  show "nxt (snoc q n s) m = nxt s m \<and> prv (snoc q n s) m = prv s m" if "m \<in> set ys" for m
    using that assms holds_last [OF assms(1)]
    by (cases xs rule: rev_cases) (auto simp: snoc_prv snoc_nxt [OF l])
qed (use assms(3) in \<open>simp_all add: snoc_fst snoc_lst\<close>)

end

text \<open>Unlinking an element of a queue; the links of the element itself may end up as anything.\<close>

locale dlist_remove = dlist_store nxt prv fst_of lst_of
  for nxt prv :: "'s \<Rightarrow> 'n \<Rightarrow> 'n option" and fst_of lst_of :: "'s \<Rightarrow> 'q \<Rightarrow> 'n option" +
  fixes remove :: "'q \<Rightarrow> 'n \<Rightarrow> 's \<Rightarrow> 's"
  assumes remove_nxt: "m \<noteq> n \<Longrightarrow> nxt (remove q n s) m = (if Some m = prv s n then nxt s n else nxt s m)"
    and remove_prv: "m \<noteq> n \<Longrightarrow> prv (remove q n s) m = (if Some m = nxt s n then prv s n else prv s m)"
    and remove_fst: "nxt s n \<noteq> Some n \<Longrightarrow> prv s n \<noteq> Some n \<Longrightarrow>
      fst_of (remove q n s) r = (if r = q \<and> fst_of s q = Some n then nxt s n else fst_of s r)"
    and remove_lst: "nxt s n \<noteq> Some n \<Longrightarrow> prv s n \<noteq> Some n \<Longrightarrow>
      lst_of (remove q n s) r = (if r = q \<and> lst_of s q = Some n then prv s n else lst_of s r)"
begin

lemma holds_links:
  assumes "holds s q xs" and "n \<in> set xs"
  shows "nxt s n \<in> Some ` (set xs - {n}) \<union> {None}" and "prv s n \<in> Some ` (set xs - {n}) \<union> {None}"
proof -
  obtain as bs where xs: "xs = as @ n # bs" using split_list [OF assms(2)] by blast
  have "prv s n = last_or None as" "nxt s n = first_or bs None" "n \<notin> set as" "n \<notin> set bs"
    using assms(1) by (simp_all add: holds_def dlist_def xs)
  then show "nxt s n \<in> Some ` (set xs - {n}) \<union> {None}" "prv s n \<in> Some ` (set xs - {n}) \<union> {None}"
    by (auto simp: xs first_or_def last_or_def)
qed

lemma remove_holds:
  assumes "holds s q xs" and "n \<in> set xs"
  shows "holds (remove q n s) q (remove1 n xs)"
proof -
  have self: "nxt s n \<noteq> Some n" "prv s n \<noteq> Some n"
    using holds_links [OF assms] by auto
  have "dlist (nxt (remove q n s)) (prv (remove q n s)) (if fst_of s q = Some n then nxt s n else fst_of s q)
      (if lst_of s q = Some n then prv s n else lst_of s q) (remove1 n xs)"
    using assms(1) unfolding holds_def
    by (rule dlist_remove) (use assms(2) remove_nxt remove_prv in auto)
  then show ?thesis by (simp add: holds_def remove_fst [OF self] remove_lst [OF self])
qed

lemma remove_holds_other:
  assumes "holds s q xs" and "holds s r ys" and "r \<noteq> q" and "n \<in> set xs"
    and "set xs \<inter> set ys = {}"
  shows "holds (remove q n s) r ys"
proof (rule holds_other [OF assms(2)])
  note L = holds_links [OF assms(1,4)]
  have self: "nxt s n \<noteq> Some n" "prv s n \<noteq> Some n" using L by auto
  show "nxt (remove q n s) m = nxt s m \<and> prv (remove q n s) m = prv s m" if "m \<in> set ys" for m
  proof -
    have "m \<noteq> n" "Some m \<noteq> nxt s n" "Some m \<noteq> prv s n" using that assms(4,5) L by auto
    then show ?thesis by (simp add: remove_nxt remove_prv)
  qed
  show "fst_of (remove q n s) r = fst_of s r" "lst_of (remove q n s) r = lst_of s r"
    using assms(3) by (simp_all add: remove_fst [OF self] remove_lst [OF self])
qed

end

end
