(* ===== verification/PageQueue.thy ===== *)
theory PageQueue
  imports State DList
begin

text \<open>
  The page queues of a heap (\<open>page-queue.c\<close>) and the page accessors of \<open>mimalloc-internal.h\<close>
  they use. Every heap keeps one queue per size class, one for huge and one for full pages, and
  for small sizes an array \<open>pages_free_direct\<close> of the first pages. The operations are shown to
  implement list operations on queues (through the locales of \<open>DList\<close>) and to keep the direct
  array equal to the heads of the queues.
\<close>

section \<open>Queue query\<close>

definition mi_page_queue_is_huge :: "mi_page_queue \<Rightarrow> bool" where
  "mi_page_queue_is_huge pq = (pq_block_size pq = MI_LARGE_OBJ_SIZE_MAX + MI_INTPTR_SIZE)"

definition mi_page_queue_is_full :: "mi_page_queue \<Rightarrow> bool" where
  "mi_page_queue_is_full pq = (pq_block_size pq = MI_LARGE_OBJ_SIZE_MAX + 2 * MI_INTPTR_SIZE)"

definition mi_page_queue_is_special :: "mi_page_queue \<Rightarrow> bool" where
  "mi_page_queue_is_special pq = (MI_LARGE_OBJ_SIZE_MAX < pq_block_size pq)"

section \<open>Page accessors\<close>

definition mi_page_thread_free :: "mi_page \<Rightarrow> addr" where
  "mi_page_thread_free pg = pg_xthread_free pg AND NOT 3"

definition mi_page_thread_free_flag :: "mi_page \<Rightarrow> mi_delayed" where
  "mi_page_thread_free_flag pg = mi_tf_delayed (pg_xthread_free pg)"

definition mi_page_heap :: "page_id \<Rightarrow> mstate \<Rightarrow> addr" where
  "mi_page_heap p s = pg_xheap (st_page s p)"

definition mi_page_set_heap :: "page_id \<Rightarrow> addr \<Rightarrow> mstate \<Rightarrow> mstate" where
  "mi_page_set_heap p h = page_upd p (\<lambda>pg. pg\<lparr>pg_xheap := h\<rparr>)"

definition mi_page_all_free :: "mi_page \<Rightarrow> bool" where
  "mi_page_all_free pg = (pg_used pg = 0)"

definition mi_page_has_any_available :: "mi_page \<Rightarrow> bool" where
  "mi_page_has_any_available pg =
     (pg_used pg < ucast (pg_reserved pg) \<or> mi_page_thread_free pg \<noteq> 0)"

definition mi_page_immediate_available :: "mi_page \<Rightarrow> bool" where
  "mi_page_immediate_available pg = (pg_free pg \<noteq> 0)"

definition mi_page_mostly_used :: "mi_page option \<Rightarrow> bool" where
  "mi_page_mostly_used p = (case p of None \<Rightarrow> True
     | Some pg \<Rightarrow> let frac = pg_reserved pg div 8
         in (ucast (pg_reserved pg) - pg_used pg :: u32) \<le> ucast frac)"

definition mi_page_queue :: "addr \<Rightarrow> u64 \<Rightarrow> queue_id" where
  "mi_page_queue h sz = (h, unat (mi_bin sz))"

definition mi_page_set_in_full :: "page_id \<Rightarrow> bool \<Rightarrow> mstate \<Rightarrow> mstate" where
  "mi_page_set_in_full p b = page_upd p (\<lambda>pg. pg\<lparr>pg_in_full := b\<rparr>)"

definition mi_page_set_has_aligned :: "page_id \<Rightarrow> bool \<Rightarrow> mstate \<Rightarrow> mstate" where
  "mi_page_set_has_aligned p b = page_upd p (\<lambda>pg. pg\<lparr>pg_has_aligned := b\<rparr>)"

section \<open>The queue of a page\<close>

definition page_bin :: "mi_page \<Rightarrow> nat" where
  "page_bin pg = unat (if pg_in_full pg then MI_BIN_FULL else mi_bin (ucast (pg_xblock_size pg)))"

definition mi_heap_page_queue_of :: "addr \<Rightarrow> page_id \<Rightarrow> mstate \<Rightarrow> queue_id" where
  "mi_heap_page_queue_of h p s = (h, page_bin (st_page s p))"

definition mi_page_queue_of :: "page_id \<Rightarrow> mstate \<Rightarrow> queue_id" where
  "mi_page_queue_of p s = (mi_page_heap p s, page_bin (st_page s p))"

section \<open>The direct array\<close>

text \<open>The search downwards for the queue before the ones of the same bin.\<close>

fun queue_prev_bin :: "u8 \<Rightarrow> (nat \<Rightarrow> mi_page_queue) \<Rightarrow> nat \<Rightarrow> nat" where
  "queue_prev_bin bin qs 0 = 0"
| "queue_prev_bin bin qs (Suc i) =
     (if bin = mi_bin (pq_block_size (qs (Suc i))) then queue_prev_bin bin qs i else Suc i)"

definition direct_start :: "u64 \<Rightarrow> nat \<Rightarrow> (nat \<Rightarrow> mi_page_queue) \<Rightarrow> nat" where
  "direct_start sz i qs =
     (let idx = unat (mi_wsize_from_size sz)
      in if idx \<le> 1 then 0
         else let prev = queue_prev_bin (mi_bin sz) qs (i - 1);
                  start = 1 + unat (mi_wsize_from_size (pq_block_size (qs prev)))
              in if idx < start then idx else start)"

definition page_or_empty :: "page_id option \<Rightarrow> page_id" where
  "page_or_empty p = (case p of None \<Rightarrow> page_empty_ref | Some p \<Rightarrow> p)"

definition mi_heap_queue_first_update :: "addr \<Rightarrow> queue_id \<Rightarrow> mstate \<Rightarrow> mstate" where
  "mi_heap_queue_first_update h q s =
     (let sz = pq_block_size (queue_of q s)
      in if MI_SMALL_SIZE_MAX < sz then s
         else let page = page_or_empty (pq_first (queue_of q s));
                  idx = unat (mi_wsize_from_size sz)
              in if hp_pages_free_direct (st_heap s h) idx = Some page then s
                 else let start = direct_start sz (snd q) (hp_pages (st_heap s (fst q)))
                      in heap_upd h (\<lambda>hp. hp\<lparr>hp_pages_free_direct :=
                           (\<lambda>w. if start \<le> w \<and> w \<le> idx then Some page
                                else hp_pages_free_direct hp w)\<rparr>) s)"

section \<open>Queue operations\<close>

text \<open>
  The unlinking shared by \<open>mi_page_queue_remove\<close> and \<open>mi_page_queue_enqueue_from\<close>, and the
  linking at the end of the latter. Every field is read when the code reads it.
\<close>

definition page_unlink :: "queue_id \<Rightarrow> page_id \<Rightarrow> mstate \<Rightarrow> mstate" where
  "page_unlink q p s =
     (let heap = mi_page_heap p s;
          s = page_upd_opt (pg_prev (st_page s p)) (\<lambda>pv. pv\<lparr>pg_next := pg_next (st_page s p)\<rparr>) s;
          s = page_upd_opt (pg_next (st_page s p)) (\<lambda>nx. nx\<lparr>pg_prev := pg_prev (st_page s p)\<rparr>) s;
          s = (if pq_last (queue_of q s) = Some p
               then queue_upd q (\<lambda>pq. pq\<lparr>pq_last := pg_prev (st_page s p)\<rparr>) s else s)
      in if pq_first (queue_of q s) = Some p
         then mi_heap_queue_first_update heap q
                (queue_upd q (\<lambda>pq. pq\<lparr>pq_first := pg_next (st_page s p)\<rparr>) s)
         else s)"

definition page_link_last :: "addr \<Rightarrow> queue_id \<Rightarrow> page_id \<Rightarrow> mstate \<Rightarrow> mstate" where
  "page_link_last heap q p s =
     (let s = page_upd p (\<lambda>pg. pg\<lparr>pg_prev := pq_last (queue_of q s)\<rparr>) s;
          s = page_upd p (\<lambda>pg. pg\<lparr>pg_next := None\<rparr>) s
      in case pq_last (queue_of q s) of
           Some l \<Rightarrow>
             let s = page_upd l (\<lambda>pg. pg\<lparr>pg_next := Some p\<rparr>) s
             in queue_upd q (\<lambda>pq. pq\<lparr>pq_last := Some p\<rparr>) s
         | None \<Rightarrow>
             mi_heap_queue_first_update heap q
               (queue_upd q (\<lambda>pq. pq\<lparr>pq_first := Some p, pq_last := Some p\<rparr>) s))"

definition mi_page_queue_remove :: "queue_id \<Rightarrow> page_id \<Rightarrow> mstate \<Rightarrow> mstate" where
  "mi_page_queue_remove q p s =
     (let heap = mi_page_heap p s;
          s = page_unlink q p s;
          s = heap_upd heap (\<lambda>h. h\<lparr>hp_page_count := hp_page_count h - 1\<rparr>) s;
          s = page_upd p (\<lambda>pg. pg\<lparr>pg_next := None, pg_prev := None\<rparr>) s
      in mi_page_set_in_full p False s)"

definition mi_page_queue_push :: "addr \<Rightarrow> queue_id \<Rightarrow> page_id \<Rightarrow> mstate \<Rightarrow> mstate" where
  "mi_page_queue_push heap q p s =
     (let s = mi_page_set_in_full p (mi_page_queue_is_full (queue_of q s)) s;
          s = page_upd p (\<lambda>pg. pg\<lparr>pg_next := pq_first (queue_of q s)\<rparr>) s;
          s = page_upd p (\<lambda>pg. pg\<lparr>pg_prev := None\<rparr>) s;
          s = (case pq_first (queue_of q s) of
                 Some f \<Rightarrow>
                   let s = page_upd f (\<lambda>pg. pg\<lparr>pg_prev := Some p\<rparr>) s
                   in queue_upd q (\<lambda>pq. pq\<lparr>pq_first := Some p\<rparr>) s
               | None \<Rightarrow> queue_upd q (\<lambda>pq. pq\<lparr>pq_first := Some p, pq_last := Some p\<rparr>) s);
          s = mi_heap_queue_first_update heap q s
      in heap_upd heap (\<lambda>h. h\<lparr>hp_page_count := hp_page_count h + 1\<rparr>) s)"

definition mi_page_queue_enqueue_from :: "queue_id \<Rightarrow> queue_id \<Rightarrow> page_id \<Rightarrow> mstate \<Rightarrow> mstate" where
  "mi_page_queue_enqueue_from to from_q p s =
     (let heap = mi_page_heap p s;
          s = page_unlink from_q p s;
          s = page_link_last heap to p s
      in mi_page_set_in_full p (mi_page_queue_is_full (queue_of to s)) s)"

section \<open>Appending a queue\<close>

text \<open>
  \<open>_mi_page_use_delayed_free\<close> (in \<open>page.c\<close>) with no other thread running: the compare-and-swap
  succeeds, and the loop waits for ever for a \<open>MI_DELAYED_FREEING\<close> that no one resets.
\<close>

definition mi_page_use_delayed_free ::
    "page_id \<Rightarrow> mi_delayed \<Rightarrow> bool \<Rightarrow> mstate \<Rightarrow> mstate option" where
  "mi_page_use_delayed_free p delay override_never s =
     (let tfree = pg_xthread_free (st_page s p);
          tfreex = mi_tf_set_delayed tfree delay;
          old_delay = mi_tf_delayed tfree
      in if old_delay = MI_DELAYED_FREEING then None
         else if delay = old_delay then Some s
         else if \<not> override_never \<and> old_delay = MI_NEVER_DELAYED_FREE then Some s
         else Some (page_upd p (\<lambda>pg. pg\<lparr>pg_xthread_free := tfreex\<rparr>) s))"

partial_function (option) append_set_heap ::
    "addr \<Rightarrow> page_id option \<Rightarrow> u64 \<Rightarrow> mstate \<Rightarrow> (u64 \<times> mstate) option" where
  "append_set_heap h pg count s =
     (case pg of
        None \<Rightarrow> Some (count, s)
      | Some p \<Rightarrow>
          Option.bind
            (mi_page_use_delayed_free p MI_USE_DELAYED_FREE False
               (page_upd p (\<lambda>pg. pg\<lparr>pg_xheap := h\<rparr>) s))
            (\<lambda>s. append_set_heap h (pg_next (st_page s p)) (count + 1) s))"

definition mi_page_queue_append ::
    "addr \<Rightarrow> queue_id \<Rightarrow> queue_id \<Rightarrow> mstate \<Rightarrow> (u64 \<times> mstate) option" where
  "mi_page_queue_append h q app s =
     (case pq_first (queue_of app s) of
        None \<Rightarrow> Some (0, s)
      | Some f \<Rightarrow>
          Option.bind (append_set_heap h (Some f) 0 s) (\<lambda>(count, s).
            case pq_last (queue_of q s) of
              None \<Rightarrow>
                let s = queue_upd q (\<lambda>pq. pq\<lparr>pq_first := pq_first (queue_of app s),
                                            pq_last := pq_last (queue_of app s)\<rparr>) s
                in Some (count, mi_heap_queue_first_update h q s)
            | Some l \<Rightarrow>
                let s = page_upd l (\<lambda>pg. pg\<lparr>pg_next := pq_first (queue_of app s)\<rparr>) s;
                    s = page_upd_opt (pq_first (queue_of app s))
                          (\<lambda>pg. pg\<lparr>pg_prev := pq_last (queue_of q s)\<rparr>) s
                in Some (count, queue_upd q (\<lambda>pq. pq\<lparr>pq_last := pq_last (queue_of app s)\<rparr>) s)))"


section \<open>What the operations change\<close>

lemma queue_of_heap_upd [store_simps]:
  "(\<And>h. hp_pages (f h) = hp_pages h) \<Longrightarrow> queue_of q (heap_upd a f s) = queue_of q s"
  by (simp add: queue_of_def heap_upd_def)

lemma first_update_simps [store_simps]:
  "st_page (mi_heap_queue_first_update h q s) = st_page s"
  "st_block (mi_heap_queue_first_update h q s) = st_block s"
  "st_segment (mi_heap_queue_first_update h q s) = st_segment s"
  "st_tld (mi_heap_queue_first_update h q s) = st_tld s"
  "queue_of r (mi_heap_queue_first_update h q s) = queue_of r s"
  by (simp_all add: mi_heap_queue_first_update_def Let_def store_simps)

lemma page_set_simps [store_simps]:
  "st_page (mi_page_set_in_full p b s) = (st_page s)(p := (st_page s p)\<lparr>pg_in_full := b\<rparr>)"
  "st_heap (mi_page_set_in_full p b s) = st_heap s"
  "queue_of r (mi_page_set_in_full p b s) = queue_of r s"
  "st_page (mi_page_set_heap p h s) = (st_page s)(p := (st_page s p)\<lparr>pg_xheap := h\<rparr>)"
  "st_heap (mi_page_set_heap p h s) = st_heap s"
  "queue_of r (mi_page_set_heap p h s) = queue_of r s"
  by (simp_all add: mi_page_set_in_full_def mi_page_set_heap_def store_simps)

section \<open>Queues as lists\<close>

abbreviation page_nxt :: "mstate \<Rightarrow> page_id \<Rightarrow> page_id option" where
  "page_nxt s p \<equiv> pg_next (st_page s p)"

abbreviation page_prv :: "mstate \<Rightarrow> page_id \<Rightarrow> page_id option" where
  "page_prv s p \<equiv> pg_prev (st_page s p)"

abbreviation queue_first :: "mstate \<Rightarrow> queue_id \<Rightarrow> page_id option" where
  "queue_first s q \<equiv> pq_first (queue_of q s)"

abbreviation queue_last :: "mstate \<Rightarrow> queue_id \<Rightarrow> page_id option" where
  "queue_last s q \<equiv> pq_last (queue_of q s)"

interpretation page_list: dlist_store page_nxt page_prv queue_first queue_last .

abbreviation queue_holds :: "mstate \<Rightarrow> queue_id \<Rightarrow> page_id list \<Rightarrow> bool" where
  "queue_holds \<equiv> dlist_store.holds page_nxt page_prv queue_first queue_last"

interpretation page_push: dlist_push page_nxt page_prv queue_first queue_last
    "\<lambda>q. mi_page_queue_push (fst q) q"
  by unfold_locales
    (auto simp: mi_page_queue_push_def Let_def store_simps split: option.splits)

interpretation page_unlinking: dlist_remove page_nxt page_prv queue_first queue_last page_unlink
  by unfold_locales (auto simp: page_unlink_def Let_def store_simps)

interpretation page_remove: dlist_remove page_nxt page_prv queue_first queue_last mi_page_queue_remove
  by unfold_locales
    (auto simp: mi_page_queue_remove_def Let_def store_simps
      page_unlinking.remove_nxt page_unlinking.remove_prv page_unlinking.remove_fst page_unlinking.remove_lst)

interpretation page_linking: dlist_snoc page_nxt page_prv queue_first queue_last
    "\<lambda>q p s. page_link_last (mi_page_heap p s) q p s"
  by unfold_locales
    (auto simp: page_link_last_def mi_page_heap_def Let_def store_simps split: option.splits)


section \<open>The sizes served by a direct entry\<close>

lemma wsizes_le: "k \<le> 74 \<Longrightarrow> mi_bin_wsizes ! k \<le> 524288"
proof -
  assume "k \<le> 74"
  then have "mi_bin_wsizes ! k \<in> set mi_bin_wsizes" by (simp add: length_wsizes)
  moreover have "\<forall>x\<in>set mi_bin_wsizes. x \<le> 524288" by (simp add: mi_bin_wsizes_def)
  ultimately show ?thesis by blast
qed

lemma wsizes_strict: "1 \<le> i \<Longrightarrow> i < j \<Longrightarrow> j \<le> 72 \<Longrightarrow> mi_bin_wsizes ! i < mi_bin_wsizes ! j"
proof -
  assume ij: "1 \<le> i" "i < j" "j \<le> 72"
  have "sorted_wrt (<) (take 72 (tl mi_bin_wsizes))" by (simp add: mi_bin_wsizes_def)
  from sorted_wrt_nth_less [OF this, of "i - 1" "j - 1"] ij show ?thesis
    by (simp add: length_wsizes nth_tl)
qed

lemma unat_mi_bin_size:
  assumes "k \<le> 74"
  shows "unat (mi_bin_size (word_of_nat k)) = mi_bin_wsizes ! k * 8"
proof -
  have "unat (word_of_nat k :: u8) = k" using assms by (simp add: unat_of_nat)
  then show ?thesis
    using wsizes_le [OF assms] by (simp add: mi_bin_size_def unat_mult_bounded unat_of_nat mi_consts)
qed

lemma wsize_bin_size:
  assumes "k \<le> 74"
  shows "unat (mi_wsize_from_size (mi_bin_size (word_of_nat k))) = mi_bin_wsizes ! k"
  using wsizes_le [OF assms]
  by (simp add: unat_mi_wsize_from_size unat_mi_bin_size [OF assms])

lemma mi_bin_eq_iff:
  assumes "sz \<le> MI_LARGE_OBJ_SIZE_MAX" and "bin_used k"
  shows "unat (mi_bin sz) = k \<longleftrightarrow> unat (mi_wsize_from_size sz) \<le> mi_bin_wsizes ! k \<and>
    (1 < k \<longrightarrow> mi_bin_wsizes ! bin_pred k < unat (mi_wsize_from_size sz))"
proof -
  note C = mi_bin_char [OF assms(1)]
  have mono: "mi_bin_wsizes ! i \<le> mi_bin_wsizes ! bin_pred j \<and> 1 < j"
    if "bin_used i" "bin_used j" "i < j" for i j
    using that bin_used_pred [OF that] wsizes_mono [of i "bin_pred j"]
    by (auto simp: bin_used_def bin_pred_def)
  show ?thesis
    using C mono [of "unat (mi_bin sz)" k] mono [of k "unat (mi_bin sz)"] assms(2)
    by (cases "unat (mi_bin sz)" k rule: linorder_cases) auto
qed

lemma mi_bin_of_bin:
  assumes "bin_used k" and "k \<le> 48"
  shows "mi_bin (mi_bin_size (word_of_nat k)) = word_of_nat k"
proof -
  have k: "k \<le> 74" "1 < k \<Longrightarrow> mi_bin_wsizes ! bin_pred k < mi_bin_wsizes ! k"
    using assms by (auto simp: bin_pred_def intro!: wsizes_strict)
  have "mi_bin_size (word_of_nat k) \<le> MI_LARGE_OBJ_SIZE_MAX"
    using wsizes_mono [of k 48] assms(2)
    by (simp add: word_le_nat_alt unat_mi_bin_size mi_consts) (simp add: mi_bin_wsizes_def)
  from mi_bin_eq_iff [OF this assms(1)] have "unat (mi_bin (mi_bin_size (word_of_nat k))) = k"
    using k by (simp add: wsize_bin_size)
  then show ?thesis using k(1) by (intro unsigned_word_eqI [where 'a = nat]) (simp add: unat_of_nat)
qed

section \<open>The direct array after an update\<close>

definition direct_bin :: "nat \<Rightarrow> nat" where
  "direct_bin w = unat (mi_bin (word_of_nat (w * 8)))"

definition direct_ok :: "addr \<Rightarrow> mstate \<Rightarrow> bool" where
  "direct_ok h s \<longleftrightarrow> (\<forall>w \<le> MI_SMALL_WSIZE_MAX. hp_pages_free_direct (st_heap s h) w =
     Some (page_or_empty (pq_first (queue_of (h, direct_bin w) s))))"

definition queue_sizes_ok :: "addr \<Rightarrow> mstate \<Rightarrow> bool" where
  "queue_sizes_ok h s \<longleftrightarrow>
     (\<forall>i \<le> 74. pq_block_size (queue_of (h, i) s) = mi_bin_size (word_of_nat i))"

lemma small_request:
  assumes "w \<le> MI_SMALL_WSIZE_MAX" and "sz = word_of_nat (w * 8)"
  shows "sz \<le> MI_LARGE_OBJ_SIZE_MAX" and "unat (mi_wsize_from_size sz) = w"
proof -
  have "unat sz = w * 8"
    unfolding assms(2) unat_of_nat using assms(1) by (simp add: mi_consts)
  then show "sz \<le> MI_LARGE_OBJ_SIZE_MAX" "unat (mi_wsize_from_size sz) = w"
    using assms(1) by (simp_all add: unat_mi_wsize_from_size word_le_nat_alt mi_consts)
qed

lemma direct_bin_iff:
  assumes "w \<le> MI_SMALL_WSIZE_MAX" and "bin_used k"
  shows "direct_bin w = k \<longleftrightarrow> w \<le> mi_bin_wsizes ! k \<and> (1 < k \<longrightarrow> mi_bin_wsizes ! bin_pred k < w)"
  using mi_bin_eq_iff [OF small_request(1) [OF assms(1) refl] assms(2)]
  unfolding direct_bin_def small_request(2) [OF assms(1) refl] .

lemma direct_bin_small:
  assumes "w \<le> MI_SMALL_WSIZE_MAX"
  shows "direct_bin w \<le> 24" and "bin_used (direct_bin w)"
proof -
  have "mi_bin_wsizes ! 24 = 128" by (simp add: mi_bin_wsizes_def)
  then show "direct_bin w \<le> 24"
    using assms mi_bin_least [OF small_request(1) [OF assms refl], of 24]
    unfolding direct_bin_def small_request(2) [OF assms refl]
    by (simp add: bin_used_def MI_SMALL_WSIZE_MAX_def)
  show "bin_used (direct_bin w)"
    using mi_bin_char [OF small_request(1) [OF assms refl]] unfolding direct_bin_def by blast
qed

lemma mi_bin_between:
  assumes "i \<in> {4, 6, 8}"
  shows "mi_bin (mi_bin_size (word_of_nat (i - 1))) = word_of_nat i"
proof -
  let ?sz = "mi_bin_size (word_of_nat (i - 1))"
  have i: "i - 1 \<le> 74" "bin_used i" "i \<le> 8" using assms by (auto simp: bin_used_def)
  have v: "mi_bin_wsizes ! (i - 1) = i - 1" "mi_bin_wsizes ! i = i" "mi_bin_wsizes ! bin_pred i = i - 2"
    using assms by (auto simp: mi_bin_wsizes_def bin_pred_def)
  have "?sz \<le> MI_LARGE_OBJ_SIZE_MAX"
    unfolding word_le_nat_alt unat_mi_bin_size [OF i(1)] v(1) using i(3) by (simp add: mi_consts)
  from mi_bin_eq_iff [OF this i(2)] have "unat (mi_bin ?sz) = i"
    unfolding wsize_bin_size [OF i(1)] v using assms by auto
  then show ?thesis
    using i(3) by (intro unsigned_word_eqI [where 'a = nat]) (simp add: unat_of_nat)
qed

lemma direct_start_eq:
  assumes "bin_used k" and "k \<le> 24"
    and sizes: "\<And>i. i \<le> 74 \<Longrightarrow> pq_block_size (qs i) = mi_bin_size (word_of_nat i)"
  shows "direct_start (mi_bin_size (word_of_nat k)) k qs =
    (if k = 1 then 0 else 1 + mi_bin_wsizes ! bin_pred k)"
proof -
  have bin: "mi_bin (pq_block_size (qs i)) = word_of_nat i" if "bin_used i" "i \<le> 48" for i
    using that by (simp add: sizes mi_bin_of_bin)
  have pair: "mi_bin (pq_block_size (qs (i - 1))) = word_of_nat i" if "i \<in> {4, 6, 8}" for i
    using sizes [of "i - 1"] mi_bin_between [OF that] that by auto
  have prev: "queue_prev_bin (word_of_nat k) qs (k - 1) = bin_pred k" if k1: "k \<noteq> 1"
  proof -
    consider "k = 2" | "k \<in> {4, 6, 8}" | "9 \<le> k" using assms(1) k1 by (auto simp: bin_used_def)
    then show ?thesis
    proof cases
      case 1
      then show ?thesis using bin [of 1] by (simp add: numeral_2_eq_2 bin_used_def bin_pred_def)
    next
      case 2
      then have "mi_bin (pq_block_size (qs (k - 2))) = word_of_nat (k - 2)"
        using assms(2) by (intro bin) (auto simp: bin_used_def)
      then show ?thesis
        using 2 pair [OF 2] by (auto simp: bin_pred_def numeral_eq_Suc)
    next
      case 3
      then have "mi_bin (pq_block_size (qs (k - 1))) = word_of_nat (k - 1)"
        using assms(2) by (intro bin) (auto simp: bin_used_def)
      moreover have "(word_of_nat k :: u8) \<noteq> word_of_nat (k - 1)"
        using 3 assms(2) by (simp add: word_eq_iff_unsigned unat_of_nat)
      ultimately show ?thesis using 3 by (cases "k - 1") (auto simp: bin_pred_def)
    qed
  qed
  have w1: "mi_bin_wsizes ! 1 = 1" by (simp add: mi_bin_wsizes_def)
  have bin_k: "mi_bin (mi_bin_size (word_of_nat k)) = word_of_nat k"
    and idx: "unat (mi_wsize_from_size (mi_bin_size (word_of_nat k))) = mi_bin_wsizes ! k"
    using assms by (simp_all add: mi_bin_of_bin wsize_bin_size)
  show ?thesis
  proof (cases "k = 1")
    case True
    then show ?thesis using w1 idx by (simp add: direct_start_def Let_def)
  next
    case False
    then have k: "1 < k" "1 \<le> bin_pred k" "bin_pred k < k"
      using assms(1) by (auto simp: bin_used_def bin_pred_def)
    have "pq_block_size (qs (bin_pred k)) = mi_bin_size (word_of_nat (bin_pred k))"
      using k assms(2) by (intro sizes) simp
    then have start: "unat (mi_wsize_from_size (pq_block_size (qs (bin_pred k)))) = mi_bin_wsizes ! bin_pred k"
      using k assms(2) by (simp add: wsize_bin_size)
    have "1 < mi_bin_wsizes ! k" "mi_bin_wsizes ! bin_pred k < mi_bin_wsizes ! k"
      using wsizes_strict [of 1 k] wsizes_strict [of "bin_pred k" k] w1 k assms(2) by auto
    then show ?thesis
      unfolding direct_start_def Let_def bin_k idx prev [OF False] start using False by simp
  qed
qed

text \<open>
  When the first page of one queue changed and all entries of its sizes still agree, the update
  makes the direct array right again.
\<close>

lemma first_update_direct:
  assumes sizes: "queue_sizes_ok h s" and k: "k \<le> 74" "k \<le> 72 \<Longrightarrow> bin_used k"
    and others: "\<And>w. w \<le> MI_SMALL_WSIZE_MAX \<Longrightarrow> direct_bin w \<noteq> k \<Longrightarrow>
      hp_pages_free_direct (st_heap s h) w = Some (page_or_empty (pq_first (queue_of (h, direct_bin w) s)))"
    and same: "\<And>w. w \<le> MI_SMALL_WSIZE_MAX \<Longrightarrow> direct_bin w = k \<Longrightarrow>
      hp_pages_free_direct (st_heap s h) w = old"
  shows "direct_ok h (mi_heap_queue_first_update h (h, k) s)"
proof -
  let ?s = "mi_heap_queue_first_update h (h, k) s" and ?p = "page_or_empty (pq_first (queue_of (h, k) s))"
  have bs: "pq_block_size (queue_of (h, k) s) = mi_bin_size (word_of_nat k)"
    using sizes k(1) by (simp add: queue_sizes_ok_def)
  have 24: "mi_bin_wsizes ! 24 = 128" by (simp add: mi_bin_wsizes_def)
  have entry: "hp_pages_free_direct (st_heap ?s h) w =
      (if direct_bin w = k then Some ?p else hp_pages_free_direct (st_heap s h) w)"
    if w: "w \<le> MI_SMALL_WSIZE_MAX" for w
  proof (cases "k \<le> 24")
    case False
    consider "k \<le> 72" | "k = 73" | "k = 74" using k(1) by linarith
    then have "128 < mi_bin_wsizes ! k"
    proof cases
      case 1
      then show ?thesis using wsizes_strict [of 24 k] 24 False by simp
    qed (simp_all add: mi_bin_wsizes_def)
    then have "MI_SMALL_SIZE_MAX < mi_bin_size (word_of_nat k)"
      using k by (simp add: word_less_nat_alt unat_mi_bin_size mi_consts)
    then show ?thesis
      using direct_bin_small(1) [OF w] False by (auto simp: mi_heap_queue_first_update_def Let_def bs)
  next
    case True
    then have used: "bin_used k" using k by simp
    have small: "\<not> MI_SMALL_SIZE_MAX < mi_bin_size (word_of_nat k)"
      using wsizes_mono [of k 24] 24 True by (simp add: word_less_nat_alt unat_mi_bin_size mi_consts)
    have idx: "unat (mi_wsize_from_size (mi_bin_size (word_of_nat k))) = mi_bin_wsizes ! k"
      using k by (simp add: wsize_bin_size)
    have start: "direct_start (mi_bin_size (word_of_nat k)) k (hp_pages (st_heap s h)) =
        (if k = 1 then 0 else 1 + mi_bin_wsizes ! bin_pred k)"
      using sizes by (intro direct_start_eq used True) (simp add: queue_sizes_ok_def queue_of_def)
    have range: "direct_bin w = k \<longleftrightarrow>
        (if k = 1 then 0 else 1 + mi_bin_wsizes ! bin_pred k) \<le> w \<and> w \<le> mi_bin_wsizes ! k"
      using direct_bin_iff [OF w used] used by (auto simp: bin_used_def)
    have last: "direct_bin (mi_bin_wsizes ! k) = k" "mi_bin_wsizes ! k \<le> MI_SMALL_WSIZE_MAX"
    proof -
      show le: "mi_bin_wsizes ! k \<le> MI_SMALL_WSIZE_MAX"
        using wsizes_mono [of k 24] 24 True by (simp add: MI_SMALL_WSIZE_MAX_def)
      show "direct_bin (mi_bin_wsizes ! k) = k"
        using direct_bin_iff [OF le used] wsizes_strict [of "bin_pred k" k] used True
        by (auto simp: bin_used_def bin_pred_def)
    qed
    obtain st where st: "direct_start (mi_bin_size (word_of_nat k)) k (hp_pages (st_heap s h)) = st"
      and range: "direct_bin w = k \<longleftrightarrow> st \<le> w \<and> w \<le> mi_bin_wsizes ! k"
      using start range by metis
    show ?thesis
      using same [OF last(2,1)] same [OF w] range
      by (auto simp: mi_heap_queue_first_update_def Let_def bs small idx st store_simps)
  qed
  show ?thesis
    unfolding direct_ok_def using entry others by (auto simp: store_simps)
qed

end
