(* ===== verification/HeapQueues.thy ===== *)
theory HeapQueues
  imports PageQueue
begin

text \<open>
  What the queues of a heap promise: an assignment of a list of pages to every bin, each page in
  the queue of its own bin and of no other, the direct array pointing at the heads, and the page
  count. Push, remove and move are shown to act on this abstract heap as list operations.
\<close>

section \<open>The abstract heap\<close>

definition queue_bin :: "nat \<Rightarrow> bool" where
  "queue_bin k \<longleftrightarrow> k \<le> 74 \<and> (k \<le> 72 \<longrightarrow> bin_used k)"

definition queue_lists :: "addr \<Rightarrow> (nat \<Rightarrow> page_id list) \<Rightarrow> mstate \<Rightarrow> bool" where
  "queue_lists h Q s \<longleftrightarrow> (\<forall>i \<le> 74. queue_holds s (h, i) (Q i)) \<and>
     (\<forall>i \<le> 74. \<forall>j \<le> 74. i \<noteq> j \<longrightarrow> set (Q i) \<inter> set (Q j) = {})"

definition queue_pages_ok :: "addr \<Rightarrow> (nat \<Rightarrow> page_id list) \<Rightarrow> mstate \<Rightarrow> bool" where
  "queue_pages_ok h Q s \<longleftrightarrow>
     (\<forall>i \<le> 74. \<forall>p \<in> set (Q i). mi_page_heap p s = h \<and> page_bin (st_page s p) = i)"

definition page_total :: "(nat \<Rightarrow> page_id list) \<Rightarrow> nat" where
  "page_total Q = (\<Sum>i \<le> 74. length (Q i))"

definition heap_repr :: "addr \<Rightarrow> (nat \<Rightarrow> page_id list) \<Rightarrow> mstate \<Rightarrow> bool" where
  "heap_repr h Q s \<longleftrightarrow> queue_lists h Q s \<and> queue_pages_ok h Q s \<and> queue_sizes_ok h s \<and>
     direct_ok h s \<and> hp_page_count (st_heap s h) = word_of_nat (page_total Q)"

definition in_queues :: "page_id \<Rightarrow> (nat \<Rightarrow> page_id list) \<Rightarrow> bool" where
  "in_queues p Q \<longleftrightarrow> (\<exists>i \<le> 74. p \<in> set (Q i))"

lemma page_total_upd:
  assumes "k \<le> 74"
  shows "page_total (Q(k := xs)) + length (Q k) = page_total Q + length xs"
proof -
  have "(\<Sum>i \<le> 74. length ((Q(k := xs)) i)) = length xs + (\<Sum>i \<in> {..74} - {k}. length (Q i))" for xs
    using assms by (subst sum.remove [of _ k]) (auto intro!: sum.cong)
  from this [of xs] this [of "Q k"] show ?thesis by (simp add: page_total_def)
qed

lemma page_total_remove:
  assumes "k \<le> 74" and "p \<in> set (Q k)"
  shows "page_total (Q(k := remove1 p (Q k))) + 1 = page_total Q"
proof -
  have "length (remove1 p (Q k)) + 1 = length (Q k)"
    using assms(2) length_pos_if_in_set [OF assms(2)] by (simp add: length_remove1)
  then show ?thesis using page_total_upd [OF assms(1), of Q "remove1 p (Q k)"] by linarith
qed

lemma queue_bin_used: "queue_bin k \<Longrightarrow> k \<le> 74" "queue_bin k \<Longrightarrow> k \<le> 72 \<Longrightarrow> bin_used k"
  by (simp_all add: queue_bin_def)

lemma queue_is_full_iff:
  assumes "queue_sizes_ok h s" and "k \<le> 74"
  shows "mi_page_queue_is_full (queue_of (h, k) s) \<longleftrightarrow> k = 74"
proof -
  have "mi_bin_wsizes ! k * 8 = 65552 \<longleftrightarrow> k = 74"
  proof (cases "k \<le> 72")
    case True
    have "\<forall>x \<in> set (take 73 mi_bin_wsizes). x \<noteq> 8194" by (simp add: mi_bin_wsizes_def)
    moreover have "take 73 mi_bin_wsizes ! k \<in> set (take 73 mi_bin_wsizes)"
      using True by (intro nth_mem) (simp add: length_wsizes)
    ultimately have "mi_bin_wsizes ! k \<noteq> 8194" using True by (auto simp: less_Suc_eq_le)
    then show ?thesis using True by simp
  next
    case False
    then have "k = 73 \<or> k = 74" using assms(2) by linarith
    then show ?thesis by (auto simp: mi_bin_wsizes_def)
  qed
  then have "unat (mi_bin_size (word_of_nat k)) = 65552 \<longleftrightarrow> k = 74"
    using assms(2) by (simp only: unat_mi_bin_size)
  moreover have "mi_bin_size (word_of_nat k) = 65552 \<longleftrightarrow> unat (mi_bin_size (word_of_nat k)) = 65552"
    using unsigned_word_eqI [where 'a = nat, of "mi_bin_size (word_of_nat k)" 65552] by auto
  ultimately show ?thesis
    using assms by (simp add: mi_page_queue_is_full_def queue_sizes_ok_def mi_consts)
qed


section \<open>What the queue operations leave alone\<close>

text \<open>A page apart from its links and its \<open>in_full\<close> flag, a heap apart from its queues.\<close>

definition page_core :: "mi_page \<Rightarrow> mi_page" where
  "page_core pg = pg\<lparr>pg_next := None, pg_prev := None, pg_in_full := False\<rparr>"

definition heap_core :: "mi_heap \<Rightarrow> mi_heap" where
  "heap_core h = h\<lparr>hp_pages := page_queues_empty, hp_pages_free_direct := (\<lambda>_. None), hp_page_count := 0\<rparr>"

named_theorems queue_frame \<open>what the queue operations leave alone\<close>

lemma page_core_upd [simp]:
  "page_core (pg\<lparr>pg_next := n\<rparr>) = page_core pg" "page_core (pg\<lparr>pg_prev := n\<rparr>) = page_core pg"
  "page_core (pg\<lparr>pg_in_full := b\<rparr>) = page_core pg"
  by (simp_all add: page_core_def)

lemma page_core_fields:
  assumes "page_core pg = page_core pg'"
  shows "pg_xheap pg = pg_xheap pg'" "pg_xblock_size pg = pg_xblock_size pg'"
    "pg_free pg = pg_free pg'" "pg_local_free pg = pg_local_free pg'" "pg_used pg = pg_used pg'"
    "pg_capacity pg = pg_capacity pg'" "pg_reserved pg = pg_reserved pg'"
    "pg_xthread_free pg = pg_xthread_free pg'" "pg_retire_expire pg = pg_retire_expire pg'"
  using assms by (cases pg; cases pg'; simp add: page_core_def)+

lemma heap_core_upd [simp]:
  "heap_core (h\<lparr>hp_pages := q\<rparr>) = heap_core h" "heap_core (h\<lparr>hp_page_count := n\<rparr>) = heap_core h"
  "heap_core (h\<lparr>hp_pages_free_direct := d\<rparr>) = heap_core h"
  by (simp_all add: heap_core_def)

lemma first_update_core [queue_frame]:
  "heap_core (st_heap (mi_heap_queue_first_update a q s) h) = heap_core (st_heap s h)"
  "hp_pages (st_heap (mi_heap_queue_first_update a q s) h) = hp_pages (st_heap s h)"
  "hp_page_count (st_heap (mi_heap_queue_first_update a q s) h) = hp_page_count (st_heap s h)"
  by (simp_all add: mi_heap_queue_first_update_def Let_def store_simps)

lemma queue_upd_core [queue_frame]:
  "heap_core (st_heap (queue_upd q f s) h) = heap_core (st_heap s h)"
  "hp_page_count (st_heap (queue_upd q f s) h) = hp_page_count (st_heap s h)"
  "hp_pages_free_direct (st_heap (queue_upd q f s) h) = hp_pages_free_direct (st_heap s h)"
  by (simp_all add: queue_upd_def store_simps)

lemma page_unlink_core [queue_frame]:
  "page_core (st_page (page_unlink q p s) m) = page_core (st_page s m)"
  "pg_in_full (st_page (page_unlink q p s) m) = pg_in_full (st_page s m)"
  "heap_core (st_heap (page_unlink q p s) h) = heap_core (st_heap s h)"
  "hp_page_count (st_heap (page_unlink q p s) h) = hp_page_count (st_heap s h)"
  "pq_block_size (queue_of r (page_unlink q p s)) = pq_block_size (queue_of r s)"
  "st_segment (page_unlink q p s) = st_segment s" "st_block (page_unlink q p s) = st_block s"
  "st_tld (page_unlink q p s) = st_tld s"
  by (auto simp: page_unlink_def Let_def store_simps queue_frame)

lemma page_link_last_core [queue_frame]:
  "page_core (st_page (page_link_last h' q p s) m) = page_core (st_page s m)"
  "pg_in_full (st_page (page_link_last h' q p s) m) = pg_in_full (st_page s m)"
  "heap_core (st_heap (page_link_last h' q p s) h) = heap_core (st_heap s h)"
  "hp_page_count (st_heap (page_link_last h' q p s) h) = hp_page_count (st_heap s h)"
  "pq_block_size (queue_of r (page_link_last h' q p s)) = pq_block_size (queue_of r s)"
  "st_segment (page_link_last h' q p s) = st_segment s" "st_block (page_link_last h' q p s) = st_block s"
  "st_tld (page_link_last h' q p s) = st_tld s"
  by (auto simp: page_link_last_def Let_def store_simps queue_frame split: option.splits)

lemma queue_remove_core [queue_frame]:
  "page_core (st_page (mi_page_queue_remove q p s) m) = page_core (st_page s m)"
  "heap_core (st_heap (mi_page_queue_remove q p s) h) = heap_core (st_heap s h)"
  "pg_in_full (st_page (mi_page_queue_remove q p s) m) = (m \<noteq> p \<and> pg_in_full (st_page s m))"
  "hp_page_count (st_heap (mi_page_queue_remove q p s) h) =
     (if h = mi_page_heap p s then hp_page_count (st_heap s h) - 1 else hp_page_count (st_heap s h))"
  "pq_block_size (queue_of r (mi_page_queue_remove q p s)) = pq_block_size (queue_of r s)"
  "st_segment (mi_page_queue_remove q p s) = st_segment s" "st_block (mi_page_queue_remove q p s) = st_block s"
  "st_tld (mi_page_queue_remove q p s) = st_tld s"
  by (auto simp: mi_page_queue_remove_def mi_page_set_in_full_def Let_def store_simps queue_frame)

lemma queue_push_core [queue_frame]:
  "page_core (st_page (mi_page_queue_push h' q p s) m) = page_core (st_page s m)"
  "heap_core (st_heap (mi_page_queue_push h' q p s) h) = heap_core (st_heap s h)"
  "pg_in_full (st_page (mi_page_queue_push h' q p s) m) =
     (if m = p then mi_page_queue_is_full (queue_of q s) else pg_in_full (st_page s m))"
  "hp_page_count (st_heap (mi_page_queue_push h' q p s) h) =
     (if h = h' then hp_page_count (st_heap s h) + 1 else hp_page_count (st_heap s h))"
  "pq_block_size (queue_of r (mi_page_queue_push h' q p s)) = pq_block_size (queue_of r s)"
  "st_segment (mi_page_queue_push h' q p s) = st_segment s" "st_block (mi_page_queue_push h' q p s) = st_block s"
  "st_tld (mi_page_queue_push h' q p s) = st_tld s"
  by (auto simp: mi_page_queue_push_def mi_page_set_in_full_def Let_def store_simps queue_frame split: option.splits)

lemma queue_enqueue_core [queue_frame]:
  "page_core (st_page (mi_page_queue_enqueue_from r q p s) m) = page_core (st_page s m)"
  "heap_core (st_heap (mi_page_queue_enqueue_from r q p s) h) = heap_core (st_heap s h)"
  "pg_in_full (st_page (mi_page_queue_enqueue_from r q p s) m) =
     (if m = p then mi_page_queue_is_full (queue_of r s) else pg_in_full (st_page s m))"
  "hp_page_count (st_heap (mi_page_queue_enqueue_from r q p s) h) = hp_page_count (st_heap s h)"
  "pq_block_size (queue_of t (mi_page_queue_enqueue_from r q p s)) = pq_block_size (queue_of t s)"
  "st_segment (mi_page_queue_enqueue_from r q p s) = st_segment s"
  "st_block (mi_page_queue_enqueue_from r q p s) = st_block s"
  "st_tld (mi_page_queue_enqueue_from r q p s) = st_tld s"
  by (auto simp: mi_page_queue_enqueue_from_def mi_page_queue_is_full_def mi_page_set_in_full_def Let_def
      store_simps queue_frame)


section \<open>The direct array through the operations\<close>

lemma direct_ok_same:
  assumes "direct_ok h s"
    and "hp_pages_free_direct (st_heap s' h) = hp_pages_free_direct (st_heap s h)"
    and "\<And>i. i \<le> 74 \<Longrightarrow> queue_first s' (h, i) = queue_first s (h, i)"
  shows "direct_ok h s'"
proof -
  have "queue_first s' (h, direct_bin w) = queue_first s (h, direct_bin w)" if "w \<le> MI_SMALL_WSIZE_MAX" for w
    using direct_bin_small(1) [OF that] by (intro assms(3)) simp
  then show ?thesis using assms(1,2) by (simp add: direct_ok_def)
qed

lemma direct_ok_step:
  assumes "direct_ok h s" and "queue_sizes_ok h s'" and "queue_bin k"
    and "hp_pages_free_direct (st_heap s' h) = hp_pages_free_direct (st_heap s h)"
    and "\<And>i. i \<noteq> k \<Longrightarrow> queue_first s' (h, i) = queue_first s (h, i)"
  shows "direct_ok h (mi_heap_queue_first_update h (h, k) s')"
  using assms
  by (intro first_update_direct [where old = "Some (page_or_empty (queue_first s (h, k)))"])
    (auto simp: direct_ok_def queue_bin_def)

lemma direct_ok_count [simp]:
  "direct_ok h (heap_upd h' (\<lambda>hp. hp\<lparr>hp_page_count := f hp\<rparr>) s) = direct_ok h s"
  by (simp add: direct_ok_def store_simps)

lemma direct_ok_page [simp]:
  "direct_ok h (page_upd p f s) = direct_ok h s" "direct_ok h (mi_page_set_in_full p b s) = direct_ok h s"
  by (simp_all add: direct_ok_def store_simps)

lemma queue_sizes_count [simp]:
  "queue_sizes_ok h (page_upd p f s) = queue_sizes_ok h s"
  "queue_sizes_ok h (page_upd_opt po f s) = queue_sizes_ok h s"
  "queue_sizes_ok h (mi_page_set_in_full p b s) = queue_sizes_ok h s"
  by (simp_all add: queue_sizes_ok_def store_simps)

lemma direct_ok_push:
  assumes "direct_ok h s" and "queue_sizes_ok h s" and "queue_bin k"
  shows "direct_ok h (mi_page_queue_push h (h, k) p s)"
  unfolding mi_page_queue_push_def Let_def direct_ok_count
  using assms(2)
  by (intro direct_ok_step [OF assms(1) _ assms(3)])
    (auto simp: queue_sizes_ok_def mi_page_set_in_full_def store_simps queue_frame split: option.splits)

lemma direct_ok_unlink:
  assumes "direct_ok h s" and "queue_sizes_ok h s" and "queue_bin k" and "mi_page_heap p s = h"
  shows "direct_ok h (page_unlink (h, k) p s)"
proof (cases "queue_first s (h, k) = Some p")
  case True
  then show ?thesis
    using assms(2)
    by (simp add: page_unlink_def Let_def store_simps assms(4))
      (intro conjI impI direct_ok_step [OF assms(1) _ assms(3)];
        auto simp: queue_sizes_ok_def store_simps queue_frame)
next
  case False
  then show ?thesis
    by (intro direct_ok_same [OF assms(1)]) (auto simp: page_unlink_def Let_def store_simps queue_frame)
qed

lemma direct_ok_remove:
  assumes "direct_ok h s" and "queue_sizes_ok h s" and "queue_bin k" and "mi_page_heap p s = h"
  shows "direct_ok h (mi_page_queue_remove (h, k) p s)"
  using direct_ok_unlink [OF assms] by (simp add: mi_page_queue_remove_def Let_def)

lemma direct_ok_link_last:
  assumes "direct_ok h s" and "queue_sizes_ok h s" and "queue_bin k"
  shows "direct_ok h (page_link_last h (h, k) p s)"
proof (cases "queue_last s (h, k)")
  case None
  then show ?thesis
    using assms(2)
    by (simp add: page_link_last_def Let_def store_simps)
      (intro direct_ok_step [OF assms(1) _ assms(3)]; auto simp: queue_sizes_ok_def store_simps queue_frame)
next
  case (Some l)
  then show ?thesis
    by (intro direct_ok_same [OF assms(1)]) (auto simp: page_link_last_def Let_def store_simps queue_frame)
qed

section \<open>Lists through the operations\<close>

lemma queue_lists_push:
  assumes "queue_lists h Q s" and "\<not> in_queues p Q" and "k \<le> 74"
  shows "queue_lists h (Q(k := p # Q k)) (mi_page_queue_push h (h, k) p s)"
  unfolding queue_lists_def
proof (intro conjI allI impI)
  have H: "queue_holds s (h, i) (Q i)" "p \<notin> set (Q i)" if "i \<le> 74" for i
    using assms that by (auto simp: queue_lists_def in_queues_def)
  show "queue_holds (mi_page_queue_push h (h, k) p s) (h, i) ((Q(k := p # Q k)) i)" if "i \<le> 74" for i
    using page_push.push_holds [OF H(1) H(2), OF assms(3) assms(3)]
      page_push.push_holds_other [OF H(1) [OF assms(3)] H(1) [OF that] _ H(2) [OF assms(3)] H(2) [OF that]]
      assms that by (auto simp: queue_lists_def)
  show "set ((Q(k := p # Q k)) i) \<inter> set ((Q(k := p # Q k)) j) = {}" if "i \<le> 74" "j \<le> 74" "i \<noteq> j" for i j
    using that assms(1) H(2) by (auto simp: queue_lists_def)
qed

lemma queue_lists_remove:
  assumes "queue_lists h Q s" and "p \<in> set (Q k)" and "k \<le> 74"
  shows "queue_lists h (Q(k := remove1 p (Q k))) (mi_page_queue_remove (h, k) p s)"
    and "queue_lists h (Q(k := remove1 p (Q k))) (page_unlink (h, k) p s)"
proof -
  have H: "queue_holds s (h, i) (Q i)" if "i \<le> 74" for i
    using assms(1) that by (simp add: queue_lists_def)
  have D: "set (Q i) \<inter> set (Q j) = {}" if "i \<le> 74" "j \<le> 74" "i \<noteq> j" for i j
    using assms(1) that by (simp add: queue_lists_def)
  have D': "set ((Q(k := remove1 p (Q k))) i) \<inter> set ((Q(k := remove1 p (Q k))) j) = {}"
    if "i \<le> 74" "j \<le> 74" "i \<noteq> j" for i j
    using D [OF that] set_remove1_subset [of p "Q k"] by auto
  show "queue_lists h (Q(k := remove1 p (Q k))) (mi_page_queue_remove (h, k) p s)"
    unfolding queue_lists_def
    using D' page_remove.remove_holds [OF H assms(2)]
      page_remove.remove_holds_other [OF H [OF assms(3)] H _ assms(2)] D assms(3) by auto
  show "queue_lists h (Q(k := remove1 p (Q k))) (page_unlink (h, k) p s)"
    unfolding queue_lists_def
    using D' page_unlinking.remove_holds [OF H assms(2)]
      page_unlinking.remove_holds_other [OF H [OF assms(3)] H _ assms(2)] D assms(3) by auto
qed

lemma queue_lists_link_last:
  assumes "queue_lists h Q s" and "\<not> in_queues p Q" and "k \<le> 74" and "mi_page_heap p s = h"
  shows "queue_lists h (Q(k := Q k @ [p])) (page_link_last h (h, k) p s)"
  unfolding queue_lists_def
proof (intro conjI allI impI)
  have H: "queue_holds s (h, i) (Q i)" "p \<notin> set (Q i)" if "i \<le> 74" for i
    using assms that by (auto simp: queue_lists_def in_queues_def)
  show "queue_holds (page_link_last h (h, k) p s) (h, i) ((Q(k := Q k @ [p])) i)" if "i \<le> 74" for i
    using page_linking.snoc_holds [OF H(1) H(2), OF assms(3) assms(3)]
      page_linking.snoc_holds_other [OF H(1) [OF assms(3)] H(1) [OF that] _ H(2) [OF assms(3)] H(2) [OF that]]
      assms that by (auto simp: queue_lists_def)
  show "set ((Q(k := Q k @ [p])) i) \<inter> set ((Q(k := Q k @ [p])) j) = {}" if "i \<le> 74" "j \<le> 74" "i \<noteq> j" for i j
    using that assms(1) H(2) by (auto simp: queue_lists_def)
qed


section \<open>The operations on the abstract heap\<close>

lemma unat_ucast_widen [simp]:
  "unat (ucast (x :: u32) :: u64) = unat x" "unat (ucast (y :: u16) :: u64) = unat y"
  "unat (ucast (y :: u16) :: u32) = unat y" "unat (ucast (z :: u8) :: u64) = unat z"
  by (transfer; simp add: take_bit_eq_mask_iff)+

lemma mi_bin_huge:
  assumes "MI_LARGE_OBJ_SIZE_MAX < sz" and "unat sz + 7 < 2 ^ 64"
  shows "mi_bin sz = MI_BIN_HUGE"
proof -
  have "unat (mi_wsize_from_size sz) = (unat sz + 7) div 8" and "65536 < unat sz"
    using assms by (simp_all add: unat_mi_wsize_from_size word_less_nat_alt mi_consts)
  then have w: "8192 < unat (mi_wsize_from_size sz)" by linarith
  then have "\<not> mi_wsize_from_size sz \<le> 1" "\<not> mi_wsize_from_size sz \<le> 8"
    "MI_LARGE_OBJ_WSIZE_MAX < mi_wsize_from_size sz"
    by (simp_all add: word_le_nat_alt word_less_nat_alt mi_consts)
  then show ?thesis by (simp add: mi_bin_def)
qed

lemma queue_bin_page_bin: "queue_bin (page_bin pg)" "\<not> pg_in_full pg \<Longrightarrow> page_bin pg \<noteq> 74"
proof -
  let ?sz = "ucast (pg_xblock_size pg) :: u64"
  have "unat ?sz + 7 < 2 ^ 64"
    using unat_less_32 [of "pg_xblock_size pg"] by (simp del: unat_less_32)
  then have "queue_bin (unat (mi_bin ?sz)) \<and> unat (mi_bin ?sz) \<noteq> 74"
    using mi_bin_char [of ?sz] mi_bin_huge [of ?sz]
    by (cases "?sz \<le> MI_LARGE_OBJ_SIZE_MAX") (auto simp: queue_bin_def bin_used_def mi_consts not_le)
  then show "queue_bin (page_bin pg)" "\<not> pg_in_full pg \<Longrightarrow> page_bin pg \<noteq> 74"
    by (auto simp: page_bin_def mi_consts queue_bin_def)
qed

lemma heap_repr_page:
  assumes "heap_repr h Q s" and "in_queues p Q"
  shows "mi_page_heap p s = h" and "p \<in> set (Q (page_bin (st_page s p)))"
    and "mi_page_queue_of p s = (h, page_bin (st_page s p))"
  using assms by (auto simp: heap_repr_def queue_pages_ok_def in_queues_def mi_page_queue_of_def)

lemma queue_pages_step:
  assumes "queue_pages_ok h Q s" and "mi_page_heap p s = h"
    and "\<And>m. mi_page_heap m s' = mi_page_heap m s"
    and "\<And>m. m \<noteq> p \<Longrightarrow> page_bin (st_page s' m) = page_bin (st_page s m)"
    and "\<And>i. i \<le> 74 \<Longrightarrow> p \<in> set (Q' i) \<Longrightarrow> page_bin (st_page s' p) = i"
    and "\<And>i. i \<le> 74 \<Longrightarrow> set (Q' i) - {p} \<subseteq> set (Q i)"
  shows "queue_pages_ok h Q' s'"
  unfolding queue_pages_ok_def
proof (intro allI impI ballI)
  show "mi_page_heap m s' = h \<and> page_bin (st_page s' m) = i" if "i \<le> 74" "m \<in> set (Q' i)" for i m
  proof (cases "m = p")
    case False
    then have "m \<in> set (Q i)" using that assms(6) by blast
    then show ?thesis using assms(1,3) assms(4) [OF False] that(1) by (simp add: queue_pages_ok_def)
  qed (use assms(2,3,5) that in simp)
qed

lemma page_bin_eq:
  assumes "page_core pg = page_core pg'" and "pg_in_full pg = pg_in_full pg'"
  shows "page_bin pg = page_bin pg'"
  using page_core_fields(2) [OF assms(1)] assms(2) by (simp add: page_bin_def)

lemma heap_repr_push:
  assumes R: "heap_repr h Q s" and "\<not> in_queues p Q" and "queue_bin k" and "mi_page_heap p s = h"
    and bin: "k = 74 \<or> k = unat (mi_bin (ucast (pg_xblock_size (st_page s p))))"
  shows "heap_repr h (Q(k := p # Q k)) (mi_page_queue_push h (h, k) p s) \<and>
    mi_page_queue_of p (mi_page_queue_push h (h, k) p s) = (h, k)"
proof -
  let ?s = "mi_page_queue_push h (h, k) p s"
  have k: "k \<le> 74" using assms(3) by (rule queue_bin_used)
  have parts: "queue_lists h Q s" "queue_pages_ok h Q s" "queue_sizes_ok h s" "direct_ok h s"
    using R by (simp_all add: heap_repr_def)
  note core = page_core_fields [OF queue_push_core(1)]
  have full: "mi_page_queue_is_full (queue_of (h, k) s) = (k = 74)"
    by (rule queue_is_full_iff [OF parts(3) k])
  have pk: "page_bin (st_page ?s p) = k"
    using bin by (auto simp: page_bin_def queue_frame core(2) full mi_consts)
  have heap: "mi_page_heap m ?s = mi_page_heap m s" for m
    by (simp add: mi_page_heap_def core)
  have "page_bin (st_page ?s m) = page_bin (st_page s m)" if "m \<noteq> p" for m
    using that by (intro page_bin_eq) (simp_all add: queue_frame)
  then have "queue_pages_ok h (Q(k := p # Q k)) ?s"
    using assms(2) pk by (intro queue_pages_step [OF parts(2) assms(4) heap]) (auto simp: in_queues_def split: if_splits)
  moreover have "hp_page_count (st_heap ?s h) = word_of_nat (page_total (Q(k := p # Q k)))"
    using R page_total_upd [OF k, of Q "p # Q k"] by (simp add: heap_repr_def queue_frame)
  moreover have "queue_sizes_ok h ?s"
    using parts(3) by (simp add: queue_sizes_ok_def queue_frame)
  ultimately show ?thesis
    using queue_lists_push [OF parts(1) assms(2) k] direct_ok_push [OF parts(4,3) assms(3)] pk assms(4)
    by (simp add: heap_repr_def mi_page_queue_of_def heap)
qed

lemma heap_repr_remove:
  assumes R: "heap_repr h Q s" and p: "in_queues p Q"
  defines "k \<equiv> page_bin (st_page s p)"
  shows "heap_repr h (Q(k := remove1 p (Q k))) (mi_page_queue_remove (mi_page_queue_of p s) p s) \<and>
    pg_next (st_page (mi_page_queue_remove (mi_page_queue_of p s) p s) p) = None \<and>
    pg_prev (st_page (mi_page_queue_remove (mi_page_queue_of p s) p s) p) = None \<and>
    \<not> pg_in_full (st_page (mi_page_queue_remove (mi_page_queue_of p s) p s) p)"
proof -
  let ?s = "mi_page_queue_remove (h, k) p s"
  note P = heap_repr_page [OF R p, folded k_def]
  have bin: "queue_bin k" unfolding k_def by (rule queue_bin_page_bin)
  note k = queue_bin_used(1) [OF bin]
  have parts: "queue_lists h Q s" "queue_pages_ok h Q s" "queue_sizes_ok h s" "direct_ok h s"
    using R by (simp_all add: heap_repr_def)
  note core = page_core_fields [OF queue_remove_core(1)]
  have heap: "mi_page_heap m ?s = mi_page_heap m s" for m
    by (simp add: mi_page_heap_def core)
  have d: "distinct (Q k)"
    using parts(1) k by (auto simp: queue_lists_def page_list.holds_def dest: dlist_distinct)
  have gone: "p \<notin> set ((Q(k := remove1 p (Q k))) i)" if "i \<le> 74" for i
    using parts(1) k that d P(2) by (auto simp: queue_lists_def)
  have "page_bin (st_page ?s m) = page_bin (st_page s m)" if "m \<noteq> p" for m
    using that by (intro page_bin_eq) (simp_all add: queue_frame)
  then have "queue_pages_ok h (Q(k := remove1 p (Q k))) ?s"
    using gone set_remove1_subset [of p "Q k"]
    by (intro queue_pages_step [OF parts(2) P(1) heap]) (auto split: if_splits)
  moreover have "hp_page_count (st_heap ?s h) = word_of_nat (page_total (Q(k := remove1 p (Q k))))"
  proof -
    have "page_total (Q(k := remove1 p (Q k))) + 1 = page_total Q"
      using k P(2) by (rule page_total_remove)
    then have "word_of_nat (page_total Q) = word_of_nat (page_total (Q(k := remove1 p (Q k)))) + (1 :: u64)"
      by (metis of_nat_add of_nat_1)
    then show ?thesis using R by (simp add: heap_repr_def queue_frame P(1))
  qed
  moreover have "queue_sizes_ok h ?s"
    using parts(3) by (simp add: queue_sizes_ok_def queue_frame)
  moreover have "pg_next (st_page ?s p) = None" "pg_prev (st_page ?s p) = None"
    by (simp_all add: mi_page_queue_remove_def Let_def store_simps)
  ultimately show ?thesis
    using queue_lists_remove(1) [OF parts(1) P(2) k] direct_ok_remove [OF parts(4,3) bin P(1)]
    by (simp add: P(3) heap_repr_def queue_frame)
qed

lemma heap_repr_enqueue_from:
  assumes R: "heap_repr h Q s" and p: "in_queues p Q" and j: "queue_bin j"
    and jk: "j \<noteq> page_bin (st_page s p)"
    and bin: "j = 74 \<or> j = unat (mi_bin (ucast (pg_xblock_size (st_page s p))))"
  defines "k \<equiv> page_bin (st_page s p)"
  shows "heap_repr h (Q(k := remove1 p (Q k), j := Q j @ [p]))
      (mi_page_queue_enqueue_from (h, j) (h, k) p s)"
proof -
  let ?u = "page_unlink (h, k) p s" and ?s = "mi_page_queue_enqueue_from (h, j) (h, k) p s"
  let ?Q = "Q(k := remove1 p (Q k))"
  note P = heap_repr_page [OF R p, folded k_def]
  have qb: "queue_bin k" unfolding k_def by (rule queue_bin_page_bin)
  note k = queue_bin_used(1) [OF qb] and j74 = queue_bin_used(1) [OF j]
  have parts: "queue_lists h Q s" "queue_pages_ok h Q s" "queue_sizes_ok h s" "direct_ok h s"
    using R by (simp_all add: heap_repr_def)
  have jk': "j \<noteq> k" using jk by (simp add: k_def)
  note core = page_core_fields [OF queue_enqueue_core(1)]
  have heap: "mi_page_heap m ?s = mi_page_heap m s" for m
    by (simp add: mi_page_heap_def core)
  have d: "distinct (Q k)"
    using parts(1) k by (auto simp: queue_lists_def page_list.holds_def dest: dlist_distinct)
  have gone: "\<not> in_queues p ?Q"
    using parts(1) k d P(2) by (auto simp: queue_lists_def in_queues_def split: if_splits)
  have uh: "mi_page_heap p ?u = h"
    using P(1) page_core_fields(1) [OF page_unlink_core(1)] by (simp add: mi_page_heap_def)
  have us: "queue_sizes_ok h ?u"
    using parts(3) by (simp add: queue_sizes_ok_def queue_frame)
  have full: "mi_page_queue_is_full (queue_of (h, j) s) = (j = 74)"
    by (rule queue_is_full_iff [OF parts(3) j74])
  have pj: "page_bin (st_page ?s p) = j"
    using bin by (auto simp: page_bin_def queue_frame core(2) full mi_consts)
  have "page_bin (st_page ?s m) = page_bin (st_page s m)" if "m \<noteq> p" for m
    using that by (intro page_bin_eq) (simp_all add: queue_frame)
  then have "queue_pages_ok h (?Q(j := Q j @ [p])) ?s"
    using gone pj set_remove1_subset [of p "Q k"]
    by (intro queue_pages_step [OF parts(2) P(1) heap]) (auto simp: in_queues_def split: if_splits)
  moreover have "queue_lists h (?Q(j := Q j @ [p])) ?s" "direct_ok h ?s"
  proof -
    have "queue_holds (mi_page_set_in_full p b t) q xs = queue_holds t q xs" for b t q xs
      unfolding page_list.holds_def store_simps by (rule dlist_cong) simp
    then have same: "queue_lists h Q' (mi_page_set_in_full p b t) = queue_lists h Q' t" for Q' b t
      by (simp add: queue_lists_def)
    show "queue_lists h (?Q(j := Q j @ [p])) ?s"
      using queue_lists_link_last [OF queue_lists_remove(2) [OF parts(1) P(2) k] gone j74 uh] jk'
      by (simp add: mi_page_queue_enqueue_from_def Let_def P(1) same)
    show "direct_ok h ?s"
      using direct_ok_link_last [OF direct_ok_unlink [OF parts(4,3) qb P(1)] us j]
      by (simp add: mi_page_queue_enqueue_from_def Let_def P(1))
  qed
  moreover have "page_total (?Q(j := Q j @ [p])) = page_total Q"
    using page_total_remove [of k p Q] page_total_upd [OF j74, of ?Q "Q j @ [p]"] k P(2) jk' by simp
  moreover have "queue_sizes_ok h ?s"
    using parts(3) by (simp add: queue_sizes_ok_def queue_frame)
  ultimately show ?thesis using R by (simp add: heap_repr_def queue_frame)
qed

section \<open>The queues of the main heap at load\<close>

lemma mstate_load_simps [simp]:
  "st_block (mstate_load env) = (\<lambda>_. 0)" "st_page (mstate_load env) = (\<lambda>_. mi_page_empty)"
  "st_segment (mstate_load env) = (\<lambda>_. mi_segment_zero)"
  "st_heap (mstate_load env) = (\<lambda>a. if a = heap_main_ref then heap_main_init
     else if a = heap_empty_ref then mi_heap_empty else mi_heap_zero)"
  "st_tld (mstate_load env) = (\<lambda>a. if a = tld_main_ref then tld_main_init else mi_tld_zero)"
  by (simp_all add: mstate_load_def region_state.defs)

lemma queue_of_load: "fst q = heap_main_ref \<Longrightarrow> queue_of q (mstate_load env) = page_queues_empty (snd q)"
  by (simp add: queue_of_def heap_main_init_def mi_heap_empty_def)

lemma heap_repr_load: "heap_repr heap_main_ref (\<lambda>_. []) (mstate_load env)"
proof -
  have "queue_holds (mstate_load env) (heap_main_ref, i) []" for i
    by (simp add: page_list.holds_def queue_of_load page_queues_empty_def)
  then show ?thesis
    by (simp add: heap_repr_def queue_lists_def queue_pages_ok_def queue_sizes_ok_def direct_ok_def
        page_total_def queue_of_load page_queues_empty_def page_or_empty_def heap_main_init_def mi_heap_empty_def)
qed

section \<open>Properties\<close>

definition heap_example :: mstate where
  "heap_example = page_upd (0x20000, 0)
     (\<lambda>pg. pg\<lparr>pg_xheap := heap_main_ref, pg_xblock_size := 16\<rparr>) (mstate_load os_env_once)"

lemma mi_bin_16 [simp]: "mi_bin 16 = 2"
  using mi_bin_of_bin [of 2] by (simp add: bin_used_def mi_bin_size_def mi_bin_wsizes_def mi_consts)

lemma queue_bin_2 [simp]: "queue_bin 2" "queue_bin 74"
  by (simp_all add: queue_bin_def bin_used_def)

lemma heap_example_repr: "heap_repr heap_main_ref (\<lambda>_. []) heap_example"
proof -
  have "queue_holds heap_example q [] = queue_holds (mstate_load os_env_once) q []" for q
    by (simp add: page_list.holds_def heap_example_def store_simps)
  then show ?thesis
    using heap_repr_load [of os_env_once]
    by (simp add: heap_repr_def queue_lists_def queue_pages_ok_def queue_sizes_ok_def direct_ok_def
        heap_example_def store_simps)
qed

lemma heap_example_page:
  "st_page heap_example (0x20000, 0) = mi_page_empty\<lparr>pg_xheap := heap_main_ref, pg_xblock_size := 16\<rparr>"
  by (simp add: heap_example_def store_simps)

definition heap_example_pushed :: mstate where
  "heap_example_pushed = mi_page_queue_push heap_main_ref (heap_main_ref, 2) (0x20000, 0) heap_example"

lemma heap_example_pushed_repr:
  "heap_repr heap_main_ref ((\<lambda>_. [])(2 := [(0x20000, 0)])) heap_example_pushed"
  "page_bin (st_page heap_example_pushed (0x20000, 0)) = 2"
  "pg_xblock_size (st_page heap_example_pushed (0x20000, 0)) = 16"
proof -
  show R: "heap_repr heap_main_ref ((\<lambda>_. [])(2 := [(0x20000, 0)])) heap_example_pushed"
    using heap_repr_push [OF heap_example_repr, of "(0x20000, 0)" 2]
    by (simp add: heap_example_pushed_def heap_example_page mi_page_heap_def in_queues_def)
  show "page_bin (st_page heap_example_pushed (0x20000, 0)) = 2"
    using R by (simp add: heap_repr_def queue_pages_ok_def)
  show "pg_xblock_size (st_page heap_example_pushed (0x20000, 0)) = 16"
    unfolding heap_example_pushed_def page_core_fields(2) [OF queue_push_core(1)]
    by (simp add: heap_example_page)
qed

text \<open>
  C15. Pushing a page that is in no queue, onto the queue of its size class or of full pages, puts
  it in front of that queue and changes no other queue; the page is then found in that queue,
  and the direct array and the page count stay right.
\<close>

theorem mi_page_queue_push_repr:
  assumes "heap_repr h Q s" and "\<not> in_queues p Q" and "queue_bin k" and "mi_page_heap p s = h"
    and "k = 74 \<or> k = unat (mi_bin (ucast (pg_xblock_size (st_page s p))))"
  shows "heap_repr h (Q(k := p # Q k)) (mi_page_queue_push h (h, k) p s) \<and>
    mi_page_queue_of p (mi_page_queue_push h (h, k) p s) = (h, k)"
  using assms by (rule heap_repr_push)

lemma mi_page_queue_push_repr_witness:
  "heap_repr heap_main_ref ((\<lambda>_. [])(2 := [(0x20000, 0)]))
     (mi_page_queue_push heap_main_ref (heap_main_ref, 2) (0x20000, 0) heap_example)"
  using mi_page_queue_push_repr [OF heap_example_repr, of "(0x20000, 0)" 2]
  by (simp add: heap_example_page mi_page_heap_def in_queues_def)

text \<open>
  Removing a page that is in a queue takes it out of the queue of its bin and leaves all other
  queues as they were; its links are then null and its \<open>in_full\<close> flag is clear, and the direct
  array and the page count stay right.
\<close>

theorem mi_page_queue_remove_repr:
  assumes "heap_repr h Q s" and "in_queues p Q"
  defines "k \<equiv> page_bin (st_page s p)" and "s' \<equiv> mi_page_queue_remove (mi_page_queue_of p s) p s"
  shows "heap_repr h (Q(k := remove1 p (Q k))) s' \<and> pg_next (st_page s' p) = None \<and>
    pg_prev (st_page s' p) = None \<and> \<not> pg_in_full (st_page s' p)"
  unfolding k_def s'_def by (rule heap_repr_remove [OF assms(1,2)])

lemma mi_page_queue_remove_repr_witness:
  "heap_repr heap_main_ref (\<lambda>_. [])
     (mi_page_queue_remove (mi_page_queue_of (0x20000, 0) heap_example_pushed) (0x20000, 0) heap_example_pushed)"
  using mi_page_queue_remove_repr [OF heap_example_pushed_repr(1), of "(0x20000, 0)"]
  by (simp add: heap_example_pushed_repr(2,3) in_queues_def fun_upd_idem)

text \<open>
  C18. Moving a page of a queue to another queue it belongs to, its size class's or the full
  queue, takes it out of the one and appends it to the other, with the page count unchanged and
  the direct array kept right for both.
\<close>

theorem mi_page_queue_enqueue_from_repr:
  assumes "heap_repr h Q s" and "in_queues p Q" and "queue_bin j" and "j \<noteq> page_bin (st_page s p)"
    and "j = 74 \<or> j = unat (mi_bin (ucast (pg_xblock_size (st_page s p))))"
  defines "k \<equiv> page_bin (st_page s p)"
  shows "heap_repr h (Q(k := remove1 p (Q k), j := Q j @ [p]))
    (mi_page_queue_enqueue_from (h, j) (h, k) p s)"
  unfolding k_def by (rule heap_repr_enqueue_from [OF assms(1-5)])

lemma mi_page_queue_enqueue_from_repr_witness:
  "heap_repr heap_main_ref ((\<lambda>_. [])(74 := [(0x20000, 0)]))
     (mi_page_queue_enqueue_from (heap_main_ref, 74) (heap_main_ref, 2) (0x20000, 0) heap_example_pushed)"
  using mi_page_queue_enqueue_from_repr [OF heap_example_pushed_repr(1), of "(0x20000, 0)" 74]
  by (simp add: heap_example_pushed_repr(2,3) in_queues_def fun_upd_idem)

end
