(* ===== verification/Geometry.thy ===== *)
theory Geometry
  imports HeapQueues
begin

text \<open>
  Where the pages of a segment and the blocks of a page are (\<open>segment.c\<close>, \<open>mimalloc-internal.h\<close>
  and \<open>page.c\<close>): the start and size of a page's area, the size of a segment, and the way back
  from an address to its segment and page. A segment address and an index name a page, so the
  segment argument of the code's functions is the first part of the page's name.
\<close>

section \<open>Segment size calculations\<close>

text \<open>The size of the area comes with the start; \<open>MI_SECURE\<close> is 0, so there are no guard pages.\<close>

definition mi_segment_raw_page_start :: "page_id \<Rightarrow> mstate \<Rightarrow> addr \<times> u64" where
  "mi_segment_raw_page_start p s =
     (let segment = st_segment s (fst p); idx = pg_segment_idx (st_page s p);
          psize = (if sg_page_kind segment = MI_PAGE_HUGE then sg_segment_size segment
                   else push_bit (unat (sg_page_shift segment)) 1);
          start = fst p + ucast idx * psize
      in if idx = 0 then (start + sg_info_size segment, psize - sg_info_size segment)
         else (start, psize))"

text \<open>Start, size and the bytes skipped before the start.\<close>

definition mi_segment_page_start :: "page_id \<Rightarrow> u64 \<Rightarrow> mstate \<Rightarrow> addr \<times> u64 \<times> u64" where
  "mi_segment_page_start p block_size s =
     (let (start, psize) = mi_segment_raw_page_start p s
      in if pg_segment_idx (st_page s p) = 0 \<and> 0 < block_size
            \<and> page_kind_le_medium (sg_page_kind (st_segment s (fst p)))
         then let adjust = block_size - (start mod block_size)
              in if adjust < block_size then (start + adjust, psize - adjust, adjust)
                 else (start, psize, 0)
         else (start, psize, 0))"

definition sizeof_mi_segment :: u64 where [mi_consts]: "sizeof_mi_segment = 184"
definition sizeof_mi_page :: u64 where [mi_consts]: "sizeof_mi_page = 64"
definition MI_PAGE_HUGE_ALIGN :: u64 where [mi_consts]: "MI_PAGE_HUGE_ALIGN = 262144"

text \<open>The total size, the size before the first page and the size of the header.\<close>

definition mi_segment_size :: "u64 \<Rightarrow> u64 \<Rightarrow> u64 \<times> u64 \<times> u64" where
  "mi_segment_size capacity required =
     (let minsize = sizeof_mi_segment + (capacity - 1) * sizeof_mi_page + 16;
          isize = mi_align_up minsize (16 * MI_MAX_ALIGN_SIZE)
      in (if required = 0 then MI_SEGMENT_SIZE else mi_align_up (required + isize) MI_PAGE_HUGE_ALIGN,
          isize, isize))"

definition mi_segment_page_size :: "mi_segment \<Rightarrow> u64" where
  "mi_segment_page_size segment =
     (if 1 < sg_capacity segment then push_bit (unat (sg_page_shift segment)) 1 else sg_segment_size segment)"

section \<open>From addresses to pages\<close>

definition mi_segment_page_idx_of :: "addr \<Rightarrow> addr \<Rightarrow> mstate \<Rightarrow> u64" where
  "mi_segment_page_idx_of a q s = drop_bit (unat (sg_page_shift (st_segment s a))) (q - a)"

definition mi_segment_page_of :: "addr \<Rightarrow> addr \<Rightarrow> mstate \<Rightarrow> page_id" where
  "mi_segment_page_of a q s = (a, unat (mi_segment_page_idx_of a q s))"

definition mi_ptr_page :: "addr \<Rightarrow> mstate \<Rightarrow> page_id" where
  "mi_ptr_page q s = mi_segment_page_of (mi_ptr_segment q) q s"

definition mi_is_in_same_page :: "addr \<Rightarrow> addr \<Rightarrow> mstate \<Rightarrow> bool" where
  "mi_is_in_same_page p q s =
     (let segmentp = mi_ptr_segment p; segmentq = mi_ptr_segment q
      in segmentp = segmentq \<and> mi_segment_page_idx_of segmentp p s = mi_segment_page_idx_of segmentq q s)"

definition mi_page_start :: "page_id \<Rightarrow> mstate \<Rightarrow> addr \<times> u64" where
  "mi_page_start p s =
     (let (start, psize, _) = mi_segment_page_start p (ucast (pg_xblock_size (st_page s p))) s in (start, psize))"

definition mi_page_block_size :: "page_id \<Rightarrow> mstate \<Rightarrow> u64" where
  "mi_page_block_size p s =
     (let bsize = ucast (pg_xblock_size (st_page s p)) :: u64
      in if bsize < ucast MI_HUGE_BLOCK_SIZE then bsize
         else let (_, psize, _) = mi_segment_page_start p bsize s in psize)"

definition mi_page_usable_block_size :: "page_id \<Rightarrow> mstate \<Rightarrow> u64" where
  "mi_page_usable_block_size p s = mi_page_block_size p s"

definition mi_page_block_at :: "addr \<Rightarrow> u64 \<Rightarrow> u64 \<Rightarrow> addr" where
  "mi_page_block_at page_start block_size i = page_start + i * block_size"

section \<open>Well-shaped segments\<close>

text \<open>What \<open>mi_segment_init\<close> sets for each kind: page shift, capacity, header and segment size.\<close>

fun kind_shape :: "mi_page_kind \<Rightarrow> nat \<times> nat \<times> nat" where
  "kind_shape MI_PAGE_SMALL = (13, 16, 1280)"
| "kind_shape MI_PAGE_MEDIUM = (15, 4, 512)"
| "kind_shape MI_PAGE_LARGE = (17, 1, 256)"
| "kind_shape MI_PAGE_HUGE = (17, 1, 256)"

definition segment_shape :: "addr \<Rightarrow> mi_segment \<Rightarrow> bool" where
  "segment_shape a sg \<longleftrightarrow>
     a \<noteq> 0 \<and> 131072 dvd unat a \<and> unat a + unat (sg_segment_size sg) < 2 ^ 64 \<and>
     (unat (sg_page_shift sg), unat (sg_capacity sg), unat (sg_info_size sg)) = kind_shape (sg_page_kind sg) \<and>
     (if sg_page_kind sg = MI_PAGE_HUGE then 131072 \<le> unat (sg_segment_size sg)
      else sg_segment_size sg = MI_SEGMENT_SIZE)"

definition page_in_segment :: "page_id \<Rightarrow> mstate \<Rightarrow> bool" where
  "page_in_segment p s \<longleftrightarrow> segment_shape (fst p) (st_segment s (fst p)) \<and>
     snd p < unat (sg_capacity (st_segment s (fst p))) \<and> unat (pg_segment_idx (st_page s p)) = snd p"

text \<open>The largest block sizes of the pages whose start is aligned to the block size.\<close>

definition block_size_fits :: "u64 \<Rightarrow> mi_segment \<Rightarrow> bool" where
  "block_size_fits bs sg \<longleftrightarrow>
     (sg_page_kind sg = MI_PAGE_SMALL \<longrightarrow> bs \<le> MI_SMALL_OBJ_SIZE_MAX) \<and>
     (sg_page_kind sg = MI_PAGE_MEDIUM \<longrightarrow> bs \<le> MI_MEDIUM_OBJ_SIZE_MAX)"


section \<open>The areas of pages\<close>

definition page_stride :: "mi_segment \<Rightarrow> nat" where
  "page_stride sg = (if sg_page_kind sg = MI_PAGE_HUGE then unat (sg_segment_size sg) else 2 ^ unat (sg_page_shift sg))"

lemma segment_shape_stride:
  assumes "segment_shape a sg"
  shows "unat (sg_capacity sg) * page_stride sg = unat (sg_segment_size sg)"
    and "unat (sg_info_size sg) < page_stride sg" and "unat (sg_capacity sg) \<le> 16"
    and "unat (sg_page_shift sg) \<le> 17"
  using assms by (cases "sg_page_kind sg"; simp add: segment_shape_def page_stride_def mi_consts)+

lemma unat_page_stride:
  assumes "segment_shape a sg"
  shows "unat (if sg_page_kind sg = MI_PAGE_HUGE then sg_segment_size sg
     else push_bit (unat (sg_page_shift sg)) 1 :: u64) = page_stride sg"
  using assms by (cases "sg_page_kind sg") (auto simp: segment_shape_def page_stride_def unat_push_bit_bounded)

lemma raw_page_start_unat:
  assumes P: "page_in_segment p s"
  defines "sg \<equiv> st_segment s (fst p)"
  defines "pre \<equiv> (if snd p = 0 then unat (sg_info_size sg) else 0)"
  shows "unat (fst (mi_segment_raw_page_start p s)) = unat (fst p) + snd p * page_stride sg + pre"
    and "unat (snd (mi_segment_raw_page_start p s)) = page_stride sg - pre"
    and "snd p * page_stride sg + page_stride sg \<le> unat (sg_segment_size sg)"
proof -
  have shape: "segment_shape (fst p) sg" and cap: "snd p < unat (sg_capacity sg)"
    and idx: "unat (pg_segment_idx (st_page s p)) = snd p"
    using P by (simp_all add: page_in_segment_def sg_def)
  note S = segment_shape_stride [OF shape]
  define ps where
    "ps = (if sg_page_kind sg = MI_PAGE_HUGE then sg_segment_size sg else push_bit (unat (sg_page_shift sg)) 1 :: u64)"
  have stride: "unat ps = page_stride sg"
    unfolding ps_def by (rule unat_page_stride [OF shape])
  have "(snd p + 1) * page_stride sg \<le> unat (sg_capacity sg) * page_stride sg"
    using cap by (intro mult_le_mono1) simp
  then show bound: "snd p * page_stride sg + page_stride sg \<le> unat (sg_segment_size sg)"
    unfolding S(1) by simp
  have top: "unat (fst p) + unat (sg_segment_size sg) < 2 ^ 64"
    using shape by (simp add: segment_shape_def)
  have mult: "unat (ucast (pg_segment_idx (st_page s p)) * ps) = snd p * page_stride sg"
    using bound top S(2) by (subst unat_mult_bounded) (simp_all only: stride idx unat_ucast_widen, simp_all)
  have sum: "unat (fst p + ucast (pg_segment_idx (st_page s p)) * ps) = unat (fst p) + snd p * page_stride sg"
    using bound top S(2) by (subst unat_add_bounded) (simp_all only: mult, simp_all)
  have z: "pg_segment_idx (st_page s p) = 0 \<longleftrightarrow> snd p = 0"
    using idx by (metis unat_0 unat_eq_zero)
  have sum0: "unat (fst p + ucast (pg_segment_idx (st_page s p)) * ps + sg_info_size sg)
      = unat (fst p) + snd p * page_stride sg + unat (sg_info_size sg)"
    using bound top S(2) by (subst unat_add_bounded) (simp_all only: sum, simp_all)
  have sub0: "unat (ps - sg_info_size sg) = page_stride sg - unat (sg_info_size sg)"
    using S(2) by (simp add: unat_sub_bounded stride)
  show "unat (fst (mi_segment_raw_page_start p s)) = unat (fst p) + snd p * page_stride sg + pre"
    using sum sum0 z
    by (cases "snd p = 0") (simp_all add: mi_segment_raw_page_start_def Let_def pre_def flip: sg_def ps_def)
  show "unat (snd (mi_segment_raw_page_start p s)) = page_stride sg - pre"
    using stride sub0 z
    by (cases "snd p = 0") (simp_all add: mi_segment_raw_page_start_def Let_def pre_def flip: sg_def ps_def)
qed

text \<open>The area left after aligning the start to the block size.\<close>

lemma page_start_unat:
  assumes P: "page_in_segment p s" and fits: "block_size_fits bs (st_segment s (fst p))"
    and run: "mi_segment_page_start p bs s = (q, psz, pre)"
  defines "sg \<equiv> st_segment s (fst p)"
  shows "unat (fst p) + snd p * page_stride sg + (if snd p = 0 then unat (sg_info_size sg) else 0) \<le> unat q"
    and "unat q + unat psz = unat (fst p) + snd p * page_stride sg + page_stride sg"
    and "snd p = 0 \<Longrightarrow> page_kind_le_medium (sg_page_kind sg) \<Longrightarrow> 0 < bs \<Longrightarrow> unat bs dvd unat q"
    and "unat pre = (if snd p = 0 then unat q - unat (fst p) - unat (sg_info_size sg) else 0)"
    and "snd p \<noteq> 0 \<Longrightarrow> unat q = unat (fst p) + snd p * page_stride sg"
proof -
  obtain r rs where raw: "mi_segment_raw_page_start p s = (r, rs)" by (cases "mi_segment_raw_page_start p s")
  note R = raw_page_start_unat [OF P, folded sg_def, unfolded raw fst_conv snd_conv]
  have shape: "segment_shape (fst p) sg" and idx: "unat (pg_segment_idx (st_page s p)) = snd p"
    using P by (simp_all add: page_in_segment_def sg_def)
  note S = segment_shape_stride [OF shape]
  have z: "pg_segment_idx (st_page s p) = 0 \<longleftrightarrow> snd p = 0"
    using idx by (metis unat_0 unat_eq_zero)
  let ?adj = "bs - r mod bs"
  have adj: "unat ?adj = unat bs - unat r mod unat bs" if "0 < bs"
    using that by (subst unat_sub_bounded) (simp_all add: unat_mod_distrib word_less_nat_alt)
  have eq: "(q, psz, pre) = (if snd p = 0 \<and> 0 < bs \<and> page_kind_le_medium (sg_page_kind sg) \<and> ?adj < bs
      then (r + ?adj, rs - ?adj, ?adj) else (r, rs, 0))"
    using run by (auto simp: mi_segment_page_start_def raw Let_def z sg_def split: if_splits)
  have small: "unat bs \<le> unat rs" if "snd p = 0" "page_kind_le_medium (sg_page_kind sg)"
    using that fits shape R(2)
    by (auto simp: page_kind_le_medium_iff block_size_fits_def segment_shape_def page_stride_def sg_def
        word_le_nat_alt mi_consts)
  have top: "unat r + unat rs \<le> 2 ^ 64"
    using R shape S(2) by (auto simp: segment_shape_def split: if_splits)
  have fin: "unat (fst p) + snd p * page_stride sg + (if snd p = 0 then unat (sg_info_size sg) else 0) \<le> unat q \<and>
    unat q + unat psz = unat (fst p) + snd p * page_stride sg + page_stride sg \<and>
    (snd p = 0 \<longrightarrow> page_kind_le_medium (sg_page_kind sg) \<longrightarrow> 0 < bs \<longrightarrow> unat bs dvd unat q) \<and>
    unat pre = (if snd p = 0 then unat q - unat (fst p) - unat (sg_info_size sg) else 0) \<and>
    (snd p \<noteq> 0 \<longrightarrow> unat q = unat (fst p) + snd p * page_stride sg)"
  proof (cases "snd p = 0 \<and> 0 < bs \<and> page_kind_le_medium (sg_page_kind sg) \<and> ?adj < bs")
    case True
    then have e: "q = r + ?adj" "psz = rs - ?adj" "pre = ?adj" using eq by simp_all
    have a: "unat ?adj < unat bs" "unat ?adj < unat rs" using True small by (auto simp: word_less_nat_alt)
    then have uq: "unat q = unat r + unat ?adj" and up: "unat psz = unat rs - unat ?adj"
      using top True by (simp_all add: e unat_add_bounded unat_sub_bounded)
    have "unat bs dvd unat r + (unat bs - unat r mod unat bs)"
    proof -
      have "unat r mod unat bs \<le> unat bs" using True by (simp add: word_less_nat_alt less_imp_le)
      then have "unat r + (unat bs - unat r mod unat bs) = (unat r - unat r mod unat bs) + unat bs" by simp
      then show ?thesis by (simp add: minus_mod_eq_div_mult)
    qed
    then have "unat bs dvd unat q" using uq adj True by simp
    then show ?thesis using uq up a R S(2) True by (simp add: e(3))
  next
    case False
    then have e: "q = r" "psz = rs" "pre = 0" using eq by (simp_all split: if_splits)
    have "unat bs dvd unat r" if "snd p = 0" "page_kind_le_medium (sg_page_kind sg)" "0 < bs"
    proof -
      have "\<not> ?adj < bs" using False that by simp
      then have "unat r mod unat bs = 0" using adj that(3) by (simp add: word_less_nat_alt)
      then show ?thesis by auto
    qed
    then show ?thesis using R S(2) by (simp add: e)
  qed
  then show "unat (fst p) + snd p * page_stride sg + (if snd p = 0 then unat (sg_info_size sg) else 0) \<le> unat q"
    "unat q + unat psz = unat (fst p) + snd p * page_stride sg + page_stride sg"
    "unat pre = (if snd p = 0 then unat q - unat (fst p) - unat (sg_info_size sg) else 0)" by simp_all
  show "snd p = 0 \<Longrightarrow> page_kind_le_medium (sg_page_kind sg) \<Longrightarrow> 0 < bs \<Longrightarrow> unat bs dvd unat q"
    "snd p \<noteq> 0 \<Longrightarrow> unat q = unat (fst p) + snd p * page_stride sg"
    using fin by simp_all
qed


section \<open>From an address back to its page\<close>

lemma mi_ptr_segment_in:
  assumes "131072 dvd unat a" and "unat a \<le> unat q" and "unat q < unat a + 131072"
  shows "mi_ptr_segment q = a"
proof -
  have "unat q mod 131072 = unat q - unat a"
  proof -
    obtain k where k: "unat a = 131072 * k" using assms(1) by (rule dvdE)
    have "unat q = (unat q - unat a) + 131072 * k" using assms(2) k by simp
    then have "unat q mod 131072 = (unat q - unat a) mod 131072" by (metis mod_mult_self2)
    then show ?thesis using assms(2,3) by simp
  qed
  then have "unat (mi_ptr_segment q) = unat a"
    using assms(2) by (simp add: mi_ptr_segment_def MI_SEGMENT_MASK_eq_mask unat_and_not_mask)
  then show ?thesis by (rule unsigned_word_eqI)
qed

lemma mi_ptr_page_in:
  assumes P: "page_in_segment p s"
    and lo: "unat (fst p) + snd p * page_stride (st_segment s (fst p)) \<le> unat q"
    and hi: "unat q < unat (fst p) + snd p * page_stride (st_segment s (fst p)) + page_stride (st_segment s (fst p))"
    and near: "unat q < unat (fst p) + 131072"
  shows "mi_ptr_page q s = p" and "mi_ptr_segment q = fst p"
proof -
  define sg where "sg = st_segment s (fst p)"
  have shape: "segment_shape (fst p) sg" and cap: "snd p < unat (sg_capacity sg)"
    using P by (simp_all add: page_in_segment_def sg_def)
  have al: "131072 dvd unat (fst p)" using shape by (simp add: segment_shape_def)
  show seg: "mi_ptr_segment q = fst p"
    using lo near by (intro mi_ptr_segment_in [OF al]) simp_all
  have off: "unat (q - fst p) = unat q - unat (fst p)"
    using lo by (intro unat_sub_bounded) simp
  have "(unat q - unat (fst p)) div 2 ^ unat (sg_page_shift sg) = snd p"
  proof (cases "sg_page_kind sg = MI_PAGE_HUGE")
    case True
    then have "unat (sg_page_shift sg) = 17" "snd p = 0"
      using shape cap by (simp_all add: segment_shape_def)
    then show ?thesis using near lo by simp
  next
    case False
    then have st: "page_stride sg = 2 ^ unat (sg_page_shift sg)" by (simp add: page_stride_def)
    have "snd p * 2 ^ unat (sg_page_shift sg) \<le> unat q - unat (fst p)"
      "unat q - unat (fst p) < Suc (snd p) * 2 ^ unat (sg_page_shift sg)"
      using lo hi by (simp_all add: st flip: sg_def)
    then show ?thesis by (intro div_nat_eqI) (simp_all add: mult.commute)
  qed
  then have "unat (mi_segment_page_idx_of (fst p) q s) = snd p"
    by (simp add: mi_segment_page_idx_of_def unat_drop_bit_div off flip: sg_def)
  then show "mi_ptr_page q s = p"
    by (simp add: mi_ptr_page_def seg mi_segment_page_of_def)
qed

text \<open>
  C20. The area that \<open>_mi_segment_page_start\<close> gives a page of an initialised segment lies inside the
  segment, after its header, and starts at a multiple of the block size on the first page of a small
  or medium segment. Every address of the area leads back to the page, which is what \<open>mi_free\<close>
  relies on, except on a huge page, where only the addresses in the first 128 KiB of the segment do.
\<close>

theorem mi_segment_page_start_area:
  assumes "page_in_segment p s" and "block_size_fits bs (st_segment s (fst p))"
    and "mi_segment_page_start p bs s = (start, psize, pre)"
  defines "sg \<equiv> st_segment s (fst p)"
  shows "unat (fst p) + unat (sg_info_size sg) \<le> unat start
    \<and> unat start + unat psize \<le> unat (fst p) + unat (sg_segment_size sg)
    \<and> (snd p = 0 \<and> page_kind_le_medium (sg_page_kind sg) \<and> 0 < bs \<longrightarrow> unat bs dvd unat start)
    \<and> (\<forall>q. unat start \<le> unat q \<and> unat q < unat start + unat psize
        \<and> (sg_page_kind sg = MI_PAGE_HUGE \<longrightarrow> unat q < unat (fst p) + 131072)
        \<longrightarrow> mi_ptr_page q s = p)"
proof -
  note S = page_start_unat [OF assms(1-3), folded sg_def]
  have shape: "segment_shape (fst p) sg" using assms(1) by (simp add: page_in_segment_def sg_def)
  note T = segment_shape_stride [OF shape]
  have lo: "unat (fst p) + unat (sg_info_size sg) \<le> unat start"
  proof (cases "snd p")
    case 0
    then show ?thesis using S(1) by simp
  next
    case (Suc i)
    then have "unat (fst p) + page_stride sg \<le> unat start" using S(1) by simp
    then show ?thesis using T(2) by simp
  qed
  have hi: "unat start + unat psize \<le> unat (fst p) + unat (sg_segment_size sg)"
    using S(2) raw_page_start_unat(3) [OF assms(1), folded sg_def] by simp
  have "mi_ptr_page q s = p"
    if "unat start \<le> unat q" "unat q < unat start + unat psize"
      "sg_page_kind sg = MI_PAGE_HUGE \<longrightarrow> unat q < unat (fst p) + 131072" for q
  proof -
    have "unat (sg_segment_size sg) = 131072" if "sg_page_kind sg \<noteq> MI_PAGE_HUGE"
      using shape that by (simp add: segment_shape_def mi_consts)
    then have "unat q < unat (fst p) + 131072" using that hi by (cases "sg_page_kind sg = MI_PAGE_HUGE") auto
    with that S(1,2) show ?thesis by (intro mi_ptr_page_in(1) [OF assms(1)]) (simp_all flip: sg_def)
  qed
  then show ?thesis using lo hi S(3) by blast
qed

definition segment_example :: "mi_page_kind \<Rightarrow> mi_segment" where
  "segment_example k = mi_segment_zero\<lparr>sg_page_kind := k, sg_segment_size := MI_SEGMENT_SIZE,
     sg_page_shift := word_of_nat (fst (kind_shape k)), sg_capacity := word_of_nat (fst (snd (kind_shape k))),
     sg_info_size := word_of_nat (snd (snd (kind_shape k)))\<rparr>"

definition geometry_example :: mstate where
  "geometry_example = segment_upd 0x20000 (\<lambda>_. segment_example MI_PAGE_SMALL)
     (page_upd (0x20000, 1) (\<lambda>pg. pg\<lparr>pg_segment_idx := 1\<rparr>) (mstate_load os_env_once))"

lemma geometry_example_page: "page_in_segment (0x20000, 0) geometry_example" "page_in_segment (0x20000, 1) geometry_example"
  by (simp_all add: page_in_segment_def geometry_example_def store_simps segment_shape_def
      segment_example_def mi_consts mi_page_empty_def)

lemma mi_segment_page_start_area_witness: "mi_ptr_page 0x20500 geometry_example = (0x20000, 0)"
proof -
  have sg: "st_segment geometry_example 0x20000 = segment_example MI_PAGE_SMALL"
    "pg_segment_idx (st_page geometry_example (0x20000, 0)) = 0"
    by (simp_all add: geometry_example_def store_simps mi_page_empty_def)
  have "mi_segment_page_start (0x20000, 0) 16 geometry_example = (0x20500, 6912, 0)"
    by (simp add: mi_segment_page_start_def mi_segment_raw_page_start_def sg segment_example_def
        page_kind_le_medium_iff)
  from mi_segment_page_start_area [OF geometry_example_page(1) _ this] show ?thesis
    by (simp add: sg block_size_fits_def segment_example_def mi_consts)
qed

end
