(* ===== verification/Blocks.thy ===== *)
theory Blocks
  imports Geometry
begin

text \<open>
  The block lists of a page (\<open>page.c\<close>): collecting the blocks freed by the own thread and by other
  threads, and extending the free list into fresh memory. A list is related to the HOL list of its
  blocks, and a page to three disjoint lists and the blocks its user holds.
\<close>

section \<open>Collecting free blocks\<close>

definition mi_block_next :: "addr \<Rightarrow> mstate \<Rightarrow> addr" where
  "mi_block_next block s = st_block s block"

definition mi_block_set_next :: "addr \<Rightarrow> addr \<Rightarrow> mstate \<Rightarrow> mstate" where
  "mi_block_set_next block nxt = block_upd block nxt"

text \<open>The bounded search for the tail; the count stays below \<open>2 ^ 16 + 1\<close> and does not wrap.\<close>

function thread_free_tail :: "(addr \<Rightarrow> addr) \<Rightarrow> nat \<Rightarrow> nat \<Rightarrow> addr \<Rightarrow> nat \<times> addr" where
  "thread_free_tail nx max_count count tail =
     (if nx tail \<noteq> 0 \<and> count \<le> max_count then thread_free_tail nx max_count (count + 1) (nx tail)
      else (count, tail))"
  by pat_completeness auto
termination by (relation "measure (\<lambda>(_, max_count, count, _). max_count + 1 - count)") auto

declare thread_free_tail.simps [simp del]

definition mi_page_thread_free_collect :: "page_id \<Rightarrow> mstate \<Rightarrow> mstate" where
  "mi_page_thread_free_collect p s =
     (let tfree = pg_xthread_free (st_page s p);
          head = mi_tf_block tfree;
          s = page_upd p (\<lambda>pg. pg\<lparr>pg_xthread_free := mi_tf_set_block tfree 0\<rparr>) s
      in if head = 0 then s
         else
           let max_count = unat (pg_capacity (st_page s p));
               (count, tail) = thread_free_tail (st_block s) max_count 1 head
           in if max_count < count then s
              else
                let s = mi_block_set_next tail (pg_local_free (st_page s p)) s;
                    s = page_upd p (\<lambda>pg. pg\<lparr>pg_local_free := head\<rparr>) s
                in page_upd p (\<lambda>pg. pg\<lparr>pg_used := pg_used pg - word_of_nat count\<rparr>) s)"

partial_function (option) block_tail :: "(addr \<Rightarrow> addr) \<Rightarrow> addr \<Rightarrow> addr option" where
  "block_tail nx tail = (if nx tail \<noteq> 0 then block_tail nx (nx tail) else Some tail)"

definition page_free_take_local :: "page_id \<Rightarrow> mstate \<Rightarrow> mstate" where
  "page_free_take_local p s =
     page_upd p (\<lambda>pg. pg\<lparr>pg_free := pg_local_free pg, pg_local_free := 0, pg_is_zero := False\<rparr>) s"

text \<open>\<open>None\<close> is the endless search for the tail of a cyclic list.\<close>

definition mi_page_free_collect :: "page_id \<Rightarrow> bool \<Rightarrow> mstate \<Rightarrow> mstate option" where
  "mi_page_free_collect p force s =
     (let s = (if force \<or> mi_page_thread_free (st_page s p) \<noteq> 0 then mi_page_thread_free_collect p s else s);
          pg = st_page s p
      in if pg_local_free pg \<noteq> 0 then
           (if pg_free pg = 0 then Some (page_free_take_local p s)
            else if force then do {
              tail \<leftarrow> block_tail (st_block s) (pg_local_free pg);
              Some (page_free_take_local p (mi_block_set_next tail (pg_free pg) s))
            }
            else Some s)
         else Some s)"

section \<open>Extending the free list\<close>

partial_function (option) extend_loop :: "u64 \<Rightarrow> addr \<Rightarrow> addr \<Rightarrow> mstate \<Rightarrow> mstate option" where
  "extend_loop bsize lst block s =
     (if block \<le> lst
      then let nxt = block + bsize in extend_loop bsize lst nxt (mi_block_set_next block nxt s)
      else Some s)"

definition mi_page_free_list_extend :: "page_id \<Rightarrow> u64 \<Rightarrow> u64 \<Rightarrow> mstate \<Rightarrow> mstate option" where
  "mi_page_free_list_extend p bsize ext s =
     (let page_area = fst (mi_page_start p s);
          capacity = ucast (pg_capacity (st_page s p));
          start = mi_page_block_at page_area bsize capacity;
          lst = mi_page_block_at page_area bsize (capacity + ext - 1)
      in do {
        s \<leftarrow> extend_loop bsize lst start s;
        let s = mi_block_set_next lst (pg_free (st_page s p)) s;
        Some (page_upd p (\<lambda>pg. pg\<lparr>pg_free := start\<rparr>) s)
      })"

definition MI_MAX_EXTEND_SIZE :: u64 where [mi_consts]: "MI_MAX_EXTEND_SIZE = 4096"
definition MI_MIN_EXTEND :: u64 where [mi_consts]: "MI_MIN_EXTEND = 1"

text \<open>How many blocks to add; \<open>None\<close> is the division by a block size of 0.\<close>

definition extend_count :: "u64 \<Rightarrow> u64 \<Rightarrow> u64 option" where
  "extend_count bsize ext =
     (if bsize = 0 then None
      else
        let max_extend = (if MI_MAX_EXTEND_SIZE \<le> bsize then MI_MIN_EXTEND else MI_MAX_EXTEND_SIZE div bsize);
            max_extend = (if max_extend < MI_MIN_EXTEND then MI_MIN_EXTEND else max_extend)
        in Some (if max_extend < ext then (if max_extend = 0 then 1 else max_extend) else ext))"

definition mi_page_extend_free :: "page_id \<Rightarrow> mstate \<Rightarrow> mstate option" where
  "mi_page_extend_free p s =
     (let pg = st_page s p in
      if pg_free pg \<noteq> 0 then Some s
      else if pg_reserved pg \<le> pg_capacity pg then Some s
      else
        let page_size = snd (mi_page_start p s);
            bsize = (if pg_xblock_size pg < MI_HUGE_BLOCK_SIZE then ucast (pg_xblock_size pg) else page_size)
        in do {
          ext \<leftarrow> extend_count bsize (ucast (pg_reserved pg) - ucast (pg_capacity pg));
          s \<leftarrow> mi_page_free_list_extend p bsize ext s;
          let s = page_upd p (\<lambda>pg. pg\<lparr>pg_capacity := pg_capacity pg + ucast ext\<rparr>) s;
          Some (if pg_is_zero_init (st_page s p) then s
                else page_upd p (\<lambda>pg. pg\<lparr>pg_is_zero := False\<rparr>) s)
        })"

definition mi_page_init :: "addr \<Rightarrow> page_id \<Rightarrow> u64 \<Rightarrow> mstate \<Rightarrow> mstate option" where
  "mi_page_init heap p block_size s =
     (if block_size = 0 then None
      else
        let s = mi_page_set_heap p heap s;
            (_, page_size, _) = mi_segment_page_start p block_size s;
            s = page_upd p (\<lambda>pg. pg\<lparr>pg_xblock_size :=
                  (if block_size < ucast MI_HUGE_BLOCK_SIZE then ucast block_size else MI_HUGE_BLOCK_SIZE)\<rparr>) s;
            s = page_upd p (\<lambda>pg. pg\<lparr>pg_reserved := ucast (page_size div block_size)\<rparr>) s;
            s = page_upd p (\<lambda>pg. pg\<lparr>pg_is_zero := pg_is_zero_init pg\<rparr>) s
        in mi_page_extend_free p s)"

section \<open>Block lists\<close>

fun chain :: "(addr \<Rightarrow> addr) \<Rightarrow> addr \<Rightarrow> addr list \<Rightarrow> bool" where
  "chain nx b [] = (b = 0)"
| "chain nx b (x # xs) = (b = x \<and> x \<noteq> 0 \<and> chain nx (nx x) xs)"

lemma chain_zero [simp]: "chain nx 0 xs \<longleftrightarrow> xs = []"
  by (cases xs) auto

lemma chain_nonzero: "chain nx b xs \<Longrightarrow> b \<noteq> 0 \<longleftrightarrow> xs \<noteq> []"
  by (cases xs) auto

lemma chain_cong: "(\<And>x. x \<in> set xs \<Longrightarrow> nx x = nx' x) \<Longrightarrow> chain nx b xs = chain nx' b xs"
  by (induction xs arbitrary: b) auto

lemma chain_upd_other [simp]: "c \<notin> set xs \<Longrightarrow> chain (nx(c := d)) b xs = chain nx b xs"
  by (rule chain_cong) auto

lemma chain_unique: "chain nx b xs \<Longrightarrow> chain nx b ys \<Longrightarrow> xs = ys"
proof (induction xs arbitrary: b ys)
  case Nil
  then show ?case by simp
next
  case (Cons x xs)
  then show ?case by (cases ys) auto
qed

lemma chain_relink:
  assumes "chain nx b xs" and "xs \<noteq> []" and "chain nx c ys" and "distinct xs" and "set xs \<inter> set ys = {}"
  shows "chain (nx(last xs := c)) b (xs @ ys)"
  using assms
proof (induction xs arbitrary: b)
  case (Cons x xs)
  show ?case
  proof (cases "xs = []")
    case True
    then show ?thesis using Cons.prems by (auto simp: chain_nonzero intro: chain_cong [THEN iffD1, rotated])
  next
    case False
    then have "last xs \<noteq> x" using Cons.prems(4) last_in_set [OF False] by auto
    then show ?thesis using Cons False by simp
  qed
qed simp

lemma thread_free_tail_chain:
  assumes "chain nx b xs" and "xs \<noteq> []" and "count + length xs \<le> max_count + 1"
  shows "thread_free_tail nx max_count count b = (count + length xs - 1, last xs)"
  using assms
proof (induction xs arbitrary: b count)
  case (Cons x xs)
  show ?case
  proof (cases "xs = []")
    case True
    then show ?thesis using Cons.prems by (simp add: thread_free_tail.simps [of nx])
  next
    case False
    then have "nx x \<noteq> 0" using Cons.prems(1) chain_nonzero [of nx "nx x" xs] by simp
    moreover have "count \<le> max_count" using Cons.prems(3) False by (cases xs) auto
    ultimately show ?thesis
      using Cons.IH [of "nx x" "count + 1"] Cons.prems False
      by (subst thread_free_tail.simps) simp
  qed
qed simp

lemma thread_free_tail_long:
  assumes "chain nx b xs" and "max_count + 1 < count + length xs" and "count \<le> max_count + 1"
  shows "max_count < fst (thread_free_tail nx max_count count b)"
  using assms
proof (induction xs arbitrary: b count)
  case (Cons x xs)
  show ?case
  proof (cases "count \<le> max_count")
    case True
    then have "xs \<noteq> []" using Cons.prems(2) by auto
    then have "nx x \<noteq> 0" using Cons.prems(1) chain_nonzero [of nx "nx x" xs] by simp
    then show ?thesis
      using Cons.IH [of "nx x" "count + 1"] Cons.prems True by (subst thread_free_tail.simps) simp
  next
    case False
    then show ?thesis by (subst thread_free_tail.simps) simp
  qed
qed simp

lemma block_tail_chain: "chain nx b xs \<Longrightarrow> xs \<noteq> [] \<Longrightarrow> block_tail nx b = Some (last xs)"
proof (induction xs arbitrary: b)
  case (Cons x xs)
  then show ?case
    using chain_nonzero [of nx "nx x" xs] by (subst block_tail.simps) auto
qed simp


section \<open>A page and its lists\<close>

definition page_lists :: "page_id \<Rightarrow> addr list \<Rightarrow> addr list \<Rightarrow> addr list \<Rightarrow> mstate \<Rightarrow> bool" where
  "page_lists p F L T s \<longleftrightarrow>
     chain (st_block s) (pg_free (st_page s p)) F \<and> chain (st_block s) (pg_local_free (st_page s p)) L \<and>
     chain (st_block s) (mi_page_thread_free (st_page s p)) T \<and> distinct (F @ L @ T)"

text \<open>
  An operation on the lists of page \<open>p\<close> writes to the words of the blocks \<open>B\<close> and, in the page, to
  the heads of the lists, the counts and the zero flag only.
\<close>

definition page_fixed :: "mi_page \<Rightarrow> mi_page" where
  "page_fixed pg = pg\<lparr>pg_free := 0, pg_local_free := 0, pg_xthread_free := 0, pg_used := 0, pg_capacity := 0, pg_is_zero := False\<rparr>"

definition list_frame :: "page_id \<Rightarrow> addr set \<Rightarrow> mstate \<Rightarrow> mstate \<Rightarrow> bool" where
  "list_frame p B s s' \<longleftrightarrow> s' = s\<lparr>st_block := st_block s', st_page := st_page s'\<rparr> \<and>
     (\<forall>q. q \<noteq> p \<longrightarrow> st_page s' q = st_page s q) \<and> (\<forall>b. b \<notin> B \<longrightarrow> st_block s' b = st_block s b) \<and>
     page_fixed (st_page s' p) = page_fixed (st_page s p)"

lemma list_frame_refl: "list_frame p B s s"
  by (simp add: list_frame_def)

lemma list_frame_trans:
  assumes "list_frame p B s t" and "list_frame p C t u"
  shows "list_frame p (B \<union> C) s u"
proof -
  obtain bt pt where t: "t = s\<lparr>st_block := bt, st_page := pt\<rparr>"
    using assms(1) unfolding list_frame_def by blast
  obtain bu pu where u: "u = t\<lparr>st_block := bu, st_page := pu\<rparr>"
    using assms(2) unfolding list_frame_def by blast
  have "u = s\<lparr>st_block := st_block u, st_page := st_page u\<rparr>" by (simp add: u t)
  moreover have "st_page u q = st_page s q" if "q \<noteq> p" for q
    using assms that unfolding list_frame_def by metis
  moreover have "st_block u b = st_block s b" if "b \<notin> B \<union> C" for b
    using assms that unfolding list_frame_def by (metis UnI1 UnI2)
  ultimately show ?thesis using assms unfolding list_frame_def by metis
qed

lemma list_frame_mono: "list_frame p B s t \<Longrightarrow> B \<subseteq> C \<Longrightarrow> list_frame p C s t"
  by (auto simp: list_frame_def)

lemma list_frame_page:
  assumes "\<And>pg. page_fixed (f pg) = page_fixed pg"
  shows "list_frame p B s (page_upd p f s)"
  using assms by (simp add: list_frame_def page_upd_def)

lemma list_frame_block: "b \<in> B \<Longrightarrow> list_frame p B s (mi_block_set_next b n s)"
  by (auto simp: list_frame_def mi_block_set_next_def block_upd_def)

lemma list_frame_step:
  assumes "list_frame p B s t"
  shows "(\<And>pg. page_fixed (f pg) = page_fixed pg) \<Longrightarrow> list_frame p B s (page_upd p f t)"
    and "b \<in> B \<Longrightarrow> list_frame p B s (mi_block_set_next b n t)"
  using list_frame_trans [OF assms list_frame_page, of f B] list_frame_trans [OF assms list_frame_block, of b B n]
  by simp_all

lemma list_frame_fields:
  assumes "list_frame p B s s'"
  shows "st_segment s' = st_segment s" "st_heap s' = st_heap s" "st_tld s' = st_tld s"
    "queue_of q s' = queue_of q s" "pg_xblock_size (st_page s' m) = pg_xblock_size (st_page s m)"
    "pg_reserved (st_page s' m) = pg_reserved (st_page s m)" "pg_xheap (st_page s' m) = pg_xheap (st_page s m)"
    "pg_segment_idx (st_page s' m) = pg_segment_idx (st_page s m)"
    "pg_in_full (st_page s' m) = pg_in_full (st_page s m)" "pg_next (st_page s' m) = pg_next (st_page s m)"
    "pg_prev (st_page s' m) = pg_prev (st_page s m)" "pg_segment_in_use (st_page s' m) = pg_segment_in_use (st_page s m)"
proof -
  obtain bl pgs where s': "s' = s\<lparr>st_block := bl, st_page := pgs\<rparr>"
    using assms unfolding list_frame_def by blast
  have pg: "page_fixed (st_page s' m) = page_fixed (st_page s m)"
    using assms unfolding list_frame_def by metis
  show "st_segment s' = st_segment s" "st_heap s' = st_heap s" "st_tld s' = st_tld s" "queue_of q s' = queue_of q s"
    by (simp_all add: s' queue_of_def)
  show "pg_xblock_size (st_page s' m) = pg_xblock_size (st_page s m)"
    "pg_reserved (st_page s' m) = pg_reserved (st_page s m)" "pg_xheap (st_page s' m) = pg_xheap (st_page s m)"
    "pg_segment_idx (st_page s' m) = pg_segment_idx (st_page s m)"
    "pg_in_full (st_page s' m) = pg_in_full (st_page s m)" "pg_next (st_page s' m) = pg_next (st_page s m)"
    "pg_prev (st_page s' m) = pg_prev (st_page s m)" "pg_segment_in_use (st_page s' m) = pg_segment_in_use (st_page s m)"
    using pg by (cases "st_page s' m"; cases "st_page s m"; simp add: page_fixed_def)+
qed

lemma mi_page_thread_free_eq: "mi_page_thread_free pg = mi_tf_block (pg_xthread_free pg)"
  by (simp add: mi_page_thread_free_def mi_tf_block_def)

lemma mi_tf_set_block_zero [simp]: "mi_tf_block (mi_tf_set_block tf 0) = 0"
  by (simp add: mi_tf_set_block_def)

lemma mi_tf_delayed_set_block [simp]: "mi_tf_delayed (mi_tf_set_block tf 0) = mi_tf_delayed tf"
  by (simp add: mi_tf_set_block_def)

lemma thread_free_collect_lists:
  assumes P: "page_lists p F L T s" and T: "length T \<le> unat (pg_capacity (st_page s p))"
  defines "s' \<equiv> mi_page_thread_free_collect p s"
  shows "page_lists p F (T @ L) [] s'" and "list_frame p (set T) s s'"
    and "pg_used (st_page s' p) = pg_used (st_page s p) - word_of_nat (length T)"
    and "pg_capacity (st_page s' p) = pg_capacity (st_page s p)"
    and "mi_page_thread_free_flag (st_page s' p) = mi_page_thread_free_flag (st_page s p)"
proof -
  let ?pg = "st_page s p" and ?tf = "mi_tf_set_block (pg_xthread_free (st_page s p)) 0"
  have ch: "chain (st_block s) (pg_free ?pg) F" "chain (st_block s) (pg_local_free ?pg) L"
    "chain (st_block s) (mi_tf_block (pg_xthread_free ?pg)) T" and d: "distinct (F @ L @ T)"
    using P by (simp_all add: page_lists_def mi_page_thread_free_eq)
  have "page_lists p F (T @ L) [] s' \<and> list_frame p (set T) s s' \<and>
    pg_used (st_page s' p) = pg_used ?pg - word_of_nat (length T) \<and> pg_capacity (st_page s' p) = pg_capacity ?pg \<and>
    mi_page_thread_free_flag (st_page s' p) = mi_page_thread_free_flag ?pg"
  proof (cases "T = []")
    case True
    then have "s' = page_upd p (\<lambda>pg. pg\<lparr>pg_xthread_free := ?tf\<rparr>) s"
      using ch by (simp add: s'_def mi_page_thread_free_collect_def)
    then show ?thesis
      using ch d True
      by (simp add: page_lists_def store_simps mi_page_thread_free_eq mi_page_thread_free_flag_def
          list_frame_page page_fixed_def)
  next
    case False
    let ?h = "mi_tf_block (pg_xthread_free ?pg)"
    have h: "?h \<noteq> 0" using ch(3) False by (simp add: chain_nonzero)
    have tail: "thread_free_tail (st_block s) (unat (pg_capacity ?pg)) (Suc 0) ?h = (length T, last T)"
      using thread_free_tail_chain [OF ch(3) False, of "Suc 0" "unat (pg_capacity ?pg)"] T by simp
    have s': "s' = page_upd p (\<lambda>pg. pg\<lparr>pg_used := pg_used pg - word_of_nat (length T)\<rparr>)
        (page_upd p (\<lambda>pg. pg\<lparr>pg_local_free := ?h\<rparr>)
          (mi_block_set_next (last T) (pg_local_free ?pg) (page_upd p (\<lambda>pg. pg\<lparr>pg_xthread_free := ?tf\<rparr>) s)))"
      using h T by (simp add: s'_def mi_page_thread_free_collect_def Let_def store_simps tail)
    have "list_frame p (set T) s s'"
      unfolding s' by (intro list_frame_step list_frame_refl) (use False in \<open>simp_all add: page_fixed_def\<close>)
    moreover have "chain ((st_block s)(last T := pg_local_free ?pg)) ?h (T @ L)"
      using chain_relink [OF ch(3) False ch(2)] d by auto
    moreover have "last T \<notin> set F" using d False last_in_set [OF False] by auto
    ultimately show ?thesis
      using ch(1) d
      by (auto simp: page_lists_def s' store_simps mi_block_set_next_def mi_page_thread_free_eq
          mi_page_thread_free_flag_def)
  qed
  then show "page_lists p F (T @ L) [] s'" "list_frame p (set T) s s'"
    "pg_used (st_page s' p) = pg_used ?pg - word_of_nat (length T)"
    "pg_capacity (st_page s' p) = pg_capacity ?pg"
    "mi_page_thread_free_flag (st_page s' p) = mi_page_thread_free_flag ?pg" by simp_all
qed

text \<open>The lists after a collection.\<close>

fun collected :: "bool \<Rightarrow> addr list \<Rightarrow> addr list \<Rightarrow> addr list \<times> addr list" where
  "collected force [] L = (L, [])"
| "collected force (f # F) L = (if force then (L @ f # F, []) else (f # F, L))"

lemma mi_page_free_collect_lists:
  assumes P: "page_lists p F L T s" and T: "length T \<le> unat (pg_capacity (st_page s p))"
    and C: "collected force F (T @ L) = (F', L')"
  shows "\<exists>s'. mi_page_free_collect p force s = Some s' \<and> page_lists p F' L' [] s' \<and>
    list_frame p (set T \<union> set L) s s' \<and>
    pg_used (st_page s' p) = pg_used (st_page s p) - word_of_nat (length T) \<and>
    pg_capacity (st_page s' p) = pg_capacity (st_page s p) \<and>
    mi_page_thread_free_flag (st_page s' p) = mi_page_thread_free_flag (st_page s p)"
proof -
  define t where "t = (if force \<or> mi_page_thread_free (st_page s p) \<noteq> 0 then mi_page_thread_free_collect p s else s)"
  have t: "page_lists p F (T @ L) [] t" "list_frame p (set T) s t"
    "pg_used (st_page t p) = pg_used (st_page s p) - word_of_nat (length T)"
    "pg_capacity (st_page t p) = pg_capacity (st_page s p)"
    "mi_page_thread_free_flag (st_page t p) = mi_page_thread_free_flag (st_page s p)"
  proof -
    have "T = []" if "mi_page_thread_free (st_page s p) = 0" using P that by (simp add: page_lists_def)
    then show "page_lists p F (T @ L) [] t" "list_frame p (set T) s t"
      "pg_used (st_page t p) = pg_used (st_page s p) - word_of_nat (length T)"
      "pg_capacity (st_page t p) = pg_capacity (st_page s p)"
      "mi_page_thread_free_flag (st_page t p) = mi_page_thread_free_flag (st_page s p)"
      using thread_free_collect_lists [OF P T] P by (auto simp: t_def list_frame_refl)
  qed
  have ch: "chain (st_block t) (pg_free (st_page t p)) F" "chain (st_block t) (pg_local_free (st_page t p)) (T @ L)"
    "mi_page_thread_free (st_page t p) = 0" and d: "distinct (F @ T @ L)"
    using t(1) by (auto simp: page_lists_def)
  have run: "mi_page_free_collect p force s =
    (if pg_local_free (st_page t p) \<noteq> 0 then
       (if pg_free (st_page t p) = 0 then Some (page_free_take_local p t)
        else if force then do {
          tail \<leftarrow> block_tail (st_block t) (pg_local_free (st_page t p));
          Some (page_free_take_local p (mi_block_set_next tail (pg_free (st_page t p)) t))
        }
        else Some t)
     else Some t)"
    by (simp add: mi_page_free_collect_def t_def Let_def)
  have take: "list_frame p {} u (page_free_take_local p u)" for u
    unfolding page_free_take_local_def by (rule list_frame_page) (simp add: page_fixed_def)
  have u: "set T \<subseteq> set T \<union> set L" by simp
  note TL = chain_nonzero [OF ch(2)]
  consider "T @ L = []" | "T @ L \<noteq> []" "F = []" | "T @ L \<noteq> []" "F \<noteq> []" "\<not> force"
    | "T @ L \<noteq> []" "F \<noteq> []" "force" by blast
  then show ?thesis
  proof cases
    case 1
    then have FL: "F' = F" "L' = []" using C by (cases F; auto split: if_splits)+
    have "mi_page_free_collect p force s = Some t" using ch(2) 1 by (simp add: run)
    then show ?thesis using t(1,3-5) FL list_frame_mono [OF t(2) u] 1 by auto
  next
    case 2
    then have FL: "F' = T @ L" "L' = []" and "pg_free (st_page t p) = 0" using C ch(1) by auto
    then have "mi_page_free_collect p force s = Some (page_free_take_local p t)" using TL 2 by (simp add: run)
    moreover have "list_frame p (set T \<union> set L) s (page_free_take_local p t)"
      by (rule list_frame_mono [OF list_frame_trans [OF t(2) take]]) simp
    ultimately show ?thesis
      using ch d t(3-5) FL
      by (auto simp: page_lists_def page_free_take_local_def store_simps mi_page_thread_free_def
          mi_page_thread_free_flag_def)
  next
    case 3
    then have FL: "F' = F" "L' = T @ L" using C by (cases F; auto)+
    have "pg_free (st_page t p) \<noteq> 0" using ch(1) 3 by (simp add: chain_nonzero)
    then have "mi_page_free_collect p force s = Some t" unfolding run using TL 3 by simp
    then show ?thesis using t(1,3-5) FL list_frame_mono [OF t(2) u] by auto
  next
    case 4
    then have FL: "F' = (T @ L) @ F" "L' = []" using C by (cases F; auto)+
    let ?u = "mi_block_set_next (last (T @ L)) (pg_free (st_page t p)) t"
    have "pg_free (st_page t p) \<noteq> 0" using ch(1) 4 by (simp add: chain_nonzero)
    then have r: "mi_page_free_collect p force s = Some (page_free_take_local p ?u)"
      unfolding run using TL 4 block_tail_chain [OF ch(2) 4(1)] by simp
    have "last (T @ L) \<in> set T \<union> set L" using last_in_set [OF 4(1)] by simp
    then have "list_frame p (set T \<union> ((set T \<union> set L) \<union> {})) s (page_free_take_local p ?u)"
      by (intro list_frame_trans [OF t(2)] list_frame_trans [OF list_frame_block take])
    then have fr: "list_frame p (set T \<union> set L) s (page_free_take_local p ?u)"
      by (rule list_frame_mono) simp
    have "chain ((st_block t)(last (T @ L) := pg_free (st_page t p))) (pg_local_free (st_page t p)) ((T @ L) @ F)"
      using chain_relink [OF ch(2) 4(1) ch(1)] d by auto
    then show ?thesis
      using ch(3) d t(3-5) FL r fr
      by (auto simp: page_lists_def page_free_take_local_def store_simps mi_page_thread_free_def
          mi_page_thread_free_flag_def mi_block_set_next_def)
  qed
qed


section \<open>Pages of blocks\<close>

definition page_area :: "page_id \<Rightarrow> mstate \<Rightarrow> addr" where
  "page_area p s = fst (mi_page_start p s)"

definition page_block :: "page_id \<Rightarrow> mstate \<Rightarrow> nat \<Rightarrow> addr" where
  "page_block p s i = mi_page_block_at (page_area p s) (mi_page_block_size p s) (word_of_nat i)"

text \<open>The reserved blocks lie in the area of the page.\<close>

definition page_geometry :: "page_id \<Rightarrow> mstate \<Rightarrow> bool" where
  "page_geometry p s \<longleftrightarrow> page_in_segment p s \<and>
     block_size_fits (ucast (pg_xblock_size (st_page s p))) (st_segment s (fst p)) \<and>
     0 < mi_page_block_size p s \<and>
     unat (pg_reserved (st_page s p)) * unat (mi_page_block_size p s) \<le> unat (snd (mi_page_start p s))"

text \<open>
  A page in use: its lists hold different blocks of the page, \<open>used\<close> counts the blocks handed out
  and the ones freed by other threads, and the rest of the capacity is on the other two lists.
\<close>

definition page_wf :: "page_id \<Rightarrow> addr list \<Rightarrow> addr list \<Rightarrow> addr list \<Rightarrow> mstate \<Rightarrow> bool" where
  "page_wf p F L T s \<longleftrightarrow> page_geometry p s \<and> page_lists p F L T s \<and>
     pg_capacity (st_page s p) \<le> pg_reserved (st_page s p) \<and>
     set (F @ L @ T) \<subseteq> page_block p s ` {..<unat (pg_capacity (st_page s p))} \<and>
     unat (pg_used (st_page s p)) + length F + length L = unat (pg_capacity (st_page s p)) \<and>
     length T \<le> unat (pg_used (st_page s p))"

text \<open>The blocks the program holds.\<close>

definition page_alive :: "page_id \<Rightarrow> addr list \<Rightarrow> addr list \<Rightarrow> addr list \<Rightarrow> mstate \<Rightarrow> addr set" where
  "page_alive p F L T s = page_block p s ` {..<unat (pg_capacity (st_page s p))} - set (F @ L @ T)"

lemma page_start_frame:
  assumes "st_segment s' (fst p) = st_segment s (fst p)"
    and "pg_segment_idx (st_page s' p) = pg_segment_idx (st_page s p)"
  shows "mi_segment_page_start p bs s' = mi_segment_page_start p bs s"
  using assms by (simp add: mi_segment_page_start_def mi_segment_raw_page_start_def Let_def)

lemma page_geometry_frame:
  assumes "st_segment s' (fst p) = st_segment s (fst p)"
    and "pg_segment_idx (st_page s' p) = pg_segment_idx (st_page s p)"
    and "pg_xblock_size (st_page s' p) = pg_xblock_size (st_page s p)"
  shows "mi_page_start p s' = mi_page_start p s" "mi_page_block_size p s' = mi_page_block_size p s"
    "page_block p s' = page_block p s"
    "pg_reserved (st_page s' p) = pg_reserved (st_page s p) \<Longrightarrow> page_geometry p s' = page_geometry p s"
proof -
  show A: "mi_page_start p s' = mi_page_start p s" "mi_page_block_size p s' = mi_page_block_size p s"
    using page_start_frame [OF assms(1,2)] assms(3)
    by (simp_all add: mi_page_start_def mi_page_block_size_def Let_def)
  show "page_block p s' = page_block p s"
    by (simp add: fun_eq_iff page_block_def page_area_def A)
  show "pg_reserved (st_page s' p) = pg_reserved (st_page s p) \<Longrightarrow> page_geometry p s' = page_geometry p s"
    using A assms by (simp add: page_geometry_def page_in_segment_def)
qed

lemma page_area_bounds:
  assumes "page_geometry p s"
  shows "unat (fst p) < unat (page_area p s)"
    and "unat (page_area p s) + unat (snd (mi_page_start p s)) < 2 ^ 64"
proof -
  have P: "page_in_segment p s" and fits: "block_size_fits (ucast (pg_xblock_size (st_page s p))) (st_segment s (fst p))"
    using assms by (simp_all add: page_geometry_def)
  obtain q psz pre where run: "mi_segment_page_start p (ucast (pg_xblock_size (st_page s p))) s = (q, psz, pre)"
    by (metis prod_cases3)
  note S = page_start_unat [OF P fits run]
  have shape: "segment_shape (fst p) (st_segment s (fst p))" using P by (simp add: page_in_segment_def)
  note T = segment_shape_stride [OF shape] and B = raw_page_start_unat(3) [OF P]
  have info: "0 < unat (sg_info_size (st_segment s (fst p)))"
    using shape by (cases "sg_page_kind (st_segment s (fst p))") (simp_all add: segment_shape_def)
  have q: "page_area p s = q" "snd (mi_page_start p s) = psz"
    by (simp_all add: page_area_def mi_page_start_def run)
  show "unat (fst p) < unat (page_area p s)"
  proof (cases "snd p = 0")
    case False
    then have "0 < snd p * page_stride (st_segment s (fst p))" using T(2) by simp
    then show ?thesis using S(1) unfolding q by linarith
  qed (use S(1) info in \<open>simp add: q\<close>)
  show "unat (page_area p s) + unat (snd (mi_page_start p s)) < 2 ^ 64"
    using S(2) B shape by (simp add: q segment_shape_def)
qed

lemma unat_page_block:
  assumes "page_geometry p s" and "i \<le> unat (pg_reserved (st_page s p))"
  shows "unat (page_block p s i) = unat (page_area p s) + i * unat (mi_page_block_size p s)"
    and "i * unat (mi_page_block_size p s) \<le> unat (snd (mi_page_start p s))"
proof -
  let ?bs = "mi_page_block_size p s"
  have "i * unat ?bs \<le> unat (pg_reserved (st_page s p)) * unat ?bs" using assms(2) by (rule mult_le_mono1)
  also have "\<dots> \<le> unat (snd (mi_page_start p s))" using assms(1) by (simp add: page_geometry_def)
  finally show le: "i * unat ?bs \<le> unat (snd (mi_page_start p s))" .
  note B = page_area_bounds [OF assms(1)]
  have i: "unat (word_of_nat i :: u64) = i"
    using assms(2) unsigned_less [of "pg_reserved (st_page s p)", where 'a = nat] by (simp add: unat_of_nat)
  have m: "unat (word_of_nat i * ?bs) = i * unat ?bs"
    using le B by (subst unat_mult_bounded) (simp_all only: i, simp_all)
  show "unat (page_block p s i) = unat (page_area p s) + i * unat ?bs"
    unfolding page_block_def mi_page_block_at_def
    using le B by (subst unat_add_bounded) (simp_all only: m, simp_all)
qed

lemma page_block_inj:
  assumes "page_geometry p s" and "i \<le> unat (pg_reserved (st_page s p))" and "j \<le> unat (pg_reserved (st_page s p))"
  shows "page_block p s i = page_block p s j \<longleftrightarrow> i = j"
proof
  assume "page_block p s i = page_block p s j"
  then have "unat (page_block p s i) = unat (page_block p s j)" by simp
  then have "i * unat (mi_page_block_size p s) = j * unat (mi_page_block_size p s)"
    using unat_page_block(1) [OF assms(1,2)] unat_page_block(1) [OF assms(1,3)] by simp
  moreover have "0 < unat (mi_page_block_size p s)" using assms(1) by (simp add: page_geometry_def word_less_nat_alt)
  ultimately show "i = j" by simp
qed simp

lemma page_block_nonzero:
  assumes "page_geometry p s" and "i \<le> unat (pg_reserved (st_page s p))"
  shows "page_block p s i \<noteq> 0"
  using unat_page_block(1) [OF assms] page_area_bounds(1) [OF assms(1)] by force

text \<open>No block overlaps another one.\<close>

lemma page_block_apart:
  assumes "page_geometry p s" and "i < j" and "j \<le> unat (pg_reserved (st_page s p))"
  shows "unat (page_block p s i) + unat (mi_page_block_size p s) \<le> unat (page_block p s j)"
proof -
  have "(i + 1) * unat (mi_page_block_size p s) \<le> j * unat (mi_page_block_size p s)"
    using assms(2) by (intro mult_le_mono1) simp
  then show ?thesis
    using unat_page_block(1) [OF assms(1), of i] unat_page_block(1) [OF assms(1,3)] assms(2,3) by simp
qed

section \<open>Extending a page\<close>

lemma extend_loop_run:
  assumes "0 < bs" and "unat lst + unat bs < 2 ^ 64" and "unat x + n * unat bs = unat lst + unat bs"
  shows "extend_loop bs lst x s =
    Some (s\<lparr>st_block := (\<lambda>b. if \<exists>i<n. unat b = unat x + i * unat bs then b + bs else st_block s b)\<rparr>)"
  using assms(3)
proof (induction n arbitrary: x s)
  case 0
  then have "\<not> x \<le> lst" using assms(1) by (simp add: word_le_nat_alt word_less_nat_alt)
  then show ?case by (subst extend_loop.simps) simp
next
  case (Suc n)
  then have le: "x \<le> lst" by (simp add: word_le_nat_alt)
  have nx: "unat (x + bs) = unat x + unat bs"
    using Suc.prems assms(2) by (intro unat_add_bounded) simp
  have ex: "(\<exists>i<Suc n. unat b = unat x + i * unat bs) \<longleftrightarrow>
      b = x \<or> (\<exists>i<n. unat b = unat (x + bs) + i * unat bs)" for b
  proof -
    have "(\<exists>i<Suc n. unat b = unat x + i * unat bs) \<longleftrightarrow>
        unat b = unat x \<or> (\<exists>i<n. unat b = unat x + Suc i * unat bs)"
      by (subst Ex_less_Suc2) simp
    moreover have "unat b = unat x \<longleftrightarrow> b = x" by (metis unsigned_word_eqI)
    ultimately show ?thesis by (simp add: nx add.assoc)
  qed
  have apart: "\<not> (\<exists>i<n. unat x = unat (x + bs) + i * unat bs)"
    using assms(1) by (simp add: nx word_less_nat_alt)
  have "extend_loop bs lst x s = extend_loop bs lst (x + bs) (mi_block_set_next x (x + bs) s)"
    using le by (subst extend_loop.simps) (simp add: Let_def)
  also have "\<dots> = Some ((mi_block_set_next x (x + bs) s)\<lparr>st_block :=
      (\<lambda>b. if \<exists>i<n. unat b = unat (x + bs) + i * unat bs then b + bs
           else st_block (mi_block_set_next x (x + bs) s) b)\<rparr>)"
    using Suc.prems by (intro Suc.IH) (simp add: nx)
  also have "\<dots> = Some (s\<lparr>st_block :=
      (\<lambda>b. if \<exists>i<Suc n. unat b = unat x + i * unat bs then b + bs else st_block s b)\<rparr>)"
  proof -
    have "(\<lambda>b. if \<exists>i<n. unat b = unat (x + bs) + i * unat bs then b + bs
           else st_block (mi_block_set_next x (x + bs) s) b) =
        (\<lambda>b. if b = x \<or> (\<exists>i<n. unat b = unat (x + bs) + i * unat bs) then b + bs else st_block s b)"
      by (rule ext) (use apart in \<open>auto simp: mi_block_set_next_def block_upd_def\<close>)
    then show ?thesis unfolding ex by (simp add: mi_block_set_next_def block_upd_def)
  qed
  finally show ?case .
qed

lemma chain_seq:
  assumes "xs \<noteq> []" and "\<And>i. i < length xs \<Longrightarrow> nx (xs ! i) = (if Suc i < length xs then xs ! Suc i else c)"
    and "0 \<notin> set xs" and "chain nx c ys"
  shows "chain nx (hd xs) (xs @ ys)"
  using assms
proof (induction xs)
  case (Cons x xs)
  show ?case
  proof (cases "xs = []")
    case True
    then show ?thesis using Cons.prems(2) [of 0] Cons.prems by simp
  next
    case False
    have "nx x = hd xs" using Cons.prems(2) [of 0] False by (simp add: hd_conv_nth)
    moreover have "chain nx (hd xs) (xs @ ys)"
      using False Cons.prems(2) [of "Suc i" for i] Cons.prems(3,4)
      by (intro Cons.IH) (use Cons.prems(2) in \<open>force\<close>)+
    ultimately show ?thesis using Cons.prems by simp
  qed
qed simp


lemma ucast_u16: "(ucast (c :: u16) :: u64) = word_of_nat (unat c)"
  by (rule unsigned_word_eqI [where 'a = nat])
    (use unsigned_less [of c, where 'a = nat] in \<open>simp add: unat_of_nat\<close>)

definition fresh_blocks :: "page_id \<Rightarrow> mstate \<Rightarrow> nat \<Rightarrow> nat \<Rightarrow> addr list" where
  "fresh_blocks p s c e = map (page_block p s) [c..<c + e]"

lemma fresh_blocks_simps [simp]:
  "length (fresh_blocks p s c e) = e" "set (fresh_blocks p s c e) = page_block p s ` {c..<c + e}"
  by (simp_all add: fresh_blocks_def)

lemma free_list_extend_lists:
  assumes G: "page_geometry p s" and P: "page_lists p F L T s"
    and e: "0 < e" "c + e \<le> unat (pg_reserved (st_page s p))"
    and old: "set (F @ L @ T) \<subseteq> page_block p s ` {..<c}"
    and c: "c = unat (pg_capacity (st_page s p))"
  shows "\<exists>s'. mi_page_free_list_extend p (mi_page_block_size p s) (word_of_nat e) s = Some s' \<and>
    page_lists p (fresh_blocks p s c e @ F) L T s' \<and> list_frame p (page_block p s ` {c..<c + e}) s s' \<and>
    st_page s' p = (st_page s p)\<lparr>pg_free := page_block p s c\<rparr>"
proof -
  let ?bs = "mi_page_block_size p s" and ?b = "page_block p s"
  let ?start = "?b c" and ?lst = "?b (c + e - 1)"
  note U = unat_page_block [OF G] and A = page_area_bounds [OF G]
  have bs0: "0 < ?bs" using G by (simp add: page_geometry_def)
  have ub: "unat (?b i) = unat (page_area p s) + i * unat ?bs" if "i \<le> c + e" for i
    using U(1) [of i] that e(2) by simp
  have top: "unat (page_area p s) + (c + e) * unat ?bs < 2 ^ 64" using U(2) [OF e(2)] A(2) by simp
  have bnext: "?b i + ?bs = ?b (i + 1)" if "i < c + e" for i
  proof -
    have "(i + 1) * unat ?bs \<le> (c + e) * unat ?bs" using that by (intro mult_le_mono1) simp
    then have "unat (?b i + ?bs) = unat (?b (i + 1))"
      using that top ub [of i] ub [of "i + 1"] by (subst unat_add_bounded) simp_all
    then show ?thesis by (rule unsigned_word_eqI)
  qed
  have lst: "mi_page_block_at (page_area p s) ?bs (ucast (pg_capacity (st_page s p)) + word_of_nat e - 1) = ?lst"
  proof -
    have "word_of_nat c + word_of_nat e - 1 = (word_of_nat (c + e - 1) :: u64)"
      using e(1) by (simp add: of_nat_diff)
    then show ?thesis by (simp add: page_block_def ucast_u16 flip: c)
  qed
  have start: "mi_page_block_at (page_area p s) ?bs (ucast (pg_capacity (st_page s p))) = ?start"
    by (simp add: page_block_def ucast_u16 flip: c)
  define bl where "bl = (\<lambda>b. if \<exists>i<e. unat b = unat ?start + i * unat ?bs then b + ?bs else st_block s b)"
  have loop: "extend_loop ?bs ?lst ?start s = Some (s\<lparr>st_block := bl\<rparr>)"
    unfolding bl_def
  proof (rule extend_loop_run [OF bs0])
    have "unat ?lst + unat ?bs = unat (page_area p s) + (c + e) * unat ?bs"
      using ub [of "c + e - 1"] e(1) by (cases "c + e") (simp_all add: algebra_simps)
    then show "unat ?lst + unat ?bs < 2 ^ 64" "unat ?start + e * unat ?bs = unat ?lst + unat ?bs"
      using top ub [of c] by (simp_all add: algebra_simps)
  qed
  define s' where "s' = page_upd p (\<lambda>pg. pg\<lparr>pg_free := ?start\<rparr>)
    (mi_block_set_next ?lst (pg_free (st_page s p)) (s\<lparr>st_block := bl\<rparr>))"
  have run: "mi_page_free_list_extend p ?bs (word_of_nat e) s = Some s'"
    unfolding mi_page_free_list_extend_def Let_def page_area_def [symmetric] lst start loop
    by (simp add: s'_def)
  have new: "(\<exists>i<e. unat b = unat ?start + i * unat ?bs) \<longleftrightarrow> b \<in> ?b ` {c..<c + e}" for b
  proof
    assume "\<exists>i<e. unat b = unat ?start + i * unat ?bs"
    then obtain i where i: "i < e" "unat b = unat ?start + i * unat ?bs" by blast
    then have "unat b = unat (?b (c + i))" using ub [of c] ub [of "c + i"] by (simp add: algebra_simps)
    then have "b = ?b (c + i)" by (rule unsigned_word_eqI)
    then show "b \<in> ?b ` {c..<c + e}" using i(1) by auto
  next
    assume "b \<in> ?b ` {c..<c + e}"
    then obtain j where j: "c \<le> j" "j < c + e" "b = ?b j" by auto
    then have "unat b = unat ?start + (j - c) * unat ?bs"
      using ub [of c] ub [of j] by (simp add: diff_mult_distrib)
    then show "\<exists>i<e. unat b = unat ?start + i * unat ?bs" using j by (intro exI [of _ "j - c"]) auto
  qed
  have inj: "?b i = ?b j \<longleftrightarrow> i = j" if "i \<le> c + e" "j \<le> c + e" for i j
    using page_block_inj [OF G, of i j] that e(2) by simp
  have lst_new: "?lst \<in> ?b ` {c..<c + e}" using e(1) by auto
  have blk: "st_block s' b = (if b = ?lst then pg_free (st_page s p) else if b \<in> ?b ` {c..<c + e} then b + ?bs else st_block s b)" for b
    by (simp add: s'_def store_simps mi_block_set_next_def bl_def new)
  have disj: "set (F @ L @ T) \<inter> ?b ` {c..<c + e} = {}"
  proof -
    have "?b ` {..<c} \<inter> ?b ` {c..<c + e} = {}" using inj by auto
    then show ?thesis using old by blast
  qed
  have same: "st_block s' b = st_block s b" if "b \<in> set (F @ L @ T)" for b
    using that disj lst_new by (auto simp: blk)
  have xs: "chain (st_block s') ?start (fresh_blocks p s c e @ F)"
  proof -
    have "chain (st_block s') (hd (fresh_blocks p s c e)) (fresh_blocks p s c e @ F)"
    proof (rule chain_seq [where c = "pg_free (st_page s p)"])
      show "fresh_blocks p s c e \<noteq> []" using e(1) by (simp add: fresh_blocks_def)
      show "0 \<notin> set (fresh_blocks p s c e)" using page_block_nonzero [OF G] e(2) by fastforce
      have "chain (st_block s) (pg_free (st_page s p)) F" using P by (simp add: page_lists_def)
      then show "chain (st_block s') (pg_free (st_page s p)) F"
        using chain_cong [of F "st_block s'" "st_block s"] same by simp
      show "st_block s' (fresh_blocks p s c e ! i) =
          (if Suc i < length (fresh_blocks p s c e) then fresh_blocks p s c e ! Suc i else pg_free (st_page s p))"
        if "i < length (fresh_blocks p s c e)" for i
        using that inj [of "c + i" "c + e - 1"] bnext [of "c + i"]
        by (auto simp: fresh_blocks_def blk)
    qed
    moreover have "hd (fresh_blocks p s c e) = ?start" using e(1) by (simp add: fresh_blocks_def hd_conv_nth)
    ultimately show ?thesis by simp
  qed
  have page: "st_page s' p = (st_page s p)\<lparr>pg_free := ?start\<rparr>"
    by (simp add: s'_def store_simps mi_block_set_next_def)
  have dn: "distinct (fresh_blocks p s c e)"
    using inj by (auto simp: fresh_blocks_def distinct_map inj_on_def)
  have cs: "chain (st_block s') b ys = chain (st_block s) b ys" if "set ys \<subseteq> set (F @ L @ T)" for b ys
    by (rule chain_cong) (use that same in blast)
  have "page_lists p (fresh_blocks p s c e @ F) L T s'"
    using xs P dn disj cs [of L] cs [of T]
    by (auto simp: page_lists_def page mi_page_thread_free_def)
  moreover have "list_frame p (?b ` {c..<c + e}) s s'"
  proof -
    have "list_frame p (?b ` {c..<c + e}) s (s\<lparr>st_block := bl\<rparr>)"
      using new by (auto simp: list_frame_def bl_def)
    then show ?thesis
      unfolding s'_def by (intro list_frame_step) (use lst_new in \<open>simp_all add: page_fixed_def\<close>)
  qed
  ultimately show ?thesis using run page by blast
qed


lemma extend_count_bounds:
  assumes "0 < bsize" and "0 < avail"
  obtains e where "extend_count bsize avail = Some e" and "0 < e" and "e \<le> avail"
proof -
  define m where "m = (if MI_MAX_EXTEND_SIZE \<le> bsize then MI_MIN_EXTEND else MI_MAX_EXTEND_SIZE div bsize)"
  define m' where "m' = (if m < MI_MIN_EXTEND then MI_MIN_EXTEND else m)"
  have "m' \<noteq> 0" by (auto simp: m'_def mi_consts)
  then have m0: "0 < m'" by (simp add: word_gt_0)
  have bn: "bsize \<noteq> 0" using assms(1) by auto
  have "extend_count bsize avail = Some (if m' < avail then (if m' = 0 then 1 else m') else avail)"
    using bn unfolding extend_count_def Let_def m_def [symmetric] m'_def [symmetric] by simp
  then show ?thesis
    using assms(2) m0 by (intro that [of "if m' < avail then m' else avail"]) auto
qed

lemma mi_page_block_size_eq:
  "mi_page_block_size p s = (if pg_xblock_size (st_page s p) < MI_HUGE_BLOCK_SIZE
     then ucast (pg_xblock_size (st_page s p)) else snd (mi_page_start p s))"
proof -
  have "(ucast (pg_xblock_size (st_page s p)) :: u64) < ucast MI_HUGE_BLOCK_SIZE
      \<longleftrightarrow> pg_xblock_size (st_page s p) < MI_HUGE_BLOCK_SIZE"
    unfolding word_less_nat_alt unat_ucast_widen ..
  then show ?thesis
    by (simp add: mi_page_block_size_def mi_page_start_def Let_def split: prod.splits)
qed

lemma page_wf_frame:
  assumes "page_geometry p s" and "list_frame p B s s'"
  shows "page_geometry p s'" "page_block p s' = page_block p s" "mi_page_block_size p s' = mi_page_block_size p s"
    "mi_page_start p s' = mi_page_start p s"
  using assms page_geometry_frame [of s' p s] list_frame_fields [OF assms(2)] by metis+

lemma mi_page_extend_free_wf:
  assumes W: "page_wf p [] L T s" and room: "pg_capacity (st_page s p) < pg_reserved (st_page s p)"
  shows "\<exists>s' e. mi_page_extend_free p s = Some s' \<and> 0 < e \<and>
    page_wf p (fresh_blocks p s (unat (pg_capacity (st_page s p))) e) L T s' \<and>
    list_frame p (page_block p s ` {unat (pg_capacity (st_page s p))..<unat (pg_capacity (st_page s p)) + e}) s s' \<and>
    unat (pg_capacity (st_page s' p)) = unat (pg_capacity (st_page s p)) + e \<and>
    pg_used (st_page s' p) = pg_used (st_page s p) \<and> pg_xthread_free (st_page s' p) = pg_xthread_free (st_page s p)"
proof -
  let ?pg = "st_page s p" and ?bs = "mi_page_block_size p s"
  define c where "c = unat (pg_capacity ?pg)"
  have G: "page_geometry p s" and P: "page_lists p [] L T s"
    and B: "set ([] @ L @ T) \<subseteq> page_block p s ` {..<c}"
    and acc: "unat (pg_used ?pg) + length L = c" "length T \<le> unat (pg_used ?pg)"
    using W by (simp_all add: page_wf_def c_def)
  have bs0: "0 < ?bs" using G by (simp add: page_geometry_def)
  have cr: "c < unat (pg_reserved ?pg)" using room by (simp add: c_def word_less_nat_alt)
  let ?avail = "ucast (pg_reserved ?pg) - ucast (pg_capacity ?pg) :: u64"
  have av: "unat ?avail = unat (pg_reserved ?pg) - c"
    using cr by (subst unat_sub_bounded) (simp_all add: c_def)
  then have "0 < ?avail" using cr by (simp add: word_less_nat_alt)
  with bs0 obtain x where x: "extend_count ?bs ?avail = Some x" "0 < x" "x \<le> ?avail" by (rule extend_count_bounds)
  define e where "e = unat x"
  have e: "0 < e" "c + e \<le> unat (pg_reserved ?pg)" "x = word_of_nat e"
    using x(2,3) cr by (simp_all add: e_def word_less_nat_alt word_le_nat_alt av)
  obtain t where t: "mi_page_free_list_extend p ?bs x s = Some t" "page_lists p (fresh_blocks p s c e @ []) L T t"
    "list_frame p (page_block p s ` {c..<c + e}) s t" "st_page t p = ?pg\<lparr>pg_free := page_block p s c\<rparr>"
    using free_list_extend_lists [OF G P e(1,2) B c_def, folded e(3)] by blast
  define u where "u = page_upd p (\<lambda>pg. pg\<lparr>pg_capacity := pg_capacity pg + ucast x\<rparr>) t"
  define s' where "s' = (if pg_is_zero_init (st_page u p) then u else page_upd p (\<lambda>pg. pg\<lparr>pg_is_zero := False\<rparr>) u)"
  have "pg_free ?pg = 0" using P by (simp add: page_lists_def)
  moreover have "(if pg_xblock_size ?pg < MI_HUGE_BLOCK_SIZE then ucast (pg_xblock_size ?pg)
      else snd (mi_page_start p s)) = ?bs" by (simp add: mi_page_block_size_eq)
  ultimately have run: "mi_page_extend_free p s = Some s'"
    using room t(1) x(1) by (simp add: mi_page_extend_free_def Let_def s'_def u_def not_le)
  have cap: "unat (pg_capacity ?pg + ucast x) = c + e"
  proof -
    have r: "unat (pg_reserved ?pg) < 2 ^ 16" using unsigned_less [of "pg_reserved ?pg", where 'a = nat] by simp
    have "unat (ucast x :: u16) = e"
      using e(2) r by (simp add: e_def unsigned_ucast_eq take_bit_nat_eq_self)
    then show ?thesis using e(2) r by (subst unat_add_bounded) (simp_all add: c_def)
  qed
  have pg': "pg_capacity (st_page s' p) = pg_capacity ?pg + ucast x" "pg_used (st_page s' p) = pg_used ?pg"
    "pg_free (st_page s' p) = page_block p s c" "pg_local_free (st_page s' p) = pg_local_free ?pg"
    "pg_xthread_free (st_page s' p) = pg_xthread_free ?pg" "pg_reserved (st_page s' p) = pg_reserved ?pg"
    "st_block s' = st_block t"
    by (simp_all add: s'_def u_def store_simps t(4))
  have fr: "list_frame p (page_block p s ` {c..<c + e}) s s'"
    unfolding s'_def u_def using t(3) by (auto intro!: list_frame_step simp: page_fixed_def)
  have "page_lists p (fresh_blocks p s c e) L T s'"
    using t(2,4) by (simp add: page_lists_def pg' mi_page_thread_free_def)
  moreover have "set (fresh_blocks p s c e @ L @ T) \<subseteq> page_block p s ` {..<c + e}"
  proof -
    have "page_block p s ` {c..<c + e} \<subseteq> page_block p s ` {..<c + e}"
      "page_block p s ` {..<c} \<subseteq> page_block p s ` {..<c + e}" by (rule image_mono, auto)+
    then show ?thesis using B by (simp) (meson subset_trans)
  qed
  ultimately have "page_wf p (fresh_blocks p s c e) L T s'"
    unfolding page_wf_def page_wf_frame(2) [OF G fr] pg' cap word_le_nat_alt
    using page_wf_frame(1) [OF G fr] acc e(2) by simp
  then show ?thesis
    using run e(1) fr cap pg'(1,2,5) unfolding c_def by (intro exI [of _ s'] exI [of _ e]) simp
qed

lemma mi_page_extend_free_none:
  assumes "page_lists p F L T s" and "F \<noteq> [] \<or> pg_reserved (st_page s p) \<le> pg_capacity (st_page s p)"
  shows "mi_page_extend_free p s = Some s"
  using assms chain_nonzero [of "st_block s" "pg_free (st_page s p)" F]
  by (auto simp: mi_page_extend_free_def page_lists_def Let_def)


section \<open>Initialising a page\<close>

definition page_clean :: "mi_page \<Rightarrow> bool" where
  "page_clean pg \<longleftrightarrow> pg_free pg = 0 \<and> pg_local_free pg = 0 \<and> pg_xthread_free pg = 0 \<and>
     pg_capacity pg = 0 \<and> pg_used pg = 0"

text \<open>The sizes \<open>mi_page_init\<close> is called with, for the area that the page has for them.\<close>

definition init_fits :: "page_id \<Rightarrow> u64 \<Rightarrow> mstate \<Rightarrow> bool" where
  "init_fits p bs s \<longleftrightarrow>
     (let psize = fst (snd (mi_segment_page_start p bs s)) in
      page_in_segment p s \<and> block_size_fits bs (st_segment s (fst p)) \<and> 0 < bs \<and> bs \<le> psize \<and>
      unat psize div unat bs < 2 ^ 16 \<and>
      (ucast MI_HUGE_BLOCK_SIZE \<le> bs \<longrightarrow>
         \<not> page_kind_le_medium (sg_page_kind (st_segment s (fst p))) \<and> unat psize < 2 * unat bs))"

lemma mi_page_init_wf:
  assumes fits: "init_fits p bs s" and clean: "page_clean (st_page s p)"
  shows "\<exists>s' e. mi_page_init h p bs s = Some s' \<and> 0 < e \<and>
    page_wf p (fresh_blocks p s' 0 e) [] [] s' \<and>
    mi_page_block_size p s' = (if bs < ucast MI_HUGE_BLOCK_SIZE then bs else fst (snd (mi_segment_page_start p bs s))) \<and>
    unat (pg_reserved (st_page s' p)) = unat (fst (snd (mi_segment_page_start p bs s))) div unat bs \<and>
    unat (pg_capacity (st_page s' p)) = e \<and> mi_page_heap p s' = h \<and> pg_used (st_page s' p) = 0"
proof -
  obtain q psize pre where run: "mi_segment_page_start p bs s = (q, psize, pre)" by (metis prod_cases3)
  have F: "page_in_segment p s" "block_size_fits bs (st_segment s (fst p))" "0 < bs" "bs \<le> psize"
    "unat psize div unat bs < 2 ^ 16"
    and big: "ucast MI_HUGE_BLOCK_SIZE \<le> bs \<Longrightarrow>
      \<not> page_kind_le_medium (sg_page_kind (st_segment s (fst p))) \<and> unat psize < 2 * unat bs"
    using fits by (simp_all add: init_fits_def run Let_def)
  define x where "x = (if bs < ucast MI_HUGE_BLOCK_SIZE then ucast bs else MI_HUGE_BLOCK_SIZE :: u32)"
  define f where "f = (\<lambda>pg :: mi_page. pg\<lparr>pg_xheap := h, pg_xblock_size := x,
    pg_reserved := ucast (psize div bs), pg_is_zero := pg_is_zero_init pg\<rparr>)"
  define t where "t = page_upd p f s"
  have "mi_segment_page_start p bs (mi_page_set_heap p h s) = mi_segment_page_start p bs s"
    by (rule page_start_frame) (simp_all add: mi_page_set_heap_def store_simps)
  then have init: "mi_page_init h p bs s = mi_page_extend_free p t"
    using F(3) by (cases "bs = 0") (simp_all add: mi_page_init_def Let_def run t_def f_def page_upd_def mi_page_set_heap_def x_def
        split: prod.splits)
  have tp: "st_page t p = f (st_page s p)" "st_segment t = st_segment s"
    by (simp_all add: t_def store_simps)
  have hx: "unat MI_HUGE_BLOCK_SIZE = 2097152" by (simp add: mi_consts)
  have ux: "unat x = (if bs < ucast MI_HUGE_BLOCK_SIZE then unat bs else 2097152)"
  proof (cases "bs < ucast MI_HUGE_BLOCK_SIZE")
    case True
    then have "unat bs < 2097152" by (simp add: word_less_nat_alt hx)
    then show ?thesis using True by (simp add: x_def unsigned_ucast_eq take_bit_nat_eq_self)
  qed (simp add: x_def mi_consts)
  have start: "mi_page_start p t = (q, psize)"
  proof -
    have "mi_segment_page_start p (ucast x) t = mi_segment_page_start p (ucast x) s"
      by (rule page_start_frame) (simp_all add: t_def f_def store_simps)
    also have "\<dots> = mi_segment_page_start p bs s"
    proof (cases "bs < ucast MI_HUGE_BLOCK_SIZE")
      case True
      then have "(ucast x :: u64) = bs" using ux by (intro unsigned_word_eqI [where 'a = nat]) simp
      then show ?thesis by simp
    next
      case False
      then show ?thesis using big by (simp add: mi_segment_page_start_def not_less)
    qed
    finally show ?thesis by (simp add: mi_page_start_def tp f_def run)
  qed
  have xlt: "x < MI_HUGE_BLOCK_SIZE \<longleftrightarrow> bs < ucast MI_HUGE_BLOCK_SIZE"
    using ux by (simp add: word_less_nat_alt hx)
  have bsz: "mi_page_block_size p t = (if bs < ucast MI_HUGE_BLOCK_SIZE then bs else psize)"
  proof -
    have "(ucast x :: u64) = bs" if "bs < ucast MI_HUGE_BLOCK_SIZE"
      using ux that by (intro unsigned_word_eqI [where 'a = nat]) simp
    then show ?thesis by (simp add: mi_page_block_size_eq start tp f_def xlt)
  qed
  have res: "unat (pg_reserved (st_page t p)) = unat psize div unat bs"
    using F(5) by (simp add: tp f_def unsigned_ucast_eq unat_div_distrib take_bit_nat_eq_self)
  have bs0: "0 < unat bs" using F(3) by (simp add: word_less_nat_alt)
  have le: "unat bs \<le> unat psize" using F(4) by (simp add: word_le_nat_alt)
  have res0: "0 < unat psize div unat bs" using le bs0 by (simp add: div_greater_zero_iff)
  have "page_geometry p t"
  proof -
    have "block_size_fits (ucast x) (st_segment s (fst p))"
    proof (cases "bs < ucast MI_HUGE_BLOCK_SIZE")
      case True
      then have "(ucast x :: u64) = bs" using ux by (intro unsigned_word_eqI [where 'a = nat]) simp
      then show ?thesis using F(2) by simp
    next
      case False
      then show ?thesis using big by (simp add: block_size_fits_def page_kind_le_medium_iff not_less)
    qed
    moreover have "unat psize div unat bs * unat (mi_page_block_size p t) \<le> unat psize"
    proof (cases "bs < ucast MI_HUGE_BLOCK_SIZE")
      case False
      then have "unat psize div unat bs = 1"
        using big le bs0 by (intro div_nat_eqI) (simp_all add: not_less)
      then show ?thesis using False by (simp add: bsz)
    qed (simp add: bsz)
    moreover have "0 < mi_page_block_size p t"
      using F(3,4) by (auto simp: bsz)
    moreover have "page_in_segment p t" using F(1) by (simp add: page_in_segment_def tp f_def)
    ultimately show ?thesis
      by (simp add: page_geometry_def start res tp(2)) (simp add: tp f_def)
  qed
  moreover have "page_lists p [] [] [] t"
    using clean by (simp add: page_lists_def page_clean_def tp f_def mi_page_thread_free_def)
  ultimately have W: "page_wf p [] [] [] t"
    using clean by (simp add: page_wf_def page_clean_def tp f_def)
  have room: "pg_capacity (st_page t p) < pg_reserved (st_page t p)"
    using res res0 clean by (simp add: word_less_nat_alt) (simp add: page_clean_def tp f_def)
  obtain s' e where r: "mi_page_extend_free p t = Some s'" "0 < e"
      "page_wf p (fresh_blocks p t (unat (pg_capacity (st_page t p))) e) [] [] s'"
      "list_frame p (page_block p t ` {unat (pg_capacity (st_page t p))..<unat (pg_capacity (st_page t p)) + e}) t s'"
      "unat (pg_capacity (st_page s' p)) = unat (pg_capacity (st_page t p)) + e"
      "pg_used (st_page s' p) = pg_used (st_page t p)"
    using mi_page_extend_free_wf [OF W room] by blast
  have c0: "unat (pg_capacity (st_page t p)) = 0" "pg_used (st_page t p) = 0"
    using clean by (simp_all add: page_clean_def tp f_def)
  note G = page_wf_frame [OF \<open>page_geometry p t\<close> r(4)] and K = list_frame_fields [OF r(4)]
  have "fresh_blocks p s' 0 e = fresh_blocks p t 0 e" by (simp add: fresh_blocks_def G(2))
  moreover have "mi_page_heap p s' = h" by (simp add: mi_page_heap_def K tp f_def)
  ultimately show ?thesis
    using r(1-3,5,6) res bsz by (intro exI [of _ s'] exI [of _ e]) (simp add: init run c0 G K)
qed


section \<open>Properties\<close>

lemma blocks_example_fits:
  "init_fits (0x20000, 0) 2048 geometry_example" "page_clean (st_page geometry_example (0x20000, 0))"
proof -
  have sg: "st_segment geometry_example 0x20000 = segment_example MI_PAGE_SMALL"
    "st_page geometry_example (0x20000, 0) = mi_page_empty"
    by (simp_all add: geometry_example_def store_simps)
  have "mi_segment_page_start (0x20000, 0) 2048 geometry_example = (0x20800, 6144, 768)"
    by (simp add: mi_segment_page_start_def mi_segment_raw_page_start_def sg segment_example_def
        page_kind_le_medium_iff mi_page_empty_def)
  then show "init_fits (0x20000, 0) 2048 geometry_example"
    by (simp add: init_fits_def sg geometry_example_page block_size_fits_def segment_example_def mi_consts)
  show "page_clean (st_page geometry_example (0x20000, 0))"
    by (simp add: sg page_clean_def mi_page_empty_def)
qed

text \<open>
  C9. Initialising a clean page builds a free list of one or more different blocks that lie in the
  page's area one after the other without overlap, with nothing handed out, and sets the reserved
  count to the number of blocks that fit.
\<close>

theorem mi_page_init_correct:
  assumes "init_fits p bs s" and "page_clean (st_page s p)"
  shows "\<exists>s' F. mi_page_init h p bs s = Some s' \<and> F \<noteq> [] \<and> page_wf p F [] [] s' \<and>
    page_alive p F [] [] s' = {} \<and> mi_page_heap p s' = h \<and>
    unat (pg_reserved (st_page s' p)) = unat (fst (snd (mi_segment_page_start p bs s))) div unat bs \<and>
    (\<forall>b \<in> set F. unat (page_area p s') \<le> unat b \<and>
       unat b + unat (mi_page_block_size p s') \<le> unat (page_area p s') + unat (snd (mi_page_start p s'))) \<and>
    (\<forall>i < length F. \<forall>j < i. unat (F ! j) + unat (mi_page_block_size p s') \<le> unat (F ! i))"
proof -
  obtain s' e where R: "mi_page_init h p bs s = Some s'" "0 < e" "page_wf p (fresh_blocks p s' 0 e) [] [] s'"
      "unat (pg_reserved (st_page s' p)) = unat (fst (snd (mi_segment_page_start p bs s))) div unat bs"
      "unat (pg_capacity (st_page s' p)) = e" "mi_page_heap p s' = h"
    using mi_page_init_wf [OF assms, of h] by blast
  have G: "page_geometry p s'" and le: "e \<le> unat (pg_reserved (st_page s' p))"
    using R(3,5) by (simp_all add: page_wf_def word_le_nat_alt)
  have area: "unat (page_area p s') \<le> unat (page_block p s' i) \<and>
      unat (page_block p s' i) + unat (mi_page_block_size p s') \<le> unat (page_area p s') + unat (snd (mi_page_start p s'))"
    if "i < e" for i
    using unat_page_block(1) [OF G, of i] unat_page_block(2) [OF G, of "Suc i"] that le by simp
  have apart: "unat (page_block p s' j) + unat (mi_page_block_size p s') \<le> unat (page_block p s' i)"
    if "j < i" "i < e" for i j
    using page_block_apart [OF G that(1)] that(2) le by simp
  have none: "page_alive p (fresh_blocks p s' 0 e) [] [] s' = {}"
    by (simp add: page_alive_def R(5) lessThan_atLeast0)
  show ?thesis
    by (intro exI [of _ s'] exI [of _ "fresh_blocks p s' 0 e"] conjI R(1,3,4,6) none ballI allI impI)
      (use R(2) area apart in \<open>auto simp: fresh_blocks_def\<close>)
qed

lemma mi_page_init_correct_witness:
  "\<exists>s' F. mi_page_init heap_main_ref (0x20000, 0) 2048 geometry_example = Some s' \<and> F \<noteq> [] \<and>
     page_wf (0x20000, 0) F [] [] s'"
  using mi_page_init_correct [OF blocks_example_fits, of heap_main_ref] by blast

lemma page_wf_example: "\<exists>s F. F \<noteq> [] \<and> page_wf (0x20000, 0) F [] [] s"
proof -
  obtain s' e where "0 < e" "page_wf (0x20000, 0) (fresh_blocks (0x20000, 0) s' 0 e) [] [] s'"
    using mi_page_init_wf [OF blocks_example_fits, of heap_main_ref] by blast
  then show ?thesis by (intro exI [of _ s'] exI [of _ "fresh_blocks (0x20000, 0) s' 0 e"]) (auto simp: fresh_blocks_def)
qed

lemma page_wf_collect:
  assumes W: "page_wf p F L T s" and C: "collected force F (T @ L) = (F', L')"
  shows "\<exists>s'. mi_page_free_collect p force s = Some s' \<and> page_wf p F' L' [] s' \<and>
    page_alive p F' L' [] s' = page_alive p F L T s \<and> list_frame p (set T \<union> set L) s s' \<and>
    mi_page_thread_free_flag (st_page s' p) = mi_page_thread_free_flag (st_page s p) \<and>
    pg_capacity (st_page s' p) = pg_capacity (st_page s p)"
proof -
  have G: "page_geometry p s" and P: "page_lists p F L T s"
    and acc: "unat (pg_used (st_page s p)) + length F + length L = unat (pg_capacity (st_page s p))"
      "length T \<le> unat (pg_used (st_page s p))"
    using W by (simp_all add: page_wf_def)
  have "length T \<le> unat (pg_capacity (st_page s p))" using acc by simp
  from mi_page_free_collect_lists [OF P this C] obtain s' where
    R: "mi_page_free_collect p force s = Some s'" "page_lists p F' L' [] s'" "list_frame p (set T \<union> set L) s s'"
      "pg_used (st_page s' p) = pg_used (st_page s p) - word_of_nat (length T)"
      "pg_capacity (st_page s' p) = pg_capacity (st_page s p)"
      "mi_page_thread_free_flag (st_page s' p) = mi_page_thread_free_flag (st_page s p)" by blast
  have same: "set (F' @ L') = set (F @ L @ T)" "length F' + length L' = length F + length L + length T"
    using C by (cases F; auto split: if_splits)+
  have uT: "unat (word_of_nat (length T) :: u32) = length T"
    using le_less_trans [OF acc(2) unat_less_32] by (simp add: unat_of_nat)
  then have "unat (pg_used (st_page s' p)) = unat (pg_used (st_page s p)) - length T"
    unfolding R(4) using acc(2) by (subst unat_sub_bounded) simp_all
  then have "unat (pg_used (st_page s' p)) + length F' + length L' = unat (pg_capacity (st_page s p))"
    using acc same(2) by simp
  moreover note page_wf_frame [OF G R(3)] list_frame_fields [OF R(3)]
  ultimately have "page_wf p F' L' [] s'" "page_alive p F' L' [] s' = page_alive p F L T s"
    using W R(2,5) same(1) by (simp_all add: page_wf_def page_alive_def)
  then show ?thesis using R by blast
qed

text \<open>
  C12. Collecting the local and the thread-free list loses no block and hands out none: the blocks
  the program holds stay the same, the thread-free list ends empty, its blocks are subtracted from
  the used count, and a forced collection leaves every free block on the free list. Nothing but the
  words of collected blocks and the page itself is written.
\<close>

theorem mi_page_free_collect_correct:
  assumes "page_wf p F L T s"
  shows "\<exists>s' F' L'. mi_page_free_collect p force s = Some s' \<and> page_wf p F' L' [] s' \<and>
    (F', L') = collected force F (T @ L) \<and> (force \<longrightarrow> L' = []) \<and> (F = [] \<longrightarrow> F' = T @ L) \<and>
    page_alive p F' L' [] s' = page_alive p F L T s \<and> list_frame p (set T \<union> set L) s s' \<and>
    unat (pg_used (st_page s' p)) = card (page_alive p F L T s)"
proof -
  obtain F' L' where C: "collected force F (T @ L) = (F', L')" by (metis surj_pair)
  obtain s' where R: "mi_page_free_collect p force s = Some s'" "page_wf p F' L' [] s'"
    "page_alive p F' L' [] s' = page_alive p F L T s" "list_frame p (set T \<union> set L) s s'"
    using page_wf_collect [OF assms C] by blast
  have G: "page_geometry p s'" using R(2) by (simp add: page_wf_def)
  let ?c = "unat (pg_capacity (st_page s' p))"
  have "?c \<le> unat (pg_reserved (st_page s' p))" using R(2) by (simp add: page_wf_def word_le_nat_alt)
  then have "card (page_block p s' ` {..<?c}) = ?c"
    using page_block_inj [OF G] by (subst card_image) (auto simp: inj_on_def)
  moreover have "card (set (F' @ L' @ [])) = length F' + length L'"
    using R(2) by (subst distinct_card) (simp_all add: page_wf_def page_lists_def)
  moreover have "set (F' @ L' @ []) \<subseteq> page_block p s' ` {..<?c}" using R(2) by (simp add: page_wf_def)
  ultimately have "card (page_alive p F' L' [] s') = ?c - (length F' + length L')"
    unfolding page_alive_def by (subst card_Diff_subset) simp_all
  moreover have "unat (pg_used (st_page s' p)) + length F' + length L' = ?c" using R(2) by (simp add: page_wf_def)
  ultimately have "unat (pg_used (st_page s' p)) = card (page_alive p F L T s)"
    unfolding R(3) by linarith
  moreover have "force \<longrightarrow> L' = []" "F = [] \<longrightarrow> F' = T @ L" using C by (cases F; auto)+
  ultimately show ?thesis using R C by metis
qed

lemma mi_page_free_collect_correct_witness:
  "\<exists>s s' F. F \<noteq> [] \<and> mi_page_free_collect (0x20000, 0) True s = Some s' \<and> page_wf (0x20000, 0) F [] [] s'"
proof -
  obtain s F where "F \<noteq> []" "page_wf (0x20000, 0) F [] [] s" using page_wf_example by blast
  then show ?thesis using mi_page_free_collect_correct [of "(0x20000, 0)" F "[]" "[]" s True]
    by (cases F) auto
qed

end
