(* ===== verification/Segment.thy ===== *)
theory Segment
  imports Blocks
begin

text \<open>
  Segments (\<open>segment.c\<close>): the queues of segments with free pages, the delayed reset of free pages,
  the segment cache, and allocating, initialising and freeing segments and the pages in them. The
  \<open>mi_segments_tld_t\<close>, the \<open>mi_os_tld_t\<close> and the statistics of a thread are parts of its thread
  data and are named by the address of the latter. With \<open>MI_SECURE\<close> at 0 the guard page code does
  nothing. Messages printed with \<open>printf\<close> are left out.
\<close>

section \<open>Queues of segments with free pages\<close>

datatype segment_queue_id = SmallFree addr | MediumFree addr

fun segment_queue_of :: "segment_queue_id \<Rightarrow> mstate \<Rightarrow> mi_segment_queue" where
  "segment_queue_of (SmallFree t) s = tl_small_free (st_tld s t)"
| "segment_queue_of (MediumFree t) s = tl_medium_free (st_tld s t)"

fun segment_queue_upd :: "segment_queue_id \<Rightarrow> (mi_segment_queue \<Rightarrow> mi_segment_queue) \<Rightarrow> mstate \<Rightarrow> mstate" where
  "segment_queue_upd (SmallFree t) f s = tld_upd t (\<lambda>tl. tl\<lparr>tl_small_free := f (tl_small_free tl)\<rparr>) s"
| "segment_queue_upd (MediumFree t) f s = tld_upd t (\<lambda>tl. tl\<lparr>tl_medium_free := f (tl_medium_free tl)\<rparr>) s"

definition mi_segment_queue_is_empty :: "mi_segment_queue \<Rightarrow> bool" where
  "mi_segment_queue_is_empty q = (sq_first q = None)"

definition mi_segment_queue_remove :: "segment_queue_id \<Rightarrow> addr \<Rightarrow> mstate \<Rightarrow> mstate" where
  "mi_segment_queue_remove q a s =
     (let s = segment_upd_opt (sg_prev (st_segment s a)) (\<lambda>pv. pv\<lparr>sg_next := sg_next (st_segment s a)\<rparr>) s;
          s = segment_upd_opt (sg_next (st_segment s a)) (\<lambda>nx. nx\<lparr>sg_prev := sg_prev (st_segment s a)\<rparr>) s;
          s = (if sq_first (segment_queue_of q s) = Some a
               then segment_queue_upd q (\<lambda>sq. sq\<lparr>sq_first := sg_next (st_segment s a)\<rparr>) s else s);
          s = (if sq_last (segment_queue_of q s) = Some a
               then segment_queue_upd q (\<lambda>sq. sq\<lparr>sq_last := sg_prev (st_segment s a)\<rparr>) s else s);
          s = segment_upd a (\<lambda>sg. sg\<lparr>sg_next := None\<rparr>) s
      in segment_upd a (\<lambda>sg. sg\<lparr>sg_prev := None\<rparr>) s)"

definition mi_segment_enqueue :: "segment_queue_id \<Rightarrow> addr \<Rightarrow> mstate \<Rightarrow> mstate" where
  "mi_segment_enqueue q a s =
     (let s = segment_upd a (\<lambda>sg. sg\<lparr>sg_next := None\<rparr>) s;
          s = segment_upd a (\<lambda>sg. sg\<lparr>sg_prev := sq_last (segment_queue_of q s)\<rparr>) s
      in case sq_last (segment_queue_of q s) of
           Some l \<Rightarrow>
             let s = segment_upd l (\<lambda>sg. sg\<lparr>sg_next := Some a\<rparr>) s
             in segment_queue_upd q (\<lambda>sq. sq\<lparr>sq_last := Some a\<rparr>) s
         | None \<Rightarrow> segment_queue_upd q (\<lambda>sq. sq\<lparr>sq_first := Some a, sq_last := Some a\<rparr>) s)"

fun mi_segment_free_queue_of_kind :: "mi_page_kind \<Rightarrow> addr \<Rightarrow> segment_queue_id option" where
  "mi_segment_free_queue_of_kind MI_PAGE_SMALL tld = Some (SmallFree tld)"
| "mi_segment_free_queue_of_kind MI_PAGE_MEDIUM tld = Some (MediumFree tld)"
| "mi_segment_free_queue_of_kind MI_PAGE_LARGE tld = None"
| "mi_segment_free_queue_of_kind MI_PAGE_HUGE tld = None"

definition mi_segment_free_queue :: "addr \<Rightarrow> addr \<Rightarrow> mstate \<Rightarrow> segment_queue_id option" where
  "mi_segment_free_queue a tld s = mi_segment_free_queue_of_kind (sg_page_kind (st_segment s a)) tld"

definition mi_segment_remove_from_free_queue :: "addr \<Rightarrow> addr \<Rightarrow> mstate \<Rightarrow> mstate" where
  "mi_segment_remove_from_free_queue a tld s =
     (case mi_segment_free_queue a tld s of
        None \<Rightarrow> s
      | Some q \<Rightarrow>
          if sg_next (st_segment s a) \<noteq> None \<or> sg_prev (st_segment s a) \<noteq> None
             \<or> sq_first (segment_queue_of q s) = Some a
          then mi_segment_queue_remove q a s else s)"

text \<open>\<open>None\<close> is the access through the null queue of a large or huge segment.\<close>

definition mi_segment_insert_in_free_queue :: "addr \<Rightarrow> addr \<Rightarrow> mstate \<Rightarrow> mstate option" where
  "mi_segment_insert_in_free_queue a tld s =
     (case mi_segment_free_queue a tld s of None \<Rightarrow> None | Some q \<Rightarrow> Some (mi_segment_enqueue q a s))"

section \<open>Page reset\<close>

definition mi_page_not_in_queue :: "page_id \<Rightarrow> addr \<Rightarrow> mstate \<Rightarrow> bool" where
  "mi_page_not_in_queue p tld s =
     (if pg_next (st_page s p) \<noteq> None \<or> pg_prev (st_page s p) \<noteq> None then False
      else pq_first (tl_pages_reset (st_tld s tld)) \<noteq> Some p \<and> pq_last (tl_pages_reset (st_tld s tld)) \<noteq> Some p)"

definition page_resettable :: "page_id \<Rightarrow> mstate \<Rightarrow> bool" where
  "page_resettable p s \<longleftrightarrow> \<not> sg_mem_is_fixed (st_segment s (fst p)) \<and> \<not> pg_segment_in_use (st_page s p)
     \<and> pg_is_committed (st_page s p) \<and> \<not> pg_is_reset (st_page s p)"

definition mi_page_reset :: "page_id \<Rightarrow> u64 \<Rightarrow> addr \<Rightarrow> mstate \<Rightarrow> mstate" where
  "mi_page_reset p sz tld s =
     (let (enabled, s) = mi_option_is_enabled opt_page_reset s in
      if \<not> enabled then s
      else if \<not> page_resettable p s then s
      else
        let (start, psize) = mi_segment_raw_page_start p s;
            s = page_upd p (\<lambda>pg. pg\<lparr>pg_is_reset := True\<rparr>) s;
            reset_size = (if sz = 0 \<or> psize < sz then psize else sz)
        in if 0 < reset_size then snd (mi_mem_reset start reset_size tld s) else s)"

definition mi_page_unreset :: "page_id \<Rightarrow> u64 \<Rightarrow> addr \<Rightarrow> mstate \<Rightarrow> mstate" where
  "mi_page_unreset p sz tld s =
     (if sg_mem_is_fixed (st_segment s (fst p)) \<or> \<not> pg_is_committed (st_page s p) \<or> \<not> pg_is_reset (st_page s p)
      then s
      else
        let s = page_upd p (\<lambda>pg. pg\<lparr>pg_is_reset := False\<rparr>) s;
            (start, psize) = mi_segment_raw_page_start p s;
            unreset_size = (if sz = 0 \<or> psize < sz then psize else sz);
            (is_zero, s) =
              (if 0 < unreset_size
               then (let (_, z, s) = mi_mem_unreset start unreset_size tld s in (z, s)) else (False, s))
        in if is_zero then page_upd p (\<lambda>pg. pg\<lparr>pg_is_zero_init := True\<rparr>) s else s)"

section \<open>The free page queue\<close>

definition mi_page_reset_set_expire :: "page_id \<Rightarrow> mstate \<Rightarrow> mstate" where
  "mi_page_reset_set_expire p s =
     (let (now, s) = mi_clock_now s; (delay, s) = mi_option_get opt_reset_delay s
      in page_upd p (\<lambda>pg. pg\<lparr>pg_used := ucast now + ucast delay\<rparr>) s)"

text \<open>The difference of 32-bit signed integers; \<open>None\<close> when it overflows, which C leaves undefined.\<close>

definition mi_page_reset_is_expired :: "mi_page \<Rightarrow> 64 word \<Rightarrow> bool option" where
  "mi_page_reset_is_expired pg now =
     (let d = sint (ucast now :: u32) - sint (pg_used pg)
      in if d < - (2 ^ 31) \<or> 2 ^ 31 \<le> d then None else Some (0 \<le> d))"

definition reset_queue_upd :: "addr \<Rightarrow> (mi_page_queue \<Rightarrow> mi_page_queue) \<Rightarrow> mstate \<Rightarrow> mstate" where
  "reset_queue_upd tld f = tld_upd tld (\<lambda>tl. tl\<lparr>tl_pages_reset := f (tl_pages_reset tl)\<rparr>)"

definition pages_reset_push :: "addr \<Rightarrow> page_id \<Rightarrow> mstate \<Rightarrow> mstate" where
  "pages_reset_push tld p s =
     (let s = page_upd p (\<lambda>pg. pg\<lparr>pg_next := pq_first (tl_pages_reset (st_tld s tld))\<rparr>) s;
          s = page_upd p (\<lambda>pg. pg\<lparr>pg_prev := None\<rparr>) s
      in case pq_first (tl_pages_reset (st_tld s tld)) of
           None \<Rightarrow> reset_queue_upd tld (\<lambda>pq. pq\<lparr>pq_first := Some p, pq_last := Some p\<rparr>) s
         | Some f \<Rightarrow>
             let s = page_upd f (\<lambda>pg. pg\<lparr>pg_prev := Some p\<rparr>) s
             in reset_queue_upd tld (\<lambda>pq. pq\<lparr>pq_first := Some p\<rparr>) s)"

definition mi_pages_reset_add :: "page_id \<Rightarrow> addr \<Rightarrow> mstate \<Rightarrow> mstate" where
  "mi_pages_reset_add p tld s =
     (let (enabled, s) = mi_option_is_enabled opt_page_reset s in
      if \<not> enabled then s
      else if \<not> page_resettable p s then s
      else
        let (delay, s) = mi_option_get opt_reset_delay s in
        if delay = 0 then mi_page_reset p 0 tld s
        else pages_reset_push tld p (mi_page_reset_set_expire p s))"

definition pages_reset_unlink :: "addr \<Rightarrow> page_id \<Rightarrow> mstate \<Rightarrow> mstate" where
  "pages_reset_unlink tld p s =
     (let s = page_upd_opt (pg_prev (st_page s p)) (\<lambda>pv. pv\<lparr>pg_next := pg_next (st_page s p)\<rparr>) s;
          s = page_upd_opt (pg_next (st_page s p)) (\<lambda>nx. nx\<lparr>pg_prev := pg_prev (st_page s p)\<rparr>) s;
          s = (if pq_last (tl_pages_reset (st_tld s tld)) = Some p
               then reset_queue_upd tld (\<lambda>pq. pq\<lparr>pq_last := pg_prev (st_page s p)\<rparr>) s else s);
          s = (if pq_first (tl_pages_reset (st_tld s tld)) = Some p
               then reset_queue_upd tld (\<lambda>pq. pq\<lparr>pq_first := pg_next (st_page s p)\<rparr>) s else s);
          s = page_upd p (\<lambda>pg. pg\<lparr>pg_next := None, pg_prev := None\<rparr>) s
      in page_upd p (\<lambda>pg. pg\<lparr>pg_used := 0\<rparr>) s)"

definition mi_pages_reset_remove :: "page_id \<Rightarrow> addr \<Rightarrow> mstate \<Rightarrow> mstate" where
  "mi_pages_reset_remove p tld s = (if mi_page_not_in_queue p tld s then s else pages_reset_unlink tld p s)"

fun reset_remove_pages :: "page_id list \<Rightarrow> bool \<Rightarrow> addr \<Rightarrow> mstate \<Rightarrow> mstate" where
  "reset_remove_pages [] force_reset tld s = s"
| "reset_remove_pages (p # ps) force_reset tld s =
     reset_remove_pages ps force_reset tld
       (if \<not> pg_segment_in_use (st_page s p) \<and> pg_is_committed (st_page s p) \<and> \<not> pg_is_reset (st_page s p)
        then let s = mi_pages_reset_remove p tld s in if force_reset then mi_page_reset p 0 tld s else s
        else s)"

definition segment_pages :: "addr \<Rightarrow> mstate \<Rightarrow> page_id list" where
  "segment_pages a s = map (Pair a) [0..<unat (sg_capacity (st_segment s a))]"

definition mi_pages_reset_remove_all_in_segment :: "addr \<Rightarrow> bool \<Rightarrow> addr \<Rightarrow> mstate \<Rightarrow> mstate" where
  "mi_pages_reset_remove_all_in_segment a force_reset tld s =
     (if sg_mem_is_fixed (st_segment s a) then s
      else reset_remove_pages (segment_pages a s) force_reset tld s)"

text \<open>From the oldest page to the first that has not expired; \<open>None\<close> for a cyclic queue.\<close>

partial_function (option) reset_expired ::
    "page_id option \<Rightarrow> 64 word \<Rightarrow> addr \<Rightarrow> mstate \<Rightarrow> (page_id option \<times> mstate) option" where
  "reset_expired page now tld s =
     (case page of
        None \<Rightarrow> Some (None, s)
      | Some p \<Rightarrow>
          Option.bind (mi_page_reset_is_expired (st_page s p) now) (\<lambda>expired.
            if \<not> expired then Some (Some p, s)
            else
              let prv = pg_prev (st_page s p);
                  s = mi_page_reset p 0 tld s;
                  s = page_upd p (\<lambda>pg. pg\<lparr>pg_used := 0\<rparr>) s;
                  s = page_upd p (\<lambda>pg. pg\<lparr>pg_prev := None, pg_next := None\<rparr>) s
              in reset_expired prv now tld s))"

definition mi_reset_delayed :: "addr \<Rightarrow> mstate \<Rightarrow> mstate option" where
  "mi_reset_delayed tld s =
     (let (enabled, s) = mi_option_is_enabled opt_page_reset s in
      if \<not> enabled then Some s
      else
        let (now, s) = mi_clock_now s in do {
          (page, s) \<leftarrow> reset_expired (pq_last (tl_pages_reset (st_tld s tld))) now tld s;
          let s = reset_queue_upd tld (\<lambda>pq. pq\<lparr>pq_last := page\<rparr>) s;
          Some (case page of
                  Some p \<Rightarrow> page_upd p (\<lambda>pg. pg\<lparr>pg_next := None\<rparr>) s
                | None \<Rightarrow> reset_queue_upd tld (\<lambda>pq. pq\<lparr>pq_first := None\<rparr>) s)
        })"

end
