(* ===== verification/SegmentAlloc.thy ===== *)
theory SegmentAlloc
  imports Segment
begin

text \<open>
  The segment cache of a thread, the allocation and initialisation of segments, their release, and
  the pages inside them (\<open>segment.c\<close>): claiming a free page, clearing and freeing one, abandoning.
\<close>

section \<open>Segment caches\<close>

abbreviation tld_stats :: "addr \<Rightarrow> (mi_stats \<Rightarrow> mi_stats) \<Rightarrow> mstate \<Rightarrow> mstate" where
  "tld_stats tld \<equiv> stats_apply (TldStats tld)"

text \<open>The size is a signed \<open>long\<close>: a negative one stands for a segment given up.\<close>

definition mi_segments_track_size :: "64 word \<Rightarrow> addr \<Rightarrow> mstate \<Rightarrow> mstate" where
  "mi_segments_track_size sz tld s =
     (let s = (if 0 \<le> sint sz then tld_stats tld (sts_segments_update (mi_stat_increase 1)) s
               else tld_stats tld (sts_segments_update (mi_stat_decrease 1)) s);
          s = tld_upd tld (\<lambda>tl. tl\<lparr>tl_count := tl_count tl + (if 0 \<le> sint sz then 1 else - 1)\<rparr>) s;
          s = tld_upd tld (\<lambda>tl. if tl_peak_count tl < tl_count tl then tl\<lparr>tl_peak_count := tl_count tl\<rparr> else tl) s;
          s = tld_upd tld (\<lambda>tl. tl\<lparr>tl_current_size := tl_current_size tl + sz\<rparr>) s
      in tld_upd tld (\<lambda>tl. if tl_peak_size tl < tl_current_size tl
                            then tl\<lparr>tl_peak_size := tl_current_size tl\<rparr> else tl) s)"

definition mi_segment_os_free :: "addr \<Rightarrow> u64 \<Rightarrow> addr \<Rightarrow> mstate \<Rightarrow> mstate option" where
  "mi_segment_os_free a segment_size tld s =
     (let s = segment_upd a (\<lambda>sg. sg\<lparr>sg_thread_id := 0\<rparr>) s;
          s = mi_segments_track_size (- segment_size) tld s;
          fully_committed = (\<forall>p \<in> set (segment_pages a s). pg_is_committed (st_page s p));
          any_reset = (\<exists>p \<in> set (segment_pages a s). pg_is_reset (st_page s p));
          (decommits, s) = (if any_reset then mi_option_is_enabled opt_reset_decommits s else (False, s));
          fully_committed = (fully_committed \<and> \<not> decommits)
      in mi_mem_free a segment_size (sg_memid (st_segment s a)) fully_committed any_reset tld s)"

definition MI_SEGMENT_CACHE_FRACTION :: u64 where [mi_consts]: "MI_SEGMENT_CACHE_FRACTION = 8"

definition mi_segment_cache_pop :: "u64 \<Rightarrow> addr \<Rightarrow> mstate \<Rightarrow> addr option \<times> mstate" where
  "mi_segment_cache_pop segment_size tld s =
     (if segment_size \<noteq> 0 \<and> segment_size \<noteq> MI_SEGMENT_SIZE then (None, s)
      else
        (case tl_cache (st_tld s tld) of
           None \<Rightarrow> (None, s)
         | Some a \<Rightarrow>
             let s = tld_upd tld (\<lambda>tl. tl\<lparr>tl_cache_count := tl_cache_count tl - 1\<rparr>) s;
                 s = tld_upd tld (\<lambda>tl. tl\<lparr>tl_cache := sg_next (st_segment s a)\<rparr>) s;
                 s = segment_upd a (\<lambda>sg. sg\<lparr>sg_next := None\<rparr>) s
             in (Some a, tld_stats tld (sts_segments_cache_update (mi_stat_decrease 1)) s)))"

text \<open>\<open>None\<close> when the count exceeds the cached segments, so that the loop never ends.\<close>

partial_function (option) segment_cache_shrink :: "u64 \<Rightarrow> addr \<Rightarrow> mstate \<Rightarrow> mstate option" where
  "segment_cache_shrink max_cache tld s =
     (if max_cache < tl_cache_count (st_tld s tld)
      then
        (case mi_segment_cache_pop 0 tld s of
           (None, s) \<Rightarrow> segment_cache_shrink max_cache tld s
         | (Some a, s) \<Rightarrow>
             Option.bind (mi_segment_os_free a (sg_segment_size (st_segment s a)) tld s)
               (segment_cache_shrink max_cache tld))
      else Some s)"

definition mi_segment_cache_full :: "addr \<Rightarrow> mstate \<Rightarrow> (bool \<times> mstate) option" where
  "mi_segment_cache_full tld s =
     (let (max_cache, s) = mi_option_get opt_segment_cache s; tl = st_tld s tld
      in if tl_cache_count tl < max_cache
            \<and> tl_cache_count tl < 1 + tl_peak_count tl div MI_SEGMENT_CACHE_FRACTION
         then Some (False, s)
         else do { s \<leftarrow> segment_cache_shrink max_cache tld s; Some (True, s) })"

definition mi_segment_cache_push :: "addr \<Rightarrow> addr \<Rightarrow> mstate \<Rightarrow> (bool \<times> mstate) option" where
  "mi_segment_cache_push a tld s =
     (if sg_segment_size (st_segment s a) \<noteq> MI_SEGMENT_SIZE then Some (False, s)
      else do {
        (full, s) \<leftarrow> mi_segment_cache_full tld s;
        if full then Some (False, s)
        else
          let s = segment_upd a (\<lambda>sg. sg\<lparr>sg_next := tl_cache (st_tld s tld)\<rparr>) s;
              s = tld_upd tld (\<lambda>tl. tl\<lparr>tl_cache := Some a\<rparr>) s;
              s = tld_upd tld (\<lambda>tl. tl\<lparr>tl_cache_count := tl_cache_count tl + 1\<rparr>) s
          in Some (True, tld_stats tld (sts_segments_cache_update (mi_stat_increase 1)) s)
      })"

partial_function (option) mi_segment_thread_collect :: "addr \<Rightarrow> mstate \<Rightarrow> mstate option" where
  "mi_segment_thread_collect tld s =
     (case mi_segment_cache_pop 0 tld s of
        (None, s) \<Rightarrow> Some s
      | (Some a, s) \<Rightarrow>
          Option.bind (mi_segment_os_free a (sg_segment_size (st_segment s a)) tld s)
            (mi_segment_thread_collect tld))"

section \<open>Segment allocation\<close>

fun init_unreset_pages :: "page_id list \<Rightarrow> bool \<Rightarrow> addr \<Rightarrow> mstate \<Rightarrow> mstate" where
  "init_unreset_pages [] commit tld s = s"
| "init_unreset_pages (p # ps) commit tld s =
     init_unreset_pages ps commit tld
       (if pg_is_reset (st_page s p)
        then let (decommits, s) = (if \<not> commit then mi_option_is_enabled opt_reset_decommits s else (False, s))
             in if decommits then page_upd p (\<lambda>pg. pg\<lparr>pg_is_reset := False\<rparr>) s
                else mi_page_unreset p 0 tld s
        else s)"

text \<open>A segment from the cache: whether its pages can be kept, and whether the header is zero.\<close>

definition segment_init_cached ::
    "addr \<Rightarrow> mi_page_kind \<Rightarrow> u64 \<Rightarrow> u64 \<times> u64 \<Rightarrow> bool \<Rightarrow> addr \<Rightarrow> mstate \<Rightarrow> bool \<times> bool \<times> mstate" where
  "segment_init_cached a page_kind capacity sizes commit tld s =
     (let (segment_size, pre_size) = sizes; sg = st_segment s a in
      if page_kind_le_medium page_kind \<and> sg_page_kind sg = page_kind \<and> sg_segment_size sg = segment_size
      then (True, False, s)
      else
        let s = init_unreset_pages (segment_pages a s) commit tld s in
        if sg_capacity (st_segment s a) < capacity
        then (let (_, commit_zero, s) = mi_mem_commit a pre_size tld s in (False, commit_zero, s))
        else (False, False, s))"

text \<open>
  Memory that the memory layer reports as zero holds zero pages and a zero header; otherwise what
  was stored at the address before is still there.
\<close>

definition memory_zeroed :: "addr \<Rightarrow> mstate \<Rightarrow> mstate" where
  "memory_zeroed a s =
     s\<lparr>st_segment := (st_segment s)(a := mi_segment_zero),
       st_page := (\<lambda>p. if fst p = a then mi_page_empty else st_page s p)\<rparr>"

text \<open>A segment from the memory layer: its address, the commit state and whether it is zero.\<close>

definition segment_init_os ::
    "bool \<Rightarrow> u64 \<times> u64 \<Rightarrow> bool \<Rightarrow> addr \<Rightarrow> mstate \<Rightarrow> (addr option \<times> bool \<times> bool \<times> mstate) option" where
  "segment_init_os eager_delayed sizes commit tld s =
     (let (segment_size, pre_size) = sizes in do {
        (a, info, s) \<leftarrow> mi_mem_alloc_aligned segment_size MI_SEGMENT_SIZE commit (\<not> eager_delayed) tld s;
        if a = 0 then Some (None, mi_commit info, mi_is_zero info, s)
        else
          let s = (if mi_is_zero info then memory_zeroed a s else s);
              (ok, commit_zero, s) =
                (if mi_commit info then (True, False, s) else mi_mem_commit a pre_size tld s);
              is_zero = (mi_is_zero info \<or> commit_zero)
          in if \<not> ok then do {
               s \<leftarrow> mi_mem_free a MI_SEGMENT_SIZE (mi_memid info) False False tld s;
               Some (None, mi_commit info, is_zero, s)
             }
             else
               let s = segment_upd a (\<lambda>sg. sg\<lparr>sg_memid := mi_memid info, sg_mem_is_fixed := mi_large info,
                         sg_mem_is_committed := mi_commit info\<rparr>) s
               in Some (Some a, mi_commit info, is_zero, mi_segments_track_size segment_size tld s)
      })"

text \<open>The header without the memory fields is cleared field by field.\<close>

definition segment_header_clear :: "mi_segment \<Rightarrow> mi_segment" where
  "segment_header_clear sg = mi_segment_zero\<lparr>sg_memid := sg_memid sg,
     sg_mem_is_fixed := sg_mem_is_fixed sg, sg_mem_is_committed := sg_mem_is_committed sg\<rparr>"

fun init_pages :: "nat list \<Rightarrow> addr \<Rightarrow> bool \<Rightarrow> bool \<Rightarrow> mstate \<Rightarrow> mstate" where
  "init_pages [] a commit is_zero s = s"
| "init_pages (i # is) a commit is_zero s =
     init_pages is a commit is_zero
       (page_upd (a, i) (\<lambda>pg. pg\<lparr>pg_segment_idx := word_of_nat i, pg_is_reset := False,
          pg_is_committed := commit, pg_is_zero_init := is_zero\<rparr>) s)"

definition mi_ptr_cookie :: "addr \<Rightarrow> mstate \<Rightarrow> u64" where
  "mi_ptr_cookie a s = a XOR hp_cookie (st_heap s heap_main_ref)"

definition segment_init_capacity :: "mi_page_kind \<Rightarrow> u64 \<Rightarrow> u64" where
  "segment_init_capacity page_kind page_shift =
     (if page_kind = MI_PAGE_HUGE then 1 else MI_SEGMENT_SIZE div push_bit (unat page_shift) 1)"

definition segment_init_header ::
    "addr \<Rightarrow> mi_page_kind \<Rightarrow> u64 \<Rightarrow> u64 \<Rightarrow> u64 \<times> u64 \<Rightarrow> mstate \<Rightarrow> mstate" where
  "segment_init_header a page_kind page_shift capacity sizes s =
     segment_upd a (\<lambda>sg. sg\<lparr>sg_page_kind := page_kind, sg_capacity := capacity, sg_page_shift := page_shift,
       sg_segment_size := fst sizes, sg_info_size := snd sizes, sg_thread_id := st_thread_id s,
       sg_cookie := mi_ptr_cookie a s\<rparr>) s"

definition mi_segment_init ::
    "addr option \<Rightarrow> u64 \<Rightarrow> mi_page_kind \<Rightarrow> u64 \<Rightarrow> addr \<Rightarrow> mstate \<Rightarrow> (addr option \<times> mstate) option" where
  "mi_segment_init segment required page_kind page_shift tld s =
     (let capacity = segment_init_capacity page_kind page_shift;
          (segment_size, pre_size, info_size) = mi_segment_size capacity required;
          (eager_delayed, s) =
            (if page_kind_le_medium page_kind
             then (let (n, s) = mi_option_get opt_eager_commit_delay s in (tl_count (st_tld s tld) < n, s))
             else (False, s));
          (eager, s) = (if eager_delayed then (False, s) else mi_option_is_enabled opt_eager_commit s);
          sizes = (segment_size, pre_size)
      in do {
        (segment, good, commit, is_zero, s) \<leftarrow>
          (case segment of
             Some a \<Rightarrow>
               let (good, is_zero, s) = segment_init_cached a page_kind capacity sizes eager tld s
               in Some (Some a, good, eager, is_zero, s)
           | None \<Rightarrow> do {
               (segment, commit, is_zero, s) \<leftarrow> segment_init_os eager_delayed sizes eager tld s;
               Some (segment, False, commit, is_zero, s)
             });
        (case segment of
           None \<Rightarrow> Some (None, s)
         | Some a \<Rightarrow>
             let s = segment_upd a segment_header_clear s;
                 s = (if good then s else init_pages [0..<unat capacity] a commit is_zero s);
                 s = segment_init_header a page_kind page_shift capacity sizes s
             in if page_kind_le_medium page_kind
                then do { s \<leftarrow> mi_segment_insert_in_free_queue a tld s; Some (Some a, s) }
                else Some (Some a, s))
      })"

definition mi_segment_alloc ::
    "u64 \<Rightarrow> mi_page_kind \<Rightarrow> u64 \<Rightarrow> addr \<Rightarrow> mstate \<Rightarrow> (addr option \<times> mstate) option" where
  "mi_segment_alloc required page_kind page_shift tld s =
     mi_segment_init None required page_kind page_shift tld s"

definition mi_segment_free :: "addr \<Rightarrow> bool \<Rightarrow> addr \<Rightarrow> mstate \<Rightarrow> mstate option" where
  "mi_segment_free a force tld s =
     (let (force_reset, s) = (if force then mi_option_is_enabled opt_abandoned_page_reset s else (False, s));
          s = mi_pages_reset_remove_all_in_segment a force_reset tld s;
          s = mi_segment_remove_from_free_queue a tld s;
          s = tld_stats tld (sts_page_committed_update (mi_stat_decrease (sg_info_size (st_segment s a)))) s
      in do {
        (cached, s) \<leftarrow> (if force then Some (False, s) else mi_segment_cache_push a tld s);
        if cached then Some s
        else mi_segment_os_free a (sg_segment_size (st_segment s a)) tld s
      })"

section \<open>Pages in a segment\<close>

definition mi_segment_has_free :: "mi_segment \<Rightarrow> bool" where
  "mi_segment_has_free sg = (sg_used sg < sg_capacity sg)"

definition mi_segment_page_claim :: "page_id \<Rightarrow> addr \<Rightarrow> mstate \<Rightarrow> bool \<times> mstate" where
  "mi_segment_page_claim p tld s =
     (let s = mi_pages_reset_remove p tld s;
          (ok, s) =
            (if pg_is_committed (st_page s p) then (True, s)
             else
               let (start, psize) = mi_segment_raw_page_start p s;
                   (ok, is_zero, s) = mi_mem_commit start psize tld s
               in if \<not> ok then (False, s)
                  else
                    let s = (if is_zero then page_upd p (\<lambda>pg. pg\<lparr>pg_is_zero_init := True\<rparr>) s else s)
                    in (True, page_upd p (\<lambda>pg. pg\<lparr>pg_is_committed := True\<rparr>) s))
      in if \<not> ok then (False, s)
         else
           let s = page_upd p (\<lambda>pg. pg\<lparr>pg_segment_in_use := True\<rparr>) s;
               s = segment_upd (fst p) (\<lambda>sg. sg\<lparr>sg_used := sg_used sg + 1\<rparr>) s;
               s = (if pg_is_reset (st_page s p) then mi_page_unreset p 0 tld s else s);
               sg = st_segment s (fst p)
           in (True, if sg_used sg = sg_capacity sg \<and> page_kind_le_medium (sg_page_kind sg)
                     then mi_segment_remove_from_free_queue (fst p) tld s else s))"

text \<open>
  The \<open>memset\<close> of the page fields is commented out in the source: only the counts are reset, and
  the free lists stay as they are.
\<close>

definition mi_segment_page_clear :: "page_id \<Rightarrow> bool \<Rightarrow> addr \<Rightarrow> mstate \<Rightarrow> mstate" where
  "mi_segment_page_clear p allow_reset tld s =
     (let inuse = ucast (pg_capacity (st_page s p)) * mi_page_block_size p s;
          s = tld_stats tld (sts_page_committed_update (mi_stat_decrease inuse)) s;
          s = tld_stats tld (sts_pages_update (mi_stat_decrease 1)) s;
          s = page_upd p (\<lambda>pg. pg\<lparr>pg_is_zero_init := False\<rparr>) s;
          s = page_upd p (\<lambda>pg. pg\<lparr>pg_segment_in_use := False\<rparr>) s;
          s = segment_upd (fst p) (\<lambda>sg. sg\<lparr>sg_used := sg_used sg - 1\<rparr>) s;
          s = (if allow_reset then mi_pages_reset_add p tld s else s);
          s = page_upd p (\<lambda>pg. pg\<lparr>pg_capacity := 0\<rparr>) s
      in page_upd p (\<lambda>pg. pg\<lparr>pg_reserved := 0\<rparr>) s)"

end
