(* ===== verification/Abandoned.thy ===== *)
theory Abandoned
  imports SegmentAlloc
begin

text \<open>
  Abandoned segments and the allocation of pages (\<open>segment.c\<close>). Segments whose pages all belong to
  no thread are on a stack with a tagged top (\<open>abandoned\<close>) and a list of visited ones
  (\<open>abandoned_visited\<close>). Here one thread runs, so the compare-and-swap operations succeed at once.
\<close>

section \<open>The abandoned stack\<close>

definition mi_abandoned_visited_push :: "addr \<Rightarrow> mstate \<Rightarrow> mstate" where
  "mi_abandoned_visited_push a s =
     (let anext = st_abandoned_visited s;
          s = segment_upd a (\<lambda>sg. sg\<lparr>sg_abandoned_next := anext\<rparr>) s
      in s\<lparr>st_abandoned_visited := a\<rparr>)"

text \<open>The last segment of a list; \<open>None\<close> for a cyclic one.\<close>

partial_function (option) abandoned_last :: "addr \<Rightarrow> mstate \<Rightarrow> addr option" where
  "abandoned_last a s =
     (if sg_abandoned_next (st_segment s a) \<noteq> 0
      then abandoned_last (sg_abandoned_next (st_segment s a)) s else Some a)"

definition mi_abandoned_visited_revisit :: "mstate \<Rightarrow> (bool \<times> mstate) option" where
  "mi_abandoned_visited_revisit s =
     (let first = st_abandoned_visited s in
      if first = 0 then Some (False, s)
      else
        let s = s\<lparr>st_abandoned_visited := 0\<rparr>; ts = st_abandoned s in
        if mi_tagged_segment_ptr ts = 0 then Some (True, s\<lparr>st_abandoned := mi_tagged_segment first ts\<rparr>)
        else do {
          lst \<leftarrow> abandoned_last first s;
          let anext = st_abandoned s;
          let s = segment_upd lst (\<lambda>sg. sg\<lparr>sg_abandoned_next := mi_tagged_segment_ptr anext\<rparr>) s;
          Some (True, s\<lparr>st_abandoned := mi_tagged_segment first anext\<rparr>)
        })"

definition mi_abandoned_push :: "addr \<Rightarrow> mstate \<Rightarrow> mstate" where
  "mi_abandoned_push a s =
     (let ts = st_abandoned s;
          s = segment_upd a (\<lambda>sg. sg\<lparr>sg_abandoned_next := mi_tagged_segment_ptr ts\<rparr>) s
      in s\<lparr>st_abandoned := mi_tagged_segment a ts\<rparr>)"

definition mi_abandoned_pop :: "mstate \<Rightarrow> (addr option \<times> mstate) option" where
  "mi_abandoned_pop s =
     do {
       (go_on, s) \<leftarrow>
         (if mi_tagged_segment_ptr (st_abandoned s) = 0 then mi_abandoned_visited_revisit s else Some (True, s));
       if \<not> go_on then Some (None, s)
       else
         let s = s\<lparr>st_abandoned_readers := st_abandoned_readers s + 1\<rparr>;
             ts = st_abandoned s;
             segment = mi_tagged_segment_ptr ts;
             s = (if segment \<noteq> 0
                  then s\<lparr>st_abandoned := mi_tagged_segment (sg_abandoned_next (st_segment s segment)) ts\<rparr>
                  else s);
             s = s\<lparr>st_abandoned_readers := st_abandoned_readers s - 1\<rparr>
         in if segment = 0 then Some (None, s)
            else Some (Some segment, segment_upd segment (\<lambda>sg. sg\<lparr>sg_abandoned_next := 0\<rparr>) s)
     }"

section \<open>Abandoning and freeing pages\<close>

definition mi_segment_abandon :: "addr \<Rightarrow> addr \<Rightarrow> mstate \<Rightarrow> mstate option" where
  "mi_segment_abandon a tld s =
     do {
       s \<leftarrow> mi_reset_delayed tld s;
       let (force_reset, s) = mi_option_is_enabled opt_abandoned_page_reset s;
       let s = mi_pages_reset_remove_all_in_segment a force_reset tld s;
       let s = mi_segment_remove_from_free_queue a tld s;
       let s = tld_stats tld (sts_segments_abandoned_update (mi_stat_increase 1)) s;
       let s = mi_segments_track_size (- sg_segment_size (st_segment s a)) tld s;
       let s = segment_upd a (\<lambda>sg. sg\<lparr>sg_thread_id := 0, sg_abandoned_next := 0, sg_abandoned_visits := 0\<rparr>) s;
       Some (mi_abandoned_push a s)
     }"

definition mi_segment_page_abandon :: "page_id \<Rightarrow> addr \<Rightarrow> mstate \<Rightarrow> mstate option" where
  "mi_segment_page_abandon p tld s =
     (let a = fst p;
          s = segment_upd a (\<lambda>sg. sg\<lparr>sg_abandoned := sg_abandoned sg + 1\<rparr>) s;
          s = tld_stats tld (sts_pages_abandoned_update (mi_stat_increase 1)) s
      in if sg_used (st_segment s a) = sg_abandoned (st_segment s a) then mi_segment_abandon a tld s else Some s)"

definition mi_segment_page_free :: "page_id \<Rightarrow> bool \<Rightarrow> addr \<Rightarrow> mstate \<Rightarrow> mstate option" where
  "mi_segment_page_free p force tld s =
     do {
       s \<leftarrow> mi_reset_delayed tld s;
       let s = mi_segment_page_clear p True tld s;
       let a = fst p;
       let sg = st_segment s a;
       if sg_used sg = 0 then mi_segment_free a force tld s
       else if sg_used sg = sg_abandoned sg then mi_segment_abandon a tld s
       else if sg_used sg + 1 = sg_capacity sg then mi_segment_insert_in_free_queue a tld s
       else Some s
     }"

section \<open>Reclaiming\<close>

text \<open>Whether some page can be used, and the counts of pages in use and of those all free.\<close>

fun check_free_pages ::
    "page_id list \<Rightarrow> u64 \<Rightarrow> bool \<times> nat \<times> nat \<Rightarrow> mstate \<Rightarrow> ((bool \<times> nat \<times> nat) \<times> mstate) option" where
  "check_free_pages [] block_size found s = Some (found, s)"
| "check_free_pages (p # ps) block_size (has_page, pages_used, pages_used_empty) s =
     (if pg_segment_in_use (st_page s p) then do {
        s \<leftarrow> mi_page_free_collect p False s;
        let pg = st_page s p;
        if mi_page_all_free pg
        then check_free_pages ps block_size (True, pages_used + 1, pages_used_empty + 1) s
        else check_free_pages ps block_size
               (has_page \<or> ucast (pg_xblock_size pg) = block_size \<and> mi_page_has_any_available pg,
                pages_used + 1, pages_used_empty) s
      }
      else check_free_pages ps block_size (True, pages_used, pages_used_empty) s)"

definition mi_segment_check_free :: "addr \<Rightarrow> u64 \<Rightarrow> mstate \<Rightarrow> (bool \<times> bool \<times> mstate) option" where
  "mi_segment_check_free a block_size s =
     do {
       ((has_page, pages_used, pages_used_empty), s) \<leftarrow>
         check_free_pages (segment_pages a s) block_size (False, 0, 0) s;
       Some (has_page, pages_used - pages_used_empty = 0, s)
     }"

text \<open>\<open>_mi_page_reclaim\<close> of \<open>page.c\<close>.\<close>

definition mi_page_reclaim :: "addr \<Rightarrow> page_id \<Rightarrow> mstate \<Rightarrow> mstate" where
  "mi_page_reclaim heap p s = mi_page_queue_push heap (mi_page_queue heap (mi_page_block_size p s)) p s"

fun reclaim_pages ::
    "page_id list \<Rightarrow> addr \<Rightarrow> u64 \<Rightarrow> bool \<Rightarrow> addr \<Rightarrow> mstate \<Rightarrow> (bool \<times> mstate) option" where
  "reclaim_pages [] heap block_size right_page tld s = Some (right_page, s)"
| "reclaim_pages (p # ps) heap block_size right_page tld s =
     (if pg_segment_in_use (st_page s p) then
        let s = segment_upd (fst p) (\<lambda>sg. sg\<lparr>sg_abandoned := sg_abandoned sg - 1\<rparr>) s;
            s = tld_stats tld (sts_pages_abandoned_update (mi_stat_decrease 1)) s;
            s = mi_page_set_heap p heap s
        in do {
          s \<leftarrow> mi_page_use_delayed_free p MI_USE_DELAYED_FREE True s;
          s \<leftarrow> mi_page_free_collect p False s;
          if mi_page_all_free (st_page s p)
          then reclaim_pages ps heap block_size right_page tld (mi_segment_page_clear p True tld s)
          else
            let s = mi_page_reclaim heap p s; pg = st_page s p
            in reclaim_pages ps heap block_size
                 (right_page \<or> block_size = ucast (pg_xblock_size pg) \<and> mi_page_has_any_available pg) tld s
        }
      else reclaim_pages ps heap block_size right_page tld s)"

text \<open>
  The segment, unless it was freed, and \<open>right_page_reclaimed\<close>, which callers that pass a null
  pointer for it ignore.
\<close>

definition mi_segment_reclaim ::
    "addr \<Rightarrow> addr \<Rightarrow> u64 \<Rightarrow> addr \<Rightarrow> mstate \<Rightarrow> (addr option \<times> bool \<times> mstate) option" where
  "mi_segment_reclaim a heap requested_block_size tld s =
     (let s = segment_upd a (\<lambda>sg. sg\<lparr>sg_thread_id := st_thread_id s, sg_abandoned_visits := 0\<rparr>) s;
          s = mi_segments_track_size (sg_segment_size (st_segment s a)) tld s;
          s = tld_stats tld (sts_segments_abandoned_update (mi_stat_decrease 1)) s
      in do {
        (right_page, s) \<leftarrow> reclaim_pages (segment_pages a s) heap requested_block_size False tld s;
        let sg = st_segment s a;
        if sg_used sg = 0 then do {
          s \<leftarrow> mi_segment_free a False tld s;
          Some (None, right_page, s)
        }
        else if page_kind_le_medium (sg_page_kind sg) \<and> mi_segment_has_free sg then do {
          s \<leftarrow> mi_segment_insert_in_free_queue a tld s;
          Some (Some a, right_page, s)
        }
        else Some (Some a, right_page, s)
      })"

partial_function (option) mi_abandoned_reclaim_all :: "addr \<Rightarrow> addr \<Rightarrow> mstate \<Rightarrow> mstate option" where
  "mi_abandoned_reclaim_all heap tld s =
     Option.bind (mi_abandoned_pop s) (\<lambda>(segment, s).
       case segment of
         None \<Rightarrow> Some s
       | Some a \<Rightarrow>
           Option.bind (mi_segment_reclaim a heap 0 tld s) (\<lambda>(_, _, s). mi_abandoned_reclaim_all heap tld s))"

fun try_reclaim_loop ::
    "nat \<Rightarrow> addr \<Rightarrow> u64 \<Rightarrow> mi_page_kind \<Rightarrow> addr \<Rightarrow> mstate \<Rightarrow> (addr option \<times> bool \<times> mstate) option" where
  "try_reclaim_loop 0 heap block_size page_kind tld s = Some (None, False, s)"
| "try_reclaim_loop (Suc max_tries) heap block_size page_kind tld s =
     do {
       (segment, s) \<leftarrow> mi_abandoned_pop s;
       (case segment of
          None \<Rightarrow> Some (None, False, s)
        | Some a \<Rightarrow>
            let s = segment_upd a (\<lambda>sg. sg\<lparr>sg_abandoned_visits := sg_abandoned_visits sg + 1\<rparr>) s
            in do {
              (has_page, all_pages_free, s) \<leftarrow> mi_segment_check_free a block_size s;
              if all_pages_free then do {
                (_, _, s) \<leftarrow> mi_segment_reclaim a heap 0 tld s;
                try_reclaim_loop max_tries heap block_size page_kind tld s
              }
              else if has_page \<and> sg_page_kind (st_segment s a) = page_kind
              then mi_segment_reclaim a heap block_size tld s
              else if 3 \<le> sg_abandoned_visits (st_segment s a) then do {
                (_, _, s) \<leftarrow> mi_segment_reclaim a heap 0 tld s;
                try_reclaim_loop max_tries heap block_size page_kind tld s
              }
              else try_reclaim_loop max_tries heap block_size page_kind tld (mi_abandoned_visited_push a s)
            })
     }"

definition mi_segment_try_reclaim ::
    "addr \<Rightarrow> u64 \<Rightarrow> mi_page_kind \<Rightarrow> addr \<Rightarrow> mstate \<Rightarrow> (addr option \<times> bool \<times> mstate) option" where
  "mi_segment_try_reclaim heap block_size page_kind tld s = try_reclaim_loop 8 heap block_size page_kind tld s"

definition mi_segment_reclaim_or_alloc ::
    "addr \<Rightarrow> u64 \<Rightarrow> mi_page_kind \<Rightarrow> u64 \<Rightarrow> addr \<Rightarrow> mstate \<Rightarrow> (addr option \<times> mstate) option" where
  "mi_segment_reclaim_or_alloc heap block_size page_kind page_shift tld s =
     (case mi_segment_cache_pop MI_SEGMENT_SIZE tld s of
        (Some a, s) \<Rightarrow> do {
          (_, s) \<leftarrow> mi_segment_init (Some a) 0 page_kind page_shift tld s;
          Some (Some a, s)
        }
      | (None, s) \<Rightarrow> do {
          (segment, reclaimed, s) \<leftarrow> mi_segment_try_reclaim heap block_size page_kind tld s;
          if reclaimed then Some (None, s)
          else
            (case segment of
               Some a \<Rightarrow> Some (Some a, s)
             | None \<Rightarrow> mi_segment_alloc 0 page_kind page_shift tld s)
        })"

section \<open>Page allocation\<close>

text \<open>The first free page that can be claimed; \<open>None\<close> is the null pointer.\<close>

fun find_free_from :: "page_id list \<Rightarrow> addr \<Rightarrow> mstate \<Rightarrow> page_id option \<times> mstate" where
  "find_free_from [] tld s = (None, s)"
| "find_free_from (p # ps) tld s =
     (if \<not> pg_segment_in_use (st_page s p)
      then let (ok, s) = mi_segment_page_claim p tld s in if ok then (Some p, s) else find_free_from ps tld s
      else find_free_from ps tld s)"

definition mi_segment_find_free :: "addr \<Rightarrow> addr \<Rightarrow> mstate \<Rightarrow> page_id option \<times> mstate" where
  "mi_segment_find_free a tld s = find_free_from (segment_pages a s) tld s"

definition mi_segment_page_alloc_in :: "addr \<Rightarrow> addr \<Rightarrow> mstate \<Rightarrow> page_id option \<times> mstate" where
  "mi_segment_page_alloc_in a tld s = mi_segment_find_free a tld s"

text \<open>\<open>None\<close> for the result: the queue of the kind is null or still empty.\<close>

definition mi_segment_page_alloc_kind ::
    "addr \<Rightarrow> u64 \<Rightarrow> mi_page_kind \<Rightarrow> u64 \<Rightarrow> addr \<Rightarrow> mstate \<Rightarrow> (page_id option \<times> mstate) option" where
  "mi_segment_page_alloc_kind heap block_size kind page_shift tld s =
     (case mi_segment_free_queue_of_kind kind tld of
        None \<Rightarrow> None
      | Some q \<Rightarrow> do {
          (go_on, s) \<leftarrow>
            (if mi_segment_queue_is_empty (segment_queue_of q s) then do {
               (segment, s) \<leftarrow> mi_segment_reclaim_or_alloc heap block_size kind page_shift tld s;
               Some (segment \<noteq> None, s)
             }
             else Some (True, s));
          if \<not> go_on then Some (None, s)
          else
            (case sq_first (segment_queue_of q s) of
               None \<Rightarrow> None
             | Some a \<Rightarrow> Some (mi_segment_page_alloc_in a tld s))
        })"

definition mi_segment_small_page_alloc :: "addr \<Rightarrow> u64 \<Rightarrow> addr \<Rightarrow> mstate \<Rightarrow> (page_id option \<times> mstate) option" where
  "mi_segment_small_page_alloc heap block_size tld s =
     mi_segment_page_alloc_kind heap block_size MI_PAGE_SMALL MI_SMALL_PAGE_SHIFT tld s"

definition mi_segment_medium_page_alloc :: "addr \<Rightarrow> u64 \<Rightarrow> addr \<Rightarrow> mstate \<Rightarrow> (page_id option \<times> mstate) option" where
  "mi_segment_medium_page_alloc heap block_size tld s =
     mi_segment_page_alloc_kind heap block_size MI_PAGE_MEDIUM MI_MEDIUM_PAGE_SHIFT tld s"

definition mi_segment_large_page_alloc :: "addr \<Rightarrow> u64 \<Rightarrow> addr \<Rightarrow> mstate \<Rightarrow> (page_id option \<times> mstate) option" where
  "mi_segment_large_page_alloc heap block_size tld s =
     do {
       (segment, s) \<leftarrow> mi_segment_reclaim_or_alloc heap block_size MI_PAGE_LARGE MI_LARGE_PAGE_SHIFT tld s;
       (case segment of None \<Rightarrow> Some (None, s) | Some a \<Rightarrow> Some (mi_segment_find_free a tld s))
     }"

definition mi_segment_huge_page_alloc :: "u64 \<Rightarrow> addr \<Rightarrow> mstate \<Rightarrow> (page_id option \<times> mstate) option" where
  "mi_segment_huge_page_alloc sz tld s =
     do {
       (segment, s) \<leftarrow> mi_segment_alloc sz MI_PAGE_HUGE (word_of_nat MI_SEGMENT_SHIFT) tld s;
       (case segment of
          None \<Rightarrow> Some (None, s)
        | Some a \<Rightarrow>
            let s = segment_upd a (\<lambda>sg. sg\<lparr>sg_thread_id := 0\<rparr>) s;
                s = mi_segments_track_size (- sg_segment_size (st_segment s a)) tld s
            in Some (mi_segment_find_free a tld s))
     }"

definition mi_segment_page_alloc :: "addr \<Rightarrow> u64 \<Rightarrow> addr \<Rightarrow> mstate \<Rightarrow> (page_id option \<times> mstate) option" where
  "mi_segment_page_alloc heap block_size tld s =
     do {
       (page, s) \<leftarrow>
         (if block_size \<le> MI_SMALL_OBJ_SIZE_MAX then mi_segment_small_page_alloc heap block_size tld s
          else if block_size \<le> MI_MEDIUM_OBJ_SIZE_MAX then mi_segment_medium_page_alloc heap block_size tld s
          else if block_size \<le> MI_LARGE_OBJ_SIZE_MAX then mi_segment_large_page_alloc heap block_size tld s
          else mi_segment_huge_page_alloc block_size tld s);
       s \<leftarrow> mi_reset_delayed tld s;
       Some (page, s)
     }"

end
