(* ===== verification/Init.thy ===== *)
theory Init
  imports HeapQueues
begin

text \<open>
  Process and thread initialisation (\<open>init.c\<close>) and the heap accessors of \<open>mimalloc-internal.h\<close> and
  \<open>heap.c\<close> that the allocation path uses. The thread-local default heap is the one of the single
  running thread. Setting up the destructor of a thread is commented out in the source.
\<close>

section \<open>Heap accessors\<close>

definition mi_get_default_heap :: "mstate \<Rightarrow> addr" where
  "mi_get_default_heap s = st_heap_default s"

definition mi_heap_is_default :: "addr \<Rightarrow> mstate \<Rightarrow> bool" where
  "mi_heap_is_default h s = (h = mi_get_default_heap s)"

definition mi_heap_is_backing :: "addr \<Rightarrow> mstate \<Rightarrow> bool" where
  "mi_heap_is_backing h s = (tl_heap_backing (st_tld s (hp_tld (st_heap s h))) = h)"

definition mi_heap_is_initialized :: "addr \<Rightarrow> bool" where
  "mi_heap_is_initialized h = (h \<noteq> heap_empty_ref)"

definition mi_heap_get_free_small_page :: "addr \<Rightarrow> u64 \<Rightarrow> mstate \<Rightarrow> page_id option" where
  "mi_heap_get_free_small_page h sz s = hp_pages_free_direct (st_heap s h) (unat (mi_wsize_from_size sz))"

definition mi_get_free_small_page :: "u64 \<Rightarrow> mstate \<Rightarrow> page_id option" where
  "mi_get_free_small_page sz s = mi_heap_get_free_small_page (mi_get_default_heap s) sz s"

definition mi_heap_random_next :: "addr \<Rightarrow> mstate \<Rightarrow> u64 \<times> mstate" where
  "mi_heap_random_next h s =
     (let (r, ctx) = mi_random_next (hp_random (st_heap s h))
      in (r, heap_upd h (\<lambda>hp. hp\<lparr>hp_random := ctx\<rparr>) s))"

definition mi_is_main_thread :: "mstate \<Rightarrow> bool" where
  "mi_is_main_thread s = (hp_thread_id (st_heap s heap_main_ref) = st_thread_id s)"

definition mi_heap_set_default_direct :: "addr \<Rightarrow> mstate \<Rightarrow> mstate" where
  "mi_heap_set_default_direct h s = s\<lparr>st_heap_default := h\<rparr>"

section \<open>Heap initialisation\<close>

text \<open>The weak random value is the exclusive or of the addresses of two functions.\<close>

definition mi_heap_main_init :: "mstate \<Rightarrow> mstate" where
  "mi_heap_main_init s =
     (if hp_cookie (st_heap s heap_main_ref) \<noteq> 0 then s
      else
        let s = heap_upd heap_main_ref (\<lambda>h. h\<lparr>hp_thread_id := st_thread_id s\<rparr>) s;
            s = heap_upd heap_main_ref (\<lambda>h. h\<lparr>hp_cookie := st_random_weak s\<rparr>) s;
            s = heap_upd heap_main_ref (\<lambda>h. h\<lparr>hp_random := mi_random_init (hp_random h)\<rparr>) s;
            (k0, s) = mi_heap_random_next heap_main_ref s;
            s = heap_upd heap_main_ref (\<lambda>h. h\<lparr>hp_key0 := k0\<rparr>) s;
            (k1, s) = mi_heap_random_next heap_main_ref s
        in heap_upd heap_main_ref (\<lambda>h. h\<lparr>hp_key1 := k1\<rparr>) s)"

definition mi_heap_main_get :: "mstate \<Rightarrow> addr \<times> mstate" where
  "mi_heap_main_get s = (heap_main_ref, mi_heap_main_init s)"

definition sizeof_mi_heap :: u64 where [mi_consts]: "sizeof_mi_heap = 3056"
definition sizeof_mi_thread_data :: u64 where [mi_consts]: "sizeof_mi_thread_data = 3760"

text \<open>
  The heap and the thread data of another thread share one allocation. Of the thread data only the
  two heap pointers are set; the rest is what the memory held.
\<close>

definition thread_heap_init :: "addr \<Rightarrow> mstate \<Rightarrow> mstate" where
  "thread_heap_init td s =
     (let tld = td + sizeof_mi_heap; heap = td;
          s = heap_upd heap (\<lambda>_. st_heap s heap_empty_ref) s;
          s = heap_upd heap (\<lambda>h. h\<lparr>hp_thread_id := st_thread_id s\<rparr>) s;
          s = heap_upd heap (\<lambda>h. h\<lparr>hp_random := mi_random_init (hp_random h)\<rparr>) s;
          (c, s) = mi_heap_random_next heap s;
          s = heap_upd heap (\<lambda>h. h\<lparr>hp_cookie := c OR 1\<rparr>) s;
          (k0, s) = mi_heap_random_next heap s;
          s = heap_upd heap (\<lambda>h. h\<lparr>hp_key0 := k0\<rparr>) s;
          (k1, s) = mi_heap_random_next heap s;
          s = heap_upd heap (\<lambda>h. h\<lparr>hp_key1 := k1\<rparr>) s;
          s = heap_upd heap (\<lambda>h. h\<lparr>hp_tld := tld\<rparr>) s
      in tld_upd tld (\<lambda>tl. tl\<lparr>tl_heap_backing := heap, tl_heaps := heap\<rparr>) s)"

definition mi_heap_init :: "mstate \<Rightarrow> bool \<times> mstate" where
  "mi_heap_init s =
     (if mi_heap_is_initialized (mi_get_default_heap s) then (True, s)
      else if mi_is_main_thread s
      then (False, mi_heap_set_default_direct heap_main_ref (mi_heap_main_init s))
      else
        let (td, s) = mi_os_alloc sizeof_mi_thread_data MainStats s
        in if td = 0 then (False, s)
           else (False, mi_heap_set_default_direct td (thread_heap_init td s)))"

section \<open>Process and thread\<close>

text \<open>
  \<open>mi_thread_init\<close> after its call of \<open>mi_process_init\<close>. \<open>None\<close> is the access to the thread data of
  the empty heap, when no memory was found for the heap of a thread.
\<close>

definition thread_init_heap :: "mstate \<Rightarrow> mstate option" where
  "thread_init_heap s =
     (let (done, s) = mi_heap_init s in
      if done then Some s
      else if mi_is_main_thread s then Some s
      else
        let tld = hp_tld (st_heap s (mi_get_default_heap s))
        in if tld = 0 then None else Some (stats_apply (TldStats tld) (sts_threads_update (mi_stat_increase 1)) s))"

text \<open>
  \<open>mi_process_init\<close> and \<open>mi_thread_init\<close> call each other: the entry point says which of the two runs.
  Nothing but the flag \<open>_mi_process_is_initialized\<close> ends the recursion; a run that never ends is
  \<open>None\<close>. \<open>_mi_verbose_message\<close> has an empty body in this tree.
\<close>

datatype init_entry = ProcessInit | ThreadInit

partial_function (option) init_run :: "init_entry \<Rightarrow> mstate \<Rightarrow> mstate option" where
  "init_run entry s =
     (if entry = ProcessInit then
        (if st_process_init s then Some s
         else
           let s = s\<lparr>st_process_init := True\<rparr>;
               s = mi_os_init s;
               s = mi_heap_main_init s
           in init_run ThreadInit s)
      else Option.bind (init_run ProcessInit s) thread_init_heap)"

definition mi_process_init :: "mstate \<Rightarrow> mstate option" where
  "mi_process_init s = init_run ProcessInit s"

definition mi_thread_init :: "mstate \<Rightarrow> mstate option" where
  "mi_thread_init s = init_run ThreadInit s"

definition mi_process_load :: "mstate \<Rightarrow> mstate option" where
  "mi_process_load s = mi_process_init ((mi_heap_main_init s)\<lparr>st_preloading := False\<rparr>)"

definition mi_heap_get_default :: "mstate \<Rightarrow> (addr \<times> mstate) option" where
  "mi_heap_get_default s = Option.bind (mi_thread_init s) (\<lambda>s. Some (mi_get_default_heap s, s))"

text \<open>
  The recursion ends: the state in which \<open>mi_process_init\<close> calls \<open>mi_thread_init\<close> has the flag set.
\<close>

definition process_started :: "mstate \<Rightarrow> mstate" where
  "process_started s =
     (if st_process_init s then s
      else mi_heap_main_init (mi_os_init (s\<lparr>st_process_init := True\<rparr>)))"

lemma mi_heap_main_init_process [simp]: "st_process_init (mi_heap_main_init s) = st_process_init s"
  by (simp add: mi_heap_main_init_def mi_heap_random_next_def Let_def case_prod_beta heap_upd_def)

lemma mi_os_init_process [simp]: "st_process_init (mi_os_init s) = st_process_init (s :: mstate)"
  by (simp add: mi_os_init_def Let_def)

lemma process_started_flag [simp]: "st_process_init (process_started s)"
  by (simp add: process_started_def)

lemma mi_process_init_again: "st_process_init s \<Longrightarrow> mi_process_init s = Some s"
  by (simp add: mi_process_init_def init_run.simps [of ProcessInit s])

lemma mi_thread_init_bind: "mi_thread_init s = Option.bind (mi_process_init s) thread_init_heap"
  by (simp add: mi_thread_init_def mi_process_init_def init_run.simps [of ThreadInit s])

lemma mi_thread_init_started: "st_process_init s \<Longrightarrow> mi_thread_init s = thread_init_heap s"
  by (simp add: mi_thread_init_bind mi_process_init_again)

lemma mi_process_init_eq:
  "mi_process_init s = (if st_process_init s then Some s else thread_init_heap (process_started s))"
proof (cases "st_process_init s")
  case False
  then have "mi_process_init s = mi_thread_init (process_started s)"
    by (simp add: mi_process_init_def mi_thread_init_def process_started_def Let_def
        init_run.simps [of ProcessInit s])
  with False show ?thesis by (simp add: mi_thread_init_started)
qed (simp add: mi_process_init_again)

text \<open>\<open>None\<close> is the access to the thread data of the empty heap.\<close>

definition mi_heap_get_backing :: "mstate \<Rightarrow> (addr \<times> mstate) option" where
  "mi_heap_get_backing s =
     Option.bind (mi_heap_get_default s) (\<lambda>(heap, s).
       let tld = hp_tld (st_heap s heap)
       in if tld = 0 then None else Some (tl_heap_backing (st_tld s tld), s))"

end
