(* ===== verification/PageOps.thy ===== *)
theory PageOps
  imports Abandoned Init
begin

text \<open>
  Moving pages between the queues of a heap, and giving pages back (\<open>page.c\<close>): to and from the
  full queue, abandoning, freeing and retiring a page, and freeing the retired pages of a heap.
  The thread data of a segment operation is that of the heap of the page.
\<close>

section \<open>The full queue\<close>

definition full_queue :: "addr \<Rightarrow> queue_id" where
  "full_queue h = (h, unat MI_BIN_FULL)"

definition mi_page_unfull :: "page_id \<Rightarrow> mstate \<Rightarrow> mstate" where
  "mi_page_unfull p s =
     (if \<not> pg_in_full (st_page s p) then s
      else
        let heap = mi_page_heap p s;
            pqfull = full_queue heap;
            s = mi_page_set_in_full p False s;
            pq = mi_heap_page_queue_of heap p s;
            s = mi_page_set_in_full p True s
        in mi_page_queue_enqueue_from pq pqfull p s)"

definition mi_page_to_full :: "page_id \<Rightarrow> queue_id \<Rightarrow> mstate \<Rightarrow> mstate option" where
  "mi_page_to_full p pq s =
     (if pg_in_full (st_page s p) then Some s
      else mi_page_free_collect p False
             (mi_page_queue_enqueue_from (full_queue (mi_page_heap p s)) pq p s))"

section \<open>Abandoning and freeing a page\<close>

definition heap_tld :: "addr \<Rightarrow> mstate \<Rightarrow> addr" where
  "heap_tld h s = hp_tld (st_heap s h)"

definition mi_page_abandon :: "page_id \<Rightarrow> queue_id \<Rightarrow> mstate \<Rightarrow> mstate option" where
  "mi_page_abandon p pq s =
     (let pheap = mi_page_heap p s;
          tld = heap_tld pheap s;
          s = mi_page_queue_remove pq p s;
          s = mi_page_set_heap p 0 s
      in mi_segment_page_abandon p tld s)"

definition mi_page_free :: "page_id \<Rightarrow> queue_id \<Rightarrow> bool \<Rightarrow> mstate \<Rightarrow> mstate option" where
  "mi_page_free p pq force s =
     (let s = mi_page_set_has_aligned p False s;
          tld = heap_tld (mi_page_heap p s) s;
          s = mi_page_queue_remove pq p s;
          s = mi_page_set_heap p 0 s
      in mi_segment_page_free p force tld s)"

section \<open>Retiring a page\<close>

definition MI_MAX_RETIRE_SIZE :: u64 where [mi_consts]: "MI_MAX_RETIRE_SIZE = MI_LARGE_OBJ_SIZE_MAX"
definition MI_RETIRE_CYCLES :: "7 word" where [mi_consts]: "MI_RETIRE_CYCLES = 8"

definition mi_page_retire :: "page_id \<Rightarrow> mstate \<Rightarrow> mstate option" where
  "mi_page_retire p s =
     (let s = mi_page_set_has_aligned p False s;
          pq = mi_page_queue_of p s;
          pg = st_page s p
      in if ucast (pg_xblock_size pg) \<le> MI_MAX_RETIRE_SIZE \<and> \<not> pg_in_full pg
            \<and> pq_last (queue_of pq s) = Some p \<and> pq_first (queue_of pq s) = Some p
         then
           let expire = (if ucast (pg_xblock_size pg) \<le> MI_SMALL_OBJ_SIZE_MAX
                         then MI_RETIRE_CYCLES else MI_RETIRE_CYCLES div 4);
               s = page_upd p (\<lambda>pg. pg\<lparr>pg_retire_expire := expire\<rparr>) s;
               heap = mi_page_heap p s;
               index = word_of_nat (snd pq);
               s = (if index < hp_page_retired_min (st_heap s heap)
                    then heap_upd heap (\<lambda>h. h\<lparr>hp_page_retired_min := index\<rparr>) s else s);
               s = (if hp_page_retired_max (st_heap s heap) < index
                    then heap_upd heap (\<lambda>h. h\<lparr>hp_page_retired_max := index\<rparr>) s else s)
           in Some s
         else mi_page_free p pq False s)"

text \<open>One queue of the retired range; whether its page stays retired.\<close>

definition collect_retired_bin :: "addr \<Rightarrow> bool \<Rightarrow> nat \<Rightarrow> mstate \<Rightarrow> (bool \<times> mstate) option" where
  "collect_retired_bin heap force bin s =
     (case pq_first (queue_of (heap, bin) s) of
        None \<Rightarrow> Some (False, s)
      | Some p \<Rightarrow>
          if pg_retire_expire (st_page s p) = 0 then Some (False, s)
          else if mi_page_all_free (st_page s p) then
            (let s = page_upd p (\<lambda>pg. pg\<lparr>pg_retire_expire := pg_retire_expire pg - 1\<rparr>) s
             in if force \<or> pg_retire_expire (st_page s p) = 0
                then Option.bind (mi_page_free p (heap, bin) force s) (\<lambda>s. Some (False, s))
                else Some (True, s))
          else Some (False, page_upd p (\<lambda>pg. pg\<lparr>pg_retire_expire := 0\<rparr>) s))"

partial_function (option) collect_retired_loop ::
    "addr \<Rightarrow> bool \<Rightarrow> u64 \<Rightarrow> u64 \<Rightarrow> u64 \<Rightarrow> mstate \<Rightarrow> (u64 \<times> u64 \<times> mstate) option" where
  "collect_retired_loop heap force bin mn mx s =
     (if hp_page_retired_max (st_heap s heap) < bin then Some (mn, mx, s)
      else
        Option.bind (collect_retired_bin heap force (unat bin) s) (\<lambda>(keep, s).
          collect_retired_loop heap force (bin + 1)
            (if keep \<and> bin < mn then bin else mn) (if keep \<and> mx < bin then bin else mx) s))"

definition mi_heap_collect_retired :: "addr \<Rightarrow> bool \<Rightarrow> mstate \<Rightarrow> mstate option" where
  "mi_heap_collect_retired heap force s =
     Option.bind (collect_retired_loop heap force (hp_page_retired_min (st_heap s heap)) (ucast MI_BIN_FULL) 0 s)
       (\<lambda>(mn, mx, s). Some (heap_upd heap (\<lambda>h. h\<lparr>hp_page_retired_min := mn, hp_page_retired_max := mx\<rparr>) s))"

end
