(* ===== verification/Free.thy ===== *)
theory Free
  imports PageOps
begin

text \<open>
  Freeing blocks (\<open>alloc.c\<close>, and the delayed frees of a heap in \<open>page.c\<close>). The current thread either
  owns the segment of the block (\<open>sg_thread_id\<close> is its id) or frees a block of another thread.
  \<open>None\<close> is again undefined behaviour or a loop that does not end.
\<close>

section \<open>A block of another thread\<close>

text \<open>\<open>_mi_segment_huge_page_free\<close> of \<open>segment.c\<close>.\<close>

definition mi_segment_huge_page_free :: "addr \<Rightarrow> page_id \<Rightarrow> addr \<Rightarrow> mstate \<Rightarrow> mstate option" where
  "mi_segment_huge_page_free a p block s =
     do {
       (heap, s) \<leftarrow> mi_heap_get_default s;
       if sg_thread_id (st_segment s a) \<noteq> 0 then Some s
       else
         let s = segment_upd a (\<lambda>sg. sg\<lparr>sg_thread_id := hp_thread_id (st_heap s heap)\<rparr>) s;
             s = mi_block_set_next block (pg_free (st_page s p)) s;
             s = page_upd p (\<lambda>pg. pg\<lparr>pg_free := block, pg_used := pg_used pg - 1, pg_is_zero := False\<rparr>) s;
             tld = heap_tld heap s;
             bsize = mi_page_usable_block_size p s;
             s = (if MI_HUGE_OBJ_SIZE_MAX < bsize
                  then tld_stats tld (sts_giant_update (mi_stat_decrease bsize)) s
                  else tld_stats tld (sts_huge_update (mi_stat_decrease bsize)) s);
             s = mi_segments_track_size (sg_segment_size (st_segment s a)) tld s
         in mi_segment_page_free p True tld s
     }"

text \<open>
  The compare-and-swap loops succeed at once. With \<open>MI_USE_DELAYED_FREE\<close> set the block goes to the
  list of the heap of the page, else to the list of the page.
\<close>

definition heap_delayed_push :: "addr \<Rightarrow> addr \<Rightarrow> mstate \<Rightarrow> mstate" where
  "heap_delayed_push heap block s =
     (let dfree = hp_thread_delayed_free (st_heap s heap);
          s = mi_block_set_next block dfree s
      in heap_upd heap (\<lambda>h. h\<lparr>hp_thread_delayed_free := block\<rparr>) s)"

definition page_set_tfree :: "page_id \<Rightarrow> u64 \<Rightarrow> mstate \<Rightarrow> mstate" where
  "page_set_tfree p tfree = page_upd p (\<lambda>pg. pg\<lparr>pg_xthread_free := tfree\<rparr>)"

definition mi_free_block_mt :: "page_id \<Rightarrow> addr \<Rightarrow> mstate \<Rightarrow> mstate option" where
  "mi_free_block_mt p block s =
     (if sg_page_kind (st_segment s (fst p)) = MI_PAGE_HUGE
      then mi_segment_huge_page_free (fst p) p block s
      else
        let tfree = pg_xthread_free (st_page s p) in
        if mi_tf_delayed tfree = MI_USE_DELAYED_FREE then
          let s = page_set_tfree p (mi_tf_set_delayed tfree MI_DELAYED_FREEING) s;
              heap = mi_page_heap p s;
              s = (if heap \<noteq> 0 then heap_delayed_push heap block s else s);
              tfree = pg_xthread_free (st_page s p)
          in Some (page_set_tfree p (mi_tf_set_delayed tfree MI_NO_DELAYED_FREE) s)
        else
          let s = mi_block_set_next block (mi_tf_block tfree) s
          in Some (page_set_tfree p (mi_tf_set_block tfree block) s))"

section \<open>Freeing a block\<close>

definition page_local_push :: "page_id \<Rightarrow> addr \<Rightarrow> mstate \<Rightarrow> mstate" where
  "page_local_push p block s =
     (let s = mi_block_set_next block (pg_local_free (st_page s p)) s;
          s = page_upd p (\<lambda>pg. pg\<lparr>pg_local_free := block\<rparr>) s
      in page_upd p (\<lambda>pg. pg\<lparr>pg_used := pg_used pg - 1\<rparr>) s)"

definition mi_free_block :: "page_id \<Rightarrow> bool \<Rightarrow> addr \<Rightarrow> mstate \<Rightarrow> mstate option" where
  "mi_free_block p is_local block s =
     (if is_local then
        let s = page_local_push p block s
        in if mi_page_all_free (st_page s p) then mi_page_retire p s
           else if pg_in_full (st_page s p) then Some (mi_page_unfull p s)
           else Some s
      else mi_free_block_mt p block s)"

text \<open>The start of the block that contains an address; \<open>None\<close> is the division by a block size of 0.\<close>

definition mi_page_ptr_unalign :: "page_id \<Rightarrow> addr \<Rightarrow> mstate \<Rightarrow> addr option" where
  "mi_page_ptr_unalign p x s =
     (if mi_page_block_size p s = 0 then None
      else
        let diff = x - fst (mi_page_start p s);
            adjust = diff mod mi_page_block_size p s
        in Some (x - adjust))"

definition mi_free_generic :: "addr \<Rightarrow> bool \<Rightarrow> addr \<Rightarrow> mstate \<Rightarrow> mstate option" where
  "mi_free_generic a is_local x s =
     (let p = mi_segment_page_of a x s in do {
        block \<leftarrow> (if pg_has_aligned (st_page s p) then mi_page_ptr_unalign p x s else Some x);
        mi_free_block p is_local block s
      })"

definition mi_free :: "addr \<Rightarrow> mstate \<Rightarrow> mstate option" where
  "mi_free x s =
     (let a = mi_ptr_segment x in
      if a = 0 then Some s
      else
        let tid = st_thread_id s;
            p = mi_segment_page_of a x s;
            pg = st_page s p
        in if tid = sg_thread_id (st_segment s a) \<and> \<not> pg_in_full pg \<and> \<not> pg_has_aligned pg then
             let s = page_local_push p x s
             in if mi_page_all_free (st_page s p) then mi_page_retire p s else Some s
           else mi_free_generic a (tid = sg_thread_id (st_segment s a)) x s)"

section \<open>Delayed frees\<close>

definition mi_free_delayed_block :: "addr \<Rightarrow> mstate \<Rightarrow> mstate option" where
  "mi_free_delayed_block block s =
     (let a = mi_ptr_segment block;
          p = mi_segment_page_of a block s
      in do {
        s \<leftarrow> mi_page_use_delayed_free p MI_USE_DELAYED_FREE False s;
        s \<leftarrow> mi_page_free_collect p False s;
        mi_free_block p True block s
      })"

text \<open>\<open>_mi_free_delayed_block\<close> always returns true, so no block is put back.\<close>

partial_function (option) delayed_free_loop :: "addr \<Rightarrow> mstate \<Rightarrow> mstate option" where
  "delayed_free_loop block s =
     (if block = 0 then Some s
      else
        let nxt = mi_block_next block s in
        Option.bind (mi_free_delayed_block block s) (delayed_free_loop nxt))"

definition mi_heap_delayed_free :: "addr \<Rightarrow> mstate \<Rightarrow> mstate option" where
  "mi_heap_delayed_free heap s =
     (let block = hp_thread_delayed_free (st_heap s heap);
          s = (if block \<noteq> 0 then heap_upd heap (\<lambda>h. h\<lparr>hp_thread_delayed_free := 0\<rparr>) s else s)
      in delayed_free_loop block s)"

section \<open>Usable size\<close>

definition mi_page_usable_size_of :: "page_id \<Rightarrow> mstate \<Rightarrow> u64" where
  "mi_page_usable_size_of p s = mi_page_usable_block_size p s"

definition mi_usable_size :: "addr \<Rightarrow> mstate \<Rightarrow> u64 option" where
  "mi_usable_size x s =
     (if x = 0 then Some 0
      else
        let a = mi_ptr_segment x;
            p = mi_segment_page_of a x s
        in if pg_has_aligned (st_page s p) then do {
             block \<leftarrow> mi_page_ptr_unalign p x s;
             let sz = mi_page_usable_size_of p s;
             let adjust = x - block;
             Some (sz - adjust)
           }
           else Some (mi_page_usable_size_of p s))"

definition mi_free_size :: "addr \<Rightarrow> u64 \<Rightarrow> mstate \<Rightarrow> mstate option" where
  "mi_free_size x sz s = mi_free x s"

definition mi_free_size_aligned :: "addr \<Rightarrow> u64 \<Rightarrow> u64 \<Rightarrow> mstate \<Rightarrow> mstate option" where
  "mi_free_size_aligned x sz alignment s = mi_free_size x sz s"

definition mi_free_aligned :: "addr \<Rightarrow> u64 \<Rightarrow> mstate \<Rightarrow> mstate option" where
  "mi_free_aligned x alignment s = mi_free x s"

end
