(* ===== verification/HeapCollect.thy ===== *)
theory HeapCollect
  imports Free
begin

text \<open>
  Visiting the pages of a heap and collecting them (\<open>heap.c\<close>), and the deferred free function that
  a user can register (\<open>page.c\<close>). The source is compiled with \<open>NDEBUG\<close>: a forced collection of the
  main heap reclaims the abandoned segments and no collection frees memory regions. A call of the
  registered function is recorded in the state with its arguments; what the function does is up to
  the user and outside of the model.
\<close>

section \<open>Visiting pages\<close>

text \<open>The arguments of type \<open>void*\<close> of a visitor are one value that it may change.\<close>

type_synonym 'v page_visitor = "queue_id \<Rightarrow> page_id \<Rightarrow> 'v \<Rightarrow> mstate \<Rightarrow> (bool \<times> 'v \<times> mstate) option"

text \<open>The pages of one queue from a page on; \<open>None\<close> also for a queue that never ends.\<close>

partial_function (option) visit_queue ::
    "'v page_visitor \<Rightarrow> queue_id \<Rightarrow> page_id option \<Rightarrow> 'v \<Rightarrow> mstate \<Rightarrow> (bool \<times> 'v \<times> mstate) option" where
  "visit_queue fn q page arg s =
     (case page of
        None \<Rightarrow> Some (True, arg, s)
      | Some p \<Rightarrow>
          (let nxt = pg_next (st_page s p) in
           Option.bind (fn q p arg s) (\<lambda>(go_on, arg, s).
             if \<not> go_on then Some (False, arg, s) else visit_queue fn q nxt arg s)))"

fun visit_queues ::
    "'v page_visitor \<Rightarrow> addr \<Rightarrow> nat list \<Rightarrow> 'v \<Rightarrow> mstate \<Rightarrow> (bool \<times> 'v \<times> mstate) option" where
  "visit_queues fn heap [] arg s = Some (True, arg, s)"
| "visit_queues fn heap (i # is) arg s =
     do {
       (go_on, arg, s) \<leftarrow> visit_queue fn (heap, i) (pq_first (queue_of (heap, i) s)) arg s;
       if \<not> go_on then Some (False, arg, s) else visit_queues fn heap is arg s
     }"

definition mi_heap_visit_pages ::
    "addr \<Rightarrow> 'v page_visitor \<Rightarrow> 'v \<Rightarrow> mstate \<Rightarrow> (bool \<times> 'v \<times> mstate) option" where
  "mi_heap_visit_pages heap fn arg s =
     (if heap = 0 \<or> hp_page_count (st_heap s heap) = 0 then Some (False, arg, s)
      else visit_queues fn heap [0 ..< Suc (unat MI_BIN_FULL)] arg s)"

section \<open>The deferred free function\<close>

text \<open>\<open>None\<close> is the access to the thread data of a heap that has none.\<close>

definition mi_deferred_free :: "addr \<Rightarrow> bool \<Rightarrow> mstate \<Rightarrow> mstate option" where
  "mi_deferred_free heap force s =
     (let tld = heap_tld heap s in
      if tld = 0 then None
      else
        let s = tld_upd tld (\<lambda>tl. tl\<lparr>tl_heartbeat := tl_heartbeat tl + 1\<rparr>) s
        in if st_deferred_free s \<noteq> 0 \<and> \<not> tl_recurse (st_tld s tld) then
             let s = tld_upd tld (\<lambda>tl. tl\<lparr>tl_recurse := True\<rparr>) s;
                 s = s\<lparr>st_deferred_calls :=
                        st_deferred_calls s @ [(force, tl_heartbeat (st_tld s tld), st_deferred_arg s)]\<rparr>
             in Some (tld_upd tld (\<lambda>tl. tl\<lparr>tl_recurse := False\<rparr>) s)
           else Some s)"

definition mi_register_deferred_free :: "addr \<Rightarrow> addr \<Rightarrow> mstate \<Rightarrow> mstate" where
  "mi_register_deferred_free fn arg s = s\<lparr>st_deferred_free := fn, st_deferred_arg := arg\<rparr>"

section \<open>Collecting\<close>

datatype mi_collect = MI_NORMAL | MI_FORCE | MI_ABANDON

text \<open>The code compares the values of the enumeration.\<close>

fun mi_collect_val :: "mi_collect \<Rightarrow> nat" where
  "mi_collect_val MI_NORMAL = 0"
| "mi_collect_val MI_FORCE = 1"
| "mi_collect_val MI_ABANDON = 2"

lemma mi_collect_val_inj: "mi_collect_val c = mi_collect_val d \<Longrightarrow> c = d"
  by (cases c; cases d) simp_all

instantiation mi_collect :: linorder
begin

definition less_eq_mi_collect :: "mi_collect \<Rightarrow> mi_collect \<Rightarrow> bool" where
  "c \<le> d \<longleftrightarrow> mi_collect_val c \<le> mi_collect_val d"

definition less_mi_collect :: "mi_collect \<Rightarrow> mi_collect \<Rightarrow> bool" where
  "c < d \<longleftrightarrow> mi_collect_val c < mi_collect_val d"

instance
  by standard (auto simp: less_eq_mi_collect_def less_mi_collect_def intro: mi_collect_val_inj)

end

definition collect_ge_force :: "mi_collect \<Rightarrow> bool" where
  "collect_ge_force c \<longleftrightarrow> MI_FORCE \<le> c"

definition mi_heap_page_collect :: "mi_collect page_visitor" where
  "mi_heap_page_collect pq p collect s =
     do {
       s \<leftarrow> mi_page_free_collect p (collect_ge_force collect) s;
       s \<leftarrow> (if mi_page_all_free (st_page s p) then mi_page_free p pq (collect_ge_force collect) s
             else if collect = MI_ABANDON then mi_page_abandon p pq s
             else Some s);
       Some (True, collect, s)
     }"

definition mi_heap_page_never_delayed_free :: "unit page_visitor" where
  "mi_heap_page_never_delayed_free pq p arg s =
     do { s \<leftarrow> mi_page_use_delayed_free p MI_NEVER_DELAYED_FREE False s; Some (True, arg, s) }"

definition mi_heap_collect_ex :: "addr \<Rightarrow> mi_collect \<Rightarrow> mstate \<Rightarrow> mstate option" where
  "mi_heap_collect_ex heap collect s =
     (if \<not> mi_heap_is_initialized heap then Some s
      else do {
        s \<leftarrow> mi_deferred_free heap (collect_ge_force collect) s;
        s \<leftarrow> (if collect = MI_FORCE \<and> mi_is_main_thread s \<and> mi_heap_is_backing heap s
                 \<and> \<not> hp_no_reclaim (st_heap s heap)
              then mi_abandoned_reclaim_all heap (heap_tld heap s) s else Some s);
        s \<leftarrow> (if collect = MI_ABANDON
              then do { (_, _, s) \<leftarrow> mi_heap_visit_pages heap mi_heap_page_never_delayed_free () s; Some s }
              else Some s);
        s \<leftarrow> mi_heap_delayed_free heap s;
        s \<leftarrow> mi_heap_collect_retired heap (collect_ge_force collect) s;
        (_, _, s) \<leftarrow> mi_heap_visit_pages heap mi_heap_page_collect collect s;
        if collect_ge_force collect then mi_segment_thread_collect (heap_tld heap s) s else Some s
      })"

definition mi_heap_collect_abandon :: "addr \<Rightarrow> mstate \<Rightarrow> mstate option" where
  "mi_heap_collect_abandon heap s = mi_heap_collect_ex heap MI_ABANDON s"

definition mi_heap_collect :: "addr \<Rightarrow> bool \<Rightarrow> mstate \<Rightarrow> mstate option" where
  "mi_heap_collect heap force s = mi_heap_collect_ex heap (if force then MI_FORCE else MI_NORMAL) s"

definition mi_collect :: "bool \<Rightarrow> mstate \<Rightarrow> mstate option" where
  "mi_collect force s = mi_heap_collect (mi_get_default_heap s) force s"

end
