(* ===== verification/PageFind.thy ===== *)
theory PageFind
  imports HeapCollect
begin

text \<open>
  Finding a page with a free block (\<open>page.c\<close>) and the generic allocation routine, which calls
  itself through \<open>_mi_page_malloc\<close> of \<open>alloc.c\<close> when the page found has no free block. A page is
  \<open>None\<close> for a null pointer, inside a result that is \<open>None\<close> for undefined behaviour or no end.
\<close>

section \<open>Fresh pages\<close>

text \<open>A huge page is given no queue.\<close>

definition mi_page_fresh_alloc ::
    "addr \<Rightarrow> queue_id option \<Rightarrow> u64 \<Rightarrow> mstate \<Rightarrow> (page_id option \<times> mstate) option" where
  "mi_page_fresh_alloc heap pq block_size s =
     do {
       (page, s) \<leftarrow> mi_segment_page_alloc heap block_size (heap_tld heap s) s;
       (case page of
          None \<Rightarrow> Some (None, s)
        | Some p \<Rightarrow> do {
            s \<leftarrow> mi_page_init heap p block_size s;
            let s = tld_stats (heap_tld heap s) (sts_pages_update (mi_stat_increase 1)) s;
            let s = (case pq of None \<Rightarrow> s | Some q \<Rightarrow> mi_page_queue_push heap q p s);
            Some (Some p, s)
          })
     }"

definition mi_page_fresh :: "addr \<Rightarrow> queue_id \<Rightarrow> mstate \<Rightarrow> (page_id option \<times> mstate) option" where
  "mi_page_fresh heap pq s = mi_page_fresh_alloc heap (Some pq) (pq_block_size (queue_of pq s)) s"

section \<open>Searching a queue\<close>

partial_function (option) find_free_pages ::
    "queue_id \<Rightarrow> page_id option \<Rightarrow> mstate \<Rightarrow> (page_id option \<times> mstate) option" where
  "find_free_pages pq page s =
     (case page of
        None \<Rightarrow> Some (None, s)
      | Some p \<Rightarrow>
          (let nxt = pg_next (st_page s p) in
           Option.bind (mi_page_free_collect p False s) (\<lambda>s.
             if mi_page_immediate_available (st_page s p) then Some (Some p, s)
             else if pg_capacity (st_page s p) < pg_reserved (st_page s p)
             then Option.bind (mi_page_extend_free p s) (\<lambda>s. Some (Some p, s))
             else Option.bind (mi_page_to_full p pq s) (find_free_pages pq nxt))))"

text \<open>One attempt; the second one of \<open>mi_page_queue_find_free_ex\<close> is its call with \<open>first_try\<close> false.\<close>

definition queue_find_free_once ::
    "addr \<Rightarrow> queue_id \<Rightarrow> mstate \<Rightarrow> (page_id option \<times> mstate) option" where
  "queue_find_free_once heap pq s =
     do {
       (page, s) \<leftarrow> find_free_pages pq (pq_first (queue_of pq s)) s;
       (case page of
          None \<Rightarrow> do { s \<leftarrow> mi_heap_collect_retired heap False s; mi_page_fresh heap pq s }
        | Some p \<Rightarrow> Some (Some p, page_upd p (\<lambda>pg. pg\<lparr>pg_retire_expire := 0\<rparr>) s))
     }"

definition mi_page_queue_find_free_ex ::
    "addr \<Rightarrow> queue_id \<Rightarrow> bool \<Rightarrow> mstate \<Rightarrow> (page_id option \<times> mstate) option" where
  "mi_page_queue_find_free_ex heap pq first_try s =
     do {
       (page, s) \<leftarrow> queue_find_free_once heap pq s;
       if page = None \<and> first_try then queue_find_free_once heap pq s else Some (page, s)
     }"

definition mi_find_free_page :: "addr \<Rightarrow> u64 \<Rightarrow> mstate \<Rightarrow> (page_id option \<times> mstate) option" where
  "mi_find_free_page heap sz s =
     (let pq = mi_page_queue heap sz in
      case pq_first (queue_of pq s) of
        None \<Rightarrow> mi_page_queue_find_free_ex heap pq True s
      | Some p \<Rightarrow> do {
          s \<leftarrow> mi_page_free_collect p False s;
          if mi_page_immediate_available (st_page s p)
          then Some (Some p, page_upd p (\<lambda>pg. pg\<lparr>pg_retire_expire := 0\<rparr>) s)
          else mi_page_queue_find_free_ex heap pq True s
        })"

section \<open>Pages for a request\<close>

definition mi_huge_page_alloc :: "addr \<Rightarrow> u64 \<Rightarrow> mstate \<Rightarrow> (page_id option \<times> mstate) option" where
  "mi_huge_page_alloc heap sz s =
     do {
       (page, s) \<leftarrow> mi_page_fresh_alloc heap None (mi_os_good_alloc_size (mi_os_page_size s) sz) s;
       (case page of
          None \<Rightarrow> Some (None, s)
        | Some p \<Rightarrow>
            let bsize = mi_page_block_size p s;
                s = mi_page_set_heap p 0 s;
                tld = heap_tld heap s;
                s = (if MI_HUGE_OBJ_SIZE_MAX < bsize
                     then tld_stats tld (sts_giant_count_update (mi_stat_counter_increase 1))
                            (tld_stats tld (sts_giant_update (mi_stat_increase bsize)) s)
                     else tld_stats tld (sts_huge_count_update (mi_stat_counter_increase 1))
                            (tld_stats tld (sts_huge_update (mi_stat_increase bsize)) s))
            in Some (Some p, s))
     }"

definition mi_find_page :: "addr \<Rightarrow> u64 \<Rightarrow> mstate \<Rightarrow> (page_id option \<times> mstate) option" where
  "mi_find_page heap sz s =
     (if MI_LARGE_OBJ_SIZE_MAX < sz then
        (if PTRDIFF_MAX < sz then Some (None, s) else mi_huge_page_alloc heap sz s)
      else mi_find_free_page heap sz s)"

section \<open>Generic allocation\<close>

text \<open>\<open>_mi_page_malloc\<close> when the page has a free block.\<close>

definition page_pop :: "page_id \<Rightarrow> mstate \<Rightarrow> addr \<times> mstate" where
  "page_pop p s =
     (let block = pg_free (st_page s p);
          s = page_upd p (\<lambda>pg. pg\<lparr>pg_free := mi_block_next block s\<rparr>) s
      in (block, page_upd p (\<lambda>pg. pg\<lparr>pg_used := pg_used pg + 1\<rparr>) s))"

text \<open>\<open>_mi_malloc_generic\<close> up to its last line: the heap used and the page found.\<close>

definition malloc_generic_page ::
    "addr \<Rightarrow> u64 \<Rightarrow> mstate \<Rightarrow> (addr \<times> page_id option \<times> mstate) option" where
  "malloc_generic_page heap sz s =
     do {
       (heap, s) \<leftarrow>
         (if \<not> mi_heap_is_initialized heap
          then do { s \<leftarrow> mi_thread_init s; Some (mi_get_default_heap s, s) }
          else Some (heap, s));
       s \<leftarrow> mi_deferred_free heap False s;
       s \<leftarrow> mi_heap_delayed_free heap s;
       (page, s) \<leftarrow> mi_find_page heap sz s;
       (page, s) \<leftarrow>
         (if page = None then do { s \<leftarrow> mi_heap_collect heap True s; mi_find_page heap sz s }
          else Some (page, s));
       Some (heap, page, s)
     }"

partial_function (option) mi_malloc_generic :: "addr \<Rightarrow> u64 \<Rightarrow> mstate \<Rightarrow> (addr \<times> mstate) option" where
  "mi_malloc_generic heap sz s =
     Option.bind (malloc_generic_page heap sz s) (\<lambda>(heap, page, s).
       case page of
         None \<Rightarrow> Some (0, s)
       | Some p \<Rightarrow>
           if pg_free (st_page s p) = 0 then mi_malloc_generic heap sz s else Some (page_pop p s))"

definition mi_page_malloc :: "addr \<Rightarrow> page_id \<Rightarrow> u64 \<Rightarrow> mstate \<Rightarrow> (addr \<times> mstate) option" where
  "mi_page_malloc heap p sz s =
     (if pg_free (st_page s p) = 0 then mi_malloc_generic heap sz s else Some (page_pop p s))"

lemma mi_malloc_generic_eq:
  "mi_malloc_generic heap sz s =
     Option.bind (malloc_generic_page heap sz s) (\<lambda>(heap, page, s).
       case page of None \<Rightarrow> Some (0, s) | Some p \<Rightarrow> mi_page_malloc heap p sz s)"
  by (subst mi_malloc_generic.simps, rule arg_cong [where f = "Option.bind _"])
    (simp add: fun_eq_iff mi_page_malloc_def split: option.split)

end
