(* ===== verification/Alloc.thy ===== *)
theory Alloc
  imports PageFind
begin

text \<open>
  The allocation functions (\<open>alloc.c\<close>). Results are the address of the block, 0 for the null
  pointer. The copies and fills of memory are commented out in the source, so \<open>calloc\<close> clears at
  most the link of the block and \<open>realloc\<close> moves a block without its contents. Bytes of user data
  are not part of the store; a string argument is the list of its characters before the final zero.
\<close>

section \<open>Allocation\<close>

text \<open>\<open>None\<close> is also a size beyond the array of direct pages, or a null entry in it.\<close>

definition mi_heap_malloc_small :: "addr \<Rightarrow> u64 \<Rightarrow> mstate \<Rightarrow> (addr \<times> mstate) option" where
  "mi_heap_malloc_small heap sz s =
     (if MI_SMALL_WSIZE_MAX < unat (mi_wsize_from_size sz) then None
      else
        (case mi_heap_get_free_small_page heap sz s of
           None \<Rightarrow> None
         | Some p \<Rightarrow> mi_page_malloc heap p sz s))"

definition mi_malloc_small :: "u64 \<Rightarrow> mstate \<Rightarrow> (addr \<times> mstate) option" where
  "mi_malloc_small sz s = mi_heap_malloc_small (mi_get_default_heap s) sz s"

definition mi_heap_malloc :: "addr \<Rightarrow> u64 \<Rightarrow> mstate \<Rightarrow> (addr \<times> mstate) option" where
  "mi_heap_malloc heap sz s =
     (if sz \<le> MI_SMALL_SIZE_MAX then mi_heap_malloc_small heap sz s else mi_malloc_generic heap sz s)"

definition mi_malloc :: "u64 \<Rightarrow> mstate \<Rightarrow> (addr \<times> mstate) option" where
  "mi_malloc sz s = mi_heap_malloc (mi_get_default_heap s) sz s"

section \<open>Cleared allocation\<close>

definition sizeof_mi_block :: u64 where [mi_consts]: "sizeof_mi_block = 8"

definition mi_block_zero_init :: "page_id \<Rightarrow> addr \<Rightarrow> u64 \<Rightarrow> mstate \<Rightarrow> mstate" where
  "mi_block_zero_init p block sz s =
     (if pg_is_zero (st_page s p) \<and> sizeof_mi_block < sz then mi_block_set_next block 0 s else s)"

definition mi_zalloc_small :: "u64 \<Rightarrow> mstate \<Rightarrow> (addr \<times> mstate) option" where
  "mi_zalloc_small sz s =
     do {
       (p, s) \<leftarrow> mi_malloc_small sz s;
       Some (p, if p \<noteq> 0 then mi_block_zero_init (mi_ptr_page p s) p sz s else s)
     }"

definition mi_heap_malloc_zero :: "addr \<Rightarrow> u64 \<Rightarrow> bool \<Rightarrow> mstate \<Rightarrow> (addr \<times> mstate) option" where
  "mi_heap_malloc_zero heap sz zero s =
     do {
       (p, s) \<leftarrow> mi_heap_malloc heap sz s;
       Some (p, if zero \<and> p \<noteq> 0 then mi_block_zero_init (mi_ptr_page p s) p sz s else s)
     }"

definition mi_heap_zalloc :: "addr \<Rightarrow> u64 \<Rightarrow> mstate \<Rightarrow> (addr \<times> mstate) option" where
  "mi_heap_zalloc heap sz s = mi_heap_malloc_zero heap sz True s"

definition mi_zalloc :: "u64 \<Rightarrow> mstate \<Rightarrow> (addr \<times> mstate) option" where
  "mi_zalloc sz s = mi_heap_zalloc (mi_get_default_heap s) sz s"

section \<open>Arrays\<close>

definition mi_heap_calloc :: "addr \<Rightarrow> u64 \<Rightarrow> u64 \<Rightarrow> mstate \<Rightarrow> (addr \<times> mstate) option" where
  "mi_heap_calloc heap count sz s =
     (case mi_count_size_overflow count sz of
        (True, _) \<Rightarrow> Some (0, s)
      | (False, tot) \<Rightarrow> mi_heap_zalloc heap tot s)"

definition mi_calloc :: "u64 \<Rightarrow> u64 \<Rightarrow> mstate \<Rightarrow> (addr \<times> mstate) option" where
  "mi_calloc count sz s = mi_heap_calloc (mi_get_default_heap s) count sz s"

definition mi_heap_mallocn :: "addr \<Rightarrow> u64 \<Rightarrow> u64 \<Rightarrow> mstate \<Rightarrow> (addr \<times> mstate) option" where
  "mi_heap_mallocn heap count sz s =
     (case mi_count_size_overflow count sz of
        (True, _) \<Rightarrow> Some (0, s)
      | (False, tot) \<Rightarrow> mi_heap_malloc heap tot s)"

definition mi_mallocn :: "u64 \<Rightarrow> u64 \<Rightarrow> mstate \<Rightarrow> (addr \<times> mstate) option" where
  "mi_mallocn count sz s = mi_heap_mallocn (mi_get_default_heap s) count sz s"

section \<open>Reallocation\<close>

definition mi_expand :: "addr \<Rightarrow> u64 \<Rightarrow> mstate \<Rightarrow> addr option" where
  "mi_expand p newsize s =
     (if p = 0 then Some 0
      else do { sz \<leftarrow> mi_usable_size p s; Some (if sz < newsize then 0 else p) })"

definition mi_heap_realloc_zero :: "addr \<Rightarrow> addr \<Rightarrow> u64 \<Rightarrow> bool \<Rightarrow> mstate \<Rightarrow> (addr \<times> mstate) option" where
  "mi_heap_realloc_zero heap p newsize zero s =
     (if p = 0 then mi_heap_malloc_zero heap newsize zero s
      else do {
        sz \<leftarrow> mi_usable_size p s;
        if newsize \<le> sz \<and> sz div 2 \<le> newsize then Some (p, s)
        else do {
          (newp, s) \<leftarrow> mi_heap_malloc heap newsize s;
          if newp \<noteq> 0 then do { s \<leftarrow> mi_free p s; Some (newp, s) } else Some (newp, s)
        }
      })"

definition mi_heap_realloc :: "addr \<Rightarrow> addr \<Rightarrow> u64 \<Rightarrow> mstate \<Rightarrow> (addr \<times> mstate) option" where
  "mi_heap_realloc heap p newsize s = mi_heap_realloc_zero heap p newsize False s"

definition mi_heap_reallocn :: "addr \<Rightarrow> addr \<Rightarrow> u64 \<Rightarrow> u64 \<Rightarrow> mstate \<Rightarrow> (addr \<times> mstate) option" where
  "mi_heap_reallocn heap p count sz s =
     (case mi_count_size_overflow count sz of
        (True, _) \<Rightarrow> Some (0, s)
      | (False, tot) \<Rightarrow> mi_heap_realloc heap p tot s)"

definition mi_heap_reallocf :: "addr \<Rightarrow> addr \<Rightarrow> u64 \<Rightarrow> mstate \<Rightarrow> (addr \<times> mstate) option" where
  "mi_heap_reallocf heap p newsize s =
     do {
       (newp, s) \<leftarrow> mi_heap_realloc heap p newsize s;
       if newp = 0 \<and> p \<noteq> 0 then do { s \<leftarrow> mi_free p s; Some (newp, s) } else Some (newp, s)
     }"

definition mi_heap_rezalloc :: "addr \<Rightarrow> addr \<Rightarrow> u64 \<Rightarrow> mstate \<Rightarrow> (addr \<times> mstate) option" where
  "mi_heap_rezalloc heap p newsize s = mi_heap_realloc_zero heap p newsize True s"

definition mi_heap_recalloc :: "addr \<Rightarrow> addr \<Rightarrow> u64 \<Rightarrow> u64 \<Rightarrow> mstate \<Rightarrow> (addr \<times> mstate) option" where
  "mi_heap_recalloc heap p count sz s =
     (case mi_count_size_overflow count sz of
        (True, _) \<Rightarrow> Some (0, s)
      | (False, tot) \<Rightarrow> mi_heap_rezalloc heap p tot s)"

definition mi_realloc :: "addr \<Rightarrow> u64 \<Rightarrow> mstate \<Rightarrow> (addr \<times> mstate) option" where
  "mi_realloc p newsize s = mi_heap_realloc (mi_get_default_heap s) p newsize s"

definition mi_reallocn :: "addr \<Rightarrow> u64 \<Rightarrow> u64 \<Rightarrow> mstate \<Rightarrow> (addr \<times> mstate) option" where
  "mi_reallocn p count sz s = mi_heap_reallocn (mi_get_default_heap s) p count sz s"

definition mi_reallocf :: "addr \<Rightarrow> u64 \<Rightarrow> mstate \<Rightarrow> (addr \<times> mstate) option" where
  "mi_reallocf p newsize s = mi_heap_reallocf (mi_get_default_heap s) p newsize s"

definition mi_rezalloc :: "addr \<Rightarrow> u64 \<Rightarrow> mstate \<Rightarrow> (addr \<times> mstate) option" where
  "mi_rezalloc p newsize s = mi_heap_rezalloc (mi_get_default_heap s) p newsize s"

definition mi_recalloc :: "addr \<Rightarrow> u64 \<Rightarrow> u64 \<Rightarrow> mstate \<Rightarrow> (addr \<times> mstate) option" where
  "mi_recalloc p count sz s = mi_heap_recalloc (mi_get_default_heap s) p count sz s"

section \<open>Strings\<close>

definition mi_heap_strdup :: "addr \<Rightarrow> u8 list option \<Rightarrow> mstate \<Rightarrow> (addr \<times> mstate) option" where
  "mi_heap_strdup heap str s =
     (case str of
        None \<Rightarrow> Some (0, s)
      | Some cs \<Rightarrow> let n = word_of_nat (length cs) in mi_heap_malloc heap (n + 1) s)"

definition mi_strdup :: "u8 list option \<Rightarrow> mstate \<Rightarrow> (addr \<times> mstate) option" where
  "mi_strdup str s = mi_heap_strdup (mi_get_default_heap s) str s"

definition mi_heap_strndup :: "addr \<Rightarrow> u8 list option \<Rightarrow> u64 \<Rightarrow> mstate \<Rightarrow> (addr \<times> mstate) option" where
  "mi_heap_strndup heap str n s =
     (case str of
        None \<Rightarrow> Some (0, s)
      | Some cs \<Rightarrow>
          let m = (if length cs < unat n then word_of_nat (length cs) else n)
          in mi_heap_malloc heap (m + 1) s)"

definition mi_strndup :: "u8 list option \<Rightarrow> u64 \<Rightarrow> mstate \<Rightarrow> (addr \<times> mstate) option" where
  "mi_strndup str n s = mi_heap_strndup (mi_get_default_heap s) str n s"

end
