(* ===== verification/PageBlocks.thy ===== *)
theory PageBlocks
  imports Alloc
begin

text \<open>
  What allocating and freeing a block does to a page: the fast path of \<open>malloc\<close>, the local free and
  the free by another thread, over the well-formed pages of \<open>Blocks\<close>. The abstract state of a page is
  the set of blocks the program holds (\<open>page_alive\<close>).
\<close>

section \<open>Blocks in use\<close>

lemma page_used_card:
  assumes "page_wf p F L T s"
  shows "card (page_alive p F L T s) + length T = unat (pg_used (st_page s p))"
proof -
  have G: "page_geometry p s" using assms by (simp add: page_wf_def)
  let ?c = "unat (pg_capacity (st_page s p))"
  have "?c \<le> unat (pg_reserved (st_page s p))" using assms by (simp add: page_wf_def word_le_nat_alt)
  then have "card (page_block p s ` {..<?c}) = ?c"
    using page_block_inj [OF G] by (subst card_image) (auto simp: inj_on_def)
  moreover have "card (set (F @ L @ T)) = length F + length L + length T"
    using assms by (subst distinct_card) (simp_all add: page_wf_def page_lists_def)
  moreover have "set (F @ L @ T) \<subseteq> page_block p s ` {..<?c}" using assms by (simp add: page_wf_def)
  moreover have "unat (pg_used (st_page s p)) + length F + length L = ?c" "length T \<le> unat (pg_used (st_page s p))"
    using assms by (simp_all add: page_wf_def)
  ultimately show ?thesis
    unfolding page_alive_def by (subst card_Diff_subset) simp_all
qed

lemma page_alive_finite: "finite (page_alive p F L T s)"
  by (simp add: page_alive_def)

lemma page_alive_used:
  assumes "page_wf p F L T s" and "b \<in> page_alive p F L T s"
  shows "length T < unat (pg_used (st_page s p))" and "b \<noteq> 0" and "b \<notin> set (F @ L @ T)"
proof -
  have "0 < card (page_alive p F L T s)"
    using assms(2) page_alive_finite by (auto simp: card_gt_0_iff)
  then show "length T < unat (pg_used (st_page s p))" using page_used_card [OF assms(1)] by linarith
  obtain i where "i < unat (pg_capacity (st_page s p))" "b = page_block p s i"
    using assms(2) by (auto simp: page_alive_def)
  then show "b \<noteq> 0"
    using page_block_nonzero [of p s i] assms(1) by (simp add: page_wf_def word_le_nat_alt)
  show "b \<notin> set (F @ L @ T)" using assms(2) by (simp add: page_alive_def)
qed

text \<open>An operation that moves a block between the lists of a page and the program.\<close>

lemma page_wf_move:
  assumes W: "page_wf p F L T s" and fr: "list_frame p B s s'" and P: "page_lists p F' L' T' s'"
    and cap: "pg_capacity (st_page s' p) = pg_capacity (st_page s p)"
    and sub: "set (F' @ L' @ T') \<subseteq> page_block p s ` {..<unat (pg_capacity (st_page s p))}"
    and acc: "unat (pg_used (st_page s' p)) + length F' + length L' = unat (pg_capacity (st_page s p))"
    and T: "length T' \<le> unat (pg_used (st_page s' p))"
  shows "page_wf p F' L' T' s'"
    and "page_alive p F' L' T' s' = page_block p s ` {..<unat (pg_capacity (st_page s p))} - set (F' @ L' @ T')"
proof -
  have G: "page_geometry p s" using W by (simp add: page_wf_def)
  note N = page_wf_frame [OF G fr] list_frame_fields [OF fr]
  show "page_wf p F' L' T' s'"
    using W P cap sub acc T N by (simp add: page_wf_def)
  show "page_alive p F' L' T' s' = page_block p s ` {..<unat (pg_capacity (st_page s p))} - set (F' @ L' @ T')"
    by (simp add: page_alive_def N cap)
qed

section \<open>Taking a block\<close>

lemma page_pop_wf:
  assumes W: "page_wf p (b # F) L T s"
  obtains s' where "page_pop p s = (b, s')" "page_wf p F L T s'" "list_frame p {} s s'"
    "b \<notin> page_alive p (b # F) L T s" "page_alive p F L T s' = insert b (page_alive p (b # F) L T s)"
    "pg_used (st_page s' p) = pg_used (st_page s p) + 1"
proof -
  have P: "page_lists p (b # F) L T s" and sub: "set (b # F @ L @ T) \<subseteq> page_block p s ` {..<unat (pg_capacity (st_page s p))}"
    and acc: "unat (pg_used (st_page s p)) + length (b # F) + length L = unat (pg_capacity (st_page s p))"
      "length T \<le> unat (pg_used (st_page s p))"
    using W by (simp_all add: page_wf_def)
  define s' where "s' = page_upd p (\<lambda>pg. pg\<lparr>pg_used := pg_used pg + 1\<rparr>)
    (page_upd p (\<lambda>pg. pg\<lparr>pg_free := st_block s b\<rparr>) s)"
  have b: "pg_free (st_page s p) = b" using P by (simp add: page_lists_def)
  have run: "page_pop p s = (b, s')"
    by (simp add: page_pop_def Let_def b s'_def mi_block_next_def)
  have fr: "list_frame p {} s s'"
    unfolding s'_def by (intro list_frame_step list_frame_refl) (simp_all add: page_fixed_def)
  have P': "page_lists p F L T s'"
    using P by (simp add: page_lists_def s'_def store_simps mi_page_thread_free_eq)
  have less: "unat (pg_used (st_page s p)) + 1 < 2 ^ 32"
    using acc(1) unsigned_less [of "pg_capacity (st_page s p)", where 'a = nat] by simp
  have u: "pg_used (st_page s' p) = pg_used (st_page s p) + 1" by (simp add: s'_def store_simps)
  then have used: "unat (pg_used (st_page s' p)) = unat (pg_used (st_page s p)) + 1"
    using less by (simp add: unat_add_bounded)
  have c: "pg_capacity (st_page s' p) = pg_capacity (st_page s p)" by (simp add: s'_def store_simps)
  have "set (F @ L @ T) \<subseteq> page_block p s ` {..<unat (pg_capacity (st_page s p))}"
    "unat (pg_used (st_page s' p)) + length F + length L = unat (pg_capacity (st_page s p))"
    "length T \<le> unat (pg_used (st_page s' p))"
    using sub acc by (simp_all add: used)
  note M = page_wf_move [OF W fr P' c this]
  show thesis
  proof (rule that [OF run M(1) fr _ _ u])
    show "b \<notin> page_alive p (b # F) L T s" by (simp add: page_alive_def)
    have "b \<notin> set (F @ L @ T)" "b \<in> page_block p s ` {..<unat (pg_capacity (st_page s p))}"
      using P sub by (simp_all add: page_lists_def)
    then show "page_alive p F L T s' = insert b (page_alive p (b # F) L T s)"
      by (simp only: M(2) page_alive_def [of p "b # F" L T s]) auto
  qed
qed

section \<open>Giving a block back\<close>

lemma page_local_push_wf:
  assumes W: "page_wf p F L T s" and b: "b \<in> page_alive p F L T s"
  defines "s' \<equiv> page_local_push p b s"
  shows "page_wf p F (b # L) T s'" and "list_frame p {b} s s'"
    and "page_alive p F (b # L) T s' = page_alive p F L T s - {b}"
    and "pg_used (st_page s' p) = pg_used (st_page s p) - 1"
    and "pg_has_aligned (st_page s' p) = pg_has_aligned (st_page s p)"
proof -
  have P: "page_lists p F L T s" and sub: "set (F @ L @ T) \<subseteq> page_block p s ` {..<unat (pg_capacity (st_page s p))}"
    and acc: "unat (pg_used (st_page s p)) + length F + length L = unat (pg_capacity (st_page s p))"
    using W by (simp_all add: page_wf_def)
  note U = page_alive_used [OF W b]
  have fr: "list_frame p {b} s s'"
    unfolding s'_def page_local_push_def Let_def
    by (intro list_frame_step list_frame_refl) (simp_all add: page_fixed_def)
  have P': "page_lists p F (b # L) T s'"
    using P U(2,3)
    by (simp add: page_lists_def s'_def page_local_push_def Let_def store_simps mi_block_set_next_def
        mi_page_thread_free_eq)
  show u: "pg_used (st_page s' p) = pg_used (st_page s p) - 1"
    by (simp add: s'_def page_local_push_def Let_def store_simps mi_block_set_next_def)
  have used: "unat (pg_used (st_page s' p)) = unat (pg_used (st_page s p)) - 1"
    unfolding u using U(1) by (subst unat_sub_bounded) (simp_all add: word_le_nat_alt)
  have c: "pg_capacity (st_page s' p) = pg_capacity (st_page s p)"
    by (simp add: s'_def page_local_push_def Let_def store_simps mi_block_set_next_def)
  have "set (F @ (b # L) @ T) \<subseteq> page_block p s ` {..<unat (pg_capacity (st_page s p))}"
    using sub b by (simp add: page_alive_def)
  moreover have "unat (pg_used (st_page s' p)) + length F + length (b # L) = unat (pg_capacity (st_page s p))"
    "length T \<le> unat (pg_used (st_page s' p))"
    using acc U(1) by (simp_all add: used)
  ultimately have M: "page_wf p F (b # L) T s'"
    "page_alive p F (b # L) T s' = page_block p s ` {..<unat (pg_capacity (st_page s p))} - set (F @ (b # L) @ T)"
    using page_wf_move [OF W fr P' c] by blast+
  show "page_wf p F (b # L) T s'" "list_frame p {b} s s'" by (rule M(1)) (rule fr)
  show "page_alive p F (b # L) T s' = page_alive p F L T s - {b}" 
    by (simp only: M(2) page_alive_def [of p F L T s]) auto
  show "pg_has_aligned (st_page s' p) = pg_has_aligned (st_page s p)"
    by (simp add: s'_def page_local_push_def Let_def store_simps mi_block_set_next_def)
qed

section \<open>From a block to its page\<close>

lemma page_area_ptr:
  assumes G: "page_geometry p s" and K: "sg_page_kind (st_segment s (fst p)) \<noteq> MI_PAGE_HUGE"
    and lo: "unat (page_area p s) \<le> unat q"
    and hi: "unat q < unat (page_area p s) + unat (snd (mi_page_start p s))"
  shows "mi_segment_page_of (fst p) q s = p" and "mi_ptr_segment q = fst p" and "fst p \<noteq> 0"
proof -
  have P: "page_in_segment p s" and fits: "block_size_fits (ucast (pg_xblock_size (st_page s p))) (st_segment s (fst p))"
    using G by (simp_all add: page_geometry_def)
  obtain start psz pre where run: "mi_segment_page_start p (ucast (pg_xblock_size (st_page s p))) s = (start, psz, pre)"
    by (metis prod_cases3)
  note S = page_start_unat [OF P fits run]
  have q: "page_area p s = start" "snd (mi_page_start p s) = psz"
    by (simp_all add: page_area_def mi_page_start_def run)
  have shape: "segment_shape (fst p) (st_segment s (fst p))" using P by (simp add: page_in_segment_def)
  have sz: "unat (sg_segment_size (st_segment s (fst p))) = 131072"
    using shape K by (simp add: segment_shape_def mi_consts)
  note T = segment_shape_stride [OF shape]
  have "snd p < unat (sg_capacity (st_segment s (fst p)))" using P by (simp add: page_in_segment_def)
  then have "(snd p + 1) * page_stride (st_segment s (fst p)) \<le> 131072"
    using T(1) sz by (metis Suc_eq_plus1 Suc_leI mult_le_mono1)
  then have near: "unat q < unat (fst p) + 131072" using hi S(2) by (simp add: q)
  have "unat (fst p) + snd p * page_stride (st_segment s (fst p)) \<le> unat q"
    "unat q < unat (fst p) + snd p * page_stride (st_segment s (fst p)) + page_stride (st_segment s (fst p))"
    using lo hi S(1,2) by (simp_all add: q)
  note R = mi_ptr_page_in [OF P this near]
  show "mi_ptr_segment q = fst p" by (rule R(2))
  show "mi_segment_page_of (fst p) q s = p" using R by (simp add: mi_ptr_page_def)
  show "fst p \<noteq> 0" using shape by (simp add: segment_shape_def)
qed

lemma page_block_ptr:
  assumes W: "page_wf p F L T s" and K: "sg_page_kind (st_segment s (fst p)) \<noteq> MI_PAGE_HUGE"
    and i: "i < unat (pg_capacity (st_page s p))"
    and lo: "unat (page_block p s i) \<le> unat q" and hi: "unat q < unat (page_block p s i) + unat (mi_page_block_size p s)"
  shows "mi_segment_page_of (fst p) q s = p" and "mi_ptr_segment q = fst p" and "fst p \<noteq> 0"
proof -
  have G: "page_geometry p s" and "i < unat (pg_reserved (st_page s p))"
    using W i by (simp_all add: page_wf_def word_le_nat_alt)
  then have "unat (page_area p s) \<le> unat (page_block p s i)"
    "unat (page_block p s i) + unat (mi_page_block_size p s) \<le> unat (page_area p s) + unat (snd (mi_page_start p s))"
    using unat_page_block(1) [OF G, of i] unat_page_block(2) [OF G, of "Suc i"] by simp_all
  then show "mi_segment_page_of (fst p) q s = p" "mi_ptr_segment q = fst p" "fst p \<noteq> 0"
    using page_area_ptr [OF G K, of q] lo hi by simp_all
qed

lemma page_alive_ptr:
  assumes W: "page_wf p F L T s" and K: "sg_page_kind (st_segment s (fst p)) \<noteq> MI_PAGE_HUGE"
    and x: "x \<in> page_alive p F L T s"
  shows "mi_segment_page_of (fst p) x s = p" and "mi_ptr_segment x = fst p" and "fst p \<noteq> 0"
proof -
  obtain i where i: "i < unat (pg_capacity (st_page s p))" "x = page_block p s i"
    using x by (auto simp: page_alive_def)
  have "0 < unat (mi_page_block_size p s)" using W by (simp add: page_wf_def page_geometry_def word_less_nat_alt)
  then show "mi_segment_page_of (fst p) x s = p" "mi_ptr_segment x = fst p" "fst p \<noteq> 0"
    using page_block_ptr [OF W K i(1), of x] i(2) by simp_all
qed

section \<open>Interior pointers\<close>

lemma page_block_offset:
  assumes W: "page_wf p F L T s" and i: "i < unat (pg_capacity (st_page s p))"
    and lo: "unat (page_block p s i) \<le> unat q" and hi: "unat q < unat (page_block p s i) + unat (mi_page_block_size p s)"
  shows "mi_page_ptr_unalign p q s = Some (page_block p s i)"
proof -
  let ?bs = "mi_page_block_size p s" and ?a = "page_area p s"
  have G: "page_geometry p s" and "i < unat (pg_reserved (st_page s p))"
    using W i by (simp_all add: page_wf_def word_le_nat_alt)
  then have bi: "unat (page_block p s i) = unat ?a + i * unat ?bs" using unat_page_block(1) [OF G, of i] by simp
  have "0 < ?bs" using G by (simp add: page_geometry_def)
  then have bs: "0 < unat ?bs" "?bs \<noteq> 0" by (auto simp: word_less_nat_alt)
  have "unat (q - ?a) = unat q - unat ?a" using lo bi by (intro unat_sub_bounded) simp
  then have d: "unat (q - ?a) = (unat q - unat (page_block p s i)) + i * unat ?bs" using lo bi by simp
  have "unat ((q - ?a) mod ?bs) = unat q - unat (page_block p s i)"
    unfolding unat_mod_distrib d mod_mult_self1 by (rule mod_less) (use lo hi in linarith)
  then have "unat (q - (q - ?a) mod ?bs) = unat (page_block p s i)"
    using lo by (subst unat_sub_bounded) simp_all
  then have "q - (q - ?a) mod ?bs = page_block p s i" by (rule unsigned_word_eqI)
  then show ?thesis using bs(2) by (simp add: mi_page_ptr_unalign_def Let_def page_area_def)
qed

text \<open>The block that \<open>mi_free\<close> is given: itself, or an address inside it on a page with aligned blocks.\<close>

definition points_to :: "page_id \<Rightarrow> addr \<Rightarrow> addr \<Rightarrow> mstate \<Rightarrow> bool" where
  "points_to p q x s \<longleftrightarrow>
     (if pg_has_aligned (st_page s p)
      then unat x \<le> unat q \<and> unat q < unat x + unat (mi_page_block_size p s) else q = x)"

lemma points_to_ptr:
  assumes W: "page_wf p F L T s" and K: "sg_page_kind (st_segment s (fst p)) \<noteq> MI_PAGE_HUGE"
    and x: "x \<in> page_alive p F L T s" and q: "points_to p q x s"
  shows "mi_segment_page_of (fst p) q s = p" and "mi_ptr_segment q = fst p" and "fst p \<noteq> 0"
    and "pg_has_aligned (st_page s p) \<Longrightarrow> mi_page_ptr_unalign p q s = Some x"
    and "\<not> pg_has_aligned (st_page s p) \<Longrightarrow> q = x"
proof -
  obtain i where i: "i < unat (pg_capacity (st_page s p))" "x = page_block p s i"
    using x by (auto simp: page_alive_def)
  have "0 < unat (mi_page_block_size p s)" using W by (simp add: page_wf_def page_geometry_def word_less_nat_alt)
  then have r: "unat (page_block p s i) \<le> unat q" "unat q < unat (page_block p s i) + unat (mi_page_block_size p s)"
    using q i(2) by (auto simp: points_to_def split: if_splits)
  show "mi_segment_page_of (fst p) q s = p" "mi_ptr_segment q = fst p" "fst p \<noteq> 0"
    using page_block_ptr [OF W K i(1) r] by simp_all
  show "mi_page_ptr_unalign p q s = Some x" unfolding i(2) by (rule page_block_offset [OF W i(1) r])
  show "q = x" if "\<not> pg_has_aligned (st_page s p)" using q that by (simp add: points_to_def)
qed

section \<open>Freeing by the owner and by another thread\<close>

lemma mi_free_local_wf:
  assumes W: "page_wf p F L T s" and K: "sg_page_kind (st_segment s (fst p)) \<noteq> MI_PAGE_HUGE"
    and x: "x \<in> page_alive p F L T s" and q: "points_to p q x s"
    and own: "sg_thread_id (st_segment s (fst p)) = st_thread_id s"
    and more: "1 < unat (pg_used (st_page s p))"
  shows "mi_free q s = Some (if pg_in_full (st_page s p) then mi_page_unfull p (page_local_push p x s)
    else page_local_push p x s)"
proof -
  note ptr = points_to_ptr [OF W K x q] and L = page_local_push_wf [OF W x]
  have "unat (pg_used (st_page s p) - 1) = unat (pg_used (st_page s p)) - 1"
    using more by (subst unat_sub_bounded) (simp_all add: word_le_nat_alt)
  then have "pg_used (st_page (page_local_push p x s) p) \<noteq> 0"
    using more unfolding L(4) by (metis unat_0 zero_less_diff less_irrefl)
  moreover have "pg_in_full (st_page (page_local_push p x s) p) = pg_in_full (st_page s p)"
    using list_frame_fields [OF L(2)] by simp
  ultimately show ?thesis
    using ptr own by (simp add: mi_free_def mi_free_generic_def mi_free_block_def Let_def mi_page_all_free_def)
qed

lemma mt_push_wf:
  assumes W: "page_wf p F L T s" and x: "x \<in> page_alive p F L T s" and al: "x AND 3 = 0"
  defines "tf \<equiv> pg_xthread_free (st_page s p)"
  defines "s' \<equiv> page_set_tfree p (mi_tf_set_block tf x) (mi_block_set_next x (mi_tf_block tf) s)"
  shows "page_wf p F L (x # T) s'" and "list_frame p {x} s s'"
    and "page_alive p F L (x # T) s' = page_alive p F L T s - {x}"
    and "mi_page_thread_free_flag (st_page s' p) = mi_page_thread_free_flag (st_page s p)"
proof -
  have P: "page_lists p F L T s" and sub: "set (F @ L @ T) \<subseteq> page_block p s ` {..<unat (pg_capacity (st_page s p))}"
    and acc: "unat (pg_used (st_page s p)) + length F + length L = unat (pg_capacity (st_page s p))"
    using W by (simp_all add: page_wf_def)
  note U = page_alive_used [OF W x]
  have blk: "mi_tf_block (mi_tf_set_block tf x) = x" "mi_tf_delayed (mi_tf_set_block tf x) = mi_tf_delayed tf"
    using al by (simp_all add: mi_tf_set_block_def)
  show fr: "list_frame p {x} s s'"
    unfolding s'_def page_set_tfree_def
    by (intro list_frame_step list_frame_refl) (simp_all add: page_fixed_def)
  have P': "page_lists p F L (x # T) s'"
    using P U(2,3) blk(1)
    by (simp add: page_lists_def s'_def page_set_tfree_def store_simps mi_block_set_next_def
        mi_page_thread_free_eq flip: tf_def)
  have same: "pg_used (st_page s' p) = pg_used (st_page s p)" "pg_capacity (st_page s' p) = pg_capacity (st_page s p)"
    by (simp_all add: s'_def page_set_tfree_def store_simps mi_block_set_next_def)
  have "set (F @ L @ x # T) \<subseteq> page_block p s ` {..<unat (pg_capacity (st_page s p))}"
    using sub x by (simp add: page_alive_def)
  moreover have "unat (pg_used (st_page s' p)) + length F + length L = unat (pg_capacity (st_page s p))"
    "length (x # T) \<le> unat (pg_used (st_page s' p))"
    using acc U(1) by (simp_all add: same)
  ultimately have M: "page_wf p F L (x # T) s'"
    "page_alive p F L (x # T) s' = page_block p s ` {..<unat (pg_capacity (st_page s p))} - set (F @ L @ x # T)"
    using page_wf_move [OF W fr P' same(2)] by blast+
  show "page_wf p F L (x # T) s'" by (rule M(1))
  show "page_alive p F L (x # T) s' = page_alive p F L T s - {x}"
    by (simp only: M(2) page_alive_def [of p F L T s]) auto
  show "mi_page_thread_free_flag (st_page s' p) = mi_page_thread_free_flag (st_page s p)"
    using blk(2) by (simp add: s'_def page_set_tfree_def store_simps mi_block_set_next_def
        mi_page_thread_free_flag_def flip: tf_def)
qed

end
