(* ===== verification/AllocAligned.thy ===== *)
theory AllocAligned
  imports Alloc
begin

text \<open>
  Aligned allocation (\<open>alloc-aligned.c\<close>), the Posix functions (\<open>alloc-posix.c\<close>) and the ones for C++
  \<open>new\<close> (end of \<open>alloc.c\<close>). \<open>errno\<close> is not part of the state. The handler of \<open>new\<close> is what the weak
  symbol for \<open>std::get_new_handler\<close> returns: a parameter, \<open>None\<close> for a null pointer; \<open>exit\<close> ends a run
  with its code.
\<close>

section \<open>Aligned allocation\<close>

definition mi_heap_malloc_zero_aligned_at ::
    "addr \<Rightarrow> u64 \<Rightarrow> u64 \<Rightarrow> u64 \<Rightarrow> bool \<Rightarrow> mstate \<Rightarrow> (addr \<times> mstate) option" where
  "mi_heap_malloc_zero_aligned_at heap sz alignment offset zero s =
     (if PTRDIFF_MAX < sz then Some (0, s)
      else if alignment = 0 \<or> \<not> mi_is_power_of_two alignment then Some (0, s)
      else
        let align_mask = alignment - 1;
            small = (if sz \<le> MI_SMALL_SIZE_MAX then mi_heap_get_free_small_page heap sz s else Some page_empty_ref)
        in case small of
             None \<Rightarrow> None
           | Some p \<Rightarrow>
               if sz \<le> MI_SMALL_SIZE_MAX \<and> pg_free (st_page s p) \<noteq> 0
                  \<and> (pg_free (st_page s p) + offset) AND align_mask = 0
               then do {
                 (block, s) \<leftarrow> mi_page_malloc heap p sz s;
                 Some (block, if zero then mi_block_zero_init p block sz s else s)
               }
               else if offset = 0 \<and> alignment \<le> sz \<and> sz \<le> MI_MEDIUM_OBJ_SIZE_MAX \<and> sz AND align_mask = 0
               then mi_heap_malloc_zero heap sz zero s
               else do {
                 (block, s) \<leftarrow> mi_heap_malloc_zero heap (sz + alignment - 1) zero s;
                 if block = 0 then Some (0, s)
                 else
                   let adjust = alignment - ((block + offset) AND align_mask);
                       aligned_p = (if adjust = alignment then block else block + adjust);
                       s = (if aligned_p \<noteq> block then mi_page_set_has_aligned (mi_ptr_page block s) True s else s)
                   in Some (aligned_p, s)
               })"

definition mi_heap_malloc_aligned_at ::
    "addr \<Rightarrow> u64 \<Rightarrow> u64 \<Rightarrow> u64 \<Rightarrow> mstate \<Rightarrow> (addr \<times> mstate) option" where
  "mi_heap_malloc_aligned_at heap sz alignment offset s = mi_heap_malloc_zero_aligned_at heap sz alignment offset False s"

definition mi_heap_malloc_aligned ::
    "addr \<Rightarrow> u64 \<Rightarrow> u64 \<Rightarrow> mstate \<Rightarrow> (addr \<times> mstate) option" where
  "mi_heap_malloc_aligned heap sz alignment s = mi_heap_malloc_aligned_at heap sz alignment 0 s"

definition mi_heap_zalloc_aligned_at ::
    "addr \<Rightarrow> u64 \<Rightarrow> u64 \<Rightarrow> u64 \<Rightarrow> mstate \<Rightarrow> (addr \<times> mstate) option" where
  "mi_heap_zalloc_aligned_at heap sz alignment offset s = mi_heap_malloc_zero_aligned_at heap sz alignment offset True s"

definition mi_heap_zalloc_aligned ::
    "addr \<Rightarrow> u64 \<Rightarrow> u64 \<Rightarrow> mstate \<Rightarrow> (addr \<times> mstate) option" where
  "mi_heap_zalloc_aligned heap sz alignment s = mi_heap_zalloc_aligned_at heap sz alignment 0 s"

definition mi_heap_calloc_aligned_at ::
    "addr \<Rightarrow> u64 \<Rightarrow> u64 \<Rightarrow> u64 \<Rightarrow> u64 \<Rightarrow> mstate \<Rightarrow> (addr \<times> mstate) option" where
  "mi_heap_calloc_aligned_at heap count sz alignment offset s =
     (case mi_count_size_overflow count sz of
        (True, _) \<Rightarrow> Some (0, s)
      | (False, tot) \<Rightarrow> mi_heap_zalloc_aligned_at heap tot alignment offset s)"

definition mi_heap_calloc_aligned ::
    "addr \<Rightarrow> u64 \<Rightarrow> u64 \<Rightarrow> u64 \<Rightarrow> mstate \<Rightarrow> (addr \<times> mstate) option" where
  "mi_heap_calloc_aligned heap count sz alignment s = mi_heap_calloc_aligned_at heap count sz alignment 0 s"

definition mi_malloc_aligned_at ::
    "u64 \<Rightarrow> u64 \<Rightarrow> u64 \<Rightarrow> mstate \<Rightarrow> (addr \<times> mstate) option" where
  "mi_malloc_aligned_at sz alignment offset s = mi_heap_malloc_aligned_at (mi_get_default_heap s) sz alignment offset s"

definition mi_malloc_aligned ::
    "u64 \<Rightarrow> u64 \<Rightarrow> mstate \<Rightarrow> (addr \<times> mstate) option" where
  "mi_malloc_aligned sz alignment s = mi_heap_malloc_aligned (mi_get_default_heap s) sz alignment s"

definition mi_zalloc_aligned_at ::
    "u64 \<Rightarrow> u64 \<Rightarrow> u64 \<Rightarrow> mstate \<Rightarrow> (addr \<times> mstate) option" where
  "mi_zalloc_aligned_at sz alignment offset s = mi_heap_zalloc_aligned_at (mi_get_default_heap s) sz alignment offset s"

definition mi_zalloc_aligned ::
    "u64 \<Rightarrow> u64 \<Rightarrow> mstate \<Rightarrow> (addr \<times> mstate) option" where
  "mi_zalloc_aligned sz alignment s = mi_heap_zalloc_aligned (mi_get_default_heap s) sz alignment s"

definition mi_calloc_aligned_at ::
    "u64 \<Rightarrow> u64 \<Rightarrow> u64 \<Rightarrow> u64 \<Rightarrow> mstate \<Rightarrow> (addr \<times> mstate) option" where
  "mi_calloc_aligned_at count sz alignment offset s = mi_heap_calloc_aligned_at (mi_get_default_heap s) count sz alignment offset s"

definition mi_calloc_aligned ::
    "u64 \<Rightarrow> u64 \<Rightarrow> u64 \<Rightarrow> mstate \<Rightarrow> (addr \<times> mstate) option" where
  "mi_calloc_aligned count sz alignment s = mi_heap_calloc_aligned (mi_get_default_heap s) count sz alignment s"

section \<open>Aligned reallocation\<close>

text \<open>The alignment is above 8 where the code divides by it.\<close>

definition mi_heap_realloc_zero_aligned_at ::
    "addr \<Rightarrow> addr \<Rightarrow> u64 \<Rightarrow> u64 \<Rightarrow> u64 \<Rightarrow> bool \<Rightarrow> mstate \<Rightarrow> (addr \<times> mstate) option" where
  "mi_heap_realloc_zero_aligned_at heap p newsize alignment offset zero s =
     (if alignment \<le> MI_INTPTR_SIZE then mi_heap_realloc_zero heap p newsize zero s
      else if p = 0 then mi_heap_malloc_zero_aligned_at heap newsize alignment offset zero s
      else do {
        sz \<leftarrow> mi_usable_size p s;
        if newsize \<le> sz \<and> sz - sz div 2 \<le> newsize \<and> (p + offset) mod alignment = 0 then Some (p, s)
        else do {
          (newp, s) \<leftarrow> mi_heap_malloc_aligned_at heap newsize alignment offset s;
          if newp \<noteq> 0 then do { s \<leftarrow> mi_free p s; Some (newp, s) } else Some (newp, s)
        }
      })"

definition mi_heap_realloc_zero_aligned ::
    "addr \<Rightarrow> addr \<Rightarrow> u64 \<Rightarrow> u64 \<Rightarrow> bool \<Rightarrow> mstate \<Rightarrow> (addr \<times> mstate) option" where
  "mi_heap_realloc_zero_aligned heap p newsize alignment zero s =
     (if alignment \<le> MI_INTPTR_SIZE then mi_heap_realloc_zero heap p newsize zero s
      else
        let offset = p mod alignment
        in mi_heap_realloc_zero_aligned_at heap p newsize alignment offset zero s)"

definition mi_heap_realloc_aligned_at ::
    "addr \<Rightarrow> addr \<Rightarrow> u64 \<Rightarrow> u64 \<Rightarrow> u64 \<Rightarrow> mstate \<Rightarrow> (addr \<times> mstate) option" where
  "mi_heap_realloc_aligned_at heap p newsize alignment offset s = mi_heap_realloc_zero_aligned_at heap p newsize alignment offset False s"

definition mi_heap_realloc_aligned ::
    "addr \<Rightarrow> addr \<Rightarrow> u64 \<Rightarrow> u64 \<Rightarrow> mstate \<Rightarrow> (addr \<times> mstate) option" where
  "mi_heap_realloc_aligned heap p newsize alignment s = mi_heap_realloc_zero_aligned heap p newsize alignment False s"

definition mi_heap_rezalloc_aligned_at ::
    "addr \<Rightarrow> addr \<Rightarrow> u64 \<Rightarrow> u64 \<Rightarrow> u64 \<Rightarrow> mstate \<Rightarrow> (addr \<times> mstate) option" where
  "mi_heap_rezalloc_aligned_at heap p newsize alignment offset s = mi_heap_realloc_zero_aligned_at heap p newsize alignment offset True s"

definition mi_heap_rezalloc_aligned ::
    "addr \<Rightarrow> addr \<Rightarrow> u64 \<Rightarrow> u64 \<Rightarrow> mstate \<Rightarrow> (addr \<times> mstate) option" where
  "mi_heap_rezalloc_aligned heap p newsize alignment s = mi_heap_realloc_zero_aligned heap p newsize alignment True s"

definition mi_heap_recalloc_aligned_at ::
    "addr \<Rightarrow> addr \<Rightarrow> u64 \<Rightarrow> u64 \<Rightarrow> u64 \<Rightarrow> u64 \<Rightarrow> mstate \<Rightarrow> (addr \<times> mstate) option" where
  "mi_heap_recalloc_aligned_at heap p newcount sz alignment offset s =
     (case mi_count_size_overflow newcount sz of
        (True, _) \<Rightarrow> Some (0, s)
      | (False, tot) \<Rightarrow> mi_heap_rezalloc_aligned_at heap p tot alignment offset s)"

definition mi_heap_recalloc_aligned ::
    "addr \<Rightarrow> addr \<Rightarrow> u64 \<Rightarrow> u64 \<Rightarrow> u64 \<Rightarrow> mstate \<Rightarrow> (addr \<times> mstate) option" where
  "mi_heap_recalloc_aligned heap p newcount sz alignment s =
     (case mi_count_size_overflow newcount sz of
        (True, _) \<Rightarrow> Some (0, s)
      | (False, tot) \<Rightarrow> mi_heap_rezalloc_aligned heap p tot alignment s)"

definition mi_realloc_aligned_at ::
    "addr \<Rightarrow> u64 \<Rightarrow> u64 \<Rightarrow> u64 \<Rightarrow> mstate \<Rightarrow> (addr \<times> mstate) option" where
  "mi_realloc_aligned_at p newsize alignment offset s = mi_heap_realloc_aligned_at (mi_get_default_heap s) p newsize alignment offset s"

definition mi_realloc_aligned ::
    "addr \<Rightarrow> u64 \<Rightarrow> u64 \<Rightarrow> mstate \<Rightarrow> (addr \<times> mstate) option" where
  "mi_realloc_aligned p newsize alignment s = mi_heap_realloc_aligned (mi_get_default_heap s) p newsize alignment s"

definition mi_rezalloc_aligned_at ::
    "addr \<Rightarrow> u64 \<Rightarrow> u64 \<Rightarrow> u64 \<Rightarrow> mstate \<Rightarrow> (addr \<times> mstate) option" where
  "mi_rezalloc_aligned_at p newsize alignment offset s = mi_heap_rezalloc_aligned_at (mi_get_default_heap s) p newsize alignment offset s"

definition mi_rezalloc_aligned ::
    "addr \<Rightarrow> u64 \<Rightarrow> u64 \<Rightarrow> mstate \<Rightarrow> (addr \<times> mstate) option" where
  "mi_rezalloc_aligned p newsize alignment s = mi_heap_rezalloc_aligned (mi_get_default_heap s) p newsize alignment s"

definition mi_recalloc_aligned_at ::
    "addr \<Rightarrow> u64 \<Rightarrow> u64 \<Rightarrow> u64 \<Rightarrow> u64 \<Rightarrow> mstate \<Rightarrow> (addr \<times> mstate) option" where
  "mi_recalloc_aligned_at p newcount sz alignment offset s = mi_heap_recalloc_aligned_at (mi_get_default_heap s) p newcount sz alignment offset s"

definition mi_recalloc_aligned ::
    "addr \<Rightarrow> u64 \<Rightarrow> u64 \<Rightarrow> u64 \<Rightarrow> mstate \<Rightarrow> (addr \<times> mstate) option" where
  "mi_recalloc_aligned p newcount sz alignment s = mi_heap_recalloc_aligned (mi_get_default_heap s) p newcount sz alignment s"

section \<open>Posix functions\<close>

definition mi_malloc_size :: "addr \<Rightarrow> mstate \<Rightarrow> u64 option" where
  "mi_malloc_size p s = mi_usable_size p s"

definition mi_malloc_usable_size :: "addr \<Rightarrow> mstate \<Rightarrow> u64 option" where
  "mi_malloc_usable_size p s = mi_usable_size p s"

definition mi_cfree :: "addr \<Rightarrow> mstate \<Rightarrow> mstate option" where
  "mi_cfree p s = (if mi_is_in_heap_region p s then mi_free p s else Some s)"

datatype posix_result = PosixOk addr | PosixEINVAL | PosixENOMEM

text \<open>\<open>PosixOk q\<close>: 0 is returned and \<open>q\<close> is stored; the flag is whether the pointer to store to is null.\<close>

definition mi_posix_memalign ::
    "bool \<Rightarrow> u64 \<Rightarrow> u64 \<Rightarrow> mstate \<Rightarrow> (posix_result \<times> mstate) option" where
  "mi_posix_memalign p_null alignment sz s =
     (if p_null then Some (PosixEINVAL, s)
      else if alignment mod MI_INTPTR_SIZE \<noteq> 0 then Some (PosixEINVAL, s)
      else if \<not> mi_is_power_of_two alignment then Some (PosixEINVAL, s)
      else do {
        (q, s) \<leftarrow> (if mi_malloc_satisfies_alignment alignment sz then mi_malloc sz s
                  else mi_malloc_aligned sz alignment s);
        Some (if q = 0 \<and> sz \<noteq> 0 then PosixENOMEM else PosixOk q, s)
      })"

definition mi_memalign ::
    "u64 \<Rightarrow> u64 \<Rightarrow> mstate \<Rightarrow> (addr \<times> mstate) option" where
  "mi_memalign alignment sz s = (if mi_malloc_satisfies_alignment alignment sz then mi_malloc sz s else mi_malloc_aligned sz alignment s)"

definition mi_valloc :: "u64 \<Rightarrow> mstate \<Rightarrow> (addr \<times> mstate) option" where
  "mi_valloc sz s = mi_memalign (mi_os_page_size s) sz s"

definition mi_pvalloc :: "u64 \<Rightarrow> mstate \<Rightarrow> (addr \<times> mstate) option" where
  "mi_pvalloc sz s = 
     (let psize = mi_os_page_size s in
      if SIZE_MAX - psize \<le> sz then Some (0, s)
      else let asize = mi_align_up sz psize in mi_malloc_aligned asize psize s)"

definition mi_aligned_alloc ::
    "u64 \<Rightarrow> u64 \<Rightarrow> mstate \<Rightarrow> (addr \<times> mstate) option" where
  "mi_aligned_alloc alignment sz s = 
     (if alignment = 0 \<or> \<not> mi_is_power_of_two alignment then Some (0, s)
      else if sz AND (alignment - 1) \<noteq> 0 then Some (0, s)
      else if mi_malloc_satisfies_alignment alignment sz then mi_malloc sz s
      else mi_malloc_aligned sz alignment s)"

definition mi_reallocarray ::
    "addr \<Rightarrow> u64 \<Rightarrow> u64 \<Rightarrow> mstate \<Rightarrow> (addr \<times> mstate) option" where
  "mi_reallocarray p count sz s = mi_reallocn p count sz s"

definition mi_expand_ms :: "addr \<Rightarrow> u64 \<Rightarrow> mstate \<Rightarrow> addr option" where
  "mi_expand_ms p newsize s = mi_expand p newsize s"

text \<open>A wide string is the list of its 16-bit characters before the final zero.\<close>

definition mi_wcsdup :: "u16 list option \<Rightarrow> mstate \<Rightarrow> (addr \<times> mstate) option" where
  "mi_wcsdup str s =
     (case str of
        None \<Rightarrow> Some (0, s)
      | Some cs \<Rightarrow> let sz = (word_of_nat (length cs) + 1) * 2 in mi_malloc sz s)"

definition mi_mbsdup :: "u8 list option \<Rightarrow> mstate \<Rightarrow> (addr \<times> mstate) option" where
  "mi_mbsdup str s = mi_strdup str s"

definition mi_aligned_offset_recalloc ::
    "addr \<Rightarrow> u64 \<Rightarrow> u64 \<Rightarrow> u64 \<Rightarrow> u64 \<Rightarrow> mstate \<Rightarrow> (addr \<times> mstate) option" where
  "mi_aligned_offset_recalloc p newcount sz alignment offset s = mi_recalloc_aligned_at p newcount sz alignment offset s"

definition mi_aligned_recalloc ::
    "addr \<Rightarrow> u64 \<Rightarrow> u64 \<Rightarrow> u64 \<Rightarrow> mstate \<Rightarrow> (addr \<times> mstate) option" where
  "mi_aligned_recalloc p newcount sz alignment s = mi_recalloc_aligned p newcount sz alignment s"

section \<open>Allocation for \<open>new\<close>\<close>

type_synonym new_handler = "(mstate \<Rightarrow> mstate option) option"

datatype 'a run = Exit nat | Return 'a

definition ENOMEM :: nat where [mi_consts]: "ENOMEM = 12"

definition mi_try_new_handler ::
    "new_handler \<Rightarrow> bool \<Rightarrow> mstate \<Rightarrow> (bool \<times> mstate) run option" where
  "mi_try_new_handler h nothrow s =
     (case h of
        None \<Rightarrow> Some (if nothrow then Return (False, s) else Exit ENOMEM)
      | Some f \<Rightarrow> Option.bind (f s) (\<lambda>s. Some (Return (True, s))))"

partial_function (option) mi_try_new ::
    "new_handler \<Rightarrow> u64 \<Rightarrow> bool \<Rightarrow> mstate \<Rightarrow> (addr \<times> mstate) run option" where
  "mi_try_new h sz nothrow s =
     Option.bind (mi_try_new_handler h nothrow s) (\<lambda>r. case r of
       Exit c \<Rightarrow> Some (Exit c)
     | Return r \<Rightarrow>
         if \<not> fst r then Some (Return (0, snd r))
         else Option.bind (mi_malloc sz (snd r)) (\<lambda>(p, s).
           if p = 0 then mi_try_new h sz nothrow s else Some (Return (p, s))))"

definition mi_new ::
    "new_handler \<Rightarrow> u64 \<Rightarrow> mstate \<Rightarrow> (addr \<times> mstate) run option" where
  "mi_new h sz s =
     do { (p, s) \<leftarrow> mi_malloc sz s; if p = 0 then mi_try_new h sz False s else Some (Return (p, s)) }"

definition mi_new_nothrow ::
    "new_handler \<Rightarrow> u64 \<Rightarrow> mstate \<Rightarrow> (addr \<times> mstate) run option" where
  "mi_new_nothrow h sz s =
     do { (p, s) \<leftarrow> mi_malloc sz s; if p = 0 then mi_try_new h sz True s else Some (Return (p, s)) }"

text \<open>The loop of the remaining functions: an attempt, repeated while the handler says so.\<close>

partial_function (option) new_loop ::
    "new_handler \<Rightarrow> bool \<Rightarrow> (mstate \<Rightarrow> (addr \<times> mstate) option) \<Rightarrow> mstate \<Rightarrow> (addr \<times> mstate) run option" where
  "new_loop h nothrow attempt s =
     Option.bind (attempt s) (\<lambda>(p, s).
       if p \<noteq> 0 then Some (Return (p, s))
       else Option.bind (mi_try_new_handler h nothrow s) (\<lambda>r. case r of
         Exit c \<Rightarrow> Some (Exit c)
       | Return r \<Rightarrow> if fst r then new_loop h nothrow attempt (snd r) else Some (Return (p, snd r))))"

definition mi_new_aligned ::
    "new_handler \<Rightarrow> u64 \<Rightarrow> u64 \<Rightarrow> mstate \<Rightarrow> (addr \<times> mstate) run option" where
  "mi_new_aligned h sz alignment = new_loop h False (mi_malloc_aligned sz alignment)"

definition mi_new_aligned_nothrow ::
    "new_handler \<Rightarrow> u64 \<Rightarrow> u64 \<Rightarrow> mstate \<Rightarrow> (addr \<times> mstate) run option" where
  "mi_new_aligned_nothrow h sz alignment = new_loop h True (mi_malloc_aligned sz alignment)"

text \<open>On overflow the handler runs once, which may end the run.\<close>

definition new_overflow :: "new_handler \<Rightarrow> mstate \<Rightarrow> (addr \<times> mstate) run option" where
  "new_overflow h s =
     do {
       r \<leftarrow> mi_try_new_handler h False s;
       Some (case r of Exit c \<Rightarrow> Exit c | Return (_, s) \<Rightarrow> Return (0, s))
     }"

definition mi_new_n ::
    "new_handler \<Rightarrow> u64 \<Rightarrow> u64 \<Rightarrow> mstate \<Rightarrow> (addr \<times> mstate) run option" where
  "mi_new_n h count sz s =
     (case mi_count_size_overflow count sz of
        (True, _) \<Rightarrow> new_overflow h s
      | (False, tot) \<Rightarrow> mi_new h tot s)"

definition mi_new_realloc ::
    "new_handler \<Rightarrow> addr \<Rightarrow> u64 \<Rightarrow> mstate \<Rightarrow> (addr \<times> mstate) run option" where
  "mi_new_realloc h p newsize = new_loop h False (mi_realloc p newsize)"

definition mi_new_reallocn ::
    "new_handler \<Rightarrow> addr \<Rightarrow> u64 \<Rightarrow> u64 \<Rightarrow> mstate \<Rightarrow> (addr \<times> mstate) run option" where
  "mi_new_reallocn h p newcount sz s =
     (case mi_count_size_overflow newcount sz of
        (True, _) \<Rightarrow> new_overflow h s
      | (False, tot) \<Rightarrow> mi_new_realloc h p tot s)"

end
