(* ===== verification/Heap.thy ===== *)
theory Heap
  imports AllocAligned
begin

text \<open>
  Heaps as objects of the user (\<open>heap.c\<close>): creating, destroying and deleting a heap, which heap a
  block belongs to, and visiting the blocks of a heap; and the end of threads and of the process
  (\<open>init.c\<close>). The copy of the empty heap into a new one is commented out in the source, so the
  queues of a new heap are what its memory held. \<open>None\<close> is undefined behaviour or no end.
\<close>

section \<open>New heaps\<close>

definition heap_init_new :: "addr \<Rightarrow> addr \<Rightarrow> mstate \<Rightarrow> mstate" where
  "heap_init_new bheap heap s =
     (let s = heap_upd heap (\<lambda>h. h\<lparr>hp_tld := heap_tld bheap s, hp_thread_id := st_thread_id s\<rparr>) s;
          (ctx, ctx_new) = mi_random_split (hp_random (st_heap s bheap)) (hp_random (st_heap s heap));
          s = heap_upd bheap (\<lambda>h. h\<lparr>hp_random := ctx\<rparr>) s;
          s = heap_upd heap (\<lambda>h. h\<lparr>hp_random := ctx_new\<rparr>) s;
          (c, s) = mi_heap_random_next heap s;
          s = heap_upd heap (\<lambda>h. h\<lparr>hp_cookie := c OR 1\<rparr>) s;
          (k0, s) = mi_heap_random_next heap s;
          s = heap_upd heap (\<lambda>h. h\<lparr>hp_key0 := k0\<rparr>) s;
          (k1, s) = mi_heap_random_next heap s;
          s = heap_upd heap (\<lambda>h. h\<lparr>hp_key1 := k1\<rparr>) s;
          s = heap_upd heap (\<lambda>h. h\<lparr>hp_no_reclaim := True\<rparr>) s;
          tld = heap_tld heap s;
          s = heap_upd heap (\<lambda>h. h\<lparr>hp_next := tl_heaps (st_tld s tld)\<rparr>) s
      in tld_upd tld (\<lambda>tl. tl\<lparr>tl_heaps := heap\<rparr>) s)"

definition mi_heap_new :: "mstate \<Rightarrow> (addr \<times> mstate) option" where
  "mi_heap_new s =
     do {
       (bheap, s) \<leftarrow> mi_heap_get_backing s;
       (heap, s) \<leftarrow> mi_heap_malloc bheap sizeof_mi_heap s;
       if heap = 0 then Some (0, s) else Some (heap, heap_init_new bheap heap s)
     }"

definition MI_PAGES_DIRECT :: nat where [mi_consts]: "MI_PAGES_DIRECT = 129"

definition mi_heap_reset_pages :: "addr \<Rightarrow> mstate \<Rightarrow> mstate" where
  "mi_heap_reset_pages heap s =
     (let s = heap_upd heap (\<lambda>h. h\<lparr>hp_pages_free_direct :=
                (\<lambda>i. if i < MI_PAGES_DIRECT then None else hp_pages_free_direct h i)\<rparr>) s;
          s = heap_upd heap (\<lambda>h. h\<lparr>hp_pages :=
                (\<lambda>i. if i < unat MI_BIN_FULL + 1 then hp_pages (st_heap s heap_empty_ref) i else hp_pages h i)\<rparr>) s
      in heap_upd heap (\<lambda>h. h\<lparr>hp_thread_delayed_free := 0, hp_page_count := 0\<rparr>) s)"

section \<open>Freeing a heap\<close>

text \<open>The search for a heap in the list of the thread: the one before it and where it stopped.\<close>

partial_function (option) heap_list_find :: "addr \<Rightarrow> addr \<Rightarrow> addr \<Rightarrow> mstate \<Rightarrow> (addr \<times> addr) option" where
  "heap_list_find heap prev cur s =
     (if cur \<noteq> heap \<and> cur \<noteq> 0 then heap_list_find heap cur (hp_next (st_heap s cur)) s
      else Some (prev, cur))"

definition mi_heap_free :: "addr \<Rightarrow> mstate \<Rightarrow> mstate option" where
  "mi_heap_free heap s =
     (if mi_heap_is_backing heap s then Some s
      else
        let tld = heap_tld heap s;
            s = (if mi_heap_is_default heap s
                 then mi_heap_set_default_direct (tl_heap_backing (st_tld s tld)) s else s)
        in do {
          (prev, cur) \<leftarrow> heap_list_find heap 0 (tl_heaps (st_tld s tld)) s;
          let nxt = hp_next (st_heap s heap);
          let s = (if cur = heap
                   then (if prev \<noteq> 0 then heap_upd prev (\<lambda>h. h\<lparr>hp_next := nxt\<rparr>) s
                         else tld_upd tld (\<lambda>tl. tl\<lparr>tl_heaps := nxt\<rparr>) s)
                   else s);
          mi_free heap s
        })"

definition mi_heap_page_destroy :: "addr \<Rightarrow> unit page_visitor" where
  "mi_heap_page_destroy heap pq p arg s =
     do {
       s \<leftarrow> mi_page_use_delayed_free p MI_NEVER_DELAYED_FREE False s;
       let bsize = mi_page_block_size p s;
       let tld = heap_tld heap s;
       let s = (if MI_LARGE_OBJ_SIZE_MAX < bsize
                then (if MI_HUGE_OBJ_SIZE_MAX < bsize
                      then tld_stats tld (sts_giant_update (mi_stat_decrease bsize)) s
                      else tld_stats tld (sts_huge_update (mi_stat_decrease bsize)) s)
                else s);
       let s = page_upd p (\<lambda>pg. pg\<lparr>pg_used := 0, pg_next := None, pg_prev := None\<rparr>) s;
       s \<leftarrow> mi_segment_page_free p False tld s;
       Some (True, arg, s)
     }"

definition mi_heap_destroy_pages :: "addr \<Rightarrow> mstate \<Rightarrow> mstate option" where
  "mi_heap_destroy_pages heap s =
     do {
       (_, _, s) \<leftarrow> mi_heap_visit_pages heap (mi_heap_page_destroy heap) () s;
       Some (mi_heap_reset_pages heap s)
     }"

text \<open>One queue of \<open>mi_heap_absorb\<close>.\<close>

fun absorb_queues :: "addr \<Rightarrow> addr \<Rightarrow> nat list \<Rightarrow> mstate \<Rightarrow> mstate option" where
  "absorb_queues heap from_h [] s = Some s"
| "absorb_queues heap from_h (i # is) s =
     do {
       (pcount, s) \<leftarrow> mi_page_queue_append heap (heap, i) (from_h, i) s;
       let s = heap_upd heap (\<lambda>h. h\<lparr>hp_page_count := hp_page_count h + pcount\<rparr>) s;
       let s = heap_upd from_h (\<lambda>h. h\<lparr>hp_page_count := hp_page_count h - pcount\<rparr>) s;
       absorb_queues heap from_h is s
     }"

definition mi_heap_absorb :: "addr \<Rightarrow> addr \<Rightarrow> mstate \<Rightarrow> mstate option" where
  "mi_heap_absorb heap from_h s =
     (if from_h = 0 \<or> hp_page_count (st_heap s from_h) = 0 then Some s
      else do {
        s \<leftarrow> mi_heap_delayed_free from_h s;
        s \<leftarrow> absorb_queues heap from_h [0 ..< Suc (unat MI_BIN_FULL)] s;
        s \<leftarrow> mi_heap_delayed_free from_h s;
        Some (mi_heap_reset_pages from_h s)
      })"

definition mi_heap_delete :: "addr \<Rightarrow> mstate \<Rightarrow> mstate option" where
  "mi_heap_delete heap s =
     (if \<not> mi_heap_is_initialized heap then Some s
      else do {
        s \<leftarrow> (if \<not> mi_heap_is_backing heap s
              then mi_heap_absorb (tl_heap_backing (st_tld s (heap_tld heap s))) heap s
              else mi_heap_collect_abandon heap s);
        mi_heap_free heap s
      })"

definition mi_heap_destroy :: "addr \<Rightarrow> mstate \<Rightarrow> mstate option" where
  "mi_heap_destroy heap s =
     (if \<not> mi_heap_is_initialized heap then Some s
      else if \<not> hp_no_reclaim (st_heap s heap) then mi_heap_delete heap s
      else do { s \<leftarrow> mi_heap_destroy_pages heap s; mi_heap_free heap s })"

definition mi_heap_set_default :: "addr \<Rightarrow> mstate \<Rightarrow> addr \<times> mstate" where
  "mi_heap_set_default heap s =
     (if \<not> mi_heap_is_initialized heap then (0, s)
      else let old = mi_get_default_heap s in (old, mi_heap_set_default_direct heap s))"

section \<open>The heap of a block\<close>

definition mi_heap_of_block :: "addr \<Rightarrow> mstate \<Rightarrow> addr option" where
  "mi_heap_of_block p s =
     (if p = 0 then Some 0
      else
        let a = mi_ptr_segment p in
        if a = 0 then None
        else if mi_ptr_cookie a s \<noteq> sg_cookie (st_segment s a) then Some 0
        else Some (mi_page_heap (mi_segment_page_of a p s) s))"

definition mi_heap_contains_block :: "addr \<Rightarrow> addr \<Rightarrow> mstate \<Rightarrow> bool option" where
  "mi_heap_contains_block heap p s =
     (if \<not> mi_heap_is_initialized heap then Some False
      else do { h \<leftarrow> mi_heap_of_block p s; Some (heap = h) })"

definition mi_heap_page_check_owned :: "addr \<Rightarrow> bool page_visitor" where
  "mi_heap_page_check_owned x pq p found s =
     (let start = fst (mi_page_start p s);
          end_addr = start + ucast (pg_capacity (st_page s p)) * mi_page_block_size p s;
          found = (start \<le> x \<and> x < end_addr)
      in Some (\<not> found, found, s))"

definition mi_heap_check_owned :: "addr \<Rightarrow> addr \<Rightarrow> mstate \<Rightarrow> bool option" where
  "mi_heap_check_owned heap x s =
     (if \<not> mi_heap_is_initialized heap then Some False
      else if x AND (MI_INTPTR_SIZE - 1) \<noteq> 0 then Some False
      else do { (_, found, _) \<leftarrow> mi_heap_visit_pages heap (mi_heap_page_check_owned x) False s; Some found })"

definition mi_check_owned :: "addr \<Rightarrow> mstate \<Rightarrow> bool option" where
  "mi_check_owned x s = mi_heap_check_owned (mi_get_default_heap s) x s"

end
