(* ===== verification/HeapVisit.thy ===== *)
theory HeapVisit
  imports Heap
begin

text \<open>
  Visiting the areas and blocks of a heap (end of \<open>heap.c\<close>), and the end of a thread and of the
  process (\<open>init.c\<close>). The visitor is a function of the user: a parameter that may change its own
  argument and the state. The map of free blocks is not cleared in the source, so what it holds
  at first is a parameter as well.
\<close>

section \<open>Areas\<close>

record heap_area =
  ar_blocks :: addr
  ar_reserved :: u64
  ar_committed :: u64
  ar_used :: u64
  ar_block_size :: u64

type_synonym 'v block_visitor =
  "addr \<Rightarrow> heap_area \<Rightarrow> addr \<Rightarrow> u64 \<Rightarrow> 'v \<Rightarrow> mstate \<Rightarrow> (bool \<times> 'v \<times> mstate) option"

definition page_heap_area :: "page_id \<Rightarrow> mstate \<Rightarrow> heap_area" where
  "page_heap_area p s =
     (let bsize = mi_page_block_size p s; pg = st_page s p
      in \<lparr>ar_blocks = fst (mi_page_start p s), ar_reserved = ucast (pg_reserved pg) * bsize,
          ar_committed = ucast (pg_capacity pg) * bsize, ar_used = ucast (pg_used pg),
          ar_block_size = bsize\<rparr>)"

section \<open>The map of free blocks\<close>

definition MI_MAX_BLOCKS :: nat where [mi_consts]: "MI_MAX_BLOCKS = 1024"

text \<open>The entry and the bit of a block: eight blocks in an entry of 64 bits.\<close>

definition free_map_index :: "nat \<Rightarrow> nat" where "free_map_index i = i div 8"
definition free_map_bit :: "nat \<Rightarrow> nat" where "free_map_bit i = i - free_map_index i * 8"

text \<open>\<open>None\<close> is an entry out of range, a division by 0, or a free list that does not end.\<close>

partial_function (option) free_map_fill ::
    "addr \<Rightarrow> u64 \<Rightarrow> addr \<Rightarrow> (nat \<Rightarrow> u64) \<Rightarrow> mstate \<Rightarrow> (nat \<Rightarrow> u64) option" where
  "free_map_fill pstart bsize block fm s =
     (if block = 0 then Some fm
      else if bsize = 0 then None
      else
        let offset = block - pstart;
            blockidx = unat (offset div bsize);
            e = free_map_index blockidx
        in if MI_MAX_BLOCKS div 8 \<le> e then None
           else free_map_fill pstart bsize (mi_block_next block s)
                  (fm(e := fm e OR push_bit (free_map_bit blockidx) 1)) s)"

partial_function (option) visit_used_blocks ::
    "'v block_visitor \<Rightarrow> page_id \<Rightarrow> heap_area \<Rightarrow> addr \<Rightarrow> u64 \<Rightarrow> (nat \<Rightarrow> u64) \<Rightarrow> nat \<Rightarrow> 'v \<Rightarrow> mstate
       \<Rightarrow> (bool \<times> 'v \<times> mstate) option" where
  "visit_used_blocks visitor p area pstart bsize fm i arg s =
     (if unat (pg_capacity (st_page s p)) \<le> i then Some (True, arg, s)
      else if MI_MAX_BLOCKS div 8 \<le> free_map_index i then None
      else
        let m = fm (free_map_index i) in
        if free_map_bit i = 0 \<and> m = - 1
        then visit_used_blocks visitor p area pstart bsize fm (i + 8) arg s
        else if m AND push_bit (free_map_bit i) 1 = 0 then
          Option.bind (visitor (mi_page_heap p s) area (pstart + word_of_nat i * bsize) bsize arg s)
            (\<lambda>(go_on, arg, s). if \<not> go_on then Some (False, arg, s)
               else visit_used_blocks visitor p area pstart bsize fm (i + 1) arg s)
        else visit_used_blocks visitor p area pstart bsize fm (i + 1) arg s)"

definition mi_heap_area_visit_blocks ::
    "(nat \<Rightarrow> u64) \<Rightarrow> page_id \<Rightarrow> heap_area \<Rightarrow> 'v block_visitor \<Rightarrow> 'v \<Rightarrow> mstate \<Rightarrow> (bool \<times> 'v \<times> mstate) option" where
  "mi_heap_area_visit_blocks stack p area visitor arg s =
     do {
       s \<leftarrow> mi_page_free_collect p True s;
       if pg_used (st_page s p) = 0 then Some (True, arg, s)
       else
         let bsize = mi_page_block_size p s;
             pstart = fst (mi_page_start p s)
         in if pg_capacity (st_page s p) = 1 then visitor (mi_page_heap p s) area pstart bsize arg s
            else do {
              fm \<leftarrow> free_map_fill pstart bsize (pg_free (st_page s p)) stack s;
              visit_used_blocks visitor p area pstart bsize fm 0 arg s
            }
     }"

definition mi_heap_area_visitor ::
    "(nat \<Rightarrow> u64) \<Rightarrow> bool \<Rightarrow> 'v block_visitor \<Rightarrow> addr \<Rightarrow> page_id \<Rightarrow> 'v \<Rightarrow> mstate \<Rightarrow> (bool \<times> 'v \<times> mstate) option" where
  "mi_heap_area_visitor stack visit_blocks visitor heap p arg s =
     (let area = page_heap_area p s in do {
        (go_on, arg, s) \<leftarrow> visitor heap area 0 (ar_block_size area) arg s;
        if \<not> go_on then Some (False, arg, s)
        else if visit_blocks then mi_heap_area_visit_blocks stack p area visitor arg s
        else Some (True, arg, s)
      })"

definition mi_heap_visit_blocks ::
    "(nat \<Rightarrow> u64) \<Rightarrow> addr \<Rightarrow> bool \<Rightarrow> 'v block_visitor \<Rightarrow> 'v \<Rightarrow> mstate \<Rightarrow> (bool \<times> 'v \<times> mstate) option" where
  "mi_heap_visit_blocks stack heap visit_blocks visitor arg s =
     mi_heap_visit_pages heap (\<lambda>q p. mi_heap_area_visitor stack visit_blocks visitor heap p) arg s"

section \<open>The end of a thread\<close>

partial_function (option) delete_heaps :: "addr \<Rightarrow> addr \<Rightarrow> mstate \<Rightarrow> mstate option" where
  "delete_heaps heap cur s =
     (if cur = 0 then Some s
      else
        let nxt = hp_next (st_heap s cur) in
        if cur \<noteq> heap then Option.bind (mi_heap_delete cur s) (delete_heaps heap nxt)
        else delete_heaps heap nxt s)"

definition mi_heap_done :: "addr \<Rightarrow> mstate \<Rightarrow> (bool \<times> mstate) option" where
  "mi_heap_done h s =
     (if \<not> mi_heap_is_initialized h then Some (True, s)
      else
        let s = mi_heap_set_default_direct (if mi_is_main_thread s then heap_main_ref else heap_empty_ref) s;
            heap = tl_heap_backing (st_tld s (heap_tld h s))
        in if \<not> mi_heap_is_initialized heap then Some (False, s)
           else do {
             s \<leftarrow> delete_heaps heap (tl_heaps (st_tld s (heap_tld heap s))) s;
             s \<leftarrow> (if heap \<noteq> heap_main_ref then mi_heap_collect_abandon heap s else Some s);
             let s = mi_stats_done (TldStats (heap_tld heap s)) s;
             Some (False, if heap \<noteq> heap_main_ref then mi_os_free heap sizeof_mi_thread_data MainStats s else s)
           })"

definition thread_done_heap :: "addr \<Rightarrow> mstate \<Rightarrow> mstate option" where
  "thread_done_heap heap s =
     (if hp_thread_id (st_heap s heap) \<noteq> st_thread_id s then Some s
      else
        let s = (if \<not> mi_is_main_thread s \<and> mi_heap_is_initialized heap
                 then tld_stats (heap_tld heap s) (sts_threads_update (mi_stat_decrease 1)) s else s)
        in do { (_, s) \<leftarrow> mi_heap_done heap s; Some s })"

definition mi_thread_done :: "mstate \<Rightarrow> mstate option" where
  "mi_thread_done s = thread_done_heap (mi_get_default_heap s) s"

text \<open>Printing the statistics first adds those of the current thread to the main ones.\<close>

definition stats_print_merge :: "mstate \<Rightarrow> mstate option" where
  "stats_print_merge s =
     do { (heap, s) \<leftarrow> mi_heap_get_default s; Some (mi_stats_merge_from (TldStats (heap_tld heap s)) s) }"

definition mi_process_done :: "mstate \<Rightarrow> mstate option" where
  "mi_process_done s =
     (if \<not> st_process_init s then Some s
      else if st_process_done s then Some s
      else
        let s = s\<lparr>st_process_done := True\<rparr>;
            (show_stats, s) = mi_option_is_enabled opt_show_stats s;
            (print, s) = (if show_stats then (True, s) else mi_option_is_enabled opt_verbose s)
        in do {
             s \<leftarrow> (if print then stats_print_merge s else Some s);
             Some (s\<lparr>st_preloading := True\<rparr>)
           })"

end
