(* ===== verification/MallocFree.thy ===== *)
theory MallocFree
  imports PageBlocks HeapVisit
begin

text \<open>
  Allocation and free through a heap: the abstract heap of \<open>HeapQueues\<close> (which page is in which queue)
  together with the blocks in use of the pages of \<open>PageBlocks\<close>.
\<close>

section \<open>What a change of blocks leaves of a heap, and a change of queues of the blocks\<close>

lemma heap_repr_cong:
  assumes "hp_pages (st_heap s' h) = hp_pages (st_heap s h)"
    and "hp_pages_free_direct (st_heap s' h) = hp_pages_free_direct (st_heap s h)"
    and "hp_page_count (st_heap s' h) = hp_page_count (st_heap s h)"
    and "\<And>m. pg_next (st_page s' m) = pg_next (st_page s m)" "\<And>m. pg_prev (st_page s' m) = pg_prev (st_page s m)"
    and "\<And>m. pg_in_full (st_page s' m) = pg_in_full (st_page s m)"
    and "\<And>m. pg_xheap (st_page s' m) = pg_xheap (st_page s m)"
    and "\<And>m. pg_xblock_size (st_page s' m) = pg_xblock_size (st_page s m)"
  shows "heap_repr h Q s' = heap_repr h Q s"
proof -
  have q: "queue_of (h, i) s' = queue_of (h, i) s" for i using assms(1) by (simp add: queue_of_def)
  have "queue_holds s' (h, i) xs = queue_holds s (h, i) xs" for i xs
    unfolding page_list.holds_def q by (rule dlist_cong) (simp_all add: assms(4,5))
  moreover have "page_bin (st_page s' m) = page_bin (st_page s m)" for m
    by (simp add: page_bin_def assms(6,8))
  ultimately show ?thesis
    by (simp add: heap_repr_def queue_lists_def queue_pages_ok_def queue_sizes_ok_def direct_ok_def q
        mi_page_heap_def assms(2,3,7))
qed

lemma heap_repr_list_frame:
  assumes "list_frame p B s s'"
  shows "heap_repr h Q s' = heap_repr h Q s"
proof -
  note K = list_frame_fields [OF assms]
  show ?thesis by (rule heap_repr_cong) (simp_all add: K)
qed

lemma page_wf_core:
  assumes "page_core (st_page s' p) = page_core (st_page s p)" and "st_block s' = st_block s"
    and "st_segment s' = st_segment s"
  shows "page_wf p F L T s' = page_wf p F L T s" and "page_alive p F L T s' = page_alive p F L T s"
proof -
  note K = page_core_fields [OF assms(1)]
  have idx: "pg_segment_idx (st_page s' p) = pg_segment_idx (st_page s p)"
    using assms(1) by (cases "st_page s' p"; cases "st_page s p"; simp add: page_core_def)
  have G: "page_block p s' = page_block p s" "page_geometry p s' = page_geometry p s"
    using page_geometry_frame [of s' p s] assms(3) idx K by simp_all
  then show "page_wf p F L T s' = page_wf p F L T s" "page_alive p F L T s' = page_alive p F L T s"
    by (simp_all add: page_wf_def page_alive_def page_lists_def assms(2) K mi_page_thread_free_def)
qed

lemma page_wf_flag:
  fixes p :: page_id and s :: mstate and d :: mi_delayed
  defines "s' \<equiv> page_set_tfree p (mi_tf_set_delayed (pg_xthread_free (st_page s p)) d) s"
  shows "page_wf p F L T s' = page_wf p F L T s" and "page_alive p F L T s' = page_alive p F L T s"
    and "list_frame p {} s s'" and "mi_page_thread_free_flag (st_page s' p) = d"
proof -
  show fr: "list_frame p {} s s'"
    unfolding s'_def page_set_tfree_def by (intro list_frame_page) (simp add: page_fixed_def)
  have al: "mi_tf_block tf AND 3 = 0" for tf by (simp add: mi_tf_block_def and.assoc)
  have same: "page_block p s' = page_block p s" "page_geometry p s' = page_geometry p s"
    using page_geometry_frame [of s' p s] list_frame_fields [OF fr] by simp_all
  show "page_wf p F L T s' = page_wf p F L T s" "page_alive p F L T s' = page_alive p F L T s"
    unfolding page_wf_def page_alive_def same
    by (simp_all add: page_lists_def s'_def page_set_tfree_def store_simps mi_page_thread_free_eq mi_tf_set_delayed_def al)
  show "mi_page_thread_free_flag (st_page s' p) = d"
    by (simp add: s'_def page_set_tfree_def store_simps mi_page_thread_free_flag_def mi_tf_set_delayed_def al)
qed

section \<open>The full queue\<close>

lemma mi_page_unfull_run:
  assumes R: "heap_repr h Q s" and p: "p \<in> set (Q 74)"
  defines "k \<equiv> unat (mi_bin (ucast (pg_xblock_size (st_page s p))))"
  defines "s' \<equiv> mi_page_unfull p s"
  shows "heap_repr h (Q(74 := remove1 p (Q 74), k := Q k @ [p])) s'"
    and "page_core (st_page s' m) = page_core (st_page s m)" and "st_block s' = st_block s"
    and "st_segment s' = st_segment s" and "\<not> pg_in_full (st_page s' p)"
proof -
  have inq: "in_queues p Q" using p by (auto simp: in_queues_def)
  have b74: "page_bin (st_page s p) = 74" and hp: "mi_page_heap p s = h"
    using R p by (auto simp: heap_repr_def queue_pages_ok_def)
  let ?pg = "(st_page s p)\<lparr>pg_in_full := False\<rparr>"
  have k74: "k \<noteq> 74" "queue_bin k"
    using queue_bin_page_bin [of ?pg] by (simp_all add: page_bin_def k_def)
  have full: "pg_in_full (st_page s p)"
    using queue_bin_page_bin(2) [of "st_page s p"] b74 by auto
  have upd: "mi_page_set_in_full p True (mi_page_set_in_full p False s) = s"
  proof -
    have "(st_page s p)\<lparr>pg_in_full := True\<rparr> = st_page s p" using full by (cases "st_page s p") simp
    then show ?thesis by (simp add: mi_page_set_in_full_def page_upd_def fun_upd_idem)
  qed
  have s': "s' = mi_page_queue_enqueue_from (h, k) (h, 74) p s"
    using full upd hp
    by (simp add: s'_def mi_page_unfull_def Let_def full_queue_def mi_heap_page_queue_of_def page_bin_def
        mi_page_set_in_full_def store_simps k_def mi_consts)
  show "heap_repr h (Q(74 := remove1 p (Q 74), k := Q k @ [p])) s'"
    using heap_repr_enqueue_from [OF R inq k74(2)] k74(1) b74 unfolding s' by (simp add: k_def)
  show "page_core (st_page s' m) = page_core (st_page s m)" "st_block s' = st_block s" "st_segment s' = st_segment s"
    by (simp_all add: s' queue_frame)
  have "k \<le> 74" "queue_sizes_ok h s" using queue_bin_used(1) [OF k74(2)] R by (simp_all add: heap_repr_def)
  then show "\<not> pg_in_full (st_page s' p)" using k74(1) by (simp add: s' queue_frame queue_is_full_iff)
qed

section \<open>Delayed frees\<close>

lemma use_delayed_free_wf:
  assumes "mi_page_thread_free_flag (st_page s p) \<noteq> MI_DELAYED_FREEING"
  obtains s' where "mi_page_use_delayed_free p d False s = Some s'" "list_frame p {} s s'"
    "\<And>F L T. page_wf p F L T s' = page_wf p F L T s" "\<And>F L T. page_alive p F L T s' = page_alive p F L T s"
    "mi_page_thread_free_flag (st_page s' p) =
       (if mi_page_thread_free_flag (st_page s p) = MI_NEVER_DELAYED_FREE then MI_NEVER_DELAYED_FREE else d)"
proof (cases "d = mi_page_thread_free_flag (st_page s p) \<or> mi_page_thread_free_flag (st_page s p) = MI_NEVER_DELAYED_FREE")
  case True
  then have "mi_page_use_delayed_free p d False s = Some s"
    using assms by (auto simp: mi_page_use_delayed_free_def Let_def mi_page_thread_free_flag_def)
  then show thesis using True by (intro that [of s]) (auto simp: list_frame_refl)
next
  case False
  then have "mi_page_use_delayed_free p d False s =
      Some (page_set_tfree p (mi_tf_set_delayed (pg_xthread_free (st_page s p)) d) s)"
    using assms by (auto simp: mi_page_use_delayed_free_def Let_def mi_page_thread_free_flag_def page_set_tfree_def)
  then show thesis using False page_wf_flag [where p = p and s = s and d = d] by (intro that) auto
qed

definition unfull_queues :: "page_id \<Rightarrow> (nat \<Rightarrow> page_id list) \<Rightarrow> mstate \<Rightarrow> nat \<Rightarrow> page_id list" where
  "unfull_queues p Q s =
     (let k = unat (mi_bin (ucast (pg_xblock_size (st_page s p))))
      in if pg_in_full (st_page s p) then Q(74 := remove1 p (Q 74), k := Q k @ [p]) else Q)"

lemma unfull_queues_frame: "list_frame p B s s' \<Longrightarrow> unfull_queues p Q s' = unfull_queues p Q s"
  using list_frame_fields by (simp add: unfull_queues_def)

text \<open>A block freed on a page that keeps other blocks in use.\<close>

lemma free_keep_page:
  assumes W: "page_wf p F L T s" and x: "x \<in> page_alive p F L T s"
    and R: "heap_repr h Q s" and full: "pg_in_full (st_page s p) \<Longrightarrow> p \<in> set (Q 74)"
  defines "t \<equiv> page_local_push p x s"
  defines "s' \<equiv> if pg_in_full (st_page s p) then mi_page_unfull p t else t"
  shows "page_wf p F (x # L) T s'" and "page_alive p F (x # L) T s' = page_alive p F L T s - {x}"
    and "heap_repr h (unfull_queues p Q s) s'" and "\<not> pg_in_full (st_page s' p)"
    and "mi_page_thread_free_flag (st_page s' p) = mi_page_thread_free_flag (st_page s p)"
    and "hp_thread_delayed_free (st_heap s' g) = hp_thread_delayed_free (st_heap s g)"
proof -
  note L = page_local_push_wf [OF W x, folded t_def]
  have Rt: "heap_repr h Q t" using R heap_repr_list_frame [OF L(2)] by simp
  note K = list_frame_fields [OF L(2)]
  have flag: "mi_page_thread_free_flag (st_page t p) = mi_page_thread_free_flag (st_page s p)"
    by (simp add: t_def page_local_push_def Let_def store_simps mi_block_set_next_def mi_page_thread_free_flag_def)
  have "page_wf p F (x # L) T s' \<and> page_alive p F (x # L) T s' = page_alive p F L T s - {x} \<and>
      heap_repr h (unfull_queues p Q s) s' \<and> \<not> pg_in_full (st_page s' p) \<and>
      mi_page_thread_free_flag (st_page s' p) = mi_page_thread_free_flag (st_page s p) \<and>
      hp_thread_delayed_free (st_heap s' g) = hp_thread_delayed_free (st_heap s g)"
  proof (cases "pg_in_full (st_page s p)")
    case True
    note U = mi_page_unfull_run [OF Rt full [OF True]]
    have "heap_core (st_heap s' g) = heap_core (st_heap t g)"
      using True by (auto simp: s'_def mi_page_unfull_def Let_def queue_frame mi_page_set_in_full_def store_simps)
    then have "hp_thread_delayed_free (st_heap s' g) = hp_thread_delayed_free (st_heap t g)"
      by (cases "st_heap s' g"; cases "st_heap t g"; simp add: heap_core_def)
    then show ?thesis
      using True U L(1,3) page_wf_core [OF U(2-4)] page_core_fields(8) [OF U(2), of p] flag K
      by (simp add: s'_def unfull_queues_def mi_page_thread_free_flag_def Let_def)
  next
    case False
    then show ?thesis
      using L(1,3) Rt flag K by (simp add: s'_def unfull_queues_def)
  qed
  then show "page_wf p F (x # L) T s'" "page_alive p F (x # L) T s' = page_alive p F L T s - {x}"
    "heap_repr h (unfull_queues p Q s) s'" "\<not> pg_in_full (st_page s' p)"
    "mi_page_thread_free_flag (st_page s' p) = mi_page_thread_free_flag (st_page s p)"
    "hp_thread_delayed_free (st_heap s' g) = hp_thread_delayed_free (st_heap s g)" by blast+
qed

lemma mi_free_delayed_block_wf:
  assumes W: "page_wf p F L T s" and K: "sg_page_kind (st_segment s (fst p)) \<noteq> MI_PAGE_HUGE"
    and x: "x \<in> page_alive p F L T s" and more: "1 < card (page_alive p F L T s)"
    and R: "heap_repr h Q s" and full: "pg_in_full (st_page s p) \<Longrightarrow> p \<in> set (Q 74)"
    and flag: "mi_page_thread_free_flag (st_page s p) \<noteq> MI_DELAYED_FREEING"
  obtains s' F' L' where "mi_free_delayed_block x s = Some s'" "page_wf p F' L' [] s'"
    "page_alive p F' L' [] s' = page_alive p F L T s - {x}" "heap_repr h (unfull_queues p Q s) s'"
    "mi_page_thread_free_flag (st_page s' p) =
       (if mi_page_thread_free_flag (st_page s p) = MI_NEVER_DELAYED_FREE then MI_NEVER_DELAYED_FREE
        else MI_USE_DELAYED_FREE)"
    "hp_thread_delayed_free (st_heap s' g) = hp_thread_delayed_free (st_heap s g)"
proof -
  note ptr = page_alive_ptr [OF W K x]
  obtain s1 where u: "mi_page_use_delayed_free p MI_USE_DELAYED_FREE False s = Some s1" "list_frame p {} s s1"
    "page_wf p F L T s1 = page_wf p F L T s" "page_alive p F L T s1 = page_alive p F L T s"
    "mi_page_thread_free_flag (st_page s1 p) =
       (if mi_page_thread_free_flag (st_page s p) = MI_NEVER_DELAYED_FREE then MI_NEVER_DELAYED_FREE
        else MI_USE_DELAYED_FREE)"
    using use_delayed_free_wf [OF flag] by metis
  obtain F' L' where C: "collected False F (T @ L) = (F', L')" by (metis surj_pair)
  obtain s2 where c: "mi_page_free_collect p False s1 = Some s2" "page_wf p F' L' [] s2"
    "page_alive p F' L' [] s2 = page_alive p F L T s1" "list_frame p (set T \<union> set L) s1 s2"
    "mi_page_thread_free_flag (st_page s2 p) = mi_page_thread_free_flag (st_page s1 p)"
    using page_wf_collect [of p F L T s1, OF _ C] W u(3) by metis
  have x2: "x \<in> page_alive p F' L' [] s2" using x u(4) c(3) by simp
  have R2: "heap_repr h Q s2" using R heap_repr_list_frame u(2) c(4) by metis
  note fields = list_frame_fields [OF u(2)] list_frame_fields [OF c(4)]
  have full2: "p \<in> set (Q 74)" if "pg_in_full (st_page s2 p)" using that full fields by simp
  note E = free_keep_page [OF c(2) x2 R2 full2, simplified]
  have used: "unat (pg_used (st_page s2 p)) = card (page_alive p F L T s)"
    using page_used_card [OF c(2)] by (simp add: c(3) u(4))
  have "unat (pg_used (st_page s2 p) - 1) = unat (pg_used (st_page s2 p)) - 1"
    using used more by (subst unat_sub_bounded) (simp_all add: word_le_nat_alt)
  then have "pg_used (st_page (page_local_push p x s2) p) \<noteq> 0"
    using more used page_local_push_wf(4) [OF c(2) x2] by (metis unat_0 zero_less_diff less_irrefl)
  moreover have "pg_in_full (st_page (page_local_push p x s2) p) = pg_in_full (st_page s2 p)"
    using list_frame_fields [OF page_local_push_wf(2) [OF c(2) x2]] by simp
  ultimately have run: "mi_free_delayed_block x s = Some
      (if pg_in_full (st_page s2 p) then mi_page_unfull p (page_local_push p x s2) else page_local_push p x s2)"
    by (simp add: mi_free_delayed_block_def ptr u(1) c(1) mi_free_block_def Let_def mi_page_all_free_def)
  have Q: "unfull_queues p Q s2 = unfull_queues p Q s" using unfull_queues_frame u(2) c(4) by metis
  show thesis
    by (rule that [OF run E(1)]) (use E(2-6) in \<open>simp_all add: Q c(3,5) u(4,5) fields\<close>)
qed

lemma page_wf_block_other:
  assumes "x \<notin> set (F @ L @ T)"
  shows "page_wf p F L T (mi_block_set_next x n s) = page_wf p F L T s"
    and "page_alive p F L T (mi_block_set_next x n s) = page_alive p F L T s"
proof -
  have "list_frame p {x} s (mi_block_set_next x n s)" by (intro list_frame_block) simp
  note fields = list_frame_fields [OF this]
  have "page_block p (mi_block_set_next x n s) = page_block p s"
    "page_geometry p (mi_block_set_next x n s) = page_geometry p s"
    using page_geometry_frame [of "mi_block_set_next x n s" p s] fields by simp_all
  then show "page_wf p F L T (mi_block_set_next x n s) = page_wf p F L T s"
    "page_alive p F L T (mi_block_set_next x n s) = page_alive p F L T s"
    using assms by (simp_all add: page_wf_def page_alive_def page_lists_def mi_block_set_next_def store_simps)
qed

lemma page_wf_heap_upd [simp]:
  "page_wf p F L T (heap_upd h f s) = page_wf p F L T s" "page_alive p F L T (heap_upd h f s) = page_alive p F L T s"
  by (rule page_wf_core; simp add: store_simps)+

lemma heap_repr_delayed [simp]:
  "heap_repr h Q (heap_upd g (\<lambda>hp. hp\<lparr>hp_thread_delayed_free := b\<rparr>) s) = heap_repr h Q s"
  by (rule heap_repr_cong) (simp_all add: store_simps)

lemma mi_free_remote_run:
  assumes W: "page_wf p F L T s" and K: "sg_page_kind (st_segment s (fst p)) \<noteq> MI_PAGE_HUGE"
    and x: "x \<in> page_alive p F L T s" and q: "points_to p q x s" and al: "x AND 3 = 0"
    and own: "sg_thread_id (st_segment s (fst p)) \<noteq> st_thread_id s" and h: "mi_page_heap p s = h" "h \<noteq> 0"
  shows "\<exists>s'. mi_free q s = Some s' \<and>
    (if mi_page_thread_free_flag (st_page s p) \<noteq> MI_USE_DELAYED_FREE
     then page_wf p F L (x # T) s' \<and> page_alive p F L (x # T) s' = page_alive p F L T s - {x} \<and>
       mi_page_thread_free_flag (st_page s' p) = mi_page_thread_free_flag (st_page s p) \<and> st_heap s' = st_heap s
     else page_wf p F L T s' \<and> page_alive p F L T s' = page_alive p F L T s \<and>
       mi_page_thread_free_flag (st_page s' p) = MI_NO_DELAYED_FREE \<and>
       hp_thread_delayed_free (st_heap s' h) = x \<and> mi_block_next x s' = hp_thread_delayed_free (st_heap s h))"
    and "mi_page_thread_free_flag (st_page s p) = MI_USE_DELAYED_FREE \<Longrightarrow> heap_repr g Q s \<Longrightarrow>
      mi_free q s = Some s' \<Longrightarrow> heap_repr g Q s' \<and> st_segment s' = st_segment s \<and>
        pg_in_full (st_page s' p) = pg_in_full (st_page s p) \<and>
        pg_xblock_size (st_page s' p) = pg_xblock_size (st_page s p)"
proof -
  note ptr = points_to_ptr [OF W K x q]
  have run: "mi_free q s = mi_free_block_mt p x s"
    using ptr own by (cases "pg_has_aligned (st_page s p)")
      (simp_all add: mi_free_def mi_free_generic_def mi_free_block_def Let_def)
  let ?tf = "pg_xthread_free (st_page s p)"
  have flag: "mi_page_thread_free_flag (st_page s p) = mi_tf_delayed ?tf" by (simp add: mi_page_thread_free_flag_def)
  define s1 where "s1 = page_set_tfree p (mi_tf_set_delayed ?tf MI_DELAYED_FREEING) s"
  define s2 where "s2 = heap_delayed_push h x s1"
  define s3 where "s3 = page_set_tfree p (mi_tf_set_delayed (pg_xthread_free (st_page s2 p)) MI_NO_DELAYED_FREE) s2"
  have h1: "mi_page_heap p s1 = h" "hp_thread_delayed_free (st_heap s1 h) = hp_thread_delayed_free (st_heap s h)"
    using h(1) by (simp_all add: s1_def page_set_tfree_def mi_page_heap_def store_simps)
  have delayed: "mi_free_block_mt p x s = Some s3" if "mi_tf_delayed ?tf = MI_USE_DELAYED_FREE"
    using that K h(2) h1 by (simp add: mi_free_block_mt_def Let_def s3_def s2_def flip: s1_def)
  have s2: "page_wf p F L T s2 = page_wf p F L T s" "page_alive p F L T s2 = page_alive p F L T s"
    using page_alive_used(3) [OF W x] page_wf_flag [where p = p and s = s and d = MI_DELAYED_FREEING]
    by (simp_all add: s2_def heap_delayed_push_def Let_def page_wf_block_other flip: s1_def)
  note F3 = page_wf_flag [where p = p and s = s2 and d = MI_NO_DELAYED_FREE, folded s3_def]
  have heap3: "hp_thread_delayed_free (st_heap s3 h) = x" "mi_block_next x s3 = hp_thread_delayed_free (st_heap s h)"
    by (simp_all add: s3_def s2_def heap_delayed_push_def Let_def page_set_tfree_def store_simps mi_block_set_next_def
        mi_block_next_def h1)
  show "\<exists>s'. mi_free q s = Some s' \<and>
    (if mi_page_thread_free_flag (st_page s p) \<noteq> MI_USE_DELAYED_FREE
     then page_wf p F L (x # T) s' \<and> page_alive p F L (x # T) s' = page_alive p F L T s - {x} \<and>
       mi_page_thread_free_flag (st_page s' p) = mi_page_thread_free_flag (st_page s p) \<and> st_heap s' = st_heap s
     else page_wf p F L T s' \<and> page_alive p F L T s' = page_alive p F L T s \<and>
       mi_page_thread_free_flag (st_page s' p) = MI_NO_DELAYED_FREE \<and>
       hp_thread_delayed_free (st_heap s' h) = x \<and> mi_block_next x s' = hp_thread_delayed_free (st_heap s h))"
  proof (cases "mi_tf_delayed ?tf = MI_USE_DELAYED_FREE")
    case True
    then show ?thesis using delayed F3 s2 heap3 W by (simp add: run flag)
  next
    case False
    then show ?thesis
      using K mt_push_wf [OF W x al] list_frame_fields [OF mt_push_wf(2) [OF W x al]]
      by (simp add: run flag mi_free_block_mt_def Let_def)
  qed
  show "heap_repr g Q s' \<and> st_segment s' = st_segment s \<and> pg_in_full (st_page s' p) = pg_in_full (st_page s p) \<and>
      pg_xblock_size (st_page s' p) = pg_xblock_size (st_page s p)"
    if "mi_page_thread_free_flag (st_page s p) = MI_USE_DELAYED_FREE" "heap_repr g Q s" "mi_free q s = Some s'"
  proof -
    have s': "s' = s3" using that(1,3) delayed by (simp add: run flag)
    have "heap_repr g Q s3 = heap_repr g Q s2" by (rule heap_repr_list_frame [OF F3(3)])
    also have "\<dots> = heap_repr g Q s1"
      unfolding s2_def heap_delayed_push_def Let_def heap_repr_delayed
      by (rule heap_repr_list_frame [OF list_frame_block [of x "{x}"]]) simp
    also have "\<dots> = heap_repr g Q s"
      by (rule heap_repr_list_frame [OF page_wf_flag(3) [where p = p and s = s and d = MI_DELAYED_FREEING, folded s1_def]])
    finally show ?thesis
      using that(2) by (simp add: s' s3_def s2_def s1_def heap_delayed_push_def Let_def page_set_tfree_def store_simps
          mi_block_set_next_def)
  qed
qed

section \<open>Small requests\<close>

lemma direct_bin_request:
  assumes "sz \<le> MI_SMALL_SIZE_MAX"
  shows "unat (mi_wsize_from_size sz) \<le> MI_SMALL_WSIZE_MAX"
    and "direct_bin (unat (mi_wsize_from_size sz)) = unat (mi_bin sz)"
    and "sz \<le> mi_bin_size (mi_bin sz)" and "unat (mi_bin sz) \<le> 74"
proof -
  have le: "unat sz \<le> 1024" "sz \<le> MI_LARGE_OBJ_SIZE_MAX"
    using assms by (simp_all add: word_le_nat_alt mi_consts)
  have w: "unat (mi_wsize_from_size sz) = (unat sz + 7) div 8"
    using le(1) by (simp add: unat_mi_wsize_from_size)
  then show small: "unat (mi_wsize_from_size sz) \<le> MI_SMALL_WSIZE_MAX" using le(1) by (simp add: mi_consts)
  note C = mi_bin_char [OF le(2)]
  then have used: "bin_used (unat (mi_bin sz))" by blast
  show "direct_bin (unat (mi_wsize_from_size sz)) = unat (mi_bin sz)"
    using direct_bin_iff [OF small used] mi_bin_eq_iff [OF le(2) used] by blast
  show k: "unat (mi_bin sz) \<le> 74" using used by (auto simp: bin_used_def)
  have "unat (mi_bin_size (mi_bin sz)) = mi_bin_wsizes ! unat (mi_bin sz) * 8"
    using unat_mi_bin_size [OF k] by simp
  then show "sz \<le> mi_bin_size (mi_bin sz)"
    using C w unfolding word_le_nat_alt by linarith
qed

lemma malloc_small_hit:
  assumes R: "heap_repr h Q s" and sz: "sz \<le> MI_SMALL_SIZE_MAX"
    and head: "Q (unat (mi_bin sz)) = p # ps" and W: "page_wf p (b # F) L T s"
  shows "mi_heap_malloc h sz s = Some (page_pop p s)"
proof -
  note D = direct_bin_request [OF sz]
  have "queue_holds s (h, unat (mi_bin sz)) (Q (unat (mi_bin sz)))"
    using R D(4) by (simp add: heap_repr_def queue_lists_def)
  then have "pq_first (queue_of (h, unat (mi_bin sz)) s) = Some p"
    unfolding head by (simp add: page_list.holds_first)
  then have "mi_heap_get_free_small_page h sz s = Some p"
    using R D by (simp add: mi_heap_get_free_small_page_def heap_repr_def direct_ok_def page_or_empty_def)
  moreover have "pg_free (st_page s p) \<noteq> 0"
    using W by (auto simp: page_wf_def page_lists_def)
  ultimately show ?thesis
    using sz D(1) by (simp add: mi_heap_malloc_def mi_heap_malloc_small_def mi_page_malloc_def)
qed

section \<open>An example\<close>

lemma thread_id_upd [simp]:
  "st_thread_id (page_upd p f s) = st_thread_id s" "st_thread_id (heap_upd h g s) = st_thread_id s"
  "st_thread_id (segment_upd a k s) = st_thread_id s" "st_thread_id (queue_upd q l s) = st_thread_id s"
  "st_thread_id (mi_heap_queue_first_update h q s) = st_thread_id s"
  "st_thread_id (mstate_load env) = 1"
  by (simp_all add: page_upd_def heap_upd_def segment_upd_def queue_upd_def mi_heap_queue_first_update_def Let_def
      mstate_load_def region_state.defs)

lemma thread_id_push [simp]: "st_thread_id (mi_page_queue_push h q p s) = st_thread_id s"
  by (simp add: mi_page_queue_push_def mi_page_set_in_full_def Let_def split: option.split)

definition page_example :: "u64 \<Rightarrow> mstate" where
  "page_example tid = segment_upd 0x20000 (\<lambda>sg. sg\<lparr>sg_thread_id := tid\<rparr>)
     (page_upd (0x20000, 0) (\<lambda>pg. pg\<lparr>pg_xheap := heap_main_ref, pg_xblock_size := 16, pg_capacity := 3,
        pg_reserved := 432, pg_free := 0x20500, pg_used := 2\<rparr>) geometry_example)"

definition malloc_example :: "u64 \<Rightarrow> mstate" where
  "malloc_example tid = mi_page_queue_push heap_main_ref (heap_main_ref, 2) (0x20000, 0) (page_example tid)"

lemma page_example_page:
  "st_page (page_example tid) (0x20000, 0) = mi_page_empty\<lparr>pg_xheap := heap_main_ref, pg_xblock_size := 16,
     pg_capacity := 3, pg_reserved := 432, pg_free := 0x20500, pg_used := 2\<rparr>"
  "st_segment (page_example tid) 0x20000 = (segment_example MI_PAGE_SMALL)\<lparr>sg_thread_id := tid\<rparr>"
  "st_block (page_example tid) b = 0"
  by (simp_all add: page_example_def geometry_example_def store_simps)

lemma page_example_wf:
  "page_wf (0x20000, 0) [0x20500] [] [] (page_example tid)"
  "page_alive (0x20000, 0) [0x20500] [] [] (page_example tid) = {0x20510, 0x20520}"
proof -
  let ?s = "page_example tid" and ?p = "(0x20000, 0) :: page_id"
  have start: "mi_segment_page_start ?p 16 ?s = (0x20500, 6912, 0)"
    by (simp add: mi_segment_page_start_def mi_segment_raw_page_start_def page_example_page segment_example_def
        mi_page_empty_def page_kind_le_medium_iff)
  have ps: "mi_page_start ?p ?s = (0x20500, 6912)" by (simp add: mi_page_start_def page_example_page start)
  have bs: "mi_page_block_size ?p ?s = 16"
    by (simp add: mi_page_block_size_def page_example_page mi_consts)
  have G: "page_geometry ?p ?s"
    by (simp add: page_geometry_def page_in_segment_def page_example_page segment_shape_def segment_example_def
        mi_consts mi_page_empty_def ps bs block_size_fits_def)
  have blocks: "page_block ?p ?s ` {..<3} = {0x20500, 0x20510, 0x20520}"
    by (simp add: page_block_def page_area_def ps bs mi_page_block_at_def lessThan_nat_numeral numeral_3_eq_3 lessThan_Suc insert_commute)
  show "page_wf ?p [0x20500] [] [] ?s"
    using G by (simp add: page_wf_def page_lists_def page_example_page blocks mi_page_empty_def mi_page_thread_free_def)
  show "page_alive ?p [0x20500] [] [] ?s = {0x20510, 0x20520}"
    by (simp add: page_alive_def page_example_page blocks mi_page_empty_def)
qed

lemma malloc_example_repr:
  "heap_repr heap_main_ref ((\<lambda>_. [])(2 := [(0x20000, 0)])) (malloc_example tid)"
  "page_wf (0x20000, 0) [0x20500] [] [] (malloc_example tid)"
  "page_alive (0x20000, 0) [0x20500] [] [] (malloc_example tid) = {0x20510, 0x20520}"
  "page_core (st_page (malloc_example tid) (0x20000, 0)) = page_core (st_page (page_example tid) (0x20000, 0))"
  "st_segment (malloc_example tid) 0x20000 = (segment_example MI_PAGE_SMALL)\<lparr>sg_thread_id := tid\<rparr>"
proof -
  have "queue_holds (page_example tid) q [] = queue_holds (mstate_load os_env_once) q []" for q
    by (simp add: page_list.holds_def page_example_def geometry_example_def store_simps)
  then have "heap_repr heap_main_ref (\<lambda>_. []) (page_example tid)"
    using heap_repr_load [of os_env_once]
    by (simp add: heap_repr_def queue_lists_def queue_pages_ok_def queue_sizes_ok_def direct_ok_def
        page_example_def geometry_example_def store_simps)
  then show "heap_repr heap_main_ref ((\<lambda>_. [])(2 := [(0x20000, 0)])) (malloc_example tid)"
    using heap_repr_push [of heap_main_ref "\<lambda>_. []" "page_example tid" "(0x20000, 0)" 2]
    by (simp add: malloc_example_def page_example_page mi_page_heap_def in_queues_def)
  show core: "page_core (st_page (malloc_example tid) (0x20000, 0)) = page_core (st_page (page_example tid) (0x20000, 0))"
    unfolding malloc_example_def by (rule queue_push_core(1))
  have same: "st_block (malloc_example tid) = st_block (page_example tid)"
    "st_segment (malloc_example tid) = st_segment (page_example tid)"
    by (simp_all add: malloc_example_def queue_frame)
  show "page_wf (0x20000, 0) [0x20500] [] [] (malloc_example tid)"
    "page_alive (0x20000, 0) [0x20500] [] [] (malloc_example tid) = {0x20510, 0x20520}"
    using page_example_wf page_wf_core [OF core same] by simp_all
  show "st_segment (malloc_example tid) 0x20000 = (segment_example MI_PAGE_SMALL)\<lparr>sg_thread_id := tid\<rparr>"
    by (simp add: same page_example_page)
qed

lemma heap_main_ref_nonzero: "heap_main_ref \<noteq> 0"
  by (simp add: heap_main_ref_def)

lemma malloc_example_page:
  "\<not> pg_has_aligned (st_page (malloc_example tid) (0x20000, 0))"
  "\<not> pg_in_full (st_page (malloc_example tid) (0x20000, 0))"
  "mi_page_heap (0x20000, 0) (malloc_example tid) = heap_main_ref"
  "mi_page_thread_free_flag (st_page (malloc_example tid) (0x20000, 0)) = MI_USE_DELAYED_FREE"
  "pg_used (st_page (malloc_example tid) (0x20000, 0)) = 2"
  "st_thread_id (malloc_example tid) = 1"
  "hp_thread_delayed_free (st_heap (malloc_example tid) heap_main_ref) = 0"
proof -
  note E = malloc_example_repr [of tid] and C = page_core_fields [OF malloc_example_repr(4) [of tid]]
  have "pg_has_aligned (st_page (malloc_example tid) (0x20000, 0)) = pg_has_aligned (st_page (page_example tid) (0x20000, 0))"
    using E(4) by (cases "st_page (malloc_example tid) (0x20000, 0)"; cases "st_page (page_example tid) (0x20000, 0)"; simp add: page_core_def)
  then show "\<not> pg_has_aligned (st_page (malloc_example tid) (0x20000, 0))"
    by (simp add: page_example_page mi_page_empty_def)
  have "page_bin (st_page (malloc_example tid) (0x20000, 0)) = 2" using E(1) by (auto simp: heap_repr_def queue_pages_ok_def)
  then show "\<not> pg_in_full (st_page (malloc_example tid) (0x20000, 0))" by (auto simp: page_bin_def mi_consts split: if_splits)
  show "mi_page_heap (0x20000, 0) (malloc_example tid) = heap_main_ref" "pg_used (st_page (malloc_example tid) (0x20000, 0)) = 2"
    "mi_page_thread_free_flag (st_page (malloc_example tid) (0x20000, 0)) = MI_USE_DELAYED_FREE"
    using C by (simp_all add: mi_page_heap_def mi_page_thread_free_flag_def page_example_page mi_page_empty_def mi_tf_delayed_def)
  show "st_thread_id (malloc_example tid) = 1"
    by (simp add: malloc_example_def page_example_def geometry_example_def)
  have "heap_core (st_heap (malloc_example tid) heap_main_ref) = heap_core (st_heap (page_example tid) heap_main_ref)"
    by (simp add: malloc_example_def queue_frame)
  then have "hp_thread_delayed_free (st_heap (malloc_example tid) heap_main_ref) =
      hp_thread_delayed_free (st_heap (page_example tid) heap_main_ref)"
    by (cases "st_heap (malloc_example tid) heap_main_ref"; cases "st_heap (page_example tid) heap_main_ref";
        simp add: heap_core_def)
  then show "hp_thread_delayed_free (st_heap (malloc_example tid) heap_main_ref) = 0"
    by (simp add: page_example_def geometry_example_def store_simps heap_main_init_def mi_heap_empty_def)
qed

section \<open>Properties\<close>

lemma page_blocks_disjoint:
  assumes G: "page_geometry p s" and "c \<le> unat (pg_reserved (st_page s p))"
    and "x \<in> page_block p s ` {..<c}" "y \<in> page_block p s ` {..<c}" "x \<noteq> y"
  shows "unat x + unat (mi_page_block_size p s) \<le> unat y \<or> unat y + unat (mi_page_block_size p s) \<le> unat x"
proof -
  obtain i j where ij: "i < c" "j < c" "x = page_block p s i" "y = page_block p s j"
    using assms(3,4) by blast
  then have "i < j \<or> j < i" using assms(5) by (metis nat_neq_iff)
  then show ?thesis
    using page_block_apart [OF G, of i j] page_block_apart [OF G, of j i] ij(1,2) assms(2)
    unfolding ij(3,4) by linarith
qed

text \<open>
  A small request of a heap whose queue for the size class starts with a page that has a free
  block: \<open>mi_heap_malloc\<close> returns the first free block, which the program did not hold before, which
  overlaps none of the blocks it holds, and which is at least as large as the request. The page then
  has one more block in use and the queues of the heap are as before.
\<close>

theorem mi_malloc_small_correct:
  assumes "heap_repr h Q s" and "sz \<le> MI_SMALL_SIZE_MAX" and "Q (unat (mi_bin sz)) = p # ps"
    and "page_wf p (b # F) L T s" and "mi_page_block_size p s = mi_bin_size (mi_bin sz)"
  shows "\<exists>s'. mi_heap_malloc h sz s = Some (b, s') \<and> heap_repr h Q s' \<and> page_wf p F L T s' \<and>
    b \<noteq> 0 \<and> b \<notin> page_alive p (b # F) L T s \<and>
    page_alive p F L T s' = insert b (page_alive p (b # F) L T s) \<and> sz \<le> mi_page_block_size p s' \<and>
    (\<forall>x \<in> page_alive p (b # F) L T s. unat b + unat (mi_page_block_size p s) \<le> unat x \<or>
       unat x + unat (mi_page_block_size p s) \<le> unat b)"
proof -
  obtain s' where P: "page_pop p s = (b, s')" "page_wf p F L T s'" "list_frame p {} s s'"
    "b \<notin> page_alive p (b # F) L T s" "page_alive p F L T s' = insert b (page_alive p (b # F) L T s)"
    by (rule page_pop_wf [OF assms(4)])
  have G: "page_geometry p s" using assms(4) by (simp add: page_wf_def)
  have c: "unat (pg_capacity (st_page s p)) \<le> unat (pg_reserved (st_page s p))"
    and b: "b \<in> page_block p s ` {..<unat (pg_capacity (st_page s p))}" "b \<noteq> 0"
    using assms(4) by (simp_all add: page_wf_def page_lists_def word_le_nat_alt)
  have "unat b + unat (mi_page_block_size p s) \<le> unat x \<or> unat x + unat (mi_page_block_size p s) \<le> unat b"
    if "x \<in> page_alive p (b # F) L T s" for x
  proof (rule page_blocks_disjoint [OF G c b(1)])
    show "x \<in> page_block p s ` {..<unat (pg_capacity (st_page s p))}" "b \<noteq> x"
      using that P(4) by (auto simp: page_alive_def)
  qed
  moreover have "heap_repr h Q s'" using assms(1) heap_repr_list_frame [OF P(3)] by simp
  moreover have "sz \<le> mi_page_block_size p s'"
    using direct_bin_request(3) [OF assms(2)] assms(5) page_wf_frame(3) [OF G P(3)] by simp
  ultimately show ?thesis
    using malloc_small_hit [OF assms(1-4)] P b(2) by simp
qed

lemma mi_malloc_small_correct_witness:
  "\<exists>s'. mi_heap_malloc heap_main_ref 16 (malloc_example 1) = Some (0x20500, s') \<and>
     page_alive (0x20000, 0) [] [] [] s' = {0x20500, 0x20510, 0x20520}"
proof -
  let ?s = "malloc_example 1"
  note E = malloc_example_repr [of 1]
  have "mi_page_block_size (0x20000, 0) ?s = mi_bin_size (mi_bin 16)"
    using page_core_fields(2) [OF E(4)]
    by (simp add: mi_page_block_size_def page_example_page mi_bin_size_def mi_bin_wsizes_def mi_consts)
  then show ?thesis
    using mi_malloc_small_correct [OF E(1) _ _ E(2), of 16] E(3) by (auto simp: mi_consts)
qed

text \<open>
  C7. Freeing a block by a thread that does not own its segment: with delayed freeing off, the block is
  pushed on the list of the page that other threads share and is the only one taken from those in use;
  with it on, the block goes in front of the delayed list of the heap, the flag ends at
  \<open>MI_NO_DELAYED_FREE\<close>, and for the page the block is still in use.
\<close>

theorem mi_free_remote_correct:
  assumes "page_wf p F L T s" and "sg_page_kind (st_segment s (fst p)) \<noteq> MI_PAGE_HUGE"
    and "x \<in> page_alive p F L T s" and "points_to p q x s" and "x AND 3 = 0"
    and "sg_thread_id (st_segment s (fst p)) \<noteq> st_thread_id s" and "mi_page_heap p s = h" and "h \<noteq> 0"
  shows "\<exists>s'. mi_free q s = Some s' \<and>
    (if mi_page_thread_free_flag (st_page s p) \<noteq> MI_USE_DELAYED_FREE
     then page_wf p F L (x # T) s' \<and> page_alive p F L (x # T) s' = page_alive p F L T s - {x} \<and>
       mi_page_thread_free_flag (st_page s' p) = mi_page_thread_free_flag (st_page s p) \<and> st_heap s' = st_heap s
     else page_wf p F L T s' \<and> page_alive p F L T s' = page_alive p F L T s \<and>
       mi_page_thread_free_flag (st_page s' p) = MI_NO_DELAYED_FREE \<and>
       hp_thread_delayed_free (st_heap s' h) = x \<and> mi_block_next x s' = hp_thread_delayed_free (st_heap s h))"
  using mi_free_remote_run [OF assms] by blast

lemma mi_free_remote_correct_witness:
  "\<exists>s'. mi_free 0x20510 (malloc_example 2) = Some s' \<and> mi_block_next 0x20510 s' = 0 \<and>
     hp_thread_delayed_free (st_heap s' heap_main_ref) = 0x20510"
  using mi_free_remote_correct [OF malloc_example_repr(2) [of 2], of "0x20510" "0x20510" heap_main_ref]
    malloc_example_repr(3,5) [of 2] heap_main_ref_nonzero
  by (auto simp: malloc_example_page points_to_def segment_example_def)

end
