(* ===== verification/HeapQuery.thy ===== *)
theory HeapQuery
  imports MallocFree
begin

text \<open>
  Visiting a heap: the pages visited are the pages of the abstract heap, each once and in the order
  of its queues; what follows for the owner of an address; and which blocks of a page the block
  visitor is called on, with the map of free blocks cleared and as the source has it.
\<close>

section \<open>Visitors that only look\<close>

text \<open>A visitor that leaves the state alone: what it returns and what it does to its argument.\<close>

fun scan :: "('a \<Rightarrow> 'v \<Rightarrow> bool) \<Rightarrow> ('a \<Rightarrow> 'v \<Rightarrow> 'v) \<Rightarrow> 'a list \<Rightarrow> 'v \<Rightarrow> bool \<times> 'v" where
  "scan g f [] v = (True, v)"
| "scan g f (x # xs) v = (if g x v then scan g f xs (f x v) else (False, f x v))"

lemma scan_append:
  "scan g f (xs @ ys) v = (let (b, w) = scan g f xs v in if b then scan g f ys w else (False, w))"
  by (induction xs arbitrary: v) auto

lemma scan_all: "(\<And>x v. x \<in> set xs \<Longrightarrow> g x v) \<Longrightarrow> scan g f xs v = (True, fold f xs v)"
  by (induction xs arbitrary: v) auto

text \<open>The search for a page with some property keeps the last answer.\<close>

lemma scan_find:
  "scan (\<lambda>x v. \<not> P x) (\<lambda>x v. P x) xs v =
     (\<not> (\<exists>x \<in> set xs. P x), if xs = [] then v else (\<exists>x \<in> set xs. P x))"
  by (induction xs arbitrary: v) auto

definition heap_pages :: "addr \<Rightarrow> (nat \<Rightarrow> page_id list) \<Rightarrow> nat list \<Rightarrow> (queue_id \<times> page_id) list" where
  "heap_pages h Q is = concat (map (\<lambda>i. map (Pair (h, i)) (Q i)) is)"

lemma visit_queue_scan:
  assumes fn: "\<And>q p v. fn q p v s = Some (g (q, p) v, f (q, p) v, s)"
    and L: "links (page_nxt s) (page_prv s) a ps None"
  shows "visit_queue fn q (first_or ps None) v s =
    (let (b, w) = scan g f (map (Pair q) ps) v in Some (b, w, s))"
  using L
proof (induction ps arbitrary: a v)
  case Nil
  then show ?case by (simp add: visit_queue.simps)
next
  case (Cons p ps)
  then have "pg_next (st_page s p) = first_or ps None" "links (page_nxt s) (page_prv s) (Some p) ps None" by simp_all
  with Cons.IH show ?case by (subst visit_queue.simps) (simp add: fn)
qed

lemma visit_queues_scan:
  assumes fn: "\<And>q p v. fn q p v s = Some (g (q, p) v, f (q, p) v, s)"
    and R: "heap_repr h Q s" and "\<forall>i \<in> set is. i \<le> 74"
  shows "visit_queues fn h is v s = (let (b, w) = scan g f (heap_pages h Q is) v in Some (b, w, s))"
  using assms(3)
proof (induction "is" arbitrary: v)
  case Nil
  then show ?case by (simp add: heap_pages_def)
next
  case (Cons i "is")
  have "queue_holds s (h, i) (Q i)" using R Cons.prems by (simp add: heap_repr_def queue_lists_def)
  then have D: "pq_first (queue_of (h, i) s) = first_or (Q i) None" "links (page_nxt s) (page_prv s) None (Q i) None"
    by (simp_all add: page_list.holds_def dlist_def)
  note Q = visit_queue_scan [where fn = fn and g = g and f = f, OF fn D(2), of "(h, i)" v, folded D(1)]
  show ?case
    using Cons by (simp add: Q heap_pages_def scan_append Let_def split: prod.split)
qed

lemma heap_pages_set:
  "y \<in> set (heap_pages h Q [0..<75]) \<longleftrightarrow> (\<exists>i \<le> 74. \<exists>p \<in> set (Q i). y = ((h, i), p))"
proof -
  have "{0..<75} = {..74 :: nat}" by auto
  then have "set (heap_pages h Q [0..<75]) = (\<Union>i \<in> {..74}. Pair (h, i) ` set (Q i))"
    by (simp add: heap_pages_def)
  then show ?thesis by (simp only: UN_iff image_iff atMost_iff Bex_def)
qed

lemma heap_pages_length: "length (heap_pages h Q [0..<75]) = page_total Q"
proof -
  have "length (heap_pages h Q [0..<75]) = (\<Sum>i\<leftarrow>[0..<75]. length (Q i))"
    by (simp add: heap_pages_def length_concat comp_def)
  also have "\<dots> = (\<Sum>i \<in> {..<75}. length (Q i))"
    by (simp add: sum_list_distinct_conv_sum_set lessThan_atLeast0)
  also have "{..<75} = {..74 :: nat}" by auto
  finally show ?thesis by (simp add: page_total_def)
qed

lemma visit_pages_scan:
  assumes fn: "\<And>q p v. fn q p v s = Some (g (q, p) v, f (q, p) v, s)"
    and R: "heap_repr h Q s" and h: "h \<noteq> 0" and small: "page_total Q < 2 ^ 64"
  shows "mi_heap_visit_pages h fn v s =
    (if page_total Q = 0 then Some (False, v, s)
     else let (b, w) = scan g f (heap_pages h Q [0..<75]) v in Some (b, w, s))"
proof -
  have "hp_page_count (st_heap s h) = 0 \<longleftrightarrow> page_total Q = 0"
    using R small by (auto simp: heap_repr_def word_of_nat_eq_0_iff dest: nat_dvd_not_less)
  moreover have "Suc (unat MI_BIN_FULL) = 75" by (simp add: mi_consts)
  ultimately show ?thesis
    using h visit_queues_scan [where fn = fn and g = g and f = f, OF fn R, of "[0..<75]" v] by (simp add: mi_heap_visit_pages_def)
qed

section \<open>The owner of an address\<close>

definition page_covers :: "addr \<Rightarrow> page_id \<Rightarrow> mstate \<Rightarrow> bool" where
  "page_covers x p s \<longleftrightarrow>
     fst (mi_page_start p s) \<le> x \<and>
     x < fst (mi_page_start p s) + ucast (pg_capacity (st_page s p)) * mi_page_block_size p s"

lemma check_owned_run:
  assumes R: "heap_repr h Q s" and h: "h \<noteq> 0" "mi_heap_is_initialized h" and small: "page_total Q < 2 ^ 64"
  shows "mi_heap_check_owned h x s = Some (x AND 7 = 0 \<and> (\<exists>p. in_queues p Q \<and> page_covers x p s))"
proof (cases "x AND 7 = 0")
  case True
  define P where "P = (\<lambda>(q :: queue_id, p). page_covers x p s)"
  have fn: "mi_heap_page_check_owned x q p v s = Some (\<not> P (q, p), P (q, p), s)" for q p v
    by (simp add: mi_heap_page_check_owned_def Let_def P_def page_covers_def)
  have "(\<exists>y \<in> set (heap_pages h Q [0..<75]). P y) \<longleftrightarrow> (\<exists>p. in_queues p Q \<and> page_covers x p s)"
    by (simp add: Bex_def heap_pages_set P_def in_queues_def) blast
  moreover have "page_total Q = 0 \<longleftrightarrow> heap_pages h Q [0..<75] = []"
    by (metis heap_pages_length length_0_conv)
  ultimately show ?thesis
    using True h visit_pages_scan [where fn = "mi_heap_page_check_owned x" and g = "\<lambda>y v. \<not> P y" and f = "\<lambda>y v. P y",
      OF fn R h(1) small, of False]
    by (auto simp: mi_heap_check_owned_def scan_find [where P = P] mi_consts)
next
  case False
  then show ?thesis using h by (simp add: mi_heap_check_owned_def mi_consts)
qed

section \<open>The map of free blocks\<close>

lemma free_map_bit_mod: "free_map_bit i = i mod 8"
  by (simp add: free_map_bit_def free_map_index_def minus_div_mult_eq_mod)

lemma block_index:
  assumes G: "page_geometry p s" and i: "i < unat (pg_reserved (st_page s p))"
  shows "unat ((page_block p s i - page_area p s) div mi_page_block_size p s) = i"
proof -
  have "unat (page_block p s i) = unat (page_area p s) + i * unat (mi_page_block_size p s)"
    using unat_page_block(1) [OF G, of i] i by simp
  then have "unat (page_block p s i - page_area p s) = i * unat (mi_page_block_size p s)"
    by (subst unat_sub_bounded) simp_all
  moreover have "0 < unat (mi_page_block_size p s)" using G by (simp add: page_geometry_def word_less_nat_alt)
  ultimately show ?thesis by (simp add: unat_div_distrib)
qed

text \<open>Filling the map sets the bits of the blocks on the free list and keeps the others.\<close>

lemma free_map_fill_run:
  assumes G: "page_geometry p s" and n: "n \<le> unat (pg_reserved (st_page s p))" "n \<le> 1024"
    and "chain (st_block s) b F" and "set F \<subseteq> page_block p s ` {..<n}"
  shows "\<exists>fm'. free_map_fill (page_area p s) (mi_page_block_size p s) b fm s = Some fm' \<and>
    (\<forall>e k. bit (fm' e) k \<longleftrightarrow> bit (fm e) k \<or> (k < 8 \<and> e * 8 + k < n \<and> page_block p s (e * 8 + k) \<in> set F))"
  using assms(4,5)
proof (induction F arbitrary: b fm)
  case Nil
  then show ?case by (simp add: free_map_fill.simps)
next
  case (Cons x F)
  obtain j where j: "j < n" "x = page_block p s j" using Cons.prems(2) by auto
  have bs: "mi_page_block_size p s \<noteq> 0" using G by (auto simp: page_geometry_def)
  have b: "b = x" "x \<noteq> 0" and ch: "chain (st_block s) (st_block s x) F" using Cons.prems(1) by simp_all
  have idx: "unat ((x - page_area p s) div mi_page_block_size p s) = j"
    using block_index [OF G] j n(1) by simp
  have lt: "j div 8 < 128" using j(1) n(2) by (simp add: less_mult_imp_div_less)
  define fm1 where "fm1 = fm(j div 8 := fm (j div 8) OR push_bit (j mod 8) 1)"
  have step: "free_map_fill (page_area p s) (mi_page_block_size p s) b fm s =
      free_map_fill (page_area p s) (mi_page_block_size p s) (st_block s x) fm1 s"
    using lt b bs
    by (subst free_map_fill.simps)
      (simp add: Let_def idx free_map_bit_mod free_map_index_def MI_MAX_BLOCKS_def mi_block_next_def fm1_def)
  have one: "bit (fm1 e) k \<longleftrightarrow> bit (fm e) k \<or> e * 8 + k = j \<and> k < 8" for e k
  proof -
    have "e = j div 8 \<and> k = j mod 8 \<longleftrightarrow> e * 8 + k = j \<and> k < 8" by auto
    moreover have "bit (push_bit (j mod 8) 1 :: u64) k \<longleftrightarrow> k = j mod 8"
      by (auto simp: bit_push_bit_iff bit_1_iff simp del: push_bit_of_1)
    ultimately show ?thesis by (auto simp: fm1_def bit_or_iff)
  qed
  have inj: "page_block p s i = x \<longleftrightarrow> i = j" if "i < n" for i
    using page_block_inj [OF G, of i j] that j n(1) by simp
  obtain fm' where fm': "free_map_fill (page_area p s) (mi_page_block_size p s) (st_block s x) fm1 s = Some fm'"
    "\<forall>e k. bit (fm' e) k \<longleftrightarrow> bit (fm1 e) k \<or> (k < 8 \<and> e * 8 + k < n \<and> page_block p s (e * 8 + k) \<in> set F)"
    using Cons.IH [OF ch, of fm1] Cons.prems(2) by auto
  show ?case
    using fm' inj j(1) by (intro exI [of _ fm']) (auto simp: step one)
qed

lemma visit_used_blocks_run:
  assumes visitor: "\<And>b v t. visitor h area b bs v t = Some (True, f b v, t)"
    and h: "mi_page_heap p s = h" and n: "unat (pg_capacity (st_page s p)) = n" "n \<le> 1024"
    and fm: "\<And>e k. bit (fm e) k \<longleftrightarrow> k < 8 \<and> e * 8 + k < n \<and> block (e * 8 + k) \<in> set F"
    and block: "\<And>i. block i = start + word_of_nat i * bs"
  shows "visit_used_blocks visitor p area start bs fm i v s =
    Some (True, fold f (filter (\<lambda>b. b \<notin> set F) (map block [i..<n])) v, s)"
proof (induction "n - i" arbitrary: i v)
  case 0
  then show ?case using n by (subst visit_used_blocks.simps) simp
next
  case (Suc m)
  then have i: "i < n" by simp
  have m: "m = n - Suc i" using Suc.hyps(2) by simp
  note IH = Suc.hyps(1) [OF m]
  have "\<not> bit (fm (free_map_index i)) 63" by (simp add: fm)
  moreover have "bit (- 1 :: u64) 63" by simp
  ultimately have m1: "fm (free_map_index i) \<noteq> - 1" by metis
  have e: "i div 8 * 8 + i mod 8 = i" by simp
  have "bit (fm (free_map_index i)) (free_map_bit i) \<longleftrightarrow> block i \<in> set F"
    unfolding fm free_map_bit_mod free_map_index_def e using i by simp
  then have b: "fm (free_map_index i) AND push_bit (free_map_bit i) 1 = 0 \<longleftrightarrow> block i \<notin> set F"
    unfolding bit_iff_and_push_bit_not_eq_0 by blast
  have "free_map_index i < MI_MAX_BLOCKS div 8"
    using i n(2) by (simp add: free_map_index_def MI_MAX_BLOCKS_def less_mult_imp_div_less)
  moreover have "[i..<n] = i # [Suc i..<n]" using i by (rule upt_conv_Cons)
  ultimately show ?case
    using i n(1) m1 b IH
    by (subst visit_used_blocks.simps) (simp add: Let_def visitor h flip: block)
qed

text \<open>A map of ones hides all blocks.\<close>

lemma visit_used_blocks_ones:
  assumes "\<And>e. fm e = - 1" and "unat (pg_capacity (st_page s p)) \<le> 1024" and "i mod 8 = 0"
  shows "visit_used_blocks visitor p area start bs fm i v s = Some (True, v, s)"
  using assms(3)
proof (induction "1024 - i" arbitrary: i rule: less_induct)
  case less
  show ?case
  proof (cases "unat (pg_capacity (st_page s p)) \<le> i")
    case False
    then have "i < 1024" using assms(2) by simp
    then have "free_map_index i < MI_MAX_BLOCKS div 8"
      by (simp add: free_map_index_def MI_MAX_BLOCKS_def less_mult_imp_div_less)
    moreover have "visit_used_blocks visitor p area start bs fm (i + 8) v s = Some (True, v, s)"
      using less \<open>i < 1024\<close> by simp
    ultimately show ?thesis
      using False less.prems assms(1) by (subst visit_used_blocks.simps) (simp add: Let_def free_map_bit_mod)
  qed (subst visit_used_blocks.simps, simp)
qed

lemma free_map_fill_ones:
  assumes "chain (st_block s) b F" and "\<And>e. fm e = - 1"
    and "free_map_fill start bs b fm s = Some fm'"
  shows "fm' e = - 1"
  using assms
proof (induction F arbitrary: b fm)
  case Nil
  then have "fm' = fm" using Nil.prems(3) by (subst (asm) free_map_fill.simps) (simp add: fun_eq_iff)
  then show ?case using Nil.prems(2) by simp
next
  case (Cons x F)
  let ?j = "unat ((b - start) div bs)"
  let ?fm = "fm(free_map_index ?j := fm (free_map_index ?j) OR push_bit (free_map_bit ?j) 1)"
  have step: "free_map_fill start bs (st_block s x) ?fm s = Some fm'"
    using Cons.prems by (subst (asm) free_map_fill.simps) (auto simp: Let_def mi_block_next_def split: if_splits)
  have ones: "?fm d = - 1" for d using Cons.prems(2) by simp
  have "chain (st_block s) (st_block s x) F" using Cons.prems(1) by simp
  then show ?case by (rule Cons.IH [OF _ ones step])
qed

section \<open>The blocks of a page\<close>

lemma area_visit_blocks_run:
  assumes W: "page_wf p F L T s" and cap: "unat (pg_capacity (st_page s p)) \<le> 1024"
    and visitor: "\<And>b v t. visitor (mi_page_heap p s) area b (mi_page_block_size p s) v t = Some (True, f b v, t)"
  shows "\<exists>s' F'. mi_heap_area_visit_blocks (\<lambda>_. 0) p area visitor v s =
      Some (True, fold f (filter (\<lambda>b. b \<in> page_alive p F L T s)
        (map (page_block p s) [0..<unat (pg_capacity (st_page s p))])) v, s') \<and>
    page_wf p F' [] [] s' \<and> page_alive p F' [] [] s' = page_alive p F L T s"
proof -
  obtain F' where C: "collected True F (T @ L) = (F', [])" by (cases F) auto
  obtain s' where c: "mi_page_free_collect p True s = Some s'" "page_wf p F' [] [] s'"
    "page_alive p F' [] [] s' = page_alive p F L T s" "list_frame p (set T \<union> set L) s s'"
    "pg_capacity (st_page s' p) = pg_capacity (st_page s p)"
    using page_wf_collect [OF W C] by blast
  have G: "page_geometry p s" "page_geometry p s'" using W c(2) by (simp_all add: page_wf_def)
  note K = page_wf_frame [OF G(1) c(4)] list_frame_fields [OF c(4)]
  let ?n = "unat (pg_capacity (st_page s p))"
  have n: "?n \<le> unat (pg_reserved (st_page s' p))" "chain (st_block s') (pg_free (st_page s' p)) F'"
    "set F' \<subseteq> page_block p s' ` {..<?n}"
    using c(2,5) by (simp_all add: page_wf_def page_lists_def word_le_nat_alt)
  have heap: "mi_page_heap p s' = mi_page_heap p s" by (simp add: mi_page_heap_def K)
  have alive: "page_alive p F L T s = page_block p s' ` {..<?n} - set F'"
    using c(3,5) by (simp add: page_alive_def)
  have list: "filter (\<lambda>b. b \<in> page_alive p F L T s) (map (page_block p s) [0..<?n]) =
      filter (\<lambda>b. b \<notin> set F') (map (page_block p s') [0..<?n])"
    by (auto simp: alive K(2) intro!: filter_cong)
  have at: "page_block p s' i = page_area p s' + word_of_nat i * mi_page_block_size p s'" for i
    by (simp add: page_block_def mi_page_block_at_def)
  have "mi_heap_area_visit_blocks (\<lambda>_. 0) p area visitor v s =
      Some (True, fold f (filter (\<lambda>b. b \<notin> set F') (map (page_block p s') [0..<?n])) v, s')"
  proof (cases "pg_used (st_page s' p) = 0")
    case True
    then have "page_alive p F' [] [] s' = {}"
      using page_used_card [OF c(2)] page_alive_finite by simp
    then have "filter (\<lambda>b. b \<in> page_alive p F L T s) (map (page_block p s) [0..<?n]) = []"
      using c(3) by simp
    then show ?thesis using True c(1) unfolding list by (simp add: mi_heap_area_visit_blocks_def)
  next
    case False
    note used = False
    show ?thesis
    proof (cases "pg_capacity (st_page s p) = 1")
      case True
      then have "unat (pg_used (st_page s' p)) + length F' = 1"
        using c(2,5) by (simp add: page_wf_def)
      moreover have "0 < unat (pg_used (st_page s' p))" using used by (simp add: unat_gt_0)
      ultimately have "length F' = 0" by linarith
      then have "F' = []" by simp
      then show ?thesis
        using True used c(1,5) visitor heap K(3) at [of 0]
        by (simp add: mi_heap_area_visit_blocks_def page_area_def)
    next
      case False
      obtain fm where fm: "free_map_fill (page_area p s') (mi_page_block_size p s') (pg_free (st_page s' p)) (\<lambda>_. 0) s' = Some fm"
        "\<And>e k. bit (fm e) k \<longleftrightarrow> k < 8 \<and> e * 8 + k < ?n \<and> page_block p s' (e * 8 + k) \<in> set F'"
        using free_map_fill_run [OF G(2) n(1) cap n(2,3), of "\<lambda>_. 0"] by auto
      have "visit_used_blocks visitor p area (page_area p s') (mi_page_block_size p s') fm 0 v s' =
          Some (True, fold f (filter (\<lambda>b. b \<notin> set F') (map (page_block p s') [0..<?n])) v, s')"
        by (rule visit_used_blocks_run [OF _ heap _ cap fm(2) at]) (simp_all add: K(3) visitor c(5))
      then show ?thesis
        using used False c(1,5) fm(1) by (simp add: mi_heap_area_visit_blocks_def Let_def page_area_def)
    qed
  qed
  then show ?thesis using c(2,3) list by metis
qed

lemma area_visit_blocks_ones:
  assumes W: "page_wf p F L T s" and cap: "unat (pg_capacity (st_page s p)) \<le> 1024" "pg_capacity (st_page s p) \<noteq> 1"
  shows "\<exists>s'. mi_heap_area_visit_blocks (\<lambda>_. - 1) p area visitor v s = Some (True, v, s')"
proof -
  obtain F' where C: "collected True F (T @ L) = (F', [])" by (cases F) auto
  obtain s' where c: "mi_page_free_collect p True s = Some s'" "page_wf p F' [] [] s'"
    "pg_capacity (st_page s' p) = pg_capacity (st_page s p)"
    using page_wf_collect [OF W C] by blast
  have G: "page_geometry p s'" and n: "unat (pg_capacity (st_page s p)) \<le> unat (pg_reserved (st_page s' p))"
    "chain (st_block s') (pg_free (st_page s' p)) F'" "set F' \<subseteq> page_block p s' ` {..<unat (pg_capacity (st_page s p))}"
    using c(2,3) by (simp_all add: page_wf_def page_lists_def word_le_nat_alt)
  obtain fm where fm: "free_map_fill (page_area p s') (mi_page_block_size p s') (pg_free (st_page s' p)) (\<lambda>_. - 1) s' = Some fm"
    using free_map_fill_run [OF G n(1) cap(1) n(2,3)] by blast
  have "fm e = - 1" for e by (rule free_map_fill_ones [OF n(2) _ fm]) simp
  then have "visit_used_blocks visitor p area (page_area p s') (mi_page_block_size p s') fm 0 v s' = Some (True, v, s')"
    using cap(1) by (intro visit_used_blocks_ones) (simp_all add: c(3))
  then show ?thesis
    using cap(2) c(1,3) fm by (simp add: mi_heap_area_visit_blocks_def Let_def page_area_def)
qed

section \<open>Properties\<close>

text \<open>
  C28. \<open>mi_heap_check_owned\<close> answers true exactly when the address is word aligned and lies in the used
  part of the area of some page in a queue of the heap.
\<close>

theorem mi_heap_check_owned_correct:
  assumes "heap_repr h Q s" and "h \<noteq> 0" and "mi_heap_is_initialized h" and "page_total Q < 2 ^ 64"
  shows "mi_heap_check_owned h x s = Some (x AND 7 = 0 \<and> (\<exists>p. in_queues p Q \<and> page_covers x p s))"
  using assms by (rule check_owned_run)

lemma mi_heap_check_owned_correct_witness:
  "mi_heap_check_owned heap_main_ref 0x20508 (malloc_example 1) =
     Some (page_covers 0x20508 (0x20000, 0) (malloc_example 1))"
proof -
  have "page_total ((\<lambda>_. [])(2 := [(0x20000, 0)])) = 1"
    using page_total_upd [of 2 "\<lambda>_. []" "[(0x20000, 0)]"] by (simp add: page_total_def)
  then have small: "page_total ((\<lambda>_. [])(2 := [(0x20000, 0)])) < 2 ^ 64" by simp
  have "mi_heap_is_initialized heap_main_ref"
    by (simp add: mi_heap_is_initialized_def heap_main_ref_def heap_empty_ref_def)
  from mi_heap_check_owned_correct [OF malloc_example_repr(1) heap_main_ref_nonzero this small]
  show ?thesis by (simp add: in_queues_def)
qed

text \<open>
  C35. With the map of free blocks cleared, as the source means it to be, visiting the blocks of a page
  calls the visitor on exactly the blocks in use, in the order of their addresses, and collects the
  free lists on the way.
\<close>

theorem mi_heap_area_visit_blocks_alive:
  assumes "page_wf p F L T s" and "unat (pg_capacity (st_page s p)) \<le> 1024"
    and "\<And>b v t. visitor (mi_page_heap p s) area b (mi_page_block_size p s) v t = Some (True, f b v, t)"
  shows "\<exists>s' F'. mi_heap_area_visit_blocks (\<lambda>_. 0) p area visitor v s =
      Some (True, fold f (filter (\<lambda>b. b \<in> page_alive p F L T s)
        (map (page_block p s) [0..<unat (pg_capacity (st_page s p))])) v, s') \<and>
    page_wf p F' [] [] s' \<and> page_alive p F' [] [] s' = page_alive p F L T s"
  using assms by (rule area_visit_blocks_run)

definition log_block :: "addr list block_visitor" where
  "log_block h area b sz v s = Some (True, v @ [b], s)"

definition area_example :: heap_area where
  "area_example = page_heap_area (0x20000, 0) (malloc_example 1)"

lemma malloc_example_capacity: "pg_capacity (st_page (malloc_example tid) (0x20000, 0)) = 3"
  using page_core_fields(6) [OF malloc_example_repr(4) [of tid]] by (simp add: page_example_page)

lemma mi_heap_area_visit_blocks_alive_witness:
  "\<exists>bs s'. mi_heap_area_visit_blocks (\<lambda>_. 0) (0x20000, 0) area_example log_block []
     (malloc_example 1) = Some (True, bs, s') \<and> set bs = {0x20510, 0x20520}"
proof -
  let ?s = "malloc_example 1" and ?p = "(0x20000, 0) :: page_id"
  obtain s' where s': "mi_heap_area_visit_blocks (\<lambda>_. 0) ?p area_example log_block [] ?s =
      Some (True, fold (\<lambda>b v. v @ [b]) (filter (\<lambda>b. b \<in> page_alive ?p [0x20500] [] [] ?s) (map (page_block ?p ?s) [0..<3])) [], s')"
    using mi_heap_area_visit_blocks_alive [OF malloc_example_repr(2) [of 1],
        of log_block area_example "\<lambda>b v. v @ [b]" "[]"]
    by (auto simp: malloc_example_capacity log_block_def)
  have fold: "fold (\<lambda>b v. v @ [b]) xs ys = ys @ xs" for xs ys :: "addr list"
    by (induction xs arbitrary: ys) auto
  have "{0x20510, 0x20520} \<subseteq> page_block ?p ?s ` {..<3}"
    using malloc_example_repr(3) [of 1] by (auto simp: page_alive_def malloc_example_capacity)
  then have "set (filter (\<lambda>b. b \<in> page_alive ?p [0x20500] [] [] ?s) (map (page_block ?p ?s) [0..<3])) = {0x20510, 0x20520}"
    by (auto simp: malloc_example_repr(3) lessThan_atLeast0)
  then show ?thesis using s' by (auto simp: fold)
qed

text \<open>
  The clearing of the map is commented out in the source. When the stack happens to hold ones, the
  visit of a page with more than one block calls the visitor on no block at all, however many are
  in use.
\<close>

theorem mi_heap_area_visit_blocks_uncleared:
  assumes "page_wf p F L T s" and "unat (pg_capacity (st_page s p)) \<le> 1024" and "pg_capacity (st_page s p) \<noteq> 1"
  shows "\<exists>s'. mi_heap_area_visit_blocks (\<lambda>_. - 1) p area visitor v s = Some (True, v, s')"
  using assms by (rule area_visit_blocks_ones)

lemma mi_heap_area_visit_blocks_uncleared_witness:
  "\<exists>s'. mi_heap_area_visit_blocks (\<lambda>_. - 1) (0x20000, 0) area_example log_block [] (malloc_example 1) = Some (True, [], s') \<and>
     page_alive (0x20000, 0) [0x20500] [] [] (malloc_example 1) \<noteq> {}"
  using mi_heap_area_visit_blocks_uncleared [OF malloc_example_repr(2) [of 1], where area = area_example and visitor = log_block and v = "[]"]
  by (simp add: malloc_example_capacity malloc_example_repr(3))

end
