(* ===== verification/SegmentQueues.thy ===== *)
theory SegmentQueues
  imports Abandoned
begin

text \<open>
  What the queues, the cache and the abandoned stack of the segments promise. The queues of segments
  with free pages and the queue of pages to reset are intrusive lists as in \<open>DList\<close>; the cache and
  the abandoned segments are stacks.
\<close>

section \<open>The store and the OS layer\<close>

lemma os_kept_store:
  assumes "os_kept s' = os_kept (s :: mstate)"
  shows "st_page s' = st_page s" "st_block s' = st_block s" "st_segment s' = st_segment s"
    "st_heap s' = st_heap s" "st_tld s' = st_tld s" "st_abandoned s' = st_abandoned s"
    "st_abandoned_visited s' = st_abandoned_visited s" "st_thread_id s' = st_thread_id s"
proof -
  have "os_state.more s' = os_state.more s" using assms by (simp add: os_kept_eq_iff)
  then show "st_page s' = st_page s" "st_block s' = st_block s" "st_segment s' = st_segment s"
    "st_heap s' = st_heap s" "st_tld s' = st_tld s" "st_abandoned s' = st_abandoned s"
    "st_abandoned_visited s' = st_abandoned_visited s" "st_thread_id s' = st_thread_id s"
    by (cases s; cases s'; simp)+
qed

lemma tld_stats_store [simp]:
  "st_page (tld_stats t f s) = st_page s" "st_segment (tld_stats t f s) = st_segment s"
  "st_tld (tld_stats t f s) = st_tld s" "st_heap (tld_stats t f s) = st_heap s"
  "st_block (tld_stats t f s) = st_block (s :: mstate)"
  using os_kept_store [OF stats_apply_os_frame [of "TldStats t" f s]] by simp_all

section \<open>Queues of segments with free pages\<close>

abbreviation seg_nxt :: "mstate \<Rightarrow> addr \<Rightarrow> addr option" where "seg_nxt s a \<equiv> sg_next (st_segment s a)"
abbreviation seg_prv :: "mstate \<Rightarrow> addr \<Rightarrow> addr option" where "seg_prv s a \<equiv> sg_prev (st_segment s a)"
abbreviation seg_first :: "mstate \<Rightarrow> segment_queue_id \<Rightarrow> addr option" where
  "seg_first s q \<equiv> sq_first (segment_queue_of q s)"
abbreviation seg_last :: "mstate \<Rightarrow> segment_queue_id \<Rightarrow> addr option" where
  "seg_last s q \<equiv> sq_last (segment_queue_of q s)"

interpretation segment_list: dlist_store seg_nxt seg_prv seg_first seg_last .

abbreviation segments_hold :: "mstate \<Rightarrow> segment_queue_id \<Rightarrow> addr list \<Rightarrow> bool" where
  "segments_hold \<equiv> dlist_store.holds seg_nxt seg_prv seg_first seg_last"

lemma segment_queue_upd_simps [store_simps]:
  "segment_queue_of r (segment_queue_upd q f s) = (if r = q then f (segment_queue_of q s) else segment_queue_of r s)"
  "st_segment (segment_queue_upd q f s) = st_segment s" "st_page (segment_queue_upd q f s) = st_page s"
  by (cases q; cases r; simp add: store_simps)+

lemma segment_queue_frame [store_simps]:
  "segment_queue_of q (segment_upd a g s) = segment_queue_of q s"
  "segment_queue_of q (segment_upd_opt b g s) = segment_queue_of q s"
  by (cases q; simp add: store_simps)+

interpretation segment_enqueue: dlist_snoc seg_nxt seg_prv seg_first seg_last mi_segment_enqueue
  by unfold_locales (auto simp: mi_segment_enqueue_def Let_def store_simps split: option.splits)

interpretation segment_remove: dlist_remove seg_nxt seg_prv seg_first seg_last mi_segment_queue_remove
  by unfold_locales (auto simp: mi_segment_queue_remove_def Let_def store_simps)

definition free_queues :: "addr \<Rightarrow> (segment_queue_id \<Rightarrow> addr list) \<Rightarrow> mstate \<Rightarrow> bool" where
  "free_queues tld X s \<longleftrightarrow> segments_hold s (SmallFree tld) (X (SmallFree tld)) \<and>
     segments_hold s (MediumFree tld) (X (MediumFree tld)) \<and>
     set (X (SmallFree tld)) \<inter> set (X (MediumFree tld)) = {}"

lemma free_queue_cases:
  assumes "mi_segment_free_queue a tld s = Some q"
  obtains r where "q \<noteq> r" "{q, r} = {SmallFree tld, MediumFree tld}"
  using assms by (cases "sg_page_kind (st_segment s a)") (auto simp: mi_segment_free_queue_def)

lemma free_queues_alt:
  assumes "{q, r} = {SmallFree tld, MediumFree tld}"
  shows "free_queues tld X s \<longleftrightarrow> segments_hold s q (X q) \<and> segments_hold s r (X r) \<and> set (X q) \<inter> set (X r) = {}"
  using assms by (auto simp: free_queues_def doubleton_eq_iff)

lemma insert_in_free_queue_run:
  assumes Q: "mi_segment_free_queue a tld s = Some q" and F: "free_queues tld X s"
    and new: "a \<notin> set (X (SmallFree tld)) \<union> set (X (MediumFree tld))"
  shows "\<exists>s'. mi_segment_insert_in_free_queue a tld s = Some s' \<and> free_queues tld (X(q := X q @ [a])) s'"
proof -
  obtain r where r: "q \<noteq> r" "{q, r} = {SmallFree tld, MediumFree tld}" by (rule free_queue_cases [OF Q])
  note F' = F [unfolded free_queues_alt [OF r(2)]]
  have n: "a \<notin> set (X q)" "a \<notin> set (X r)" using new r(2) by (auto simp: doubleton_eq_iff)
  have "segments_hold (mi_segment_enqueue q a s) q (X q @ [a])"
    using segment_enqueue.snoc_holds F' n(1) by blast
  moreover have "segments_hold (mi_segment_enqueue q a s) r (X r)"
    using segment_enqueue.snoc_holds_other [of s q "X q" r "X r" a] F' n r(1) by blast
  ultimately show ?thesis
    using Q F' n r(1) by (simp add: mi_segment_insert_in_free_queue_def free_queues_alt [OF r(2)])
qed

lemma remove_from_free_queue_run:
  assumes Q: "mi_segment_free_queue a tld s = Some q" and F: "free_queues tld X s"
    and absent: "a \<notin> set (X q) \<Longrightarrow> sg_next (st_segment s a) = None \<and> sg_prev (st_segment s a) = None"
  shows "free_queues tld (X(q := remove1 a (X q))) (mi_segment_remove_from_free_queue a tld s)"
proof -
  obtain r where r: "q \<noteq> r" "{q, r} = {SmallFree tld, MediumFree tld}" by (rule free_queue_cases [OF Q])
  note F' = F [unfolded free_queues_alt [OF r(2)]]
  show ?thesis
  proof (cases "a \<in> set (X q)")
    case True
    have "sg_next (st_segment s a) \<noteq> None \<or> sg_prev (st_segment s a) \<noteq> None \<or> seg_first s q = Some a"
    proof -
      obtain as bs where xs: "X q = as @ a # bs" using split_list [OF True] by blast
      then have "sg_prev (st_segment s a) = last_or None as" "seg_first s q = first_or (X q) None"
        using F' by (simp_all add: segment_list.holds_def dlist_def xs)
      then show ?thesis by (cases as rule: rev_cases) (simp_all add: xs)
    qed
    then have run: "mi_segment_remove_from_free_queue a tld s = mi_segment_queue_remove q a s"
      using Q by (simp add: mi_segment_remove_from_free_queue_def)
    have "segments_hold (mi_segment_queue_remove q a s) q (remove1 a (X q))"
      using segment_remove.remove_holds F' True by blast
    moreover have "segments_hold (mi_segment_queue_remove q a s) r (X r)"
      using segment_remove.remove_holds_other [of s q "X q" r "X r" a] F' True r(1) by blast
    ultimately show ?thesis
      using F' r(1) set_remove1_subset [of a "X q"] by (auto simp: run free_queues_alt [OF r(2)])
  next
    case False
    have "seg_first s q \<noteq> Some a"
      using segment_list.holds_first F' False by (cases "X q") (auto simp: segment_list.holds_def dlist_def)
    then have "mi_segment_remove_from_free_queue a tld s = s"
      using Q absent [OF False] by (simp add: mi_segment_remove_from_free_queue_def)
    moreover have "X(q := remove1 a (X q)) = X" using False by (simp add: remove1_idem)
    ultimately show ?thesis using F by simp
  qed
qed

section \<open>The queue of pages to reset\<close>

abbreviation reset_first :: "mstate \<Rightarrow> addr \<Rightarrow> page_id option" where
  "reset_first s tld \<equiv> pq_first (tl_pages_reset (st_tld s tld))"
abbreviation reset_last :: "mstate \<Rightarrow> addr \<Rightarrow> page_id option" where
  "reset_last s tld \<equiv> pq_last (tl_pages_reset (st_tld s tld))"
abbreviation pg_nxt :: "mstate \<Rightarrow> page_id \<Rightarrow> page_id option" where "pg_nxt s p \<equiv> pg_next (st_page s p)"
abbreviation pg_prv :: "mstate \<Rightarrow> page_id \<Rightarrow> page_id option" where "pg_prv s p \<equiv> pg_prev (st_page s p)"

interpretation reset_list: dlist_store pg_nxt pg_prv reset_first reset_last .

abbreviation reset_holds :: "mstate \<Rightarrow> addr \<Rightarrow> page_id list \<Rightarrow> bool" where
  "reset_holds \<equiv> dlist_store.holds pg_nxt pg_prv reset_first reset_last"

lemma reset_queue_upd_simps [store_simps]:
  "tl_pages_reset (st_tld (reset_queue_upd t f s) u) =
     (if u = t then f (tl_pages_reset (st_tld s t)) else tl_pages_reset (st_tld s u))"
  "st_page (reset_queue_upd t f s) = st_page s" "st_segment (reset_queue_upd t f s) = st_segment s"
  by (simp_all add: reset_queue_upd_def store_simps)

interpretation reset_push: dlist_push pg_nxt pg_prv reset_first reset_last pages_reset_push
  by unfold_locales (auto simp: pages_reset_push_def Let_def store_simps split: option.splits)

interpretation reset_unlink: dlist_remove pg_nxt pg_prv reset_first reset_last pages_reset_unlink
  by unfold_locales (auto simp: pages_reset_unlink_def Let_def store_simps)

lemma not_in_queue_iff:
  assumes H: "reset_holds s tld xs"
    and absent: "p \<notin> set xs \<Longrightarrow> pg_next (st_page s p) = None \<and> pg_prev (st_page s p) = None"
  shows "mi_page_not_in_queue p tld s \<longleftrightarrow> p \<notin> set xs"
proof (cases "p \<in> set xs")
  case True
  obtain as bs where xs: "xs = as @ p # bs" using split_list [OF True] by blast
  then have "pg_prev (st_page s p) = last_or None as" "reset_first s tld = first_or xs None"
    using H by (simp_all add: reset_list.holds_def dlist_def xs)
  then show ?thesis
    using True by (cases as rule: rev_cases) (simp_all add: xs mi_page_not_in_queue_def)
next
  case False
  have "reset_first s tld = first_or xs None" "reset_last s tld = last_or None xs"
    using H by (simp_all add: reset_list.holds_def dlist_def)
  then have "reset_first s tld \<noteq> Some p" "reset_last s tld \<noteq> Some p"
    using False by (auto simp: first_or_def last_or_def split: if_splits)
  then show ?thesis using False absent by (simp add: mi_page_not_in_queue_def)
qed

lemma pages_reset_remove_run:
  assumes H: "reset_holds s tld xs"
    and absent: "p \<notin> set xs \<Longrightarrow> pg_next (st_page s p) = None \<and> pg_prev (st_page s p) = None"
  shows "reset_holds (mi_pages_reset_remove p tld s) tld (remove1 p xs)"
  using not_in_queue_iff [OF assms] reset_unlink.remove_holds [OF H, of p] H
  by (auto simp: mi_pages_reset_remove_def remove1_idem)

section \<open>Abandoned segments\<close>




lemma segment_upd_abandoned [simp]:
  "st_abandoned (segment_upd a f s) = st_abandoned s"
  "st_abandoned_visited (segment_upd a f s) = st_abandoned_visited s"
  by (simp_all add: segment_upd_def)







section \<open>The segment cache\<close>

lemma cache_push_pop_run:
  assumes "mi_segment_cache_push a tld s = Some (True, s')" and "sz = 0 \<or> sz = MI_SEGMENT_SIZE"
  shows "\<exists>s''. mi_segment_cache_pop sz tld s' = (Some a, s'') \<and>
    tl_cache (st_tld s'' tld) = tl_cache (st_tld s tld) \<and>
    tl_cache_count (st_tld s'' tld) = tl_cache_count (st_tld s tld) \<and>
    st_segment s'' = (st_segment s)(a := (st_segment s a)\<lparr>sg_next := None\<rparr>)"
proof -
  obtain full s1 where f: "mi_segment_cache_full tld s = Some (full, s1)" "\<not> full"
    and size: "sg_segment_size (st_segment s a) = MI_SEGMENT_SIZE"
    and s': "s' = tld_stats tld (sts_segments_cache_update (mi_stat_increase 1))
      (tld_upd tld (\<lambda>tl. tl\<lparr>tl_cache_count := tl_cache_count tl + 1\<rparr>)
        (tld_upd tld (\<lambda>tl. tl\<lparr>tl_cache := Some a\<rparr>)
          (segment_upd a (\<lambda>sg. sg\<lparr>sg_next := tl_cache (st_tld s1 tld)\<rparr>) s1)))"
    using assms(1) by (auto simp: mi_segment_cache_push_def Let_def store_simps split: if_splits bind_splits)
  have "os_kept s1 = os_kept s"
    using f by (auto simp: mi_segment_cache_full_def Let_def split: prod.splits if_splits bind_splits dest!: os_frame)
  note K = os_kept_store [OF this]
  show ?thesis
    using assms(2) by (auto simp: mi_segment_cache_pop_def s' store_simps K Let_def fun_eq_iff)
qed

section \<open>Properties\<close>

text \<open>
  C19. The queues of small and medium segments with free pages are refined by lists: inserting a
  segment appends it to the list of its kind, and removing takes it out of that list or, for a
  segment that is in no queue, does nothing; the list of the other kind is never changed.
\<close>

theorem segment_free_queues_refine:
  assumes "mi_segment_free_queue a tld s = Some q" and "free_queues tld X s"
  shows "(a \<notin> set (X (SmallFree tld)) \<union> set (X (MediumFree tld)) \<longrightarrow>
      (\<exists>s'. mi_segment_insert_in_free_queue a tld s = Some s' \<and> free_queues tld (X(q := X q @ [a])) s')) \<and>
    ((a \<notin> set (X q) \<longrightarrow> sg_next (st_segment s a) = None \<and> sg_prev (st_segment s a) = None) \<longrightarrow>
      free_queues tld (X(q := remove1 a (X q))) (mi_segment_remove_from_free_queue a tld s))"
  using insert_in_free_queue_run [OF assms] remove_from_free_queue_run [OF assms] by blast

lemma segment_free_queues_refine_witness:
  "\<exists>s'. mi_segment_insert_in_free_queue 0x20000 tld_main_ref (mstate_load os_env_once) = Some s' \<and>
     free_queues tld_main_ref ((\<lambda>_. [])(SmallFree tld_main_ref := [0x20000])) s'"
proof -
  let ?s = "mstate_load os_env_once"
  have "mi_segment_free_queue 0x20000 tld_main_ref ?s = Some (SmallFree tld_main_ref)"
    by (simp add: mi_segment_free_queue_def mi_segment_zero_def)
  moreover have "free_queues tld_main_ref (\<lambda>_. []) ?s"
    by (simp add: free_queues_def segment_list.holds_def tld_main_init_def)
  ultimately show ?thesis using segment_free_queues_refine [of "0x20000" tld_main_ref ?s] by force
qed



text \<open>
  C27. The cache of segments is last in, first out: what a successful \<open>mi_segment_cache_push\<close> put there
  is what the next \<open>mi_segment_cache_pop\<close> of any size returns, and that pop restores the cache and its
  count and leaves every other segment as it was.
\<close>

theorem mi_segment_cache_roundtrip:
  assumes "mi_segment_cache_push a tld s = Some (True, s')" and "sz = 0 \<or> sz = MI_SEGMENT_SIZE"
  shows "\<exists>s''. mi_segment_cache_pop sz tld s' = (Some a, s'') \<and>
    tl_cache (st_tld s'' tld) = tl_cache (st_tld s tld) \<and>
    tl_cache_count (st_tld s'' tld) = tl_cache_count (st_tld s tld) \<and>
    st_segment s'' = (st_segment s)(a := (st_segment s a)\<lparr>sg_next := None\<rparr>)"
  using assms by (rule cache_push_pop_run)

definition cache_example :: mstate where
  "cache_example = mi_option_set opt_segment_cache 4
     (segment_upd 0x20000 (\<lambda>sg. sg\<lparr>sg_segment_size := MI_SEGMENT_SIZE\<rparr>) (mstate_load os_env_once))"

lemma mi_segment_cache_roundtrip_witness:
  "\<exists>s' s''. mi_segment_cache_push 0x20000 tld_main_ref cache_example = Some (True, s') \<and>
     mi_segment_cache_pop 0 tld_main_ref s' = (Some 0x20000, s'')"
proof -
  have sg: "sg_segment_size (st_segment cache_example 0x20000) = MI_SEGMENT_SIZE"
    "st_tld cache_example tld_main_ref = tld_main_init"
    by (simp_all add: cache_example_def mi_option_set_def opt_write_def store_simps)
  have opt: "mi_option_get opt_segment_cache cache_example = (4, cache_example)"
    by (simp add: cache_example_def mi_option_set_def mi_option_get_def opt_write_def mi_option_init_def)
  have "mi_segment_cache_full tld_main_ref cache_example = Some (False, cache_example)"
    by (simp add: mi_segment_cache_full_def opt sg tld_main_init_def mi_consts)
  then obtain s' where "mi_segment_cache_push 0x20000 tld_main_ref cache_example = Some (True, s')"
    by (simp add: mi_segment_cache_push_def sg Let_def)
  then show ?thesis using mi_segment_cache_roundtrip by blast
qed

end
