(* ===== verification/AllocProps.thy ===== *)
theory AllocProps
  imports HeapQuery SegmentQueues
begin

text \<open>
  The allocation functions as a whole: what they do with requests that cannot be met, the alignment
  of aligned blocks, the promises of \<open>new\<close>, what process initialisation sets up, and two places
  where a copy or a fill of memory that the source has commented out breaks an operation.
\<close>

section \<open>Requests that cannot be met\<close>

lemma unat_mult_exact: "unat (x :: u64) * unat y < 2 ^ 64 \<Longrightarrow> unat (x * y) = unat x * unat y"
  by (intro unat_mult_bounded) simp

lemma count_size_overflow_exact:
  "mi_count_size_overflow count sz = (if 2 ^ 64 \<le> unat count * unat sz then (True, SIZE_MAX) else (False, count * sz))"
proof (cases "count = 1")
  case True
  then show ?thesis using unat_less_64 [of sz] by (simp add: mi_count_size_overflow_def not_le)
qed (simp add: mi_count_size_overflow_def mi_mul_overflow_def)

lemma malloc_too_large:
  assumes "PTRDIFF_MAX < sz" and "mi_heap_is_initialized h"
  shows "mi_heap_malloc h sz s =
    Option.bind (mi_deferred_free h False s) (\<lambda>s.
      Option.bind (mi_heap_delayed_free h s) (\<lambda>s.
        Option.bind (mi_heap_collect h True s) (\<lambda>s. Some (0, s))))"
proof -
  have large: "MI_LARGE_OBJ_SIZE_MAX < sz" "\<not> sz \<le> MI_SMALL_SIZE_MAX"
    using assms(1) by (simp_all add: mi_consts word_less_nat_alt word_le_nat_alt)
  then have find: "mi_find_page h sz s = Some (None, s)" for s using assms(1) by (simp add: mi_find_page_def)
  have "mi_heap_malloc h sz s = mi_malloc_generic h sz s" using large by (simp add: mi_heap_malloc_def)
  also have "\<dots> = Option.bind (malloc_generic_page h sz s) (\<lambda>(h, page, s).
       case page of None \<Rightarrow> Some (0, s) | Some p \<Rightarrow> mi_page_malloc h p sz s)"
    by (rule mi_malloc_generic_eq)
  finally show ?thesis
    using assms(2) find by (simp add: malloc_generic_page_def bind_assoc)
qed

text \<open>
  C25. Requests that cannot be met. A product of count and size that does not fit in 64 bits gives a null
  pointer in every function that takes one, and the heap and an old block are untouched; a product that
  fits is the request for exactly that many bytes. An alignment that is 0 or no power of two
  and an aligned request above \<open>PTRDIFF_MAX\<close> give a null pointer and change nothing. A plain
  request above \<open>PTRDIFF_MAX\<close> of an initialised heap gives a null pointer as well, but only after the
  deferred and delayed frees and a forced collection of the heap, which are all it changes.
\<close>

theorem allocation_request_errors:
  "(if 2 ^ 64 \<le> unat count * unat sz
    then mi_heap_calloc h count sz s = Some (0, s) \<and> mi_heap_mallocn h count sz s = Some (0, s) \<and>
      mi_heap_reallocn h p count sz s = Some (0, s) \<and> mi_heap_recalloc h p count sz s = Some (0, s) \<and>
      mi_heap_calloc_aligned_at h count sz al off s = Some (0, s) \<and>
      mi_heap_recalloc_aligned_at h p count sz al off s = Some (0, s)
    else unat (count * sz) = unat count * unat sz \<and>
      mi_heap_calloc h count sz s = mi_heap_zalloc h (count * sz) s \<and>
      mi_heap_mallocn h count sz s = mi_heap_malloc h (count * sz) s \<and>
      mi_heap_reallocn h p count sz s = mi_heap_realloc h p (count * sz) s \<and>
      mi_heap_recalloc h p count sz s = mi_heap_rezalloc h p (count * sz) s \<and>
      mi_heap_calloc_aligned_at h count sz al off s = mi_heap_zalloc_aligned_at h (count * sz) al off s \<and>
      mi_heap_recalloc_aligned_at h p count sz al off s = mi_heap_rezalloc_aligned_at h p (count * sz) al off s) \<and>
   ((al = 0 \<or> (\<forall>k. unat al \<noteq> 2 ^ k) \<or> PTRDIFF_MAX < sz) \<longrightarrow>
      mi_heap_malloc_zero_aligned_at h sz al off zero s = Some (0, s)) \<and>
   (PTRDIFF_MAX < sz \<and> mi_heap_is_initialized h \<longrightarrow>
      mi_heap_malloc h sz s =
        Option.bind (mi_deferred_free h False s) (\<lambda>s.
          Option.bind (mi_heap_delayed_free h s) (\<lambda>s.
            Option.bind (mi_heap_collect h True s) (\<lambda>s. Some (0, s)))))"
proof (intro conjI impI)
  note D = mi_heap_calloc_def mi_heap_mallocn_def mi_heap_reallocn_def mi_heap_recalloc_def
    mi_heap_calloc_aligned_at_def mi_heap_recalloc_aligned_at_def count_size_overflow_exact
  show "if 2 ^ 64 \<le> unat count * unat sz
    then mi_heap_calloc h count sz s = Some (0, s) \<and> mi_heap_mallocn h count sz s = Some (0, s) \<and>
      mi_heap_reallocn h p count sz s = Some (0, s) \<and> mi_heap_recalloc h p count sz s = Some (0, s) \<and>
      mi_heap_calloc_aligned_at h count sz al off s = Some (0, s) \<and>
      mi_heap_recalloc_aligned_at h p count sz al off s = Some (0, s)
    else unat (count * sz) = unat count * unat sz \<and>
      mi_heap_calloc h count sz s = mi_heap_zalloc h (count * sz) s \<and>
      mi_heap_mallocn h count sz s = mi_heap_malloc h (count * sz) s \<and>
      mi_heap_reallocn h p count sz s = mi_heap_realloc h p (count * sz) s \<and>
      mi_heap_recalloc h p count sz s = mi_heap_rezalloc h p (count * sz) s \<and>
      mi_heap_calloc_aligned_at h count sz al off s = mi_heap_zalloc_aligned_at h (count * sz) al off s \<and>
      mi_heap_recalloc_aligned_at h p count sz al off s = mi_heap_rezalloc_aligned_at h p (count * sz) al off s"
    using unat_mult_exact [of count sz] by (auto simp: D not_le)
  assume "al = 0 \<or> (\<forall>k. unat al \<noteq> 2 ^ k) \<or> PTRDIFF_MAX < sz"
  then show "mi_heap_malloc_zero_aligned_at h sz al off zero s = Some (0, s)"
    using mi_is_power_of_two_iff [of al] by (auto simp: mi_heap_malloc_zero_aligned_at_def)
qed (use malloc_too_large in blast)

lemma allocation_request_errors_witness:
  "mi_heap_calloc heap_main_ref 0x100000000 0x100000000 heap_example = Some (0, heap_example) \<and>
   mi_heap_malloc_zero_aligned_at heap_main_ref 100 0 0 False heap_example = Some (0, heap_example) \<and>
   mi_heap_malloc heap_main_ref 0xFFFFFFFFFFFFFFFF heap_example =
     Option.bind (mi_deferred_free heap_main_ref False heap_example) (\<lambda>s.
       Option.bind (mi_heap_delayed_free heap_main_ref s) (\<lambda>s.
         Option.bind (mi_heap_collect heap_main_ref True s) (\<lambda>s. Some (0, s))))"
proof -
  have "mi_heap_is_initialized heap_main_ref"
    by (simp add: mi_heap_is_initialized_def heap_main_ref_def heap_empty_ref_def)
  then show ?thesis
    using allocation_request_errors [where count = "0x100000000" and sz = "0x100000000" and h = heap_main_ref and s = heap_example]
      allocation_request_errors [where al = 0 and off = 0 and sz = 100 and zero = False and h = heap_main_ref and s = heap_example]
      allocation_request_errors [where sz = "0xFFFFFFFFFFFFFFFF" and h = heap_main_ref and s = heap_example]
    by (simp add: mi_consts)
qed

section \<open>The functions for \<open>new\<close>\<close>

lemma mi_try_new_result:
  assumes "mi_try_new nh sz nothrow s = Some r"
  shows "case r of Exit c \<Rightarrow> c = ENOMEM \<and> nh = None \<and> \<not> nothrow
    | Return (p, _) \<Rightarrow> p \<noteq> 0 \<or> nothrow \<and> nh = None"
proof (rule mi_try_new.raw_induct [OF _ assms, where P = "\<lambda>nh sz nothrow s r.
      case r of Exit c \<Rightarrow> c = ENOMEM \<and> nh = None \<and> \<not> nothrow | Return (p, _) \<Rightarrow> p \<noteq> 0 \<or> nothrow \<and> nh = None"])
  fix f nh sz nothrow s r
  assume IH: "\<And>nh sz nothrow s r. f nh sz nothrow s = Some r \<Longrightarrow>
      (case r of Exit c \<Rightarrow> c = ENOMEM \<and> nh = None \<and> \<not> nothrow | Return (p, _) \<Rightarrow> p \<noteq> 0 \<or> nothrow \<and> nh = None)"
    and R: "Option.bind (mi_try_new_handler nh nothrow s) (\<lambda>r. case r of
       Exit c \<Rightarrow> Some (Exit c)
     | Return r \<Rightarrow>
         if \<not> fst r then Some (Return (0, snd r))
         else Option.bind (mi_malloc sz (snd r)) (\<lambda>(p, s).
           if p = 0 then f nh sz nothrow s else Some (Return (p, s)))) = Some r"
  show "case r of Exit c \<Rightarrow> c = ENOMEM \<and> nh = None \<and> \<not> nothrow | Return (p, _) \<Rightarrow> p \<noteq> 0 \<or> nothrow \<and> nh = None"
  proof (cases nh)
    case None
    then show ?thesis using R by (cases nothrow) (auto simp: mi_try_new_handler_def)
  next
    case (Some g)
    then obtain s1 p s2 where "mi_malloc sz s1 = Some (p, s2)"
        "(if p = 0 then f nh sz nothrow s2 else Some (Return (p, s2))) = Some r"
      using R by (auto simp: mi_try_new_handler_def bind_eq_Some_conv)
    then show ?thesis using IH [of nh sz nothrow s2 r] Some by (cases "p = 0") auto
  qed
qed

lemma mi_new_cases:
  assumes "mi_new nh sz s = Some r"
  shows "case r of Exit c \<Rightarrow> c = ENOMEM \<and> nh = None | Return (p, _) \<Rightarrow> p \<noteq> 0"
proof -
  obtain p s1 where "mi_malloc sz s = Some (p, s1)"
      "(if p = 0 then mi_try_new nh sz False s1 else Some (Return (p, s1))) = Some r"
    using assms by (auto simp: mi_new_def bind_eq_Some_conv)
  then show ?thesis using mi_try_new_result [of nh sz False s1 r] by (cases "p = 0") (auto split: run.splits)
qed

lemma mi_new_nothrow_cases:
  assumes "mi_new_nothrow nh sz s = Some r"
  shows "case r of Exit c \<Rightarrow> False | Return (p, _) \<Rightarrow> p = 0 \<longrightarrow> nh = None"
proof -
  obtain p s1 where "mi_malloc sz s = Some (p, s1)"
      "(if p = 0 then mi_try_new nh sz True s1 else Some (Return (p, s1))) = Some r"
    using assms by (auto simp: mi_new_nothrow_def bind_eq_Some_conv)
  then show ?thesis using mi_try_new_result [of nh sz True s1 r] by (cases "p = 0") (auto split: run.splits)
qed

text \<open>
  C26. \<open>mi_new\<close> never gives a null pointer: it gives a block, or with no handler installed ends the
  process with \<open>ENOMEM\<close>; \<open>mi_new_nothrow\<close> never ends the process, and gives a null pointer only when no
  handler is installed. Without a handler both return or end whenever \<open>mi_malloc\<close> returns.
\<close>

theorem mi_new_correct:
  "(\<forall>p s'. mi_new nh sz s = Some (Return (p, s')) \<longrightarrow> p \<noteq> 0) \<and>
   (\<forall>c. mi_new nh sz s = Some (Exit c) \<longrightarrow> c = ENOMEM \<and> nh = None) \<and>
   (\<forall>c. mi_new_nothrow nh sz s \<noteq> Some (Exit c)) \<and>
   (\<forall>s'. mi_new_nothrow nh sz s = Some (Return (0, s')) \<longrightarrow> nh = None) \<and>
   (mi_new None sz s = None \<longleftrightarrow> mi_malloc sz s = None) \<and>
   (mi_new_nothrow None sz s = None \<longleftrightarrow> mi_malloc sz s = None)"
proof -
  have "mi_try_new None sz nothrow s1 \<noteq> None" for nothrow s1
    by (subst mi_try_new.simps) (simp add: mi_try_new_handler_def)
  then have "(mi_new None sz s = None \<longleftrightarrow> mi_malloc sz s = None) \<and>
      (mi_new_nothrow None sz s = None \<longleftrightarrow> mi_malloc sz s = None)"
    by (cases "mi_malloc sz s") (auto simp: mi_new_def mi_new_nothrow_def)
  then show ?thesis
    using mi_new_cases [of nh sz s] mi_new_nothrow_cases [of nh sz s] by fastforce
qed

lemma mi_new_correct_witness:
  "\<exists>s'. mi_new None 16 ((malloc_example 1)\<lparr>st_heap_default := heap_main_ref\<rparr>) = Some (Return (0x20500, s')) \<and>
     (0x20500 :: addr) \<noteq> 0"
proof -
  let ?s = "(malloc_example 1)\<lparr>st_heap_default := heap_main_ref\<rparr>"
  note E = malloc_example_repr [of 1]
  have "heap_repr heap_main_ref ((\<lambda>_. [])(2 := [(0x20000, 0)])) ?s = heap_repr heap_main_ref ((\<lambda>_. [])(2 := [(0x20000, 0)])) (malloc_example 1)"
    by (rule heap_repr_cong) simp_all
  moreover have W: "page_wf (0x20000, 0) [0x20500] [] [] ?s" using E(2) page_wf_core [of ?s "(0x20000, 0)" "malloc_example 1"] by simp
  ultimately have hit: "mi_heap_malloc heap_main_ref 16 ?s = Some (page_pop (0x20000, 0) ?s)"
    using malloc_small_hit [of heap_main_ref _ ?s 16 "(0x20000, 0)" "[]" "0x20500" "[]"] E(1) by (auto simp: mi_consts)
  have "pg_free (st_page ?s (0x20000, 0)) = 0x20500"
    using page_core_fields(3) [OF E(4)] by (simp add: page_example_page)
  then have "\<exists>s'. mi_new None 16 ?s = Some (Return (0x20500, s'))"
    using hit by (simp add: mi_new_def mi_malloc_def mi_get_default_heap_def page_pop_def)
  then show ?thesis using mi_new_correct [of None 16 ?s] by blast
qed

section \<open>Process initialisation\<close>

lemma thread_init_heap_main:
  assumes "st_heap_default s = heap_empty_ref" and "hp_thread_id (st_heap s heap_main_ref) = st_thread_id s"
    and "hp_cookie (st_heap s heap_main_ref) \<noteq> 0"
  shows "thread_init_heap s = Some (s\<lparr>st_heap_default := heap_main_ref\<rparr>)"
  using assms
  by (simp add: thread_init_heap_def mi_heap_init_def mi_heap_is_initialized_def mi_get_default_heap_def
      mi_is_main_thread_def mi_heap_main_init_def mi_heap_set_default_direct_def)

lemma thread_init_heap_again:
  "st_heap_default s \<noteq> heap_empty_ref \<Longrightarrow> thread_init_heap s = Some s"
  by (simp add: thread_init_heap_def mi_heap_init_def mi_heap_is_initialized_def mi_get_default_heap_def)

lemma mi_heap_main_init_frame:
  "hp_pages (st_heap (mi_heap_main_init s) h) = hp_pages (st_heap s h)"
  "hp_pages_free_direct (st_heap (mi_heap_main_init s) h) = hp_pages_free_direct (st_heap s h)"
  "hp_page_count (st_heap (mi_heap_main_init s) h) = hp_page_count (st_heap s h)"
  "st_page (mi_heap_main_init s) = st_page s" "st_heap_default (mi_heap_main_init s) = st_heap_default s"
  "st_thread_id (mi_heap_main_init s) = st_thread_id s" "st_process_init (mi_heap_main_init s) = st_process_init s"
  "hp_cookie (st_heap s heap_main_ref) \<noteq> 0 \<Longrightarrow> mi_heap_main_init s = s"
  "hp_cookie (st_heap s heap_main_ref) = 0 \<Longrightarrow> hp_thread_id (st_heap (mi_heap_main_init s) heap_main_ref) = st_thread_id s"
  "hp_cookie (st_heap s heap_main_ref) = 0 \<Longrightarrow> hp_cookie (st_heap (mi_heap_main_init s) heap_main_ref) = st_random_weak s"
  by (simp_all add: mi_heap_main_init_def mi_heap_random_next_def Let_def case_prod_beta store_simps heap_upd_def)

lemma mi_os_init_frame [simp]:
  "st_page (mi_os_init s) = st_page (s :: mstate)" "st_heap (mi_os_init s) = st_heap s"
  "st_heap_default (mi_os_init s) = st_heap_default s" "st_thread_id (mi_os_init s) = st_thread_id s"
  "st_process_init (mi_os_init s) = st_process_init s"
  by (simp_all add: mi_os_init_def Let_def)

text \<open>
  Loading the process terminates without touching a null heap, whatever the OS answers: afterwards
  the default heap is the main heap, owned by the running thread and with all its page queues empty,
  the process counts as initialised, and initialising the thread again changes nothing.
\<close>

lemma mi_process_load_ready:
  "\<exists>s. mi_process_load (mstate_load env) = Some s \<and> mi_get_default_heap s = heap_main_ref \<and>
     mi_is_main_thread s \<and> st_process_init s \<and> heap_repr heap_main_ref (\<lambda>_. []) s \<and> mi_thread_init s = Some s"
proof -
  let ?s0 = "mstate_load env"
  define s2 where "s2 = mi_os_init ((mi_heap_main_init ?s0)\<lparr>st_preloading := False, st_process_init := True\<rparr>)"
  let ?t = "s2\<lparr>st_heap_default := heap_main_ref\<rparr>"
  have c0: "hp_cookie (st_heap ?s0 heap_main_ref) = 0" "\<not> st_process_init ?s0" "st_heap_default ?s0 = heap_empty_ref"
    "st_random_weak ?s0 \<noteq> 0"
    by (simp_all add: heap_main_init_def mi_heap_empty_def mstate_load_def region_state.defs)
  have same: "st_heap s2 = st_heap (mi_heap_main_init ?s0)" "st_page s2 = st_page ?s0"
    "st_heap_default s2 = heap_empty_ref" "st_thread_id s2 = st_thread_id ?s0" "st_process_init s2"
    by (simp_all add: s2_def mi_heap_main_init_frame c0(3))
  have cookie: "hp_cookie (st_heap s2 heap_main_ref) \<noteq> 0" "hp_thread_id (st_heap s2 heap_main_ref) = st_thread_id s2"
    using c0(4) unfolding same mi_heap_main_init_frame(9,10) [OF c0(1)] by simp_all
  have "mi_process_load ?s0 = thread_init_heap (mi_heap_main_init s2)"
    by (simp add: mi_process_load_def mi_process_init_eq process_started_def s2_def c0(2))
  also have "\<dots> = Some ?t"
    unfolding mi_heap_main_init_frame(8) [OF cookie(1)] by (rule thread_init_heap_main [OF same(3) cookie(2,1)])
  finally have run: "mi_process_load ?s0 = Some ?t" .
  have t: "st_heap ?t = st_heap (mi_heap_main_init ?s0)" "st_page ?t = st_page ?s0" by (simp_all add: same(1,2) del: mstate_load_simps)
  have "heap_repr heap_main_ref (\<lambda>_. []) ?t = heap_repr heap_main_ref (\<lambda>_. []) ?s0"
    by (rule heap_repr_cong) (simp_all only: t mi_heap_main_init_frame(1-3))
  then have R: "heap_repr heap_main_ref (\<lambda>_. []) ?t" using heap_repr_load by blast
  have again: "mi_thread_init ?t = Some ?t"
    by (simp add: mi_thread_init_started thread_init_heap_again heap_main_ref_def heap_empty_ref_def same(5))
  have "mi_is_main_thread ?t" using cookie(2) by (simp add: mi_is_main_thread_def)
  then show ?thesis
    using run R again same(5) by (intro exI [of _ ?t]) (simp add: mi_get_default_heap_def)
qed

text \<open>How \<open>thread_init_heap\<close> ends, with \<open>td\<close> the memory the OS has for the heap of a thread.\<close>

definition thread_ready :: "addr \<Rightarrow> mstate \<Rightarrow> mstate option \<Rightarrow> bool" where
  "thread_ready td s r \<longleftrightarrow>
     (case r of
        None \<Rightarrow> st_heap_default s = heap_empty_ref \<and> \<not> mi_is_main_thread s \<and> td = 0
      | Some t \<Rightarrow> st_process_init t = st_process_init s \<and> st_heap_default t \<noteq> heap_empty_ref
          \<and> (st_heap_default s = heap_empty_ref \<longrightarrow> mi_is_main_thread s \<or> td \<noteq> 0)
          \<and> st_heap_default t =
              (if st_heap_default s \<noteq> heap_empty_ref then st_heap_default s
               else if mi_is_main_thread s then heap_main_ref else td))"

definition heap_memory_ok :: "addr \<Rightarrow> bool" where
  "heap_memory_ok td \<longleftrightarrow> td \<noteq> heap_empty_ref \<and> td + sizeof_mi_heap \<noteq> 0"

lemma thread_ready_cases:
  assumes "thread_ready td s r"
  shows "r = None \<longleftrightarrow> st_heap_default s = heap_empty_ref \<and> \<not> mi_is_main_thread s \<and> td = 0"
    and "r = Some t \<Longrightarrow> st_process_init t = st_process_init s \<and> st_heap_default t \<noteq> heap_empty_ref
      \<and> st_heap_default t =
          (if st_heap_default s \<noteq> heap_empty_ref then st_heap_default s
           else if mi_is_main_thread s then heap_main_ref else td)"
proof -
  show "r = None \<longleftrightarrow> st_heap_default s = heap_empty_ref \<and> \<not> mi_is_main_thread s \<and> td = 0"
  proof (cases r)
    case None
    then show ?thesis using assms by (simp add: thread_ready_def)
  next
    case (Some t)
    then have "st_heap_default s = heap_empty_ref \<longrightarrow> mi_is_main_thread s \<or> td \<noteq> 0"
      using assms unfolding thread_ready_def Some option.case by blast
    with Some show ?thesis by blast
  qed
  assume r: "r = Some t"
  show "st_process_init t = st_process_init s \<and> st_heap_default t \<noteq> heap_empty_ref
      \<and> st_heap_default t =
          (if st_heap_default s \<noteq> heap_empty_ref then st_heap_default s
           else if mi_is_main_thread s then heap_main_ref else td)"
    using assms unfolding thread_ready_def r option.case by blast
qed

lemma thread_heap_init_fields:
  "hp_tld (st_heap (thread_heap_init td s) td) = td + sizeof_mi_heap"
  "st_process_init (thread_heap_init td s) = st_process_init s"
  by (simp_all add: thread_heap_init_def mi_heap_random_next_def Let_def case_prod_beta heap_upd_def tld_upd_def)

lemma mi_heap_main_init_main_thread:
  "mi_is_main_thread s \<Longrightarrow> mi_is_main_thread (mi_heap_main_init s)"
  by (cases "hp_cookie (st_heap s heap_main_ref) = 0") (simp_all add: mi_is_main_thread_def mi_heap_main_init_frame)

lemma thread_init_heap_ready:
  assumes tld: "hp_tld (st_heap s heap_empty_ref) = 0"
    and td: "env_malloc (st_env s) (st_log s) sizeof_mi_thread_data = td" "heap_memory_ok td"
  shows "thread_ready td s (thread_init_heap s)"
proof (cases "st_heap_default s = heap_empty_ref")
  case False
  then show ?thesis by (simp add: thread_init_heap_again thread_ready_def)
next
  case empty: True
  note D = thread_init_heap_def mi_heap_init_def mi_heap_is_initialized_def mi_get_default_heap_def
    mi_heap_set_default_direct_def empty
  show ?thesis
  proof (cases "mi_is_main_thread s")
    case True
    then have "mi_is_main_thread ((mi_heap_main_init s)\<lparr>st_heap_default := heap_main_ref\<rparr>)"
      using mi_heap_main_init_main_thread by (simp add: mi_is_main_thread_def)
    with True have "thread_init_heap s = Some ((mi_heap_main_init s)\<lparr>st_heap_default := heap_main_ref\<rparr>)"
      by (simp add: D)
    with True empty show ?thesis
      by (simp add: thread_ready_def mi_heap_main_init_frame heap_main_ref_def heap_empty_ref_def)
  next
    case thread: False
    let ?s = "os_event (EvMalloc td sizeof_mi_thread_data) s"
    have alloc: "mi_os_alloc sizeof_mi_thread_data MainStats s = (td, ?s)"
      by (simp add: mi_os_alloc_def td(1))
    have same: "st_heap ?s = st_heap s" "mi_is_main_thread ?s = mi_is_main_thread s"
      "st_process_init ?s = st_process_init s" "st_heap_default ?s = st_heap_default s"
      by (simp_all add: os_event_def mi_is_main_thread_def)
    show ?thesis
    proof (cases "td = 0")
      case True
      then have "thread_init_heap s = None"
        using thread alloc same tld by (simp add: D)
      with True empty thread show ?thesis by (simp add: thread_ready_def)
    next
      case False
      let ?t = "(thread_heap_init td ?s)\<lparr>st_heap_default := td\<rparr>"
      let ?u = "tld_stats (td + sizeof_mi_heap) (sts_threads_update (mi_stat_increase 1)) ?t"
      have "thread_init_heap s = Some (if mi_is_main_thread ?t then ?t else ?u)"
        using False thread alloc td(2)
        by (simp add: D Let_def heap_memory_ok_def thread_heap_init_fields)
      then show ?thesis
        using False empty thread td(2)
        by (simp add: thread_ready_def heap_memory_ok_def thread_heap_init_fields same stats_apply_def)
    qed
  qed
qed

lemma process_started_frame:
  "st_heap_default (process_started s) = st_heap_default s"
  "st_env (process_started s) = st_env s" "st_log (process_started s) = st_log s"
  "hp_tld (st_heap (process_started s) heap_empty_ref) = hp_tld (st_heap s heap_empty_ref)"
proof -
  have main: "st_env (mi_heap_main_init t) = st_env t" "st_log (mi_heap_main_init t) = st_log t"
    "hp_tld (st_heap (mi_heap_main_init t) heap_empty_ref) = hp_tld (st_heap t heap_empty_ref)" for t
    by (simp_all add: mi_heap_main_init_def mi_heap_random_next_def Let_def case_prod_beta heap_upd_def)
  have os: "st_env (mi_os_init t) = st_env t" "st_log (mi_os_init t) = st_log t" for t :: mstate
    by (simp_all add: mi_os_init_def Let_def)
  show "st_heap_default (process_started s) = st_heap_default s"
    "st_env (process_started s) = st_env s" "st_log (process_started s) = st_log s"
    "hp_tld (st_heap (process_started s) heap_empty_ref) = hp_tld (st_heap s heap_empty_ref)"
    by (simp_all add: process_started_def mi_heap_main_init_frame main os)
qed

text \<open>
  C23. The recursion of \<open>mi_process_init\<close> and \<open>mi_thread_init\<close> ends from every state, of any thread,
  whether or not the process is initialised: \<open>mi_thread_init\<close> fails, by reading the thread data of the
  empty heap, exactly when the thread has no heap yet, is not the main thread and the OS has no
  memory for one. Otherwise the process is initialised, the default heap is the heap the thread had, or
  else the main heap in the main thread and the new memory in another one, and initialising the
  thread again changes nothing. The empty heap has no thread data, and \<open>malloc\<close> returns
  neither the static empty heap nor memory at the end of the address space.
\<close>

theorem mi_thread_init_total:
  assumes "hp_tld (st_heap s heap_empty_ref) = 0"
    and td: "env_malloc (st_env s) (st_log s) sizeof_mi_thread_data = td" and "heap_memory_ok td"
  shows "(mi_thread_init s = None \<longleftrightarrow>
      mi_get_default_heap s = heap_empty_ref \<and> \<not> mi_is_main_thread (process_started s) \<and> td = 0)
    \<and> (\<forall>t. mi_thread_init s = Some t \<longrightarrow>
      st_process_init t \<and> mi_thread_init t = Some t
      \<and> mi_get_default_heap t =
          (if mi_get_default_heap s \<noteq> heap_empty_ref then mi_get_default_heap s
           else if mi_is_main_thread (process_started s) then heap_main_ref else td))"
proof -
  have R: "thread_ready td (process_started s) (thread_init_heap (process_started s))"
    using assms by (intro thread_init_heap_ready) (simp_all add: process_started_frame)
  note C = thread_ready_cases [OF R, unfolded process_started_frame]
  have run: "mi_thread_init s = thread_init_heap (process_started s)"
  proof (cases "st_process_init s \<or> thread_init_heap (process_started s) = None")
    case True
    then show ?thesis
      by (cases "st_process_init s")
        (simp_all add: mi_thread_init_started process_started_def mi_thread_init_bind mi_process_init_eq)
  next
    case False
    then obtain t where t: "thread_init_heap (process_started s) = Some t" by blast
    then have "thread_init_heap t = Some t" using C(2) [OF t] by (intro thread_init_heap_again) blast
    with t False show ?thesis by (simp add: mi_thread_init_bind mi_process_init_eq)
  qed
  have again: "mi_thread_init t = Some t" if "st_process_init t" "st_heap_default t \<noteq> heap_empty_ref" for t
    using that by (simp add: mi_thread_init_started thread_init_heap_again)
  note C = C [folded run]
  show ?thesis
    unfolding mi_get_default_heap_def
  proof (intro conjI allI impI)
    fix t assume "mi_thread_init s = Some t"
    note T = C(2) [OF this]
    show flag: "st_process_init t" using conjunct1 [OF T] process_started_flag by simp
    show "st_heap_default t =
            (if st_heap_default s \<noteq> heap_empty_ref then st_heap_default s
             else if mi_is_main_thread (process_started s) then heap_main_ref else td)"
      using T by blast
    show "mi_thread_init t = Some t" using T flag by (intro again) blast+
  qed (rule C(1))
qed

text \<open>A second thread, before the process is initialised, on a system that has memory.\<close>

lemma mi_thread_init_total_witness:
  "\<exists>t. mi_thread_init ((mstate_load (os_env_once\<lparr>env_malloc := \<lambda>_ _. 0x600000000000\<rparr>))\<lparr>st_thread_id := 7\<rparr>) = Some t
     \<and> st_process_init t"
proof -
  let ?s = "(mstate_load (os_env_once\<lparr>env_malloc := \<lambda>_ _. 0x600000000000\<rparr>))\<lparr>st_thread_id := 7\<rparr>"
  have "hp_tld (st_heap ?s heap_empty_ref) = 0"
    by (simp add: mi_heap_empty_def heap_empty_ref_def heap_main_ref_def)
  moreover have "env_malloc (st_env ?s) (st_log ?s) sizeof_mi_thread_data = 0x600000000000"
    by (simp add: mstate_load_def region_state_load_def region_state.defs arena_state_load_def
        arena_state.defs os_state_load_def opt_state.defs opt_state_load_def os_state.defs)
  moreover have "heap_memory_ok 0x600000000000"
    by (simp add: heap_memory_ok_def heap_empty_ref_def sizeof_mi_heap_def)
  ultimately show ?thesis
    using mi_thread_init_total [of ?s "0x600000000000"] by (cases "mi_thread_init ?s") auto
qed

section \<open>Visiting the pages of a heap\<close>

lemma scan_stop:
  "scan (\<lambda>x v. \<not> P x) (\<lambda>x v. v @ [x]) xs v =
     (\<forall>x \<in> set xs. \<not> P x, v @ takeWhile (\<lambda>x. \<not> P x) xs @ take 1 (dropWhile (\<lambda>x. \<not> P x) xs))"
  by (induction xs arbitrary: v) auto

lemma heap_pages_distinct:
  assumes "heap_repr h Q s"
  shows "distinct (heap_pages h Q [0..<75])"
proof -
  have D: "distinct (Q i)" if "i \<le> 74" for i
    using assms that by (auto simp: heap_repr_def queue_lists_def page_list.holds_def dest: dlist_distinct)
  have "distinct (heap_pages h Q is)" if "distinct is" "\<forall>i \<in> set is. i \<le> 74" for "is"
    using that D by (induction "is") (auto simp: heap_pages_def distinct_map inj_on_def)
  then show ?thesis by simp
qed

text \<open>
  C24. Visiting the pages of a heap with a visitor that only looks terminates: it is called on every page
  of every queue, each exactly once and in the order of the queues, up to and including the first
  page it stops at; the answer is true exactly when it never stopped and there was a page to visit.
\<close>

theorem mi_heap_visit_pages_once:
  assumes "heap_repr h Q s" and "h \<noteq> 0" and "page_total Q < 2 ^ 64"
  shows "\<exists>L. distinct L \<and> (\<forall>q p. (q, p) \<in> set L \<longleftrightarrow> (\<exists>i \<le> 74. q = (h, i) \<and> p \<in> set (Q i))) \<and>
    sorted (map (snd \<circ> fst) L) \<and>
    mi_heap_visit_pages h (\<lambda>q p v t. Some (\<not> stop (q, p), v @ [(q, p)], t)) [] s =
      Some (L \<noteq> [] \<and> (\<forall>x \<in> set L. \<not> stop x),
        takeWhile (\<lambda>x. \<not> stop x) L @ take 1 (dropWhile (\<lambda>x. \<not> stop x) L), s)"
proof -
  let ?L = "heap_pages h Q [0..<75]"
  have mem: "(q, p) \<in> set ?L \<longleftrightarrow> (\<exists>i \<le> 74. q = (h, i) \<and> p \<in> set (Q i))" for q p
    unfolding heap_pages_set by blast
  have "sorted (map (snd \<circ> fst) (heap_pages h Q is))" if "sorted is" for "is"
    using that by (induction "is") (auto simp: heap_pages_def sorted_append comp_def map_replicate_const)
  then have srt: "sorted (map (snd \<circ> fst) ?L)" by simp
  let ?fn = "\<lambda>q p v t. Some (\<not> stop (q, p), v @ [(q, p)], t)"
  have "mi_heap_visit_pages h ?fn [] s =
      (if page_total Q = 0 then Some (False, [], s)
       else let (b, w) = scan (\<lambda>x v. \<not> stop x) (\<lambda>x v. v @ [x]) ?L [] in Some (b, w, s))"
    by (rule visit_pages_scan [OF _ assms]) simp
  also have "\<dots> = Some (?L \<noteq> [] \<and> (\<forall>x \<in> set ?L. \<not> stop x),
      takeWhile (\<lambda>x. \<not> stop x) ?L @ take 1 (dropWhile (\<lambda>x. \<not> stop x) ?L), s)"
    using heap_pages_length [of h Q] by (cases "?L = []") (auto simp: scan_stop)
  finally show ?thesis
    using heap_pages_distinct [OF assms(1)] mem srt by (intro exI [of _ ?L]) simp
qed

lemma mi_heap_visit_pages_once_witness:
  "\<exists>v b. mi_heap_visit_pages heap_main_ref (\<lambda>q p v t. Some (\<not> snd (snd (q, p)) = 7, v @ [(q, p)], t)) [] (malloc_example 1) =
     Some (b, v, malloc_example 1)"
  using mi_heap_visit_pages_once [OF malloc_example_repr(1) [of 1] heap_main_ref_nonzero, of "\<lambda>x. snd (snd x) = 7"]
    page_total_upd [of 2 "\<lambda>_. []" "[(0x20000, 0)]"] by (auto simp: page_total_def)

section \<open>Free lists of reused pages\<close>

lemma os_store_page:
  "st_page (snd (mi_option_is_enabled opt s)) = st_page (s :: mstate)"
  "st_page (snd (mi_option_get opt s)) = st_page s"
  "st_page (snd (mi_clock_now s)) = st_page s"
  "st_page (snd (mi_mem_reset a sz tld s)) = st_page s"
  "st_page (snd (snd (mi_mem_commit a sz tld s))) = st_page s"
  "st_page (snd (snd (mi_mem_unreset a sz tld s))) = st_page s"
  by (rule os_kept_store(1); simp add: mi_mem_reset_def mi_mem_commit_def mi_mem_unreset_def mi_clock_now_def Let_def os_frame_simps)+

lemma segment_queue_remove_page [simp]: "st_page (mi_segment_remove_from_free_queue a tld s) = st_page s"
  by (simp add: mi_segment_remove_from_free_queue_def mi_segment_queue_remove_def Let_def store_simps split: option.splits)

text \<open>The operations on unused pages leave the free list of every page alone.\<close>

lemma pages_reset_free:
  "pg_free (st_page (mi_page_reset p sz tld s) q) = pg_free (st_page s q)"
  "pg_free (st_page (mi_pages_reset_add p tld s) q) = pg_free (st_page s q)"
  "pg_free (st_page (mi_pages_reset_remove p tld s) q) = pg_free (st_page s q)"
  "pg_free (st_page (mi_page_unreset p sz tld s) q) = pg_free (st_page s q)"
proof -
  show reset: "pg_free (st_page (mi_page_reset p sz tld s) q) = pg_free (st_page s q)" for s sz
    by (simp add: mi_page_reset_def case_prod_beta Let_def os_store_page store_simps)
  show "pg_free (st_page (mi_pages_reset_add p tld s) q) = pg_free (st_page s q)"
    by (simp add: mi_pages_reset_add_def pages_reset_push_def mi_page_reset_set_expire_def reset_queue_upd_def
        case_prod_beta Let_def reset os_store_page store_simps split: option.split)
  show "pg_free (st_page (mi_pages_reset_remove p tld s) q) = pg_free (st_page s q)"
    by (simp add: mi_pages_reset_remove_def pages_reset_unlink_def reset_queue_upd_def Let_def store_simps)
  show "pg_free (st_page (mi_page_unreset p sz tld s) q) = pg_free (st_page s q)"
    by (simp add: mi_page_unreset_def case_prod_beta Let_def os_store_page store_simps)
qed

lemma pages_reset_capacity:
  "pg_capacity (st_page (mi_pages_reset_remove p tld s) q) = pg_capacity (st_page s q)"
  "pg_capacity (st_page (mi_page_unreset p sz tld s) q) = pg_capacity (st_page s q)"
  by (simp_all add: mi_pages_reset_remove_def pages_reset_unlink_def reset_queue_upd_def mi_page_unreset_def
      case_prod_beta Let_def os_store_page store_simps)

lemma page_clear_free:
  "pg_free (st_page (mi_segment_page_clear p allow_reset tld s) q) = pg_free (st_page s q)"
  "pg_capacity (st_page (mi_segment_page_clear p allow_reset tld s) p) = 0"
  by (simp_all add: mi_segment_page_clear_def Let_def store_simps pages_reset_free)

lemma page_claim_free:
  "pg_free (st_page (snd (mi_segment_page_claim p tld s)) q) = pg_free (st_page s q)"
  "pg_capacity (st_page (snd (mi_segment_page_claim p tld s)) q) = pg_capacity (st_page s q)"
  by (simp_all add: mi_segment_page_claim_def case_prod_beta Let_def store_simps pages_reset_free
      pages_reset_capacity os_store_page)

text \<open>
  C37. The clearing of the fields of a freed page is commented out in \<open>mi_segment_page_clear\<close>. When a page
  that is freed with blocks on its free list is claimed again, \<open>mi_page_init\<close> for the new block size
  builds no free list: the blocks of the old size stay on it and the capacity stays 0, so the next
  allocations hand out blocks laid out for the old size.
\<close>

theorem stale_free_list:
  assumes "pg_free (st_page s p) \<noteq> 0" and "bs \<noteq> 0"
    and "s1 = snd (mi_segment_page_claim p tld (mi_segment_page_clear p True tld s))"
  shows "\<exists>s2. mi_page_init h p bs s1 = Some s2 \<and> pg_free (st_page s2 p) = pg_free (st_page s p) \<and>
    pg_capacity (st_page s2 p) = 0 \<and>
    pg_xblock_size (st_page s2 p) = (if bs < ucast MI_HUGE_BLOCK_SIZE then ucast bs else MI_HUGE_BLOCK_SIZE)"
proof -
  have "pg_free (st_page s1 p) = pg_free (st_page s p)" "pg_capacity (st_page s1 p) = 0"
    by (simp_all add: assms(3) page_claim_free page_clear_free)
  then show ?thesis
    using assms(1,2)
    by (simp add: mi_page_init_def mi_page_extend_free_def mi_page_set_heap_def case_prod_beta Let_def store_simps)
qed

lemma stale_free_list_witness:
  "\<exists>s2. mi_page_init heap_main_ref (0x20000, 0) 32
      (snd (mi_segment_page_claim (0x20000, 0) tld_main_ref
        (mi_segment_page_clear (0x20000, 0) True tld_main_ref (page_example 1)))) = Some s2 \<and>
     pg_free (st_page s2 (0x20000, 0)) = 0x20500 \<and> pg_xblock_size (st_page s2 (0x20000, 0)) = 32"
  using stale_free_list [of "page_example 1" "(0x20000, 0)" 32 _ tld_main_ref heap_main_ref, OF _ _ refl]
  by (auto simp: page_example_page mi_consts)

section \<open>New heaps\<close>

lemma heap_init_new_keeps:
  "hp_pages (st_heap (heap_init_new bheap heap s) h) = hp_pages (st_heap s h)"
  "hp_pages_free_direct (st_heap (heap_init_new bheap heap s) h) = hp_pages_free_direct (st_heap s h)"
  by (simp_all add: heap_init_new_def mi_heap_random_next_def heap_tld_def case_prod_beta Let_def store_simps)

text \<open>
  C38. The copy of the empty heap is commented out in \<open>mi_heap_new\<close>: the queues and the direct array of a
  new heap are what its memory held before, and where that is zero the first small allocation on the
  heap reads through a null page.
\<close>

theorem mi_heap_new_uninitialised:
  assumes "st_heap s heap = mi_heap_zero" and "sz \<le> MI_SMALL_SIZE_MAX"
  shows "hp_pages (st_heap (heap_init_new bheap heap s) heap) = hp_pages (st_heap s heap) \<and>
    mi_heap_malloc heap sz (heap_init_new bheap heap s) = None"
  using assms
  by (simp add: heap_init_new_keeps mi_heap_malloc_def mi_heap_malloc_small_def mi_heap_get_free_small_page_def mi_heap_zero_def)

lemma mi_heap_new_uninitialised_witness:
  "mi_heap_malloc 0x5000 16 (heap_init_new heap_main_ref 0x5000 (mstate_load os_env_once)) = None"
  using mi_heap_new_uninitialised [of "mstate_load os_env_once" "0x5000" 16 heap_main_ref]
  by (simp add: mi_consts heap_main_ref_def heap_empty_ref_def)

end
