(* ===== verification/SegmentInit.thy ===== *)
theory SegmentInit
  imports SegmentQueues
begin

text \<open>
  The well-formedness that \<open>mi_segment_init\<close> of \<open>segment.c\<close> establishes, for a segment from the memory layer
  and for one from the cache: the header describes the kind of page, and every page knows its
  place. \<open>Geometry\<close> starts from it.
\<close>

lemma insert_in_free_queue_header:
  assumes "mi_segment_insert_in_free_queue a tld s = Some s'"
  shows "st_page s' = st_page s" and "\<exists>n p. st_segment s' x = (st_segment s x)\<lparr>sg_next := n, sg_prev := p\<rparr>"
proof -
  obtain q where s': "s' = mi_segment_enqueue q a s"
    using assms by (auto simp: mi_segment_insert_in_free_queue_def split: option.splits)
  show "st_page s' = st_page s"
    by (simp add: s' mi_segment_enqueue_def Let_def store_simps split: option.split)
  have id: "\<exists>n p. sg = sg\<lparr>sg_next := n, sg_prev := p\<rparr>" for sg :: mi_segment
    by (rule exI [of _ "sg_next sg"], rule exI [of _ "sg_prev sg"]) simp
  have "\<exists>n. sg = sg\<lparr>sg_next := n\<rparr>" for sg :: mi_segment by (rule exI [of _ "sg_next sg"]) simp
  then show "\<exists>n p. st_segment s' x = (st_segment s x)\<lparr>sg_next := n, sg_prev := p\<rparr>"
    using id by (cases "st_segment s x") (auto simp: s' mi_segment_enqueue_def Let_def store_simps split: option.split)
qed

lemma init_pages_simps:
  "st_segment (init_pages is a c z s) = st_segment s"
  "pg_segment_idx (st_page (init_pages is a c z s) (a, i)) =
     (if i \<in> set is then word_of_nat i else pg_segment_idx (st_page s (a, i)))"
proof (induction "is" arbitrary: s)
  case (Cons j js)
  {
    case 1
    show ?case using Cons.IH(1) by (simp add: store_simps)
  next
    case 2
    show ?case using Cons.IH(2) by (auto simp: store_simps)
  }
qed simp_all

text \<open>The sizes that the code computes are those of \<open>kind_shape\<close>.\<close>

lemma init_sizes:
  assumes "unat shift = fst (kind_shape kind)"
  shows "unat (segment_init_capacity kind shift) = fst (snd (kind_shape kind))"
    and "mi_segment_size (segment_init_capacity kind shift) required =
      (if required = 0 then MI_SEGMENT_SIZE
       else mi_align_up (required + word_of_nat (snd (snd (kind_shape kind)))) MI_PAGE_HUGE_ALIGN,
       word_of_nat (snd (snd (kind_shape kind))), word_of_nat (snd (snd (kind_shape kind))))"
  using assms by (cases kind; simp add: segment_init_capacity_def mi_segment_size_def mi_consts mi_align_up_def
      sizeof_mi_segment_def sizeof_mi_page_def Let_def)+

lemma huge_size:
  assumes "required \<noteq> 0" and "unat required < 2 ^ 63"
  shows "131072 \<le> unat (mi_align_up (required + 256) MI_PAGE_HUGE_ALIGN)"
proof -
  have r: "unat (required + 256) = unat required + 256" by (rule unat_add_bounded [THEN trans]) (use assms in simp_all)
  have "unat (mi_align_up (required + 256) MI_PAGE_HUGE_ALIGN) =
      (unat required + 256 + 262143) div 262144 * 262144"
    by (subst unat_mi_align_up) (use assms r in \<open>simp_all add: mi_consts\<close>)
  moreover have "1 \<le> (unat required + 256 + 262143) div 262144" by simp
  ultimately show ?thesis by linarith
qed

lemma segment_shape_capacity: "segment_shape a sg \<Longrightarrow> unat (sg_capacity sg) = fst (snd (kind_shape (sg_page_kind sg)))"
  unfolding segment_shape_def by (metis fst_conv snd_conv)

text \<open>What \<open>mi_segment_init\<close> does once it has its memory.\<close>

definition init_finish ::
    "addr \<Rightarrow> bool \<Rightarrow> bool \<Rightarrow> bool \<Rightarrow> mi_page_kind \<Rightarrow> u64 \<Rightarrow> u64 \<Rightarrow> u64 \<times> u64 \<Rightarrow> mstate \<Rightarrow> mstate" where
  "init_finish a good commit is_zero kind shift capacity sizes s =
     (let s = segment_upd a segment_header_clear s;
          s = (if good then s else init_pages [0..<unat capacity] a commit is_zero s)
      in segment_init_header a kind shift capacity sizes s)"

lemma segment_init_run:
  assumes "mi_segment_init segment required kind shift tld s = Some (Some a, s')"
  defines "capacity \<equiv> segment_init_capacity kind shift"
  shows "\<exists>good commit is_zero t u.
    u = init_finish a good commit is_zero kind shift capacity
          (fst (mi_segment_size capacity required), fst (snd (mi_segment_size capacity required))) t \<and>
    (if page_kind_le_medium kind then mi_segment_insert_in_free_queue a tld u = Some s' else s' = u) \<and>
    (good \<longrightarrow> segment = Some a \<and> st_segment t = st_segment s \<and> st_page t = st_page s \<and>
       sg_page_kind (st_segment s a) = kind) \<and>
    (\<forall>b. segment = Some b \<longrightarrow> b = a)"
proof -
  obtain segment_size pre_size info_size where sz: "mi_segment_size capacity required = (segment_size, pre_size, info_size)"
    by (cases "mi_segment_size capacity required") auto
  obtain eager_delayed s1 where ed: "(if page_kind_le_medium kind
       then (let (n, s) = mi_option_get opt_eager_commit_delay s in (tl_count (st_tld s tld) < n, s))
       else (False, s)) = (eager_delayed, s1)" by fastforce
  obtain eager s2 where eg: "(if eager_delayed then (False, s1) else mi_option_is_enabled opt_eager_commit s1) = (eager, s2)"
    by fastforce
  have "os_kept s1 = os_kept s"
    using ed by (auto simp: Let_def split: if_splits prod.splits dest!: os_frame)
  moreover have "os_kept s2 = os_kept s1"
    using eg by (auto split: if_splits dest!: os_frame)
  ultimately have k: "st_segment s2 = st_segment s" "st_page s2 = st_page s"
    using os_kept_store by (metis (no_types))+
  show ?thesis
  proof (cases segment)
    case (Some b)
    obtain good z t where c: "segment_init_cached b kind capacity (segment_size, pre_size) eager tld s2 = (good, z, t)"
      by (metis prod_cases3)
    have good: "good \<Longrightarrow> t = s2 \<and> sg_page_kind (st_segment s b) = kind"
      using c k by (auto simp: segment_init_cached_def Let_def split: if_splits prod.splits)
    have run: "(let s = init_finish b good eager z kind shift capacity (segment_size, pre_size) t
          in if page_kind_le_medium kind
             then do { s \<leftarrow> mi_segment_insert_in_free_queue b tld s; Some (Some b, s) }
             else Some (Some b, s)) = Some (Some a, s')"
      using assms(1) unfolding mi_segment_init_def init_finish_def
      by (simp add: capacity_def [symmetric] sz ed eg Some c Let_def)
    show ?thesis
      by (rule exI [of _ good], rule exI [of _ eager], rule exI [of _ z], rule exI [of _ t], rule exI, rule conjI [OF refl])
        (use run good k Some sz in \<open>auto simp: Let_def split: if_splits bind_splits\<close>)
  next
    case None
    show ?thesis
    proof (cases "segment_init_os eager_delayed (segment_size, pre_size) eager tld s2")
      case (Some r)
      obtain seg commit z t where r: "r = (seg, commit, z, t)" by (cases r) auto
      have run: "(case seg of None \<Rightarrow> Some (None, t) | Some b \<Rightarrow>
          (let s = init_finish b False commit z kind shift capacity (segment_size, pre_size) t
          in if page_kind_le_medium kind
             then do { s \<leftarrow> mi_segment_insert_in_free_queue b tld s; Some (Some b, s) }
             else Some (Some b, s))) = Some (Some a, s')"
        using assms(1) unfolding mi_segment_init_def init_finish_def
        by (cases seg; simp add: capacity_def [symmetric] sz ed eg None Some r Let_def; simp cong: if_cong split: if_splits)
      show ?thesis
        by (rule exI [of _ False], rule exI [of _ commit], rule exI [of _ z], rule exI [of _ t], rule exI, rule conjI [OF refl])
          (use run None sz in \<open>auto simp: Let_def split: if_splits bind_splits option.splits\<close>)
    next
      case n: None
      then show ?thesis using assms(1) unfolding mi_segment_init_def
        by (simp add: capacity_def [symmetric] sz ed eg None Let_def)
    qed
  qed
qed

lemma init_finish_header:
  "st_segment (init_finish a good c z kind shift capacity sizes s) a = (segment_header_clear (st_segment s a))
     \<lparr>sg_page_kind := kind, sg_capacity := capacity, sg_page_shift := shift, sg_segment_size := fst sizes,
      sg_info_size := snd sizes, sg_thread_id := sg_thread_id (st_segment (init_finish a good c z kind shift capacity sizes s) a),
      sg_cookie := sg_cookie (st_segment (init_finish a good c z kind shift capacity sizes s) a)\<rparr>"
  by (cases good) (simp_all add: init_finish_def segment_init_header_def Let_def store_simps init_pages_simps)

lemma init_finish_page:
  assumes "i < unat capacity"
  shows "pg_segment_idx (st_page (init_finish a good c z kind shift capacity sizes s) (a, i)) =
    (if good then pg_segment_idx (st_page s (a, i)) else word_of_nat i)"
  using assms by (simp add: init_finish_def segment_init_header_def Let_def store_simps init_pages_simps)

text \<open>
  C21. A segment that \<open>mi_segment_init\<close> returns is well formed, whether its memory is new or comes from the
  cache with pages of the same or of another kind: the header has the shift, the number of pages and
  the size of its kind, it is in no use and not abandoned, and page \<open>i\<close> of it knows that it is page \<open>i\<close>.
\<close>

theorem mi_segment_init_well_formed:
  assumes "mi_segment_init segment required kind shift tld s = Some (Some a, s')"
    and "unat shift = fst (kind_shape kind)" and "if kind = MI_PAGE_HUGE then unat required < 2 ^ 63 else required = 0"
    and "a \<noteq> 0" and "131072 dvd unat a"
    and "unat a + unat (fst (mi_segment_size (segment_init_capacity kind shift) required)) < 2 ^ 64"
    and "segment = Some a \<Longrightarrow> segment_shape a (st_segment s a) \<and>
      (\<forall>i. i < unat (sg_capacity (st_segment s a)) \<longrightarrow> page_in_segment (a, i) s)"
  shows "segment_shape a (st_segment s' a) \<and> sg_page_kind (st_segment s' a) = kind \<and>
    sg_used (st_segment s' a) = 0 \<and> sg_abandoned (st_segment s' a) = 0 \<and> sg_abandoned_next (st_segment s' a) = 0 \<and>
    (\<forall>i. i < unat (sg_capacity (st_segment s' a)) \<longrightarrow> page_in_segment (a, i) s')"
proof -
  let ?cap = "segment_init_capacity kind shift" and ?size = "mi_segment_size (segment_init_capacity kind shift) required"
  obtain good commit z t u where u: "u = init_finish a good commit z kind shift ?cap (fst ?size, fst (snd ?size)) t"
    and ins: "if page_kind_le_medium kind then mi_segment_insert_in_free_queue a tld u = Some s' else s' = u"
    and good: "good \<Longrightarrow> segment = Some a \<and> st_segment t = st_segment s \<and> st_page t = st_page s \<and>
      sg_page_kind (st_segment s a) = kind"
    using segment_init_run [OF assms(1)] by blast
  have "\<exists>n p. st_segment s' a = (st_segment u a)\<lparr>sg_next := n, sg_prev := p\<rparr> \<and> st_page s' = st_page u"
  proof (cases "page_kind_le_medium kind")
    case True
    then show ?thesis using ins insert_in_free_queue_header [of a tld u s'] by auto
  next
    case False
    then show ?thesis using ins by (intro exI [of _ "sg_next (st_segment u a)"] exI [of _ "sg_prev (st_segment u a)"]) simp
  qed
  then obtain n p where hd: "st_segment s' a = (st_segment u a)\<lparr>sg_next := n, sg_prev := p\<rparr>" and pg: "st_page s' = st_page u"
    by blast
  have H: "sg_page_kind (st_segment u a) = kind" "sg_capacity (st_segment u a) = ?cap" "sg_page_shift (st_segment u a) = shift"
    "sg_segment_size (st_segment u a) = fst ?size" "sg_info_size (st_segment u a) = fst (snd ?size)"
    "sg_used (st_segment u a) = 0" "sg_abandoned (st_segment u a) = 0" "sg_abandoned_next (st_segment u a) = 0"
    unfolding u by (subst init_finish_header; simp add: segment_header_clear_def mi_segment_zero_def)+
  have "131072 \<le> unat (fst ?size) \<and> (kind \<noteq> MI_PAGE_HUGE \<longrightarrow> fst ?size = MI_SEGMENT_SIZE)"
    using assms(3) huge_size [of required] by (simp add: init_sizes(2) [OF assms(2)] mi_consts split: if_splits)
  then have shape: "segment_shape a (st_segment s' a)"
    using assms(2,4-6) init_sizes(1) [OF assms(2)] init_sizes(2) [OF assms(2), of required]
    by (cases kind) (simp_all add: segment_shape_def hd H)
  have "unat (pg_segment_idx (st_page s' (a, i))) = i" if i: "i < unat ?cap" for i
  proof (cases good)
    case True
    then have "unat (sg_capacity (st_segment s a)) = unat ?cap"
      using good assms(7) segment_shape_capacity [of a "st_segment s a"] init_sizes(1) [OF assms(2)] by simp
    then have "page_in_segment (a, i) s" using True good assms(7) i by simp
    then show ?thesis using True good by (simp add: pg u init_finish_page [OF i] page_in_segment_def)
  next
    case False
    have "i < 256" using i init_sizes(1) [OF assms(2)] by (cases kind) auto
    then show ?thesis using False by (simp add: pg u init_finish_page [OF i] unat_of_nat take_bit_eq_mod)
  qed
  then show ?thesis using shape by (simp add: page_in_segment_def hd H)
qed

text \<open>A segment with one large page comes from the cache.\<close>

definition init_example :: mstate where
  "init_example = mi_option_set opt_eager_commit 1
     (segment_upd 0x20000 (\<lambda>_. segment_example MI_PAGE_LARGE) (mstate_load os_env_once))"

lemma mi_segment_init_well_formed_witness:
  "\<exists>s'. mi_segment_init (Some 0x20000) 0 MI_PAGE_LARGE 17 tld_main_ref init_example = Some (Some 0x20000, s') \<and>
     segment_shape 0x20000 (st_segment s' 0x20000) \<and> page_in_segment (0x20000, 0) s'"
proof -
  have sg: "st_segment init_example 0x20000 = segment_example MI_PAGE_LARGE"
    "st_page init_example = (\<lambda>_. mi_page_empty)"
    by (simp_all add: init_example_def mi_option_set_def opt_write_def store_simps)
  have opt: "mi_option_is_enabled opt_eager_commit init_example = (True, init_example)"
    by (simp add: init_example_def mi_option_set_def mi_option_is_enabled_def mi_option_get_def opt_write_def)
  have cap: "sg_capacity (segment_example MI_PAGE_LARGE) = 1" by (simp add: segment_example_def)
  have "segment_init_cached 0x20000 MI_PAGE_LARGE 1 (MI_SEGMENT_SIZE, 256) True tld_main_ref init_example =
      (False, False, init_example)"
    by (simp add: segment_init_cached_def segment_pages_def sg cap mi_page_empty_def Let_def page_kind_le_medium_iff)
  then obtain s' where run: "mi_segment_init (Some 0x20000) 0 MI_PAGE_LARGE 17 tld_main_ref init_example = Some (Some 0x20000, s')"
    using init_sizes(1) [of 17 MI_PAGE_LARGE] init_sizes(2) [of 17 MI_PAGE_LARGE 0] by (simp add: mi_segment_init_def opt segment_init_capacity_def mi_consts Let_def page_kind_le_medium_iff)
  have pre: "segment_shape 0x20000 (st_segment init_example 0x20000) \<and>
      (\<forall>i. i < unat (sg_capacity (st_segment init_example 0x20000)) \<longrightarrow> page_in_segment (0x20000, i) init_example)"
    by (simp add: page_in_segment_def segment_shape_def sg segment_example_def mi_consts mi_page_empty_def)
  have "segment_shape 0x20000 (st_segment s' 0x20000) \<and> sg_page_kind (st_segment s' 0x20000) = MI_PAGE_LARGE \<and>
      (\<forall>i. i < unat (sg_capacity (st_segment s' 0x20000)) \<longrightarrow> page_in_segment (0x20000, i) s')"
    using mi_segment_init_well_formed [OF run _ _ _ _ _ pre] init_sizes(2) [of 17 MI_PAGE_LARGE 0]
    by (simp add: mi_consts)
  then show ?thesis using run by (auto simp: segment_shape_def)
qed

end
