(* ===== verification/PageSearch.thy ===== *)
theory PageSearch
  imports MallocFree
begin

text \<open>
  The search of a queue for a page with a free block (\<open>page.c\<close>) and the slow path of an allocation.
  \<open>pages_wf P X s\<close> says that the pages \<open>P\<close> are well formed, page \<open>p\<close> with the free, local and
  thread-free lists \<open>X p\<close>, and of segments that are not huge; their blocks are then apart.
\<close>

section \<open>Many pages\<close>

type_synonym block_lists = "addr list \<times> addr list \<times> addr list"

definition wf_blocks :: "page_id \<Rightarrow> block_lists \<Rightarrow> mstate \<Rightarrow> bool" where
  "wf_blocks p X s = page_wf p (fst X) (fst (snd X)) (snd (snd X)) s"

definition alive_blocks :: "page_id \<Rightarrow> block_lists \<Rightarrow> mstate \<Rightarrow> addr set" where
  "alive_blocks p X s = page_alive p (fst X) (fst (snd X)) (snd (snd X)) s"

definition page_room :: "page_id \<Rightarrow> mstate \<Rightarrow> addr set" where
  "page_room p s = page_block p s ` {..<unat (pg_reserved (st_page s p))}"

definition pages_wf :: "page_id set \<Rightarrow> (page_id \<Rightarrow> block_lists) \<Rightarrow> mstate \<Rightarrow> bool" where
  "pages_wf P X s \<longleftrightarrow>
     (\<forall>p \<in> P. wf_blocks p (X p) s \<and> sg_page_kind (st_segment s (fst p)) \<noteq> MI_PAGE_HUGE)"

text \<open>All the blocks the program holds.\<close>

definition held_blocks :: "page_id set \<Rightarrow> (page_id \<Rightarrow> block_lists) \<Rightarrow> mstate \<Rightarrow> addr set" where
  "held_blocks P X s = (\<Union>p \<in> P. alive_blocks p (X p) s)"

text \<open>
  The program holds the same blocks as before, on pages of the same block size, and nothing was written
  to the (first words of the) blocks it holds.
\<close>

definition same_alive ::
    "page_id set \<Rightarrow> (page_id \<Rightarrow> block_lists) \<Rightarrow> mstate \<Rightarrow> (page_id \<Rightarrow> block_lists) \<Rightarrow> mstate \<Rightarrow> bool" where
  "same_alive P X s X' s' \<longleftrightarrow> (\<forall>p \<in> P. alive_blocks p (X' p) s' = alive_blocks p (X p) s \<and>
     mi_page_block_size p s' = mi_page_block_size p s \<and> page_room p s' = page_room p s \<and>
     (\<forall>b \<in> alive_blocks p (X p) s. st_block s' b = st_block s b))"

definition page_available :: "page_id \<Rightarrow> block_lists \<Rightarrow> mstate \<Rightarrow> bool" where
  "page_available p X s \<longleftrightarrow> X \<noteq> ([], [], []) \<or> pg_capacity (st_page s p) < pg_reserved (st_page s p)"

lemma same_alive_refl: "same_alive P X s X s"
  by (simp add: same_alive_def)

lemma same_alive_trans: "same_alive P X s Y t \<Longrightarrow> same_alive P Y t Z u \<Longrightarrow> same_alive P X s Z u"
  by (simp add: same_alive_def)

text \<open>What the operations of this theory leave as it is.\<close>

definition heap_keeps :: "mstate \<Rightarrow> mstate \<Rightarrow> bool" where
  "heap_keeps s s' \<longleftrightarrow> st_segment s' = st_segment s \<and> st_thread_id s' = st_thread_id s \<and>
     st_deferred_free s' = st_deferred_free s \<and>
     (\<forall>g. hp_tld (st_heap s' g) = hp_tld (st_heap s g) \<and>
        hp_thread_delayed_free (st_heap s' g) = hp_thread_delayed_free (st_heap s g)) \<and>
     (\<forall>m. pg_xblock_size (st_page s' m) = pg_xblock_size (st_page s m) \<and>
        (mi_page_thread_free_flag (st_page s m) \<noteq> MI_DELAYED_FREEING \<longrightarrow>
         mi_page_thread_free_flag (st_page s' m) \<noteq> MI_DELAYED_FREEING))"

lemma heap_keeps_refl: "heap_keeps s s"
  by (simp add: heap_keeps_def)

lemma heap_keeps_trans: "heap_keeps s t \<Longrightarrow> heap_keeps t u \<Longrightarrow> heap_keeps s u"
  by (simp add: heap_keeps_def)

lemma heap_keeps_list_frame:
  assumes "list_frame p B s s'"
    and "mi_page_thread_free_flag (st_page s p) \<noteq> MI_DELAYED_FREEING \<longrightarrow>
      mi_page_thread_free_flag (st_page s' p) \<noteq> MI_DELAYED_FREEING"
  shows "heap_keeps s s'"
proof -
  obtain bl pgs where "s' = s\<lparr>st_block := bl, st_page := pgs\<rparr>" using assms unfolding list_frame_def by blast
  then have "st_thread_id s' = st_thread_id s" "st_deferred_free s' = st_deferred_free s" by simp_all
  moreover have "mi_page_thread_free_flag (st_page s m) \<noteq> MI_DELAYED_FREEING \<longrightarrow>
      mi_page_thread_free_flag (st_page s' m) \<noteq> MI_DELAYED_FREEING" for m
  proof (cases "m = p")
    case False
    then have "st_page s' m = st_page s m" using assms(1) unfolding list_frame_def by blast
    then show ?thesis by simp
  qed (use assms(2) in simp)
  ultimately show ?thesis
    using list_frame_fields [OF assms(1)] unfolding heap_keeps_def by (simp del: split_paired_All)
qed

text \<open>The thread and the callback of deferred frees stay through the operations on pages and queues.\<close>

lemma thread_id_upd_opt [simp]:
  "st_thread_id (page_upd_opt po f s) = st_thread_id s" "st_thread_id (tld_upd d k s) = st_thread_id s"
  "st_thread_id (mi_page_set_in_full p c s) = st_thread_id s"
  by (cases po; simp add: page_upd_opt_def) (simp_all add: tld_upd_def mi_page_set_in_full_def)

lemma deferred_free_upd [simp]:
  "st_deferred_free (page_upd p f s) = st_deferred_free s" "st_deferred_free (heap_upd h g s) = st_deferred_free s"
  "st_deferred_free (segment_upd a k s) = st_deferred_free s" "st_deferred_free (queue_upd q l s) = st_deferred_free s"
  "st_deferred_free (mi_heap_queue_first_update h q s) = st_deferred_free s"
  "st_deferred_free (tld_upd d j s) = st_deferred_free s" "st_deferred_free (mi_page_set_in_full p c s) = st_deferred_free s"
  "st_deferred_free (mstate_load env) = 0"
  by (simp_all add: page_upd_def heap_upd_def segment_upd_def queue_upd_def mi_heap_queue_first_update_def Let_def
      tld_upd_def mi_page_set_in_full_def mstate_load_def region_state.defs)

lemma deferred_free_upd_opt [simp]: "st_deferred_free (page_upd_opt po f s) = st_deferred_free (s :: mstate)"
  by (cases po; simp add: page_upd_opt_def)

lemma statics_enqueue [simp]:
  "st_thread_id (mi_page_queue_enqueue_from r q p s) = st_thread_id s"
  "st_deferred_free (mi_page_queue_enqueue_from r q p s) = st_deferred_free s"
  by (simp_all add: mi_page_queue_enqueue_from_def page_unlink_def page_link_last_def Let_def split: option.split)

lemma heap_keeps_core:
  assumes "\<And>g. heap_core (st_heap s' g) = heap_core (st_heap s g)" and "st_segment s' = st_segment s"
    and "\<And>m. page_core (st_page s' m) = page_core (st_page s m)"
    and "st_thread_id s' = st_thread_id s" "st_deferred_free s' = st_deferred_free s"
  shows "heap_keeps s s'"
proof -
  have "hp_tld (st_heap s' g) = hp_tld (st_heap s g) \<and>
      hp_thread_delayed_free (st_heap s' g) = hp_thread_delayed_free (st_heap s g)" for g
    using assms(1) [of g] by (cases "st_heap s' g"; cases "st_heap s g"; simp add: heap_core_def)
  then show ?thesis
    using assms(2-5) page_core_fields(2,8) [OF assms(3)] by (simp add: heap_keeps_def mi_page_thread_free_flag_def)
qed

lemma heap_keeps_enqueue: "heap_keeps s (mi_page_queue_enqueue_from r q p s)"
  by (rule heap_keeps_core) (simp_all add: queue_frame)

text \<open>What a page is depends on these fields.\<close>

lemma page_wf_fields:
  assumes "st_segment s' = st_segment s" and "\<And>b. b \<in> set (F @ L @ T) \<Longrightarrow> st_block s' b = st_block s b"
    and "pg_segment_idx (st_page s' p) = pg_segment_idx (st_page s p)"
      "pg_xblock_size (st_page s' p) = pg_xblock_size (st_page s p)" "pg_reserved (st_page s' p) = pg_reserved (st_page s p)"
      "pg_free (st_page s' p) = pg_free (st_page s p)" "pg_local_free (st_page s' p) = pg_local_free (st_page s p)"
      "pg_xthread_free (st_page s' p) = pg_xthread_free (st_page s p)"
      "pg_capacity (st_page s' p) = pg_capacity (st_page s p)" "pg_used (st_page s' p) = pg_used (st_page s p)"
  shows "page_wf p F L T s' = page_wf p F L T s" "page_alive p F L T s' = page_alive p F L T s"
    "page_room p s' = page_room p s" "mi_page_block_size p s' = mi_page_block_size p s"
proof -
  note G = page_geometry_frame [of s' p s]
  have same: "page_block p s' = page_block p s" "page_geometry p s' = page_geometry p s"
    using G assms(1,3-5) by simp_all
  have ch: "chain (st_block s') b F = chain (st_block s) b F" "chain (st_block s') b L = chain (st_block s) b L"
    "chain (st_block s') b T = chain (st_block s) b T" for b
    by (rule chain_cong, use assms(2) in simp)+
  show "page_wf p F L T s' = page_wf p F L T s" "page_alive p F L T s' = page_alive p F L T s"
    "page_room p s' = page_room p s"
    using assms(3-) ch by (simp_all add: page_wf_def page_alive_def page_room_def page_lists_def same mi_page_thread_free_def)
  show "mi_page_block_size p s' = mi_page_block_size p s" using G assms(1,3,4) by simp
qed

lemma page_wf_room: "page_wf p F L T s \<Longrightarrow> set (F @ L @ T) \<subseteq> page_room p s"
  unfolding page_wf_def page_room_def word_le_nat_alt
  by (elim conjE, erule subset_trans, rule image_mono) auto

text \<open>The blocks of two pages are apart, as the geometry of segments tells the page of an address.\<close>

lemma page_room_bounds:
  assumes G: "page_geometry p s" and x: "x \<in> page_room p s"
  shows "unat (page_area p s) \<le> unat x"
    and "unat x + unat (mi_page_block_size p s) \<le> unat (page_area p s) + unat (snd (mi_page_start p s))"
proof -
  obtain i where i: "i < unat (pg_reserved (st_page s p))" "x = page_block p s i"
    using x by (auto simp: page_room_def)
  then show "unat (page_area p s) \<le> unat x"
    "unat x + unat (mi_page_block_size p s) \<le> unat (page_area p s) + unat (snd (mi_page_start p s))"
    using unat_page_block(1) [OF G, of i] unat_page_block(2) [OF G, of "Suc i"] by simp_all
qed

lemma intervals_meet:
  fixes x y a b :: nat
  assumes "\<not> (x + a \<le> y \<or> y + b \<le> x)" and "0 < a" and "0 < b"
  shows "x \<le> max x y \<and> y \<le> max x y \<and> max x y < x + a \<and> max x y < y + b"
  using assms by auto

lemma page_room_apart:
  assumes G: "page_geometry p s" "page_geometry q s"
    and K: "sg_page_kind (st_segment s (fst p)) \<noteq> MI_PAGE_HUGE" "sg_page_kind (st_segment s (fst q)) \<noteq> MI_PAGE_HUGE"
    and pq: "p \<noteq> q" and x: "x \<in> page_room p s" and y: "y \<in> page_room q s"
  shows "unat x + unat (mi_page_block_size p s) \<le> unat y \<or> unat y + unat (mi_page_block_size q s) \<le> unat x"
proof (rule ccontr)
  assume over: "\<not> (unat x + unat (mi_page_block_size p s) \<le> unat y \<or> unat y + unat (mi_page_block_size q s) \<le> unat x)"
  define m where "m = (if unat x \<le> unat y then y else x)"
  have m: "unat m = max (unat x) (unat y)" by (simp add: m_def)
  have "0 < unat (mi_page_block_size p s)" "0 < unat (mi_page_block_size q s)"
    using G by (simp_all add: page_geometry_def word_less_nat_alt)
  note I = intervals_meet [OF over this, folded m]
  note bx = page_room_bounds [OF G(1) x] and yb = page_room_bounds [OF G(2) y]
  have "unat (page_area p s) \<le> unat m" "unat (page_area q s) \<le> unat m"
    using I bx(1) yb(1) by (meson le_trans)+
  moreover have "unat m < unat (page_area p s) + unat (snd (mi_page_start p s))"
    "unat m < unat (page_area q s) + unat (snd (mi_page_start q s))"
    using I bx(2) yb(2) by (meson less_le_trans)+
  ultimately have "p = mi_segment_page_of (mi_ptr_segment m) m s" "q = mi_segment_page_of (mi_ptr_segment m) m s"
    using page_area_ptr [OF G(1) K(1), of m] page_area_ptr [OF G(2) K(2), of m] by metis+
  then show False using pq by metis
qed

lemma pages_wf_apart:
  assumes "pages_wf P X s" and "p \<in> P" "q \<in> P" "p \<noteq> q" and "x \<in> page_room p s" and "y \<in> page_room q s"
  shows "unat x + unat (mi_page_block_size p s) \<le> unat y \<or> unat y + unat (mi_page_block_size q s) \<le> unat x"
  using assms by (intro page_room_apart) (auto simp: pages_wf_def wf_blocks_def page_wf_def)

lemma pages_wf_disjoint:
  assumes W: "pages_wf P X s" and "p \<in> P" "q \<in> P" "p \<noteq> q"
  shows "page_room p s \<inter> page_room q s = {}"
proof -
  have "0 < unat (mi_page_block_size p s)" "0 < unat (mi_page_block_size q s)"
    using assms by (auto simp: pages_wf_def wf_blocks_def page_wf_def page_geometry_def word_less_nat_alt)
  then show ?thesis using pages_wf_apart [OF assms] by fastforce
qed

lemma room_page:
  assumes "pages_wf P X s" and "p \<in> P" and "b \<in> page_room p s"
  shows "mi_ptr_page b s = p"
proof -
  have G: "page_geometry p s" and K: "sg_page_kind (st_segment s (fst p)) \<noteq> MI_PAGE_HUGE"
    using assms(1,2) by (auto simp: pages_wf_def wf_blocks_def page_wf_def)
  have "0 < unat (mi_page_block_size p s)" using G by (simp add: page_geometry_def word_less_nat_alt)
  then show ?thesis
    using page_room_bounds [OF G assms(3)] page_area_ptr(1,2) [OF G K, of b] by (simp add: mi_ptr_page_def)
qed

lemma alive_room:
  assumes "pages_wf P X s" and "p \<in> P"
  shows "alive_blocks p (X p) s \<subseteq> page_room p s"
  using assms
  by (auto simp: pages_wf_def wf_blocks_def page_wf_def alive_blocks_def page_alive_def page_room_def word_le_nat_alt)

text \<open>An operation on the lists of one page.\<close>

lemma pages_wf_replace:
  assumes W: "pages_wf P X s" and p: "p \<in> P" and fr: "list_frame p B s s'" and B: "B \<subseteq> page_room p s"
    and Y: "wf_blocks p Y s'"
  shows "pages_wf P (X(p := Y)) s'" and "page_room q s' = page_room q s"
    and "mi_page_block_size q s' = mi_page_block_size q s"
    and "q \<in> P - {p} \<Longrightarrow> alive_blocks q (X q) s' = alive_blocks q (X q) s"
    and "q \<in> P - {p} \<Longrightarrow> b \<in> alive_blocks q (X q) s \<Longrightarrow> st_block s' b = st_block s b"
proof -
  note K = list_frame_fields [OF fr]
  show "page_room q s' = page_room q s" "mi_page_block_size q s' = mi_page_block_size q s"
    using page_geometry_frame [of s' q s] K by (simp_all add: page_room_def)
  have other: "wf_blocks q (X q) s' \<and> alive_blocks q (X q) s' = alive_blocks q (X q) s"
    if q: "q \<in> P" "q \<noteq> p" for q
  proof -
    have wq: "wf_blocks q (X q) s" using W q unfolding pages_wf_def by blast
    have dis: "page_room p s \<inter> page_room q s = {}" using pages_wf_disjoint [OF W p q(1)] q(2) by blast
    have "st_block s' b = st_block s b" if "b \<in> set (fst (X q) @ fst (snd (X q)) @ snd (snd (X q)))" for b
      using page_wf_room [OF wq [unfolded wf_blocks_def]] that dis B fr unfolding list_frame_def by blast
    moreover have "st_page s' q = st_page s q" using fr q(2) unfolding list_frame_def by blast
    ultimately show ?thesis
      using page_wf_fields [of s' s "fst (X q)" "fst (snd (X q))" "snd (snd (X q))" q] wq K(1)
      by (simp add: wf_blocks_def alive_blocks_def)
  qed
  show "pages_wf P (X(p := Y)) s'" using W Y other K(1) unfolding pages_wf_def by simp
  show "alive_blocks q (X q) s' = alive_blocks q (X q) s" if "q \<in> P - {p}" using other that by blast
  show "st_block s' b = st_block s b" if "q \<in> P - {p}" "b \<in> alive_blocks q (X q) s"
  proof -
    have "b \<in> page_room q s" using alive_room [OF W] that by blast
    then have "b \<notin> B" using pages_wf_disjoint [OF W p, of q] that(1) B by blast
    then show ?thesis using fr unfolding list_frame_def by blast
  qed
qed

lemma pages_wf_step:
  assumes W: "pages_wf P X s" and p: "p \<in> P" and fr: "list_frame p B s s'" and B: "B \<subseteq> page_room p s"
    and Y: "wf_blocks p Y s'" and al: "alive_blocks p Y s' = alive_blocks p (X p) s"
    and free: "B \<inter> alive_blocks p (X p) s = {}"
  shows "pages_wf P (X(p := Y)) s'" and "same_alive P X s (X(p := Y)) s'"
proof -
  have "st_block s' b = st_block s b" if "b \<in> alive_blocks p (X p) s" for b
  proof -
    have "b \<notin> B" using that free by blast
    then show ?thesis using fr unfolding list_frame_def by blast
  qed
  then show "pages_wf P (X(p := Y)) s'" "same_alive P X s (X(p := Y)) s'"
    using pages_wf_replace [OF W p fr B Y] al by (simp_all add: same_alive_def)
qed

text \<open>The blocks held, by the page that an operation changes and the other pages.\<close>

lemma held_blocks_at:
  "p \<in> P \<Longrightarrow> held_blocks P X s = alive_blocks p (X p) s \<union> held_blocks (P - {p}) X s"
  by (auto simp: held_blocks_def)

lemma held_blocks_replace:
  assumes "pages_wf P X s" and p: "p \<in> P" and "list_frame p B s s'" and "B \<subseteq> page_room p s"
    and "wf_blocks p Y s'"
  shows "held_blocks P (X(p := Y)) s' = alive_blocks p Y s' \<union> held_blocks (P - {p}) X s"
proof -
  have "held_blocks (P - {p}) (X(p := Y)) s' = held_blocks (P - {p}) X s"
    using pages_wf_replace(4) [OF assms] by (simp add: held_blocks_def)
  then show ?thesis using held_blocks_at [OF p, of "X(p := Y)" s'] by simp
qed

lemma held_blocks_others:
  assumes W: "pages_wf P X s" and p: "p \<in> P" and b: "b \<in> page_room p s"
  shows "b \<notin> held_blocks (P - {p}) X s"
proof
  assume "b \<in> held_blocks (P - {p}) X s"
  then obtain q where q: "q \<in> P" "p \<noteq> q" "b \<in> alive_blocks q (X q) s" by (auto simp: held_blocks_def)
  then have "b \<in> page_room q s" using alive_room [OF W q(1)] by blast
  then show False using b pages_wf_disjoint [OF W p q(1,2)] by blast
qed

section \<open>One page of the queue\<close>

lemma collect_step:
  assumes W: "pages_wf P X s" and p: "p \<in> P"
  obtains s' Y where "mi_page_free_collect p False s = Some s'" "pages_wf P (X(p := Y)) s'"
    "same_alive P X s (X(p := Y)) s'" "fst Y = [] \<longleftrightarrow> X p = ([], [], [])" "fst Y = [] \<longrightarrow> Y = ([], [], [])"
    "list_frame p (page_room p s) s s'" "pg_capacity (st_page s' p) = pg_capacity (st_page s p)" "heap_keeps s s'"
proof -
  obtain F L T where X: "X p = (F, L, T)" by (cases "X p") auto
  obtain F' L' where C: "collected False F (T @ L) = (F', L')" by (metis surj_pair)
  have wf: "page_wf p F L T s" using W p X by (auto simp: pages_wf_def wf_blocks_def)
  obtain s' where R: "mi_page_free_collect p False s = Some s'" "page_wf p F' L' [] s'"
    "page_alive p F' L' [] s' = page_alive p F L T s" "list_frame p (set T \<union> set L) s s'"
    "pg_capacity (st_page s' p) = pg_capacity (st_page s p)"
    "mi_page_thread_free_flag (st_page s' p) = mi_page_thread_free_flag (st_page s p)"
    using page_wf_collect [OF wf C] by blast
  have B: "set T \<union> set L \<subseteq> page_room p s" using page_wf_room [OF wf] by auto
  have free: "(set T \<union> set L) \<inter> alive_blocks p (X p) s = {}" by (auto simp: alive_blocks_def page_alive_def X)
  note S = pages_wf_step [OF W p R(4) B _ _ free, of "(F', L', [])"]
  show thesis
  proof (rule that [OF R(1)])
    show "pages_wf P (X(p := (F', L', []))) s'" "same_alive P X s (X(p := (F', L', []))) s'"
      using S R(2,3) by (simp_all add: wf_blocks_def alive_blocks_def X)
    show "fst (F', L', []) = [] \<longleftrightarrow> X p = ([], [], [])" "fst (F', L', []) = [] \<longrightarrow> (F', L', []) = ([], [], [])"
      using C X by (cases F; auto)+
    show "list_frame p (page_room p s) s s'" by (rule list_frame_mono [OF R(4) B])
    show "heap_keeps s s'" by (rule heap_keeps_list_frame [OF R(4)]) (simp add: R(6))
  qed (rule R(5))
qed

lemma extend_step:
  assumes W: "pages_wf P X s" and p: "p \<in> P" and X: "X p = ([], [], [])"
    and room: "pg_capacity (st_page s p) < pg_reserved (st_page s p)"
  obtains s' Y where "mi_page_extend_free p s = Some s'" "pages_wf P (X(p := Y)) s'"
    "same_alive P X s (X(p := Y)) s'" "fst Y \<noteq> []" "list_frame p (page_room p s) s s'" "heap_keeps s s'"
proof -
  have wf: "page_wf p [] [] [] s" using W p X by (auto simp: pages_wf_def wf_blocks_def)
  let ?c = "unat (pg_capacity (st_page s p))"
  obtain s' e where R: "mi_page_extend_free p s = Some s'" "0 < e" "page_wf p (fresh_blocks p s ?c e) [] [] s'"
    "list_frame p (page_block p s ` {?c..<?c + e}) s s'" "unat (pg_capacity (st_page s' p)) = ?c + e"
    "pg_xthread_free (st_page s' p) = pg_xthread_free (st_page s p)"
    using mi_page_extend_free_wf [OF wf room] by blast
  have G: "page_geometry p s" using wf by (simp add: page_wf_def)
  have le: "?c + e \<le> unat (pg_reserved (st_page s p))"
    using R(3,5) list_frame_fields [OF R(4)] by (simp add: page_wf_def word_le_nat_alt)
  have B: "page_block p s ` {?c..<?c + e} \<subseteq> page_room p s"
    unfolding page_room_def using le by (intro image_mono) auto
  have same: "page_block p s' = page_block p s" by (rule page_wf_frame(2) [OF G R(4)])
  have "set (fresh_blocks p s ?c e) = page_block p s ` {?c..<?c + e}" by (simp add: fresh_blocks_def)
  then have "page_alive p (fresh_blocks p s ?c e) [] [] s' = page_block p s ` {..<?c + e} - page_block p s ` {?c..<?c + e}"
    by (simp add: page_alive_def same R(5))
  also have "\<dots> = page_block p s ` ({..<?c + e} - {?c..<?c + e})"
    using page_block_inj [OF G] le by (intro inj_on_image_set_diff [symmetric, where C = "{..<?c + e}"] inj_onI) auto
  also have "{..<?c + e} - {?c..<?c + e} = {..<?c}" by auto
  finally have al: "page_alive p (fresh_blocks p s ?c e) [] [] s' = page_alive p [] [] [] s"
    by (simp add: page_alive_def)
  have "alive_blocks p (X p) s = page_block p s ` {..<?c}" by (simp add: alive_blocks_def page_alive_def X)
  also have "page_block p s ` {?c..<?c + e} \<inter> \<dots> = page_block p s ` ({?c..<?c + e} \<inter> {..<?c})"
    using page_block_inj [OF G] le by (intro inj_on_image_Int [symmetric, where C = "{..<?c + e}"] inj_onI) auto
  finally have free: "page_block p s ` {?c..<?c + e} \<inter> alive_blocks p (X p) s = {}" by auto
  note S = pages_wf_step [OF W p R(4) B _ _ free, of "(fresh_blocks p s ?c e, [], [])"]
  show thesis
  proof (rule that [OF R(1)])
    show "pages_wf P (X(p := (fresh_blocks p s ?c e, [], []))) s'" "same_alive P X s (X(p := (fresh_blocks p s ?c e, [], []))) s'"
      using S R(3) al by (simp_all add: wf_blocks_def alive_blocks_def X)
    show "fst (fresh_blocks p s ?c e, [], []) \<noteq> []" using R(2) by (simp add: fresh_blocks_def)
    show "list_frame p (page_room p s) s s'" by (rule list_frame_mono [OF R(4) B])
    show "heap_keeps s s'" by (rule heap_keeps_list_frame [OF R(4)]) (simp add: R(6) mi_page_thread_free_flag_def)
  qed
qed

text \<open>The queue operations move pages and leave their blocks alone.\<close>

lemma pages_wf_fields:
  assumes "st_segment s' = st_segment s" and "st_block s' = st_block s"
    and "\<And>p. pg_segment_idx (st_page s' p) = pg_segment_idx (st_page s p)"
      "\<And>p. pg_xblock_size (st_page s' p) = pg_xblock_size (st_page s p)" "\<And>p. pg_reserved (st_page s' p) = pg_reserved (st_page s p)"
      "\<And>p. pg_free (st_page s' p) = pg_free (st_page s p)" "\<And>p. pg_local_free (st_page s' p) = pg_local_free (st_page s p)"
      "\<And>p. pg_xthread_free (st_page s' p) = pg_xthread_free (st_page s p)"
      "\<And>p. pg_capacity (st_page s' p) = pg_capacity (st_page s p)" "\<And>p. pg_used (st_page s' p) = pg_used (st_page s p)"
  shows "pages_wf P X s' = pages_wf P X s" and "same_alive P X s X s'"
    and "page_available p Y s' = page_available p Y s"
proof -
  have "page_wf p F L T s' = page_wf p F L T s" "page_alive p F L T s' = page_alive p F L T s"
    "page_room p s' = page_room p s" "mi_page_block_size p s' = mi_page_block_size p s" for p F L T
    by (rule page_wf_fields; simp add: assms)+
  then show "pages_wf P X s' = pages_wf P X s" "same_alive P X s X s'"
    by (simp_all add: pages_wf_def same_alive_def wf_blocks_def alive_blocks_def assms(1,2))
  show "page_available p Y s' = page_available p Y s" by (simp add: page_available_def assms)
qed

lemma pages_wf_core:
  assumes "\<And>m. page_core (st_page s' m) = page_core (st_page s m)" and "st_block s' = st_block s"
    and "st_segment s' = st_segment s"
  shows "pages_wf P X s' = pages_wf P X s" and "same_alive P X s X s'"
    and "page_available p Y s' = page_available p Y s"
proof -
  note c = page_core_fields [OF assms(1)]
  have i: "pg_segment_idx (st_page s' m) = pg_segment_idx (st_page s m)" for m
    using assms(1) [of m] by (cases "st_page s' m"; cases "st_page s m"; simp add: page_core_def)
  note F = pages_wf_fields [OF assms(3,2) i c(2,7,3,4,8,6,5)]
  show "pages_wf P X s' = pages_wf P X s" "same_alive P X s X s'" "page_available p Y s' = page_available p Y s"
    by (rule F)+
qed

section \<open>The search of a queue\<close>

lemma page_available_frame:
  assumes "list_frame p B s s'" and "q \<noteq> p"
  shows "page_available q Y s' = page_available q Y s"
proof -
  have "st_page s' q = st_page s q" using assms unfolding list_frame_def by blast
  then show ?thesis by (simp add: page_available_def)
qed

lemma queue_holds_next:
  assumes "queue_holds s q (p # ps)"
  shows "pg_next (st_page s p) = first_or ps None" and "p \<notin> set ps" and "distinct ps"
  using assms by (simp_all add: page_list.holds_def dlist_def)

lemma heap_repr_head:
  assumes "heap_repr h Q s" and "queue_bin k" and "Q k = p # ps"
  shows "queue_holds s (h, k) (p # ps)" and "mi_page_heap p s = h" and "page_bin (st_page s p) = k"
    and "in_queues p Q"
proof -
  have k: "k \<le> 74" using assms(2) by (rule queue_bin_used)
  show "queue_holds s (h, k) (p # ps)" "mi_page_heap p s = h" "page_bin (st_page s p) = k"
    using assms(1,3) k by (auto simp: heap_repr_def queue_lists_def queue_pages_ok_def)
  show "in_queues p Q" using k assms(3) by (auto simp: in_queues_def)
qed

text \<open>A page without room moves to the queue of full pages.\<close>

lemma to_full_step:
  assumes R: "heap_repr h Q s" and k: "queue_bin k" "k \<noteq> 74" and Q: "Q k = p # ps"
    and W: "pages_wf P X s" and p: "p \<in> P" and X: "X p = ([], [], [])"
  obtains s' where "mi_page_to_full p (h, k) s = Some s'" "heap_repr h (Q(k := ps, 74 := Q 74 @ [p])) s'"
    "pages_wf P X s'" "same_alive P X s X s'"
    "\<forall>q Y. q \<noteq> p \<longrightarrow> page_available q Y s' = page_available q Y s" "heap_keeps s s'"
proof -
  note H = heap_repr_head [OF R k(1) Q]
  let ?t = "mi_page_queue_enqueue_from (h, 74) (h, k) p s"
  have Rt: "heap_repr h (Q(k := ps, 74 := Q 74 @ [p])) ?t"
    using heap_repr_enqueue_from [OF R H(4) queue_bin_2(2)] H(3) k(2) Q by simp
  note C = pages_wf_core [of ?t s, OF queue_enqueue_core(1,7,6)]
  have W': "pages_wf P X ?t" using W C(1) by simp
  obtain s' Y where S: "mi_page_free_collect p False ?t = Some s'" "pages_wf P (X(p := Y)) s'"
    "same_alive P X ?t (X(p := Y)) s'" "fst Y = [] \<longleftrightarrow> X p = ([], [], [])" "fst Y = [] \<longrightarrow> Y = ([], [], [])"
    "list_frame p (page_room p ?t) ?t s'" "pg_capacity (st_page s' p) = pg_capacity (st_page ?t p)" "heap_keeps ?t s'"
    by (rule collect_step [OF W' p])
  have Y: "X(p := Y) = X" using S(4,5) X by (simp add: fun_upd_idem)
  have "page_bin (st_page s p) = k" by (rule H(3))
  then have nf: "\<not> pg_in_full (st_page s p)" using k(2) by (auto simp: page_bin_def mi_consts)
  show thesis
  proof (rule that [of s'])
    show "mi_page_to_full p (h, k) s = Some s'"
      using nf S(1) by (simp add: mi_page_to_full_def full_queue_def H(2) mi_consts)
    show "heap_repr h (Q(k := ps, 74 := Q 74 @ [p])) s'" using Rt heap_repr_list_frame [OF S(6)] by simp
    show "pages_wf P X s'" using S(2) Y by simp
    show "same_alive P X s X s'" using same_alive_trans [OF C(2) S(3)] Y by simp
    show "\<forall>q Y. q \<noteq> p \<longrightarrow> page_available q Y s' = page_available q Y s"
      using page_available_frame [OF S(6)] C(3) by simp
    show "heap_keeps s s'" by (rule heap_keeps_trans [OF heap_keeps_enqueue S(8)])
  qed
qed

text \<open>The pages before the first one with room go to the queue of full pages.\<close>

definition searched_queues ::
    "nat \<Rightarrow> (nat \<Rightarrow> page_id list) \<Rightarrow> (page_id \<Rightarrow> block_lists) \<Rightarrow> mstate \<Rightarrow> nat \<Rightarrow> page_id list" where
  "searched_queues k Q X s =
     (let full = (\<lambda>p. \<not> page_available p (X p) s)
      in Q(k := dropWhile full (Q k), 74 := Q 74 @ takeWhile full (Q k)))"

definition search_ends ::
    "page_id set \<Rightarrow> addr \<Rightarrow> (nat \<Rightarrow> page_id list) \<Rightarrow> nat \<Rightarrow> (page_id \<Rightarrow> block_lists) \<Rightarrow> mstate \<Rightarrow> (page_id \<Rightarrow> block_lists) \<Rightarrow> mstate \<Rightarrow> bool" where
  "search_ends P h Q k X s X' s' \<longleftrightarrow> pages_wf P X' s' \<and> same_alive P X s X' s' \<and> heap_keeps s s' \<and>
     heap_repr h Q s' \<and> (\<forall>p ps. Q k = p # ps \<longrightarrow> fst (X' p) \<noteq> [])"

lemma search_ends_trans:
  "same_alive P X s Y t \<Longrightarrow> heap_keeps s t \<Longrightarrow> search_ends P h Q k Y t Z u \<Longrightarrow> search_ends P h Q k X s Z u"
  by (auto simp: search_ends_def intro: same_alive_trans heap_keeps_trans)

lemma collect_empty:
  assumes "pages_wf P (X(p := Y)) s" and "p \<in> P"
  shows "mi_page_immediate_available (st_page s p) \<longleftrightarrow> fst Y \<noteq> []"
proof -
  have "page_lists p (fst Y) (fst (snd Y)) (snd (snd Y)) s"
    using assms by (auto simp: pages_wf_def wf_blocks_def page_wf_def)
  then show ?thesis by (cases "fst Y") (auto simp: page_lists_def mi_page_immediate_available_def)
qed

lemma search_stop:
  assumes R: "heap_repr h Q s" and Q: "Q k = p # ps" and W: "pages_wf P X s" and p: "p \<in> P"
    and av: "page_available p (X p) s"
  shows "\<exists>s' X'. find_free_pages (h, k) (Some p) s = Some (Some p, s') \<and> search_ends P h Q k X s X' s'"
proof -
  obtain s1 Y where S: "mi_page_free_collect p False s = Some s1" "pages_wf P (X(p := Y)) s1"
    "same_alive P X s (X(p := Y)) s1" "fst Y = [] \<longleftrightarrow> X p = ([], [], [])" "fst Y = [] \<longrightarrow> Y = ([], [], [])"
    "list_frame p (page_room p s) s s1" "pg_capacity (st_page s1 p) = pg_capacity (st_page s p)" "heap_keeps s s1"
    by (rule collect_step [OF W p])
  have R1: "heap_repr h Q s1" using R heap_repr_list_frame [OF S(6)] by simp
  note empty = collect_empty [OF S(2) p]
  show ?thesis
  proof (cases "fst Y = []")
    case False
    then have "search_ends P h Q k X s (X(p := Y)) s1"
      using S(2,3) R1 Q S(8) by (simp add: search_ends_def)
    moreover have "find_free_pages (h, k) (Some p) s = Some (Some p, s1)"
      using False empty by (subst find_free_pages.simps) (simp add: Let_def S(1))
    ultimately show ?thesis by blast
  next
    case True
    have Y: "(X(p := Y)) p = ([], [], [])" using True S(5) by simp
    have room: "pg_capacity (st_page s1 p) < pg_reserved (st_page s1 p)"
      using av True S(4,7) list_frame_fields [OF S(6)] by (simp add: page_available_def)
    obtain s2 Z where E: "mi_page_extend_free p s1 = Some s2" "pages_wf P (X(p := Y, p := Z)) s2"
      "same_alive P (X(p := Y)) s1 (X(p := Y, p := Z)) s2" "fst Z \<noteq> []" "list_frame p (page_room p s1) s1 s2"
      "heap_keeps s1 s2"
      by (rule extend_step [OF S(2) p Y room])
    have "heap_repr h Q s2" using R1 heap_repr_list_frame [OF E(5)] by simp
    then have "search_ends P h Q k X s (X(p := Y, p := Z)) s2"
      using E(2,4) Q same_alive_trans [OF S(3) E(3)] heap_keeps_trans [OF S(8) E(6)]
      by (simp add: search_ends_def)
    moreover have "find_free_pages (h, k) (Some p) s = Some (Some p, s2)"
      using True empty room E(1) by (subst find_free_pages.simps) (simp add: Let_def S(1))
    ultimately show ?thesis by blast
  qed
qed

lemma search_skip:
  assumes R: "heap_repr h Q s" and k: "queue_bin k" "k \<noteq> 74" and Q: "Q k = p # ps" and W: "pages_wf P X s" and p: "p \<in> P"
    and av: "\<not> page_available p (X p) s"
  obtains s' X' where "find_free_pages (h, k) (Some p) s = find_free_pages (h, k) (first_or ps None) s'"
    "heap_repr h (Q(k := ps, 74 := Q 74 @ [p])) s'" "pages_wf P X' s'" "same_alive P X s X' s'"
    "\<forall>q \<in> set ps. page_available q (X' q) s' = page_available q (X q) s" "heap_keeps s s'"
proof -
  note N = queue_holds_next [OF heap_repr_head(1) [OF R k(1) Q]]
  obtain s1 Y where S: "mi_page_free_collect p False s = Some s1" "pages_wf P (X(p := Y)) s1"
    "same_alive P X s (X(p := Y)) s1" "fst Y = [] \<longleftrightarrow> X p = ([], [], [])" "fst Y = [] \<longrightarrow> Y = ([], [], [])"
    "list_frame p (page_room p s) s s1" "pg_capacity (st_page s1 p) = pg_capacity (st_page s p)" "heap_keeps s s1"
    by (rule collect_step [OF W p])
  have R1: "heap_repr h Q s1" using R heap_repr_list_frame [OF S(6)] by simp
  have none: "fst Y = []" using av S(4) by (auto simp: page_available_def)
  have no_room: "\<not> pg_capacity (st_page s1 p) < pg_reserved (st_page s1 p)"
    using av S(7) list_frame_fields [OF S(6)] by (simp add: page_available_def)
  have Y: "(X(p := Y)) p = ([], [], [])" using none S(5) by simp
  obtain s2 where F: "mi_page_to_full p (h, k) s1 = Some s2" "heap_repr h (Q(k := ps, 74 := Q 74 @ [p])) s2"
    "pages_wf P (X(p := Y)) s2" "same_alive P (X(p := Y)) s1 (X(p := Y)) s2"
    "\<forall>q Y. q \<noteq> p \<longrightarrow> page_available q Y s2 = page_available q Y s1" "heap_keeps s1 s2"
    by (rule to_full_step [OF R1 k Q S(2) p Y])
  show thesis
  proof (rule that [OF _ F(2,3) same_alive_trans [OF S(3) F(4)] _ heap_keeps_trans [OF S(8) F(6)]])
    show "find_free_pages (h, k) (Some p) s = find_free_pages (h, k) (first_or ps None) s2"
      using none collect_empty [OF S(2) p] no_room F(1)
      by (subst find_free_pages.simps) (simp add: Let_def S(1) N(1))
    show "\<forall>q \<in> set ps. page_available q ((X(p := Y)) q) s2 = page_available q (X q) s"
    proof
      fix q assume "q \<in> set ps"
      then have "q \<noteq> p" using N(2) by blast
      then show "page_available q ((X(p := Y)) q) s2 = page_available q (X q) s"
        using F(5) page_available_frame [OF S(6)] by (simp del: split_paired_All)
    qed
  qed
qed

lemma find_free_pages_run:
  assumes "heap_repr h Q s" and "queue_bin k" "k \<noteq> 74" and "Q k = ps" and "set ps \<subseteq> P" and "pages_wf P X s"
  shows "\<exists>s' X'. find_free_pages (h, k) (first_or ps None) s =
      Some (first_or (searched_queues k Q X s k) None, s') \<and>
    search_ends P h (searched_queues k Q X s) k X s X' s'"
  using assms
proof (induction ps arbitrary: Q s X)
  case Nil
  then have "searched_queues k Q X s = Q" by (simp add: searched_queues_def fun_upd_idem)
  then show ?case using Nil by (auto simp: find_free_pages.simps same_alive_refl heap_keeps_refl search_ends_def)
next
  case (Cons p ps)
  note R = Cons.prems(1) and k = Cons.prems(2,3) and Q = Cons.prems(4) and W = Cons.prems(6)
  have p: "p \<in> P" "set ps \<subseteq> P" using Cons.prems(5) by simp_all
  show ?case
  proof (cases "page_available p (X p) s")
    case True
    then have "searched_queues k Q X s = Q" using k(2) Q by (simp add: searched_queues_def fun_upd_idem)
    then show ?thesis using search_stop [where h = h, OF R Q W p(1) True] Q by simp
  next
    case False
    obtain s1 Y where S: "find_free_pages (h, k) (Some p) s = find_free_pages (h, k) (first_or ps None) s1"
      "heap_repr h (Q(k := ps, 74 := Q 74 @ [p])) s1" "pages_wf P Y s1" "same_alive P X s Y s1"
      "\<forall>q \<in> set ps. page_available q (Y q) s1 = page_available q (X q) s" "heap_keeps s s1"
      by (rule search_skip [OF R k Q W p(1) False])
    have "searched_queues k (Q(k := ps, 74 := Q 74 @ [p])) Y s1 = searched_queues k Q X s"
      using False k(2) Q S(5) by (simp add: searched_queues_def Let_def fun_eq_iff cong: takeWhile_cong dropWhile_cong)
    moreover have "(Q(k := ps, 74 := Q 74 @ [p])) k = ps" using k(2) by simp
    ultimately obtain s' X' where
      "find_free_pages (h, k) (first_or ps None) s1 = Some (first_or (searched_queues k Q X s k) None, s')"
      "search_ends P h (searched_queues k Q X s) k Y s1 X' s'"
      using Cons.IH [OF S(2) k _ p(2) S(3)] by metis
    then show ?thesis using search_ends_trans [OF S(4,6)] S(1) by (simp, blast)
  qed
qed

section \<open>Finding a page\<close>

lemma search_ends_retire:
  assumes "search_ends P h Q k X s X' s'"
  shows "search_ends P h Q k X s X' (page_upd p (\<lambda>pg. pg\<lparr>pg_retire_expire := 0\<rparr>) s')"
proof -
  let ?t = "page_upd p (\<lambda>pg. pg\<lparr>pg_retire_expire := 0\<rparr>) s'"
  have F: "pages_wf P X' ?t = pages_wf P X' s'" "same_alive P X' s' X' ?t"
    by (rule pages_wf_fields; simp add: store_simps)+
  have "heap_repr h Q ?t = heap_repr h Q s'" by (rule heap_repr_cong) (simp_all add: store_simps)
  moreover have "heap_keeps s' ?t" by (simp add: heap_keeps_def store_simps mi_page_thread_free_flag_def)
  ultimately show ?thesis using assms F same_alive_trans heap_keeps_trans by (auto simp: search_ends_def)
qed

lemma find_free_ex_run:
  assumes R: "heap_repr h Q s" and k: "queue_bin k" "k \<noteq> 74" and sub: "set (Q k) \<subseteq> P" and W: "pages_wf P X s"
    and some: "searched_queues k Q X s k = p # ps"
  shows "\<exists>s' X'. mi_page_queue_find_free_ex h (h, k) True s = Some (Some p, s') \<and>
    search_ends P h (searched_queues k Q X s) k X s X' s'"
proof -
  obtain s' X' where F: "find_free_pages (h, k) (first_or (Q k) None) s = Some (Some p, s')"
    "search_ends P h (searched_queues k Q X s) k X s X' s'"
    using find_free_pages_run [OF R k refl sub W] some by auto
  have "queue_holds s (h, k) (Q k)"
    using R queue_bin_used(1) [OF k(1)] by (simp add: heap_repr_def queue_lists_def)
  then have "pq_first (queue_of (h, k) s) = first_or (Q k) None"
    by (simp add: page_list.holds_first)
  then show ?thesis
    using F(1) search_ends_retire [OF F(2), of p]
    by (auto simp: mi_page_queue_find_free_ex_def queue_find_free_once_def)
qed

lemma mi_find_free_page_run:
  assumes R: "heap_repr h Q s" and k: "queue_bin k" "k \<noteq> 74" and sub: "set (Q k) \<subseteq> P" and W: "pages_wf P X s"
    and some: "searched_queues k Q X s k = p # ps" and sz: "unat (mi_bin sz) = k"
  shows "\<exists>s' X'. mi_find_free_page h sz s = Some (Some p, s') \<and>
    search_ends P h (searched_queues k Q X s) k X s X' s'"
proof -
  obtain q qs where Q: "Q k = q # qs" using some k(2) by (cases "Q k") (auto simp: searched_queues_def)
  have q: "q \<in> P" using sub Q by simp
  obtain s1 Y where S: "mi_page_free_collect q False s = Some s1" "pages_wf P (X(q := Y)) s1"
    "same_alive P X s (X(q := Y)) s1" "fst Y = [] \<longleftrightarrow> X q = ([], [], [])" "fst Y = [] \<longrightarrow> Y = ([], [], [])"
    "list_frame q (page_room q s) s s1" "pg_capacity (st_page s1 q) = pg_capacity (st_page s q)" "heap_keeps s s1"
    by (rule collect_step [OF W q])
  have R1: "heap_repr h Q s1" using R heap_repr_list_frame [OF S(6)] by simp
  have first: "pq_first (queue_of (h, k) s) = Some q"
    using heap_repr_head(1) [OF R k(1) Q] by (simp add: page_list.holds_first)
  note empty = collect_empty [OF S(2) q]
  show ?thesis
  proof (cases "fst Y = []")
    case False
    then have "searched_queues k Q X s = Q" "p = q"
      using some Q k(2) S(4) by (auto simp: searched_queues_def page_available_def fun_upd_idem split: if_splits)
    moreover have "search_ends P h Q k X s (X(q := Y)) s1"
      using False S(2,3) R1 Q S(8) by (simp add: search_ends_def)
    ultimately show ?thesis
      using False empty S(1) first search_ends_retire [of P h Q k X s "X(q := Y)" s1 q]
      by (auto simp: mi_find_free_page_def mi_page_queue_def sz Let_def)
  next
    case True
    have av: "page_available m ((X(q := Y)) m) s1 = page_available m (X m) s" for m
    proof (cases "m = q")
      case True
      then show ?thesis using \<open>fst Y = []\<close> S(4,5,7) list_frame_fields [OF S(6)] by (simp add: page_available_def)
    next
      case False
      then show ?thesis using page_available_frame [OF S(6) False] by simp
    qed
    have "searched_queues k Q (X(q := Y)) s1 = searched_queues k Q X s"
      by (simp only: searched_queues_def av)
    then obtain s' X' where "mi_page_queue_find_free_ex h (h, k) True s1 = Some (Some p, s')"
      "search_ends P h (searched_queues k Q X s) k (X(q := Y)) s1 X' s'"
      using find_free_ex_run [OF R1 k sub S(2)] some by metis
    then show ?thesis
      using True empty S(1) first search_ends_trans [OF S(3) S(8)]
      by (simp add: mi_find_free_page_def mi_page_queue_def sz Let_def, blast)
  qed
qed

section \<open>Generic allocation\<close>

text \<open>A request that gets a page with a free block.\<close>

lemma deferred_free_idle:
  assumes "heap_tld h s \<noteq> 0" and "st_deferred_free s = 0"
  shows "mi_deferred_free h force s =
    Some (tld_upd (heap_tld h s) (\<lambda>tl. tl\<lparr>tl_heartbeat := tl_heartbeat tl + 1\<rparr>) s)"
  using assms by (simp add: mi_deferred_free_def Let_def tld_upd_def)

text \<open>The first free block of a page among many.\<close>

lemma pop_step:
  assumes W: "pages_wf P X s" and p: "p \<in> P" and X: "X p = (b # F, L, T)"
  obtains s' where "page_pop p s = (b, s')" "pages_wf P (X(p := (F, L, T))) s'"
    "b \<in> page_room p s" "b \<noteq> 0" "b \<notin> held_blocks P X s"
    "held_blocks P (X(p := (F, L, T))) s' = insert b (held_blocks P X s)"
    "list_frame p {} s s'" "heap_keeps s s'"
proof -
  have wf: "page_wf p (b # F) L T s" using W p X by (auto simp: pages_wf_def wf_blocks_def)
  obtain s' where S: "page_pop p s = (b, s')" "page_wf p F L T s'" "list_frame p {} s s'"
    "b \<notin> page_alive p (b # F) L T s" "page_alive p F L T s' = insert b (page_alive p (b # F) L T s)"
    by (rule page_pop_wf [OF wf])
  have Y: "wf_blocks p (F, L, T) s'" using S(2) by (simp add: wf_blocks_def)
  have room: "b \<in> page_room p s" using page_wf_room [OF wf] by simp
  show thesis
  proof (rule that [OF S(1) _ room])
    show "pages_wf P (X(p := (F, L, T))) s'" by (rule pages_wf_replace(1) [OF W p S(3) _ Y]) simp
    show "b \<noteq> 0" using wf by (simp add: page_wf_def page_lists_def)
    show "b \<notin> held_blocks P X s"
      using held_blocks_others [OF W p room] S(4) X by (simp add: held_blocks_at [OF p] alive_blocks_def)
    show "held_blocks P (X(p := (F, L, T))) s' = insert b (held_blocks P X s)"
      using held_blocks_replace [OF W p S(3) _ Y] S(5) X by (simp add: held_blocks_at [OF p] alive_blocks_def)
    have "s' = snd (page_pop p s)" using S(1) by simp
    then have "mi_page_thread_free_flag (st_page s' p) = mi_page_thread_free_flag (st_page s p)"
      by (simp add: page_pop_def Let_def store_simps mi_page_thread_free_flag_def)
    then show "heap_keeps s s'" by (intro heap_keeps_list_frame [OF S(3)]) simp
  qed (rule S(3))
qed

lemma held_blocks_same:
  "same_alive P X s X' s' \<Longrightarrow> held_blocks P X' s' = held_blocks P X s"
  by (simp add: held_blocks_def same_alive_def)

lemma same_alive_block:
  "same_alive P X s X' s' \<Longrightarrow> x \<in> held_blocks P X s \<Longrightarrow> st_block s' x = st_block s x"
  by (auto simp: held_blocks_def same_alive_def)

text \<open>A new block overlaps no block held before.\<close>

lemma rooms_apart:
  assumes W: "pages_wf P X s" and p: "p \<in> P" "x \<in> page_room p s" and q: "q \<in> P" "y \<in> page_room q s" and "x \<noteq> y"
  shows "unat x + unat (mi_page_block_size p s) \<le> unat y \<or> unat y + unat (mi_page_block_size q s) \<le> unat x"
proof (cases "p = q")
  case True
  have "page_geometry q s" using W q(1) by (simp add: pages_wf_def wf_blocks_def page_wf_def)
  then show ?thesis
    using page_blocks_disjoint [of q s "unat (pg_reserved (st_page s q))" x y] True p(2) q(2) \<open>x \<noteq> y\<close>
    by (simp add: page_room_def)
next
  case False
  show ?thesis by (rule pages_wf_apart [OF W p(1) q(1) False p(2) q(2)])
qed

lemma held_apart:
  assumes W: "pages_wf P X s" and p: "p \<in> P" and b: "b \<in> page_room p s" "b \<notin> held_blocks P X s"
    and q: "q \<in> P" and x: "x \<in> alive_blocks q (X q) s"
  shows "unat b + unat (mi_page_block_size p s) \<le> unat x \<or> unat x + unat (mi_page_block_size q s) \<le> unat b"
proof (rule rooms_apart [OF W p b(1) q])
  show "x \<in> page_room q s" using alive_room [OF W q] x by blast
  show "b \<noteq> x" using b(2) q x by (auto simp: held_blocks_def)
qed

text \<open>The result of an allocation: a block the program did not hold and that overlaps none it holds.\<close>

definition malloc_ends ::
    "page_id set \<Rightarrow> addr \<Rightarrow> (nat \<Rightarrow> page_id list) \<Rightarrow> u64 \<Rightarrow> (page_id \<Rightarrow> block_lists) \<Rightarrow> mstate \<Rightarrow>
      addr \<Rightarrow> (page_id \<Rightarrow> block_lists) \<Rightarrow> mstate \<Rightarrow> bool" where
  "malloc_ends P h Q sz X s b X' s' \<longleftrightarrow> heap_repr h Q s' \<and> pages_wf P X' s' \<and> heap_keeps s s' \<and>
     (\<forall>q \<in> P. mi_page_block_size q s' = mi_page_block_size q s) \<and> b \<noteq> 0 \<and>
     b \<notin> held_blocks P X s \<and> held_blocks P X' s' = insert b (held_blocks P X s) \<and>
     (\<forall>x \<in> held_blocks P X s. st_block s' x = st_block s x) \<and>
     sz \<le> mi_page_block_size (mi_ptr_page b s) s \<and>
     mi_page_block_size (mi_ptr_page b s) s = mi_bin_size (mi_bin sz) \<and>
     (\<forall>q \<in> P. \<forall>x \<in> alive_blocks q (X q) s.
        unat b + unat sz \<le> unat x \<or> unat x + unat (mi_page_block_size q s) \<le> unat b)"

lemma page_pop_ends:
  assumes E: "search_ends P h Q k X s X' s'" and Q: "Q k = p # ps" and p: "p \<in> P"
    and fits: "sz \<le> mi_bin_size (mi_bin sz)" "mi_page_block_size p s = mi_bin_size (mi_bin sz)"
  shows "\<exists>b t Y. pg_free (st_page s' p) \<noteq> 0 \<and> page_pop p s' = (b, t) \<and> malloc_ends P h Q sz X s b Y t"
proof -
  have W: "pages_wf P X' s'" and A: "same_alive P X s X' s'" and R: "heap_repr h Q s'" and K: "heap_keeps s s'"
    using E by (simp_all add: search_ends_def)
  obtain b F L T where X: "X' p = (b # F, L, T)"
    using E Q by (cases "X' p"; cases "fst (X' p)") (auto simp: search_ends_def)
  obtain t where S: "page_pop p s' = (b, t)" "pages_wf P (X'(p := (F, L, T))) t" "b \<in> page_room p s'" "b \<noteq> 0"
    "b \<notin> held_blocks P X' s'" "held_blocks P (X'(p := (F, L, T))) t = insert b (held_blocks P X' s')" "list_frame p {} s' t"
    "heap_keeps s' t"
    by (rule pop_step [OF W p X])
  have "pg_free (st_page s' p) \<noteq> 0" using S(1,4) by (simp add: page_pop_def Let_def)
  moreover have "unat b + unat sz \<le> unat x \<or> unat x + unat (mi_page_block_size q s) \<le> unat b"
    if "q \<in> P" "x \<in> alive_blocks q (X q) s" for q x
  proof -
    have "x \<in> alive_blocks q (X' q) s'" "mi_page_block_size q s' = mi_page_block_size q s"
      "mi_page_block_size p s' = mi_page_block_size p s"
      using A that p by (simp_all add: same_alive_def)
    moreover have "unat sz \<le> unat (mi_page_block_size p s)" using fits by (simp add: word_le_nat_alt)
    ultimately show ?thesis using held_apart [OF W p S(3,5) that(1)] by fastforce
  qed
  moreover have "heap_repr h Q t" using R heap_repr_list_frame [OF S(7)] by simp
  moreover have "heap_keeps s t" by (rule heap_keeps_trans [OF K S(8)])
  moreover have "mi_page_block_size q t = mi_page_block_size q s" if "q \<in> P" for q
    using A that list_frame_fields [OF S(7)] page_geometry_frame [of t q s'] by (simp add: same_alive_def)
  moreover have "st_block t x = st_block s x" if "x \<in> held_blocks P X s" for x
    using same_alive_block [OF A that] S(7) unfolding list_frame_def by simp
  moreover have "mi_page_block_size (mi_ptr_page b s) s = mi_bin_size (mi_bin sz)"
  proof -
    have "mi_ptr_page b s' = p" by (rule room_page [OF W p S(3)])
    moreover have "mi_ptr_page b s' = mi_ptr_page b s"
      using K by (simp add: mi_ptr_page_def mi_segment_page_of_def mi_segment_page_idx_of_def heap_keeps_def)
    ultimately show ?thesis using fits by simp
  qed
  ultimately show ?thesis
    using S fits(1) held_blocks_same [OF A] unfolding malloc_ends_def by metis
qed

text \<open>A request finds its page in the queue of its size class.\<close>

definition heap_running :: "addr \<Rightarrow> mstate \<Rightarrow> bool" where
  "heap_running h s \<longleftrightarrow> mi_heap_is_initialized h \<and> heap_tld h s \<noteq> 0 \<and> st_deferred_free s = 0"

definition heap_ready :: "addr \<Rightarrow> mstate \<Rightarrow> bool" where
  "heap_ready h s \<longleftrightarrow> heap_running h s \<and> hp_thread_delayed_free (st_heap s h) = 0"

lemma request_bin:
  assumes "sz \<le> MI_LARGE_OBJ_SIZE_MAX"
  shows "queue_bin (unat (mi_bin sz))" and "unat (mi_bin sz) \<noteq> 74" and "sz \<le> mi_bin_size (mi_bin sz)"
proof -
  note C = mi_bin_char [OF assms]
  show k: "queue_bin (unat (mi_bin sz))" "unat (mi_bin sz) \<noteq> 74"
    using C by (auto simp: queue_bin_def bin_used_def)
  have "unat (mi_wsize_from_size sz) = (unat sz + 7) div 8"
    using assms by (simp add: unat_mi_wsize_from_size word_le_nat_alt mi_consts)
  then show "sz \<le> mi_bin_size (mi_bin sz)"
    using C unat_mi_bin_size [OF queue_bin_used(1) [OF k(1)]] unfolding word_le_nat_alt by simp linarith
qed

text \<open>The generic path, from the state after the deferred and the delayed frees.\<close>

lemma malloc_generic_found:
  assumes start: "mi_heap_is_initialized h" "mi_deferred_free h False s = Some t" "mi_heap_delayed_free h t = Some u"
    and R: "heap_repr h Q u" and W: "pages_wf P X u" and sz: "sz \<le> MI_LARGE_OBJ_SIZE_MAX"
    and sub: "set (Q (unat (mi_bin sz))) \<subseteq> P" and some: "searched_queues (unat (mi_bin sz)) Q X u (unat (mi_bin sz)) = p # ps"
    and fits: "mi_page_block_size p u = mi_bin_size (mi_bin sz)"
  shows "\<exists>b s' X'. mi_malloc_generic h sz s = Some (b, s') \<and>
    malloc_ends P h (searched_queues (unat (mi_bin sz)) Q X u) sz X u b X' s'"
proof -
  let ?k = "unat (mi_bin sz)"
  note k = request_bin [OF sz]
  obtain v Y where found: "mi_find_free_page h sz u = Some (Some p, v)" "search_ends P h (searched_queues ?k Q X u) ?k X u Y v"
    using mi_find_free_page_run [OF R k(1,2) sub W some refl] by blast
  have page: "malloc_generic_page h sz s = Some (h, Some p, v)"
    using start leD [OF sz] found(1) by (simp add: malloc_generic_page_def mi_find_page_def)
  have "set (p # ps) \<subseteq> set (Q ?k)"
    using some k(2) set_dropWhileD by (metis (no_types, lifting) fun_upd_apply searched_queues_def subsetI)
  then have p: "p \<in> P" using sub by auto
  obtain b s' X' where "pg_free (st_page v p) \<noteq> 0" "page_pop p v = (b, s')"
    "malloc_ends P h (searched_queues ?k Q X u) sz X u b X' s'"
    using page_pop_ends [OF found(2) some p] k(3) fits by metis
  then show ?thesis by (subst mi_malloc_generic.simps) (auto simp: page)
qed

lemma malloc_ends_from:
  assumes A: "same_alive P X s X t" and K: "heap_keeps s t" and M: "malloc_ends P h Q sz X t b X' s'"
  shows "malloc_ends P h Q sz X s b X' s'"
proof -
  have p: "mi_ptr_page b t = mi_ptr_page b s"
    using K by (simp add: mi_ptr_page_def mi_segment_page_of_def mi_segment_page_idx_of_def heap_keeps_def)
  note held = held_blocks_same [OF A]
  have alive: "alive_blocks q (X q) t = alive_blocks q (X q) s" "mi_page_block_size q t = mi_page_block_size q s"
    if "q \<in> P" for q using A that by (simp_all add: same_alive_def)
  have "heap_keeps s s'" by (rule heap_keeps_trans [OF K]) (use M in \<open>simp add: malloc_ends_def\<close>)
  moreover have "st_block s' x = st_block s x" if "x \<in> held_blocks P X s" for x
    using M same_alive_block [OF A that] that held by (simp add: malloc_ends_def)
  moreover have "mi_page_block_size (mi_ptr_page b s) s = mi_page_block_size (mi_ptr_page b t) t"
  proof -
    have "b \<in> held_blocks P X' s'" "pages_wf P X' s'" using M by (auto simp: malloc_ends_def)
    then obtain q where q: "q \<in> P" "b \<in> alive_blocks q (X' q) s'" by (auto simp: held_blocks_def)
    have "mi_ptr_page b s' = q" using room_page [OF \<open>pages_wf P X' s'\<close> q(1)] alive_room [OF \<open>pages_wf P X' s'\<close> q(1)] q(2) by blast
    moreover have "mi_ptr_page b s' = mi_ptr_page b s"
      using \<open>heap_keeps s s'\<close> by (simp add: mi_ptr_page_def mi_segment_page_of_def mi_segment_page_idx_of_def heap_keeps_def)
    ultimately show ?thesis using p alive(2) [OF q(1)] by simp
  qed
  moreover have "sz \<le> mi_bin_size (mi_bin sz)" using M unfolding malloc_ends_def by metis
  ultimately show ?thesis using M held alive by (simp add: malloc_ends_def)
qed

lemma malloc_generic_ends:
  assumes R: "heap_repr h Q s" and W: "pages_wf P X s" and sz: "sz \<le> MI_LARGE_OBJ_SIZE_MAX"
    and sub: "set (Q (unat (mi_bin sz))) \<subseteq> P" and some: "searched_queues (unat (mi_bin sz)) Q X s (unat (mi_bin sz)) = p # ps"
    and fits: "mi_page_block_size p s = mi_bin_size (mi_bin sz)" and init: "heap_ready h s"
  shows "\<exists>b s' X'. mi_malloc_generic h sz s = Some (b, s') \<and>
    malloc_ends P h (searched_queues (unat (mi_bin sz)) Q X s) sz X s b X' s'"
proof -
  let ?k = "unat (mi_bin sz)"
  define t where "t = tld_upd (heap_tld h s) (\<lambda>tl. tl\<lparr>tl_heartbeat := tl_heartbeat tl + 1\<rparr>) s"
  have "heap_repr h Q t = heap_repr h Q s" by (rule heap_repr_cong) (simp_all add: t_def store_simps)
  then have Rt: "heap_repr h Q t" using R by simp
  have F: "pages_wf P X t = pages_wf P X s" "same_alive P X s X t" "page_available m Y t = page_available m Y s" for m Y
    by (rule pages_wf_fields; simp add: t_def store_simps)+
  have same: "searched_queues ?k Q X t = searched_queues ?k Q X s" by (simp only: searched_queues_def F(3))
  have def: "mi_deferred_free h False s = Some t"
    using init by (simp add: heap_ready_def heap_running_def deferred_free_idle t_def)
  have del: "mi_heap_delayed_free h t = Some t"
    using init by (simp add: heap_ready_def mi_heap_delayed_free_def delayed_free_loop.simps t_def store_simps)
  have "heap_keeps s t" by (simp add: heap_keeps_def t_def store_simps)
  moreover have "mi_page_block_size p t = mi_page_block_size p s"
    using page_geometry_frame [of t p s] by (simp add: t_def store_simps)
  ultimately show ?thesis
    using malloc_generic_found [OF _ def del Rt _ sz sub, of X p ps] malloc_ends_from [OF F(2)] W F(1) some same fits init
    by (metis heap_ready_def heap_running_def)
qed

lemma malloc_small_head:
  assumes R: "heap_repr h Q s" and sz: "sz \<le> MI_SMALL_SIZE_MAX" and Q: "Q (unat (mi_bin sz)) = p # ps"
  shows "mi_heap_malloc h sz s = mi_page_malloc h p sz s"
proof -
  note D = direct_bin_request [OF sz]
  have "queue_holds s (h, unat (mi_bin sz)) (p # ps)"
    using R D(4) Q by (auto simp: heap_repr_def queue_lists_def)
  then have "pq_first (queue_of (h, unat (mi_bin sz)) s) = Some p" by (simp add: page_list.holds_first)
  then have "mi_heap_get_free_small_page h sz s = Some p"
    using R D by (simp add: mi_heap_get_free_small_page_def heap_repr_def direct_ok_def page_or_empty_def)
  then show ?thesis using sz D(1) by (simp add: mi_heap_malloc_def mi_heap_malloc_small_def)
qed

lemma malloc_small_ends:
  assumes R: "heap_repr h Q s" and W: "pages_wf P X s" and sz: "sz \<le> MI_SMALL_SIZE_MAX"
    and p: "p \<in> P" and Q: "Q (unat (mi_bin sz)) = p # ps" and free: "pg_free (st_page s p) \<noteq> 0"
    and fits: "mi_page_block_size p s = mi_bin_size (mi_bin sz)"
  shows "page_available p (X p) s" and "\<exists>b s' X'. page_pop p s = (b, s') \<and> malloc_ends P h Q sz X s b X' s'"
proof -
  have "page_lists p (fst (X p)) (fst (snd (X p))) (snd (snd (X p))) s"
    using W p by (simp add: pages_wf_def wf_blocks_def page_wf_def)
  then have ne: "fst (X p) \<noteq> []" using free by (auto simp: page_lists_def)
  then show "page_available p (X p) s" by (auto simp: page_available_def)
  have E: "search_ends P h Q (unat (mi_bin sz)) X s X s"
    using R W Q ne by (auto simp: search_ends_def same_alive_refl heap_keeps_refl)
  show "\<exists>b s' X'. page_pop p s = (b, s') \<and> malloc_ends P h Q sz X s b X' s'"
    using page_pop_ends [OF E Q p] direct_bin_request(3) [OF sz] fits by metis
qed

lemma mi_heap_malloc_run:
  assumes "heap_repr h Q s" and "pages_wf P X s" and "heap_ready h s" and "sz \<le> MI_LARGE_OBJ_SIZE_MAX"
  defines "k \<equiv> unat (mi_bin sz)"
  assumes "set (Q k) \<subseteq> P" and "\<exists>p \<in> set (Q k). page_available p (X p) s"
    and "\<forall>p \<in> set (Q k). mi_page_block_size p s = mi_bin_size (mi_bin sz)"
  shows "\<exists>b s' X'. mi_heap_malloc h sz s = Some (b, s') \<and> malloc_ends P h (searched_queues k Q X s) sz X s b X' s'"
proof -
  note k = request_bin [OF assms(4), folded k_def]
  have at_k: "searched_queues k Q X s k = dropWhile (\<lambda>p. \<not> page_available p (X p) s) (Q k)"
    using k(2) by (simp add: searched_queues_def Let_def)
  obtain p ps where some: "searched_queues k Q X s k = p # ps"
    using assms(7) unfolding at_k by (metis (no_types, lifting) dropWhile_eq_Nil_conv neq_Nil_conv)
  then have "p \<in> set (dropWhile (\<lambda>p. \<not> page_available p (X p) s) (Q k))"
    by (simp add: at_k)
  then have "p \<in> set (Q k)" by (rule set_dropWhileD)
  then have generic: "\<exists>b s' X'. mi_malloc_generic h sz s = Some (b, s') \<and> malloc_ends P h (searched_queues k Q X s) sz X s b X' s'"
    using malloc_generic_ends [OF assms(1,2,4) _ _ _ assms(3)] assms(6,8) some unfolding k_def by metis
  show ?thesis
  proof (cases "sz \<le> MI_SMALL_SIZE_MAX")
    case True
    obtain q qs where Q: "Q k = q # qs" using some k(2) by (cases "Q k") (auto simp: at_k)
    have q: "q \<in> P" "mi_page_block_size q s = mi_bin_size (mi_bin sz)" using assms(6,8) Q by auto
    have run: "mi_heap_malloc h sz s = mi_page_malloc h q sz s"
      by (rule malloc_small_head [OF assms(1) True Q [unfolded k_def]])
    show ?thesis
    proof (cases "pg_free (st_page s q) = 0")
      case False
      note S = malloc_small_ends [OF assms(1,2) True q(1) Q [unfolded k_def] False q(2)]
      have "searched_queues k Q X s = Q" using S(1) Q k(2) by (simp add: searched_queues_def fun_upd_idem)
      then show ?thesis using S(2) False by (auto simp: run mi_page_malloc_def)
    qed (use generic in \<open>simp add: run mi_page_malloc_def\<close>)
  qed (use generic in \<open>simp add: mi_heap_malloc_def\<close>)
qed

section \<open>Properties\<close>

text \<open>
  C3. A request that is not huge, in a heap where some page of the queue of its size class has a block
  to give (free, freed and not yet collected, or not yet carved out): \<open>mi_heap_malloc\<close> returns, and
  returns a block that the program did not hold before and that overlaps none of the blocks it holds
  on any page; the new block is the only one added to those it holds, and nothing is written to those
  it held. The pages searched before the first one with room are moved to the queue of full pages, in
  order.
\<close>

theorem mi_heap_malloc_correct:
  assumes "heap_repr h Q s" and "pages_wf P X s" and "heap_ready h s" and "sz \<le> MI_LARGE_OBJ_SIZE_MAX"
  defines "k \<equiv> unat (mi_bin sz)"
  assumes "set (Q k) \<subseteq> P" and "\<exists>p \<in> set (Q k). page_available p (X p) s"
    and "\<forall>p \<in> set (Q k). mi_page_block_size p s = mi_bin_size (mi_bin sz)"
  shows "\<exists>b s' X'. mi_heap_malloc h sz s = Some (b, s') \<and> malloc_ends P h (searched_queues k Q X s) sz X s b X' s'"
  unfolding k_def using mi_heap_malloc_run [OF assms(1-4) assms(6-8) [unfolded k_def]] .

lemma malloc_example_ready: "heap_ready heap_main_ref (malloc_example tid)"
proof -
  have "heap_core (st_heap (malloc_example tid) heap_main_ref) = heap_core (st_heap (page_example tid) heap_main_ref)"
    by (simp add: malloc_example_def queue_frame)
  then have "hp_tld (st_heap (malloc_example tid) heap_main_ref) = hp_tld (st_heap (page_example tid) heap_main_ref)"
    by (cases "st_heap (malloc_example tid) heap_main_ref"; cases "st_heap (page_example tid) heap_main_ref";
        simp add: heap_core_def)
  then have "heap_tld heap_main_ref (malloc_example tid) \<noteq> 0"
    by (simp add: heap_tld_def page_example_def geometry_example_def store_simps heap_main_init_def tld_main_ref_def)
  moreover have "st_deferred_free (malloc_example tid) = 0"
    by (simp add: malloc_example_def page_example_def geometry_example_def mi_page_queue_push_def mi_page_set_in_full_def
        Let_def split: option.split)
  moreover have "mi_heap_is_initialized heap_main_ref"
    by (simp add: mi_heap_is_initialized_def heap_main_ref_def heap_empty_ref_def)
  ultimately show ?thesis by (simp add: heap_ready_def heap_running_def malloc_example_page)
qed

lemma mi_heap_malloc_correct_witness:
  "\<exists>b s' X'. mi_heap_malloc heap_main_ref 16 (snd (page_pop (0x20000, 0) (malloc_example 1))) = Some (b, s') \<and>
     malloc_ends {(0x20000, 0)} heap_main_ref ((\<lambda>_. [])(2 := [(0x20000, 0)])) 16 (\<lambda>_. ([], [], []))
       (snd (page_pop (0x20000, 0) (malloc_example 1))) b X' s'"
proof -
  let ?p = "(0x20000, 0) :: page_id" and ?Q = "(\<lambda>_. [])(2 := [(0x20000, 0)]) :: nat \<Rightarrow> page_id list"
  let ?X = "(\<lambda>_. ([], [], [])) :: page_id \<Rightarrow> block_lists"
  note E = malloc_example_repr [of 1]
  obtain s where S: "page_pop ?p (malloc_example 1) = (0x20500, s)" "page_wf ?p [] [] [] s" "list_frame ?p {} (malloc_example 1) s"
    "pg_used (st_page s ?p) = pg_used (st_page (malloc_example 1) ?p) + 1"
    by (rule page_pop_wf [OF E(2)])
  note K = list_frame_fields [OF S(3)] and C = page_core_fields [OF E(4)]
  have "pages_wf {?p} ?X s"
    using S(2) E(5) K(1) by (simp add: pages_wf_def wf_blocks_def segment_example_def)
  moreover have "heap_repr heap_main_ref ?Q s" using E(1) heap_repr_list_frame [OF S(3)] by simp
  moreover have "heap_ready heap_main_ref s"
  proof -
    have "s = (malloc_example 1)\<lparr>st_block := st_block s, st_page := st_page s\<rparr>"
      using S(3) unfolding list_frame_def by blast
    then have "st_deferred_free s = st_deferred_free (malloc_example 1)"
      by (cases "malloc_example 1"; cases s; simp)
    then show ?thesis using malloc_example_ready [of 1] K(2) by (simp add: heap_ready_def heap_running_def heap_tld_def)
  qed
  moreover have "pg_capacity (st_page s ?p) < pg_reserved (st_page s ?p)"
  proof -
    have "unat (pg_used (st_page s ?p)) = unat (pg_capacity (st_page s ?p))" using S(2) by (simp add: page_wf_def)
    then have "unat (pg_capacity (st_page s ?p)) = 3" using S(4) by (simp add: malloc_example_page)
    then show ?thesis using K(6) C(7) by (simp add: word_less_nat_alt page_example_page)
  qed
  moreover have "mi_page_block_size ?p s = mi_bin_size (mi_bin 16)"
    using C(2) K(5) by (simp add: mi_page_block_size_def page_example_page mi_bin_size_def mi_bin_wsizes_def mi_consts)
  ultimately show ?thesis
    using mi_heap_malloc_correct [of heap_main_ref ?Q s "{?p}" ?X 16] S(1)
    by (simp add: page_available_def searched_queues_def fun_upd_idem mi_consts)
qed

end
