(* ===== verification/HeapSteps.thy ===== *)
theory HeapSteps
  imports PageSearch
begin

text \<open>
  The steps of a heap in use, over the invariants of the layers below: \<open>alloc_inv h P Q X s\<close> says that
  the heap \<open>h\<close> has the pages \<open>P\<close> in the queues \<open>Q\<close> with the lists \<open>X\<close>, and \<open>heap_moves P X s B X' s'\<close> that
  a step took the blocks \<open>B\<close> from the program and wrote to no other block the program holds. Here are
  the free by the owner, the delayed frees of the heap, and the free by another thread.
\<close>

section \<open>The invariant of a heap in use\<close>

text \<open>
  The pages \<open>P\<close> are those in the queues \<open>Q\<close>, page \<open>p\<close> with the lists \<open>X p\<close>; their blocks have the size of
  a size class, and their segments belong to the running thread.
\<close>

definition queued_pages :: "page_id set \<Rightarrow> (nat \<Rightarrow> page_id list) \<Rightarrow> bool" where
  "queued_pages P Q \<longleftrightarrow> (\<forall>p. p \<in> P \<longleftrightarrow> in_queues p Q)"

definition class_page :: "page_id \<Rightarrow> mstate \<Rightarrow> bool" where
  "class_page p s \<longleftrightarrow> mi_page_block_size p s = mi_bin_size (mi_bin (mi_page_block_size p s)) \<and>
     pg_xblock_size (st_page s p) < MI_HUGE_BLOCK_SIZE \<and> sg_thread_id (st_segment s (fst p)) = st_thread_id s \<and>
     mi_page_thread_free_flag (st_page s p) \<noteq> MI_DELAYED_FREEING"

definition alloc_inv ::
    "addr \<Rightarrow> page_id set \<Rightarrow> (nat \<Rightarrow> page_id list) \<Rightarrow> (page_id \<Rightarrow> block_lists) \<Rightarrow> mstate \<Rightarrow> bool" where
  "alloc_inv h P Q X s \<longleftrightarrow> heap_repr h Q s \<and> pages_wf P X s \<and> heap_running h s \<and> queued_pages P Q \<and>
     (\<forall>p \<in> P. class_page p s)"

lemma queued_pages_iff: "queued_pages P Q \<Longrightarrow> p \<in> P \<longleftrightarrow> in_queues p Q"
  unfolding queued_pages_def by blast

text \<open>What a step of the heap may not change for the invariant to stay.\<close>

lemma alloc_inv_step:
  assumes I: "alloc_inv h P Q X s" and K: "heap_keeps s s'"
    and "heap_repr h Q' s'" and "pages_wf P X' s'" and "\<And>p. in_queues p Q' = in_queues p Q"
    and bs: "\<And>p. p \<in> P \<Longrightarrow> mi_page_block_size p s' = mi_page_block_size p s"
  shows "alloc_inv h P Q' X' s'"
proof -
  have "heap_running h s'" using I K by (simp add: alloc_inv_def heap_running_def heap_keeps_def heap_tld_def)
  moreover have "class_page p s'" if "p \<in> P" for p
  proof -
    have "class_page p s" using I that by (simp add: alloc_inv_def)
    moreover have "pg_xblock_size (st_page s' p) = pg_xblock_size (st_page s p)"
      "mi_page_thread_free_flag (st_page s p) \<noteq> MI_DELAYED_FREEING \<longrightarrow>
       mi_page_thread_free_flag (st_page s' p) \<noteq> MI_DELAYED_FREEING"
      using K unfolding heap_keeps_def by blast+
    ultimately show ?thesis using K bs [OF that] by (simp add: class_page_def heap_keeps_def)
  qed
  moreover have "queued_pages P Q'" using I assms(5) by (simp add: alloc_inv_def queued_pages_def)
  ultimately show ?thesis using assms(3,4) by (simp add: alloc_inv_def)
qed

lemma alloc_inv_D:
  assumes "alloc_inv h P Q X s"
  shows "heap_repr h Q s" and "pages_wf P X s" and "heap_running h s" and "p \<in> P \<longleftrightarrow> in_queues p Q"
    and "p \<in> P \<Longrightarrow> class_page p s"
  using assms queued_pages_iff by (auto simp: alloc_inv_def)

lemma alloc_inv_page:
  assumes I: "alloc_inv h P Q X s" and x: "x \<in> held_blocks P X s"
  shows "mi_ptr_page x s \<in> P" and "x \<in> alive_blocks (mi_ptr_page x s) (X (mi_ptr_page x s)) s"
proof -
  have W: "pages_wf P X s" using I by (simp add: alloc_inv_def)
  obtain p where p: "p \<in> P" "x \<in> alive_blocks p (X p) s" using x by (auto simp: held_blocks_def)
  have "mi_ptr_page x s = p" using room_page [OF W p(1)] alive_room [OF W p(1)] p(2) by blast
  then show "mi_ptr_page x s \<in> P" "x \<in> alive_blocks (mi_ptr_page x s) (X (mi_ptr_page x s)) s"
    using p by simp_all
qed

section \<open>Allocation\<close>

text \<open>Some page of the size class, not full, has a block to give.\<close>

definition page_has_room :: "page_id \<Rightarrow> mstate \<Rightarrow> bool" where
  "page_has_room p s \<longleftrightarrow> pg_free (st_page s p) \<noteq> 0 \<or> pg_local_free (st_page s p) \<noteq> 0 \<or>
     mi_page_thread_free (st_page s p) \<noteq> 0 \<or> pg_capacity (st_page s p) < pg_reserved (st_page s p)"

definition page_open :: "page_id \<Rightarrow> mstate \<Rightarrow> bool" where
  "page_open p s \<longleftrightarrow> \<not> pg_in_full (st_page s p) \<and> page_has_room p s"

definition class_has_room :: "page_id set \<Rightarrow> u64 \<Rightarrow> mstate \<Rightarrow> bool" where
  "class_has_room P sz s \<longleftrightarrow> (\<exists>p \<in> P. page_open p s \<and> mi_bin (mi_page_block_size p s) = mi_bin sz)"

lemma page_has_room_available:
  assumes "pages_wf P X s" and "p \<in> P" and "page_has_room p s"
  shows "page_available p (X p) s"
proof -
  have "page_lists p (fst (X p)) (fst (snd (X p))) (snd (snd (X p))) s"
    using assms(1,2) by (auto simp: pages_wf_def wf_blocks_def page_wf_def)
  then show ?thesis
    using assms(3) by (auto simp: page_has_room_def page_available_def page_lists_def)
qed

lemma alloc_inv_size:
  assumes I: "alloc_inv h P Q X s" and p: "p \<in> P"
  shows "mi_page_block_size p s = ucast (pg_xblock_size (st_page s p))"
  using I p by (simp add: alloc_inv_def class_page_def mi_page_block_size_eq)

lemma alloc_inv_bin:
  assumes I: "alloc_inv h P Q X s" and k: "k \<le> 74" "k \<noteq> 74" and p: "p \<in> set (Q k)"
  shows "p \<in> P" and "unat (mi_bin (mi_page_block_size p s)) = k"
proof -
  have "in_queues p Q" using k(1) p by (auto simp: in_queues_def)
  then show P: "p \<in> P" using alloc_inv_D(4) [OF I] by simp
  have "page_bin (st_page s p) = k" using I k(1) p by (auto simp: alloc_inv_def heap_repr_def queue_pages_ok_def)
  then show "unat (mi_bin (mi_page_block_size p s)) = k"
    using k(2) alloc_inv_size [OF I P] by (auto simp: page_bin_def mi_consts split: if_splits)
qed

lemma searched_in_queues:
  assumes "k \<le> 74" and "k \<noteq> 74"
  shows "in_queues p (searched_queues k Q X s) = in_queues p Q"
proof -
  let ?f = "\<lambda>p. \<not> page_available p (X p) s"
  have "set (Q k) = set (takeWhile ?f (Q k)) \<union> set (dropWhile ?f (Q k))"
    by (metis set_append takeWhile_dropWhile_id)
  then show ?thesis
    using assms by (auto simp: in_queues_def searched_queues_def Let_def)
qed

lemma class_queue:
  assumes I: "alloc_inv h P Q X s" and sz: "sz \<le> MI_LARGE_OBJ_SIZE_MAX"
  shows "set (Q (unat (mi_bin sz))) \<subseteq> P"
    and "p \<in> set (Q (unat (mi_bin sz))) \<Longrightarrow> mi_page_block_size p s = mi_bin_size (mi_bin sz)"
    and "in_queues q (searched_queues (unat (mi_bin sz)) Q X s) = in_queues q Q"
proof -
  note k = request_bin [OF sz]
  have k74: "unat (mi_bin sz) \<le> 74" using queue_bin_used(1) [OF k(1)] .
  show "set (Q (unat (mi_bin sz))) \<subseteq> P" using alloc_inv_bin(1) [OF I k74 k(2)] by blast
  show "mi_page_block_size p s = mi_bin_size (mi_bin sz)" if p: "p \<in> set (Q (unat (mi_bin sz)))"
  proof -
    note B = alloc_inv_bin [OF I k74 k(2) p]
    have "mi_bin (mi_page_block_size p s) = mi_bin sz" using B(2) by (rule unsigned_word_eqI)
    then show ?thesis using alloc_inv_D(5) [OF I B(1)] by (simp add: class_page_def)
  qed
  show "in_queues q (searched_queues (unat (mi_bin sz)) Q X s) = in_queues q Q"
    by (rule searched_in_queues [OF k74 k(2)])
qed

lemma room_available:
  assumes I: "alloc_inv h P Q X s" and sz: "sz \<le> MI_LARGE_OBJ_SIZE_MAX" and room: "class_has_room P sz s"
  shows "\<exists>p \<in> set (Q (unat (mi_bin sz))). page_available p (X p) s"
proof -
  obtain p where p: "p \<in> P" "\<not> pg_in_full (st_page s p)" "page_has_room p s" "mi_bin (mi_page_block_size p s) = mi_bin sz"
    using room by (auto simp: class_has_room_def page_open_def)
  have "in_queues p Q" using alloc_inv_D(4) [OF I] p(1) by simp
  then have "p \<in> set (Q (page_bin (st_page s p)))" by (rule heap_repr_page(2) [OF alloc_inv_D(1) [OF I]])
  then have "p \<in> set (Q (unat (mi_bin sz)))" using p(2,4) alloc_inv_size [OF I p(1)] by (simp add: page_bin_def)
  then show ?thesis using page_has_room_available [OF alloc_inv_D(2) [OF I] p(1,3)] by blast
qed

lemma searched_head:
  assumes "unat (mi_bin sz) \<noteq> 74" and "\<exists>p \<in> set (Q (unat (mi_bin sz))). page_available p (X p) s"
  obtains p ps where "searched_queues (unat (mi_bin sz)) Q X s (unat (mi_bin sz)) = p # ps" "p \<in> set (Q (unat (mi_bin sz)))"
proof -
  let ?d = "dropWhile (\<lambda>p. \<not> page_available p (X p) s) (Q (unat (mi_bin sz)))"
  have "?d \<noteq> []" using assms(2) by (simp add: dropWhile_eq_Nil_conv)
  then obtain p ps where d: "?d = p # ps" by (cases ?d) auto
  then have "p \<in> set ?d" by simp
  then have "p \<in> set (Q (unat (mi_bin sz)))" by (rule set_dropWhileD)
  then show thesis using that [of p ps] d assms(1) by (simp add: searched_queues_def Let_def)
qed

section \<open>What a step does\<close>

text \<open>
  A step that takes the blocks \<open>B\<close> from the program: it writes to no other block that the program holds,
  pages with room keep room, and a page on which delayed freeing is not switched off stays so.
\<close>

definition delayed_on :: "page_id \<Rightarrow> mstate \<Rightarrow> bool" where
  "delayed_on p s \<longleftrightarrow> mi_page_thread_free_flag (st_page s p) \<noteq> MI_NO_DELAYED_FREE"

definition heap_moves ::
    "page_id set \<Rightarrow> (page_id \<Rightarrow> block_lists) \<Rightarrow> mstate \<Rightarrow> addr set \<Rightarrow> (page_id \<Rightarrow> block_lists) \<Rightarrow> mstate \<Rightarrow> bool" where
  "heap_moves P X s B Y t \<longleftrightarrow> heap_keeps s t \<and> held_blocks P Y t = held_blocks P X s - B \<and>
     (\<forall>p \<in> P. mi_page_block_size p t = mi_page_block_size p s) \<and> (\<forall>p \<in> P. page_open p s \<longrightarrow> page_open p t) \<and>
     (\<forall>p \<in> P. delayed_on p s \<longrightarrow> delayed_on p t) \<and> (\<forall>b \<in> held_blocks P X s - B. st_block t b = st_block s b)"

lemma heap_moves_trans:
  "heap_moves P X s B Y t \<Longrightarrow> heap_moves P Y t C Z u \<Longrightarrow> heap_moves P X s (B \<union> C) Z u"
  unfolding heap_moves_def using heap_keeps_trans by auto

lemma heap_moves_same:
  assumes "same_alive P X s Y t" and "heap_keeps s t" and "\<And>p. p \<in> P \<Longrightarrow> page_open p s \<Longrightarrow> page_open p t"
    and "\<And>p. p \<in> P \<Longrightarrow> delayed_on p s \<Longrightarrow> delayed_on p t"
  shows "heap_moves P X s {} Y t"
  using assms held_blocks_same [OF assms(1)] same_alive_block [OF assms(1)]
  unfolding heap_moves_def same_alive_def by auto

lemma page_open_cong:
  assumes "pg_in_full (st_page t p) = pg_in_full (st_page s p)" and "pg_free (st_page t p) = pg_free (st_page s p)"
    and "pg_local_free (st_page t p) = pg_local_free (st_page s p)"
    and "mi_page_thread_free (st_page t p) = mi_page_thread_free (st_page s p)"
    and "pg_capacity (st_page t p) = pg_capacity (st_page s p)" and "pg_reserved (st_page t p) = pg_reserved (st_page s p)"
  shows "page_open p t = page_open p s"
  using assms by (simp add: page_open_def page_has_room_def)

lemma page_open_frame:
  assumes "list_frame p B s t" and "q \<noteq> p"
  shows "page_open q t = page_open q s"
proof -
  have "st_page t q = st_page s q" using assms unfolding list_frame_def by blast
  then show ?thesis by (simp add: page_open_def page_has_room_def)
qed

text \<open>The queues and the sizes stay.\<close>

lemma alloc_inv_moves:
  assumes I: "alloc_inv h P Q X s" and M: "heap_moves P X s B Y t"
    and "heap_repr h Q' t" and "pages_wf P Y t" and "\<And>p. in_queues p Q' = in_queues p Q"
  shows "alloc_inv h P Q' Y t"
  using alloc_inv_step [OF I _ assms(3-5)] M by (simp add: heap_moves_def)

section \<open>Free by the owner\<close>

text \<open>
  Freeing on this page does not give the page back: other blocks are in use, or it is the only page of
  its queue, which retires it.
\<close>

definition page_retires :: "page_id \<Rightarrow> mstate \<Rightarrow> bool" where
  "page_retires p s \<longleftrightarrow> ucast (pg_xblock_size (st_page s p)) \<le> MI_MAX_RETIRE_SIZE \<and> \<not> pg_in_full (st_page s p) \<and>
     pq_last (queue_of (mi_page_queue_of p s) s) = Some p \<and> pq_first (queue_of (mi_page_queue_of p s) s) = Some p"

definition page_stays :: "page_id \<Rightarrow> mstate \<Rightarrow> bool" where
  "page_stays p s \<longleftrightarrow> 1 < pg_used (st_page s p) \<or> page_retires p s"

lemma mi_page_retire_stays:
  assumes "page_retires p s"
  obtains s' where "mi_page_retire p s = Some s'" "heap_repr h Q s' = heap_repr h Q s" "pages_wf P X s' = pages_wf P X s"
    "heap_moves P X s {} X s'" "\<not> pg_has_aligned (st_page s' p)" "0 < pg_retire_expire (st_page s' p)"
    "\<forall>F L T. page_wf p F L T s' = page_wf p F L T s" "\<forall>F L T. page_alive p F L T s' = page_alive p F L T s"
proof -
  define t where "t = mi_page_set_has_aligned p False s"
  define ex where "ex = (if ucast (pg_xblock_size (st_page t p)) \<le> MI_SMALL_OBJ_SIZE_MAX then MI_RETIRE_CYCLES else MI_RETIRE_CYCLES div 4)"
  define u where "u = page_upd p (\<lambda>pg. pg\<lparr>pg_retire_expire := ex\<rparr>) t"
  define k :: u64 where "k = word_of_nat (snd (mi_page_queue_of p t))"
  define g where "g = mi_page_heap p u"
  define v where "v = (if k < hp_page_retired_min (st_heap u g) then heap_upd g (\<lambda>h. h\<lparr>hp_page_retired_min := k\<rparr>) u else u)"
  define s' where "s' = (if hp_page_retired_max (st_heap v g) < k then heap_upd g (\<lambda>h. h\<lparr>hp_page_retired_max := k\<rparr>) v else v)"
  have "mi_page_queue_of p t = mi_page_queue_of p s"
    by (simp add: t_def mi_page_queue_of_def mi_page_set_has_aligned_def store_simps page_bin_def mi_page_heap_def)
  then have run: "mi_page_retire p s = Some s'"
    using assms
    by (simp add: mi_page_retire_def page_retires_def Let_def s'_def v_def u_def ex_def t_def g_def k_def
        mi_page_set_has_aligned_def store_simps)
  note defs = s'_def v_def u_def t_def mi_page_set_has_aligned_def store_simps
  have fields: "hp_pages (st_heap s' m) = hp_pages (st_heap s m)"
    "hp_pages_free_direct (st_heap s' m) = hp_pages_free_direct (st_heap s m)"
    "hp_page_count (st_heap s' m) = hp_page_count (st_heap s m)" "hp_tld (st_heap s' m) = hp_tld (st_heap s m)"
    "hp_thread_delayed_free (st_heap s' m) = hp_thread_delayed_free (st_heap s m)" for m
    by (simp_all add: defs)
  have pages: "pg_next (st_page s' m) = pg_next (st_page s m)" "pg_prev (st_page s' m) = pg_prev (st_page s m)"
    "pg_in_full (st_page s' m) = pg_in_full (st_page s m)" "pg_xheap (st_page s' m) = pg_xheap (st_page s m)"
    "pg_xblock_size (st_page s' m) = pg_xblock_size (st_page s m)" "pg_segment_idx (st_page s' m) = pg_segment_idx (st_page s m)"
    "pg_reserved (st_page s' m) = pg_reserved (st_page s m)" "pg_free (st_page s' m) = pg_free (st_page s m)"
    "pg_local_free (st_page s' m) = pg_local_free (st_page s m)" "pg_xthread_free (st_page s' m) = pg_xthread_free (st_page s m)"
    "pg_capacity (st_page s' m) = pg_capacity (st_page s m)" "pg_used (st_page s' m) = pg_used (st_page s m)" for m
    by (simp_all add: defs)
  have rest: "st_segment s' = st_segment s" "st_block s' = st_block s" "st_thread_id s' = st_thread_id s"
    "st_deferred_free s' = st_deferred_free s"
    by (simp_all add: defs)
  show thesis
  proof (rule that [OF run])
    show "heap_repr h Q s' = heap_repr h Q s" by (rule heap_repr_cong) (rule fields pages)+
    note F = pages_wf_fields [OF rest(1,2) pages(6,5,7-12)]
    show "pages_wf P X s' = pages_wf P X s" by (rule F)
    have "heap_keeps s s'" by (simp add: heap_keeps_def fields pages rest mi_page_thread_free_flag_def)
    moreover have "page_open q s' = page_open q s" for q
      by (rule page_open_cong) (simp_all add: pages mi_page_thread_free_def)
    moreover have "delayed_on q s' = delayed_on q s" for q
      by (simp add: delayed_on_def pages mi_page_thread_free_flag_def)
    ultimately show "heap_moves P X s {} X s'" by (intro heap_moves_same [OF F(2)]) blast+
    have "0 < ex" by (simp add: ex_def mi_consts)
    then show "\<not> pg_has_aligned (st_page s' p)" "0 < pg_retire_expire (st_page s' p)" by (simp_all add: defs)
    show "\<forall>F L T. page_wf p F L T s' = page_wf p F L T s" "\<forall>F L T. page_alive p F L T s' = page_alive p F L T s"
      by (intro allI; rule page_wf_fields; simp add: rest pages)+
  qed
qed

text \<open>A block that goes from the program to one of the lists of its page.\<close>

lemma push_step:
  assumes I: "alloc_inv h P Q X s" and p: "p \<in> P" and x: "x \<in> alive_blocks p (X p) s"
    and fr: "list_frame p {x} s t" and Y: "wf_blocks p Y t" and al: "alive_blocks p Y t = alive_blocks p (X p) s - {x}"
    and flag: "mi_page_thread_free_flag (st_page t p) = mi_page_thread_free_flag (st_page s p)"
    and some: "pg_local_free (st_page t p) = x \<or> mi_page_thread_free (st_page t p) = x"
  shows "alloc_inv h P Q (X(p := Y)) t" and "heap_moves P X s {x} (X(p := Y)) t"
proof -
  note W = alloc_inv_D(2) [OF I]
  have wf: "page_wf p (fst (X p)) (fst (snd (X p))) (snd (snd (X p))) s" using W p by (simp add: pages_wf_def wf_blocks_def)
  have room: "x \<in> page_room p s" using alive_room [OF W p] x by blast
  have B: "{x} \<subseteq> page_room p s" using room by simp
  note R = pages_wf_replace [OF W p fr B Y]
  have "held_blocks P (X(p := Y)) t = (alive_blocks p (X p) s - {x}) \<union> held_blocks (P - {p}) X s"
    using held_blocks_replace [OF W p fr B Y] al by simp
  also have "\<dots> = held_blocks P X s - {x}"
    using held_blocks_others [OF W p room] by (auto simp: held_blocks_at [OF p])
  finally have held: "held_blocks P (X(p := Y)) t = held_blocks P X s - {x}" .
  have "heap_keeps s t" by (rule heap_keeps_list_frame [OF fr]) (simp add: flag)
  moreover have "page_open q t" if "page_open q s" for q
  proof (cases "q = p")
    case True
    have "x \<noteq> 0" using page_alive_used(2) [OF wf] x by (simp add: alive_blocks_def)
    then show ?thesis
      using that True some list_frame_fields(9) [OF fr] by (auto simp: page_open_def page_has_room_def)
  qed (use that page_open_frame [OF fr] in simp)
  moreover have "\<forall>b \<in> held_blocks P X s - {x}. st_block t b = st_block s b"
    using fr unfolding list_frame_def by blast
  moreover have "delayed_on q t = delayed_on q s" for q
  proof (cases "q = p")
    case False
    then have "st_page t q = st_page s q" using fr unfolding list_frame_def by blast
    then show ?thesis by (simp add: delayed_on_def)
  qed (simp add: delayed_on_def flag)
  ultimately show M: "heap_moves P X s {x} (X(p := Y)) t" using held R(3) by (simp add: heap_moves_def)
  have "heap_repr h Q t" using alloc_inv_D(1) [OF I] heap_repr_list_frame [OF fr] by simp
  then show "alloc_inv h P Q (X(p := Y)) t" using alloc_inv_moves [OF I M _ R(1) refl] by simp
qed

lemma local_push_step:
  assumes I: "alloc_inv h P Q X s" and p: "p \<in> P" and x: "x \<in> alive_blocks p (X p) s"
  obtains X' where "alloc_inv h P Q X' (page_local_push p x s)" "list_frame p {x} s (page_local_push p x s)"
    "heap_moves P X s {x} X' (page_local_push p x s)"
proof -
  obtain F L T where X: "X p = (F, L, T)" by (cases "X p") auto
  have wf: "page_wf p F L T s" using alloc_inv_D(2) [OF I] p X by (auto simp: pages_wf_def wf_blocks_def)
  have xp: "x \<in> page_alive p F L T s" using x X by (simp add: alive_blocks_def)
  note S = page_local_push_wf [OF wf xp] and defs = page_local_push_def Let_def store_simps mi_block_set_next_def
  note P = push_step [OF I p x S(2), of "(F, x # L, T)"]
  show thesis
    by (rule that [OF P(1) S(2) P(2)])
      (use S(1,3) X in \<open>simp_all add: wf_blocks_def alive_blocks_def\<close>, simp_all add: defs mi_page_thread_free_flag_def)
qed

lemma mi_free_last:
  assumes W: "page_wf p F L T s" and K: "sg_page_kind (st_segment s (fst p)) \<noteq> MI_PAGE_HUGE"
    and x: "x \<in> page_alive p F L T s" and pt: "points_to p q x s"
    and own: "sg_thread_id (st_segment s (fst p)) = st_thread_id s"
    and last: "\<not> 1 < pg_used (st_page s p)"
  shows "mi_free q s = mi_page_retire p (page_local_push p x s)"
    and "mi_page_all_free (st_page (page_local_push p x s) p)" and "page_alive p F L T s = {x}"
proof -
  note ptr = points_to_ptr [OF W K x pt] and L = page_local_push_wf [OF W x] and U = page_alive_used [OF W x]
  have one: "unat (pg_used (st_page s p)) = 1" using U(1) last by (simp add: word_less_nat_alt)
  then have "unat (pg_used (st_page s p)) = unat (1 :: u32)" by simp
  then have "pg_used (st_page s p) = 1" by (rule unsigned_word_eqI)
  then show free: "mi_page_all_free (st_page (page_local_push p x s) p)" using L(4) by (simp add: mi_page_all_free_def)
  then show "mi_free q s = mi_page_retire p (page_local_push p x s)"
    using ptr own by (simp add: mi_free_def mi_free_generic_def mi_free_block_def Let_def)
  have "0 < card (page_alive p F L T s)" using x page_alive_finite by (auto simp: card_gt_0_iff)
  then have "card (page_alive p F L T s) = 1" using page_used_card [OF W] one by simp
  then show "page_alive p F L T s = {x}" using x by (auto simp: card_1_singleton_iff)
qed

lemma page_retires_push:
  assumes "list_frame p B s t"
  shows "page_retires p t = page_retires p s" and "mi_page_queue_of p t = mi_page_queue_of p s"
proof -
  note T = list_frame_fields [OF assms]
  show same: "mi_page_queue_of p t = mi_page_queue_of p s"
    using T by (simp add: mi_page_queue_of_def page_bin_def mi_page_heap_def)
  have "queue_of r t = queue_of r s" for r using T by (simp add: queue_of_def)
  then show "page_retires p t = page_retires p s" using T same by (simp add: page_retires_def)
qed

lemma unfull_keeps:
  assumes R: "heap_repr h Q s" and p: "p \<in> set (Q 74)"
  shows "heap_keeps s (mi_page_unfull p s)"
proof (rule heap_keeps_core)
  note U = mi_page_unfull_run [OF R p]
  show "page_core (st_page (mi_page_unfull p s) m) = page_core (st_page s m)" for m by (rule U(2))
  show "st_segment (mi_page_unfull p s) = st_segment s" by (rule U(4))
  show "heap_core (st_heap (mi_page_unfull p s) g) = heap_core (st_heap s g)" for g
    by (simp add: mi_page_unfull_def Let_def queue_frame mi_page_set_in_full_def store_simps)
qed (simp_all add: mi_page_unfull_def Let_def)

lemma unfull_in_queues:
  assumes "p \<in> set (Q 74)" and "k \<le> 74"
  shows "in_queues q (Q(74 := remove1 p (Q 74), k := Q k @ [p])) = in_queues q Q"
proof (cases "q = p")
  case True
  then show ?thesis using assms by (auto simp: in_queues_def)
next
  case False
  have "q \<in> set ((Q(74 := remove1 p (Q 74), k := Q k @ [p])) i) \<longleftrightarrow> q \<in> set (Q i)" if "k \<noteq> 74" for i
    using False that by (auto simp: in_set_remove1)
  moreover have "q \<in> set ((Q(74 := remove1 p (Q 74), 74 := Q 74 @ [p])) i) \<longleftrightarrow> q \<in> set (Q i)" for i
    using False by auto
  ultimately show ?thesis unfolding in_queues_def by (cases "k = 74") blast+
qed

lemma unfull_step:
  assumes I: "alloc_inv h P Q X s" and p: "p \<in> P" and full: "pg_in_full (st_page s p)"
  obtains Q' where "alloc_inv h P Q' X (mi_page_unfull p s)" "heap_moves P X s {} X (mi_page_unfull p s)"
    "pg_local_free (st_page (mi_page_unfull p s) p) = pg_local_free (st_page s p)"
    "\<not> pg_in_full (st_page (mi_page_unfull p s) p)"
proof -
  let ?s' = "mi_page_unfull p s" and ?k = "unat (mi_bin (ucast (pg_xblock_size (st_page s p))))"
  note R = alloc_inv_D(1) [OF I]
  have "p \<in> set (Q (page_bin (st_page s p)))" using heap_repr_page(2) [OF R] alloc_inv_D(4) [OF I] p by blast
  then have q: "p \<in> set (Q 74)" using full by (simp add: page_bin_def mi_consts)
  note U = mi_page_unfull_run [OF R q]
  note C = pages_wf_core [OF U(2) U(3,4)] and F = page_core_fields [OF U(2)]
  have "queue_bin (page_bin ((st_page s p)\<lparr>pg_in_full := False\<rparr>))" by (rule queue_bin_page_bin)
  then have k: "?k \<le> 74" using queue_bin_used(1) by (simp add: page_bin_def)
  have M: "heap_moves P X s {} X ?s'"
  proof (rule heap_moves_same [OF C(2) unfull_keeps [OF R q]])
    show "page_open m ?s'" if "page_open m s" for m
    proof -
      have m: "m \<noteq> p" using that full by (auto simp: page_open_def)
      then have "pg_in_full (st_page ?s' m) = pg_in_full (st_page s m)"
        by (simp add: mi_page_unfull_def Let_def queue_frame mi_page_set_in_full_def store_simps)
      then show ?thesis using that page_open_cong [of ?s' m s] F by (simp add: mi_page_thread_free_def)
    qed
    show "delayed_on m ?s'" if "delayed_on m s" for m
      using that F by (simp add: delayed_on_def mi_page_thread_free_flag_def)
  qed
  have "pages_wf P X ?s'" using C(1) alloc_inv_D(2) [OF I] by simp
  moreover have "in_queues q (Q(74 := remove1 p (Q 74), ?k := Q ?k @ [p])) = in_queues q Q" for q
    using unfull_in_queues [of p Q ?k q] q k by blast
  ultimately show thesis using that alloc_inv_moves [OF I M U(1)] M F(4) U(5) by blast
qed

lemma alive_block_nonzero:
  assumes I: "alloc_inv h P Q X s" and p: "p \<in> P" and x: "x \<in> alive_blocks p (X p) s"
  shows "x \<noteq> 0"
proof -
  have "page_wf p (fst (X p)) (fst (snd (X p))) (snd (snd (X p))) s"
    using alloc_inv_D(2) [OF I] p by (simp add: pages_wf_def wf_blocks_def)
  then show ?thesis using page_alive_used(2) x by (simp add: alive_blocks_def)
qed

text \<open>The push, and the page back from the queue of full pages.\<close>

lemma push_unfull_step:
  assumes I: "alloc_inv h P Q X s" and p: "p \<in> P" and x: "x \<in> alive_blocks p (X p) s"
  defines "s' \<equiv> if pg_in_full (st_page s p) then mi_page_unfull p (page_local_push p x s) else page_local_push p x s"
  shows "\<exists>Q' X'. alloc_inv h P Q' X' s' \<and> heap_moves P X s {x} X' s' \<and> page_open p s'"
proof -
  let ?t = "page_local_push p x s"
  have x0: "x \<noteq> 0" using alive_block_nonzero [OF I p x] .
  have local: "pg_local_free (st_page ?t p) = x"
    by (simp add: page_local_push_def Let_def store_simps mi_block_set_next_def)
  obtain Y where S: "alloc_inv h P Q Y ?t" "list_frame p {x} s ?t" "heap_moves P X s {x} Y ?t"
    by (rule local_push_step [OF I p x])
  show ?thesis
  proof (cases "pg_in_full (st_page s p)")
    case True
    then have full: "pg_in_full (st_page ?t p)" using list_frame_fields [OF S(2)] by simp
    obtain Q' where "alloc_inv h P Q' Y (mi_page_unfull p ?t)" "heap_moves P Y ?t {} Y (mi_page_unfull p ?t)"
      "pg_local_free (st_page (mi_page_unfull p ?t) p) = pg_local_free (st_page ?t p)"
      "\<not> pg_in_full (st_page (mi_page_unfull p ?t) p)"
      by (rule unfull_step [OF S(1) p full])
    then show ?thesis
      using heap_moves_trans [OF S(3), of "{}"] True x0 local unfolding s'_def page_open_def page_has_room_def by auto
  next
    case False
    then have "page_open p ?t"
      using x0 local list_frame_fields [OF S(2)] by (simp add: page_open_def page_has_room_def)
    then show ?thesis using S False by (auto simp: s'_def)
  qed
qed

lemma alive_page_facts:
  assumes I: "alloc_inv h P Q X s" and p: "p \<in> P"
  shows "page_wf p (fst (X p)) (fst (snd (X p))) (snd (snd (X p))) s"
    and "sg_page_kind (st_segment s (fst p)) \<noteq> MI_PAGE_HUGE"
    and "sg_thread_id (st_segment s (fst p)) = st_thread_id s" and "points_to p x x s"
proof -
  show W: "page_wf p (fst (X p)) (fst (snd (X p))) (snd (snd (X p))) s"
    and "sg_page_kind (st_segment s (fst p)) \<noteq> MI_PAGE_HUGE"
    using alloc_inv_D(2) [OF I] p by (auto simp: pages_wf_def wf_blocks_def)
  show "sg_thread_id (st_segment s (fst p)) = st_thread_id s"
    using alloc_inv_D(5) [OF I p] by (simp add: class_page_def)
  show "points_to p x x s" using W by (simp add: points_to_def page_wf_def page_geometry_def word_less_nat_alt)
qed

lemma free_step_last:
  assumes I: "alloc_inv h P Q X s" and p: "p \<in> P" and x: "x \<in> alive_blocks p (X p) s"
    and last: "\<not> 1 < pg_used (st_page s p)" and retires: "page_retires p s"
  shows "\<exists>s' X'. mi_free x s = Some s' \<and> alloc_inv h P Q X' s' \<and> heap_moves P X s {x} X' s'"
proof -
  let ?t = "page_local_push p x s"
  obtain Y where S: "alloc_inv h P Q Y ?t" "list_frame p {x} s ?t" "heap_moves P X s {x} Y ?t"
    by (rule local_push_step [OF I p x])
  note A = alive_page_facts [OF I p]
  have "page_retires p ?t" using retires page_retires_push(1) [OF S(2)] by simp
  then obtain s' where Z: "mi_page_retire p ?t = Some s'" "heap_repr h Q s' = heap_repr h Q ?t"
    "pages_wf P Y s' = pages_wf P Y ?t" "heap_moves P Y ?t {} Y s'"
    by (rule mi_page_retire_stays)
  have "alloc_inv h P Q Y s'"
    using alloc_inv_moves [OF S(1) Z(4), of Q] alloc_inv_D(1,2) [OF S(1)] Z(2,3) by simp
  moreover have "heap_moves P X s {x} Y s'" using heap_moves_trans [OF S(3) Z(4)] by simp
  moreover have "mi_free x s = Some s'"
    using mi_free_last(1) [OF A(1,2) x [unfolded alive_blocks_def] A(4,3) last] Z(1) by simp
  ultimately show ?thesis by blast
qed

lemma free_step:
  assumes I: "alloc_inv h P Q X s" and x: "x \<in> held_blocks P X s" and stays: "page_stays (mi_ptr_page x s) s"
  shows "\<exists>s' Q' X'. mi_free x s = Some s' \<and> alloc_inv h P Q' X' s' \<and> heap_moves P X s {x} X' s'"
proof -
  define p where "p = mi_ptr_page x s"
  note p = alloc_inv_page [OF I x, folded p_def]
  show ?thesis
  proof (cases "1 < pg_used (st_page s p)")
    case True
    note A = alive_page_facts [OF I p(1)]
    have "1 < unat (pg_used (st_page s p))" using True by (simp add: word_less_nat_alt)
    then have "mi_free x s = Some (if pg_in_full (st_page s p) then mi_page_unfull p (page_local_push p x s)
        else page_local_push p x s)"
      by (rule mi_free_local_wf [OF A(1,2) p(2) [unfolded alive_blocks_def] A(4,3)])
    then show ?thesis using push_unfull_step [OF I p] by blast
  next
    case False
    then have "page_retires p s" using stays by (simp add: page_stays_def p_def)
    then show ?thesis using free_step_last [OF I p False] by blast
  qed
qed

section \<open>Delayed frees\<close>

lemma set_flag_step:
  assumes I: "alloc_inv h P Q X s" and p: "p \<in> P" and d: "d \<noteq> MI_DELAYED_FREEING"
  defines "s' \<equiv> page_set_tfree p (mi_tf_set_delayed (pg_xthread_free (st_page s p)) d) s"
  shows "alloc_inv h P Q X s'" and "held_blocks P X s' = held_blocks P X s"
    and "d \<noteq> MI_NO_DELAYED_FREE \<Longrightarrow> heap_moves P X s {} X s'"
proof -
  note W = alloc_inv_D(2) [OF I]
  note F = page_wf_flag [where p = p and s = s and d = d, folded s'_def]
  have same: "X(p := X p) = X" by simp
  have "wf_blocks p (X p) s'" "alive_blocks p (X p) s' = alive_blocks p (X p) s"
    using W p F(1,2) by (simp_all add: pages_wf_def wf_blocks_def alive_blocks_def)
  then have S: "pages_wf P X s'" "same_alive P X s X s'"
    using pages_wf_step [OF W p F(3), of "X p", unfolded same] by simp_all
  have K: "heap_keeps s s'" by (rule heap_keeps_list_frame [OF F(3)]) (simp add: F(4) d)
  have open_same: "page_open q s' = page_open q s" for q
    by (rule page_open_cong)
      (simp_all add: s'_def page_set_tfree_def store_simps mi_page_thread_free_eq mi_tf_set_delayed_def)
  show "heap_moves P X s {} X s'" if "d \<noteq> MI_NO_DELAYED_FREE"
  proof (rule heap_moves_same [OF S(2) K])
    show "delayed_on q s'" if "delayed_on q s" for q
    proof (cases "q = p")
      case False
      then have "st_page s' q = st_page s q" using F(3) unfolding list_frame_def by blast
      then show ?thesis using that by (simp add: delayed_on_def)
    qed (use \<open>d \<noteq> MI_NO_DELAYED_FREE\<close> in \<open>simp add: delayed_on_def F(4)\<close>)
  qed (simp_all add: open_same)
  show "held_blocks P X s' = held_blocks P X s" by (rule held_blocks_same [OF S(2)])
  have "heap_repr h Q s'" using alloc_inv_D(1) [OF I] heap_repr_list_frame [OF F(3)] by simp
  moreover have "mi_page_block_size q s' = mi_page_block_size q s" for q
    using page_geometry_frame [of s' q s] list_frame_fields [OF F(3)] by simp
  ultimately show "alloc_inv h P Q X s'" using alloc_inv_step [OF I K _ S(1) refl] S(1) by simp
qed

lemma use_delayed_step:
  assumes I: "alloc_inv h P Q X s" and p: "p \<in> P"
  shows "\<exists>s'. mi_page_use_delayed_free p MI_USE_DELAYED_FREE False s = Some s' \<and> alloc_inv h P Q X s' \<and>
    heap_moves P X s {} X s' \<and> delayed_on p s'"
proof -
  let ?f = "mi_page_thread_free_flag (st_page s p)"
  have f: "?f \<noteq> MI_DELAYED_FREEING" using alloc_inv_D(5) [OF I p] by (simp add: class_page_def)
  show ?thesis
  proof (cases "?f = MI_USE_DELAYED_FREE \<or> ?f = MI_NEVER_DELAYED_FREE")
    case True
    then have "mi_page_use_delayed_free p MI_USE_DELAYED_FREE False s = Some s"
      by (auto simp: mi_page_use_delayed_free_def Let_def mi_page_thread_free_flag_def)
    moreover have "heap_moves P X s {} X s" by (intro heap_moves_same same_alive_refl heap_keeps_refl)
    moreover have "delayed_on p s" using True by (auto simp: delayed_on_def)
    ultimately show ?thesis using I by blast
  next
    case False
    then have "mi_page_use_delayed_free p MI_USE_DELAYED_FREE False s =
        Some (page_set_tfree p (mi_tf_set_delayed (pg_xthread_free (st_page s p)) MI_USE_DELAYED_FREE) s)"
      using f by (auto simp: mi_page_use_delayed_free_def Let_def mi_page_thread_free_flag_def page_set_tfree_def)
    then show ?thesis
      using set_flag_step [OF I p, of MI_USE_DELAYED_FREE] page_wf_flag(4) [of p s MI_USE_DELAYED_FREE]
      by (simp add: delayed_on_def)
  qed
qed

lemma collect_flag:
  assumes "pages_wf P X s" and "p \<in> P" and run: "mi_page_free_collect p False s = Some s'"
  shows "mi_page_thread_free_flag (st_page s' p) = mi_page_thread_free_flag (st_page s p)"
proof -
  obtain F L T where X: "X p = (F, L, T)" by (cases "X p") auto
  have wf: "page_wf p F L T s" using assms(1,2) X by (auto simp: pages_wf_def wf_blocks_def)
  obtain F' L' where "collected False F (T @ L) = (F', L')" by (metis surj_pair)
  from page_wf_collect [OF wf this] show ?thesis using run by auto
qed

lemma collect_inv:
  assumes I: "alloc_inv h P Q X s" and p: "p \<in> P"
  obtains s' X' where "mi_page_free_collect p False s = Some s'" "alloc_inv h P Q X' s'" "heap_moves P X s {} X' s'"
proof -
  note W = alloc_inv_D(2) [OF I]
  obtain s' Y where S: "mi_page_free_collect p False s = Some s'" "pages_wf P (X(p := Y)) s'"
    "same_alive P X s (X(p := Y)) s'" "fst Y = [] \<longleftrightarrow> X p = ([], [], [])" "fst Y = [] \<longrightarrow> Y = ([], [], [])"
    "list_frame p (page_room p s) s s'" "pg_capacity (st_page s' p) = pg_capacity (st_page s p)" "heap_keeps s s'"
    by (rule collect_step [OF W p])
  note T = list_frame_fields [OF S(6)]
  have "page_open q s'" if "page_open q s" for q
  proof (cases "q = p")
    case True
    have "page_available p (X p) s" using page_has_room_available [OF W p] that True by (simp add: page_open_def)
    then have "pg_free (st_page s' p) \<noteq> 0 \<or> pg_capacity (st_page s' p) < pg_reserved (st_page s' p)"
      using S(4,7) T collect_empty [OF S(2) p] by (auto simp: page_available_def mi_page_immediate_available_def)
    then show ?thesis using that True T by (auto simp: page_open_def page_has_room_def)
  qed (use that page_open_frame [OF S(6)] in simp)
  moreover have "delayed_on q s'" if "delayed_on q s" for q
  proof (cases "q = p")
    case True
    then show ?thesis using that collect_flag [OF W p S(1)] by (simp add: delayed_on_def)
  next
    case False
    then have "st_page s' q = st_page s q" using S(6) unfolding list_frame_def by blast
    then show ?thesis using that by (simp add: delayed_on_def)
  qed
  ultimately have M: "heap_moves P X s {} (X(p := Y)) s'" by (intro heap_moves_same [OF S(3,8)])
  have "heap_repr h Q s'" using alloc_inv_D(1) [OF I] heap_repr_list_frame [OF S(6)] by simp
  from alloc_inv_moves [OF I M this S(2) refl] show thesis using that S(1) M by blast
qed

lemma mi_free_block_keep:
  assumes W: "page_wf p F L T s" and x: "x \<in> page_alive p F L T s" and more: "1 < unat (pg_used (st_page s p))"
  shows "mi_free_block p True x s = Some (if pg_in_full (st_page s p) then mi_page_unfull p (page_local_push p x s)
    else page_local_push p x s)"
proof -
  note L = page_local_push_wf [OF W x]
  have "unat (pg_used (st_page s p) - 1) = unat (pg_used (st_page s p)) - 1"
    using more by (subst unat_sub_bounded) (simp_all add: word_le_nat_alt)
  then have "pg_used (st_page (page_local_push p x s) p) \<noteq> 0"
    using more unfolding L(4) by (metis unat_0 zero_less_diff less_irrefl)
  moreover have "pg_in_full (st_page (page_local_push p x s) p) = pg_in_full (st_page s p)"
    using list_frame_fields [OF L(2)] by simp
  ultimately show ?thesis by (simp add: mi_free_block_def Let_def mi_page_all_free_def)
qed

text \<open>One delayed block, of a page with another block in use.\<close>

lemma delayed_block_step:
  assumes I: "alloc_inv h P Q X s" and x: "x \<in> held_blocks P X s"
    and y: "y \<in> held_blocks P X s" "y \<noteq> x" "mi_ptr_page y s = mi_ptr_page x s"
  shows "\<exists>s' Q' X'. mi_free_delayed_block x s = Some s' \<and> alloc_inv h P Q' X' s' \<and> heap_moves P X s {x} X' s' \<and>
    page_open (mi_ptr_page x s) s' \<and> delayed_on (mi_ptr_page x s) s'"
proof -
  define p where "p = mi_ptr_page x s"
  note p = alloc_inv_page [OF I x, folded p_def]
  have yp: "mi_ptr_page y s = p" using y(3) by (simp add: p_def)
  obtain s1 where U: "mi_page_use_delayed_free p MI_USE_DELAYED_FREE False s = Some s1" "alloc_inv h P Q X s1"
    "heap_moves P X s {} X s1" "delayed_on p s1"
    using use_delayed_step [OF I p(1)] by blast
  obtain s2 Y where C: "mi_page_free_collect p False s1 = Some s2" "alloc_inv h P Q Y s2" "heap_moves P X s1 {} Y s2"
    by (rule collect_inv [OF U(2) p(1)])
  have M: "heap_moves P X s {} Y s2" using heap_moves_trans [OF U(3) C(3)] by simp
  have seg: "mi_ptr_page z s2 = mi_ptr_page z s" for z
    using M by (simp add: mi_ptr_page_def mi_segment_page_of_def mi_segment_page_idx_of_def heap_moves_def heap_keeps_def)
  have held: "x \<in> held_blocks P Y s2" "y \<in> held_blocks P Y s2" using M x y(1) by (simp_all add: heap_moves_def)
  have alive: "x \<in> alive_blocks p (Y p) s2" "y \<in> alive_blocks p (Y p) s2"
    using alloc_inv_page(2) [OF C(2)] held seg yp by (metis p_def)+
  note A = alive_page_facts [OF C(2) p(1)]
  have "card {x, y} \<le> card (alive_blocks p (Y p) s2)"
    using alive by (intro card_mono) (auto simp: alive_blocks_def page_alive_finite)
  then have "1 < unat (pg_used (st_page s2 p))"
    using page_used_card [OF A(1)] y(2) by (simp add: alive_blocks_def)
  note run = mi_free_block_keep [OF A(1) alive(1) [unfolded alive_blocks_def] this]
  have "mi_free_delayed_block x s = mi_free_block p True x s2"
    using U(1) C(1) by (simp add: mi_free_delayed_block_def p_def mi_ptr_page_def)
  moreover have "heap_moves P X s {x} Z u" if "heap_moves P Y s2 {x} Z u" for Z u
    using heap_moves_trans [OF M that] by simp
  moreover have "delayed_on p u" if "heap_moves P Y s2 {x} Z u" for Z u
    using U(4) C(3) that p(1) unfolding heap_moves_def by blast
  ultimately show ?thesis using push_unfull_step [OF C(2) p(1) alive(1)] run unfolding p_def [symmetric] by (metis (no_types))
qed

text \<open>The list of delayed blocks, whose pages all keep a block that is not on it.\<close>

lemma delayed_free_loop_run:
  assumes "alloc_inv h P Q X s" and "chain (st_block s) b D" and "distinct D" and "set D \<subseteq> held_blocks P X s"
    and "\<forall>x \<in> set D. \<exists>y \<in> held_blocks P X s - set D. mi_ptr_page y s = mi_ptr_page x s"
  shows "\<exists>s' Q' X'. delayed_free_loop b s = Some s' \<and> alloc_inv h P Q' X' s' \<and> heap_moves P X s (set D) X' s' \<and>
    (\<forall>x \<in> set D. page_open (mi_ptr_page x s) s' \<and> delayed_on (mi_ptr_page x s) s')"
  using assms
proof (induction D arbitrary: b s Q X)
  case Nil
  moreover have "heap_moves P X s {} X s" by (intro heap_moves_same same_alive_refl heap_keeps_refl)
  ultimately show ?case by (auto simp: delayed_free_loop.simps)
next
  case (Cons x D)
  have b: "b = x" "x \<noteq> 0" "chain (st_block s) (st_block s x) D" using Cons.prems(2) by auto
  obtain y where y: "y \<in> held_blocks P X s" "y \<notin> set (x # D)" "mi_ptr_page y s = mi_ptr_page x s"
    using Cons.prems(5) by auto
  obtain s1 Q1 X1 where S: "mi_free_delayed_block x s = Some s1" "alloc_inv h P Q1 X1 s1" "heap_moves P X s {x} X1 s1"
    "page_open (mi_ptr_page x s) s1" "delayed_on (mi_ptr_page x s) s1"
    using delayed_block_step [OF Cons.prems(1), of x y] Cons.prems(4) y by auto
  have seg: "mi_ptr_page z s1 = mi_ptr_page z s" for z
    using S(3) by (simp add: mi_ptr_page_def mi_segment_page_of_def mi_segment_page_idx_of_def heap_moves_def heap_keeps_def)
  have held: "held_blocks P X1 s1 = held_blocks P X s - {x}" using S(3) by (simp add: heap_moves_def)
  have "st_block s1 z = st_block s z" if "z \<in> set D" for z
    using S(3) Cons.prems(3,4) that by (auto simp: heap_moves_def)
  then have "chain (st_block s1) (st_block s x) D" using b(3) chain_cong by metis
  moreover have "distinct D" "set D \<subseteq> held_blocks P X1 s1" using Cons.prems(3,4) by (auto simp: held)
  moreover have "\<forall>z \<in> set D. \<exists>y \<in> held_blocks P X1 s1 - set D. mi_ptr_page y s1 = mi_ptr_page z s1"
    using Cons.prems(5) by (auto simp: held seg)
  ultimately obtain s' Q' X' where R: "delayed_free_loop (st_block s x) s1 = Some s'" "alloc_inv h P Q' X' s'"
    "heap_moves P X1 s1 (set D) X' s'"
    "\<forall>z \<in> set D. page_open (mi_ptr_page z s1) s' \<and> delayed_on (mi_ptr_page z s1) s'"
    using Cons.IH [OF S(2)] by blast
  have "delayed_free_loop b s = Some s'"
    using b S(1) R(1) by (subst delayed_free_loop.simps) (simp add: mi_block_next_def)
  moreover have "mi_ptr_page x s \<in> P" using alloc_inv_page(1) [OF Cons.prems(1)] Cons.prems(4) by simp
  then have "page_open (mi_ptr_page x s) s' \<and> delayed_on (mi_ptr_page x s) s'"
    using S(4,5) R(3) unfolding heap_moves_def by blast
  ultimately show ?case using R(2,4) heap_moves_trans [OF S(3) R(3)] unfolding seg by auto
qed

section \<open>Blocks are aligned\<close>

lemma page_area_aligned:
  assumes G: "page_geometry p s" and K: "sg_page_kind (st_segment s (fst p)) \<noteq> MI_PAGE_HUGE"
    and xbs: "pg_xblock_size (st_page s p) < MI_HUGE_BLOCK_SIZE" and al: "8 dvd unat (mi_page_block_size p s)"
  shows "8 dvd unat (page_area p s)"
proof -
  let ?bs = "ucast (pg_xblock_size (st_page s p)) :: u64" and ?sg = "st_segment s (fst p)"
  have P: "page_in_segment p s" and fits: "block_size_fits ?bs ?sg" using G by (simp_all add: page_geometry_def)
  have bs: "mi_page_block_size p s = ?bs" using xbs by (simp add: mi_page_block_size_eq)
  have pos: "0 < ?bs" using G bs by (simp add: page_geometry_def)
  obtain start psz pre where run: "mi_segment_page_start p ?bs s = (start, psz, pre)" by (metis prod_cases3)
  note S = page_start_unat [OF P fits run]
  have area: "page_area p s = start" by (simp add: page_area_def mi_page_start_def run)
  have shape: "segment_shape (fst p) ?sg" using P by (simp add: page_in_segment_def)
  have seg: "8 dvd unat (fst p)" by (rule dvd_trans [of 8 131072]) (use shape in \<open>simp_all add: segment_shape_def\<close>)
  have "8 dvd page_stride ?sg" "8 dvd unat (sg_info_size ?sg)"
    using shape K by (cases "sg_page_kind ?sg"; simp add: segment_shape_def page_stride_def mi_consts)+
  note parts = seg this
  show ?thesis
  proof (cases "snd p = 0 \<and> page_kind_le_medium (sg_page_kind ?sg)")
    case True
    then have "unat ?bs dvd unat start" using S(3) pos by blast
    then show ?thesis using al area bs by (metis dvd_trans)
  next
    case False
    then have "start = fst (mi_segment_raw_page_start p s)"
      using run P by (auto simp: mi_segment_page_start_def page_in_segment_def unat_eq_zero split: prod.splits if_splits)
    then show ?thesis using raw_page_start_unat(1) [OF P] parts by (simp add: area)
  qed
qed

lemma aligned_low_bits:
  assumes "8 dvd unat (x :: u64)"
  shows "x AND 3 = 0"
proof -
  have "x AND 3 = take_bit 2 x" by (simp add: take_bit_eq_mask mask_eq_exp_minus_1)
  moreover have "unat (take_bit 2 x) = take_bit 2 (unat x)" by (rule unsigned_take_bit_eq)
  ultimately have "unat (x AND 3) = unat x mod 4" by (simp only: take_bit_eq_mod) simp
  also have "\<dots> = 0" using assms by presburger
  finally show ?thesis by (simp add: unat_eq_zero)
qed

lemma alive_aligned:
  assumes I: "alloc_inv h P Q X s" and p: "p \<in> P" and x: "x \<in> alive_blocks p (X p) s"
  shows "x AND 3 = 0"
proof -
  note A = alive_page_facts [OF I p]
  have G: "page_geometry p s" using A(1) by (simp add: page_wf_def)
  have C: "mi_page_block_size p s = mi_bin_size (mi_bin (mi_page_block_size p s))"
    "pg_xblock_size (st_page s p) < MI_HUGE_BLOCK_SIZE"
    using alloc_inv_D(5) [OF I p] by (simp_all add: class_page_def)
  let ?k = "unat (mi_bin (mi_page_block_size p s))"
  have "page_bin ((st_page s p)\<lparr>pg_in_full := False\<rparr>) = ?k"
    using alloc_inv_size [OF I p] by (simp add: page_bin_def)
  then have "?k \<le> 74" using queue_bin_used(1) queue_bin_page_bin(1) by metis
  then have "unat (mi_bin_size (mi_bin (mi_page_block_size p s))) = mi_bin_wsizes ! ?k * 8"
    using unat_mi_bin_size [of ?k] by simp
  then have bs: "8 dvd unat (mi_page_block_size p s)" using C(1) by simp
  obtain i where i: "i < unat (pg_reserved (st_page s p))" "x = page_block p s i"
    using alive_room [OF alloc_inv_D(2) [OF I] p] x by (auto simp: page_room_def)
  have "unat x = unat (page_area p s) + i * unat (mi_page_block_size p s)"
    using unat_page_block(1) [OF G, of i] i by simp
  then have "8 dvd unat x" using page_area_aligned [OF G A(2) C(2) bs] bs by simp
  then show ?thesis by (rule aligned_low_bits)
qed

section \<open>A free by another thread\<close>

text \<open>Thread \<open>t\<close> runs \<open>mi_free\<close>, then the owner goes on.\<close>

definition free_by :: "u64 \<Rightarrow> addr \<Rightarrow> mstate \<Rightarrow> mstate option" where
  "free_by t x s = map_option (\<lambda>u. u\<lparr>st_thread_id := st_thread_id s\<rparr>) (mi_free x (s\<lparr>st_thread_id := t\<rparr>))"

lemma as_thread_pages [simp]:
  "mi_page_block_size p (s\<lparr>st_thread_id := t\<rparr>) = mi_page_block_size p s"
  "mi_page_start p (s\<lparr>st_thread_id := t\<rparr>) = mi_page_start p s"
  "mi_segment_page_of a x (s\<lparr>st_thread_id := t\<rparr>) = mi_segment_page_of a x s"
  "mi_page_ptr_unalign p x (s\<lparr>st_thread_id := t\<rparr>) = mi_page_ptr_unalign p x s"
  by (simp_all add: mi_page_block_size_def mi_page_start_def mi_segment_page_start_def mi_segment_raw_page_start_def
      mi_segment_page_of_def mi_segment_page_idx_of_def mi_page_ptr_unalign_def Let_def)

lemma free_block_mt_as_thread:
  assumes "sg_page_kind (st_segment s (fst p)) \<noteq> MI_PAGE_HUGE"
  shows "mi_free_block_mt p x (s\<lparr>st_thread_id := t\<rparr>) = map_option (\<lambda>u. u\<lparr>st_thread_id := t\<rparr>) (mi_free_block_mt p x s)"
    and "mi_free_block_mt p x s = Some u \<Longrightarrow> st_thread_id u = st_thread_id s"
  using assms
  by (auto simp: mi_free_block_mt_def Let_def page_set_tfree_def heap_delayed_push_def page_upd_def heap_upd_def
      mi_block_set_next_def block_upd_def mi_page_heap_def split: if_splits)

lemma free_by_eq:
  assumes I: "alloc_inv h P Q X s" and p: "p \<in> P" and x: "x \<in> alive_blocks p (X p) s" and t: "t \<noteq> st_thread_id s"
  shows "free_by t x s = mi_free_block_mt p x s"
proof -
  note A = alive_page_facts [OF I p] and B = points_to_ptr [OF A(1,2) x [unfolded alive_blocks_def] A(4)]
  have "mi_free x (s\<lparr>st_thread_id := t\<rparr>) = mi_free_block_mt p x (s\<lparr>st_thread_id := t\<rparr>)"
    using B(1-4) A(3) t by (cases "pg_has_aligned (st_page s p)") (simp_all add: mi_free_def mi_free_generic_def mi_free_block_def Let_def)
  then show ?thesis
    using free_block_mt_as_thread [OF A(2)] by (cases "mi_free_block_mt p x s") (auto simp: free_by_def)
qed

text \<open>With delayed freeing off, the block goes on the list of the page that the threads share.\<close>

lemma remote_push_step:
  assumes I: "alloc_inv h P Q X s" and p: "p \<in> P" and x: "x \<in> alive_blocks p (X p) s"
    and flag: "mi_page_thread_free_flag (st_page s p) \<noteq> MI_USE_DELAYED_FREE"
  shows "\<exists>s' X'. mi_free_block_mt p x s = Some s' \<and> alloc_inv h P Q X' s' \<and> heap_moves P X s {x} X' s'"
proof -
  note A = alive_page_facts [OF I p]
  obtain F L T where X: "X p = (F, L, T)" by (cases "X p") auto
  have wf: "page_wf p F L T s" using A(1) X by simp
  have xp: "x \<in> page_alive p F L T s" using x X by (simp add: alive_blocks_def)
  let ?tf = "pg_xthread_free (st_page s p)"
  define s' where "s' = page_set_tfree p (mi_tf_set_block ?tf x) (mi_block_set_next x (mi_tf_block ?tf) s)"
  note al = alive_aligned [OF I p x] and S = mt_push_wf [OF wf xp alive_aligned [OF I p x], folded s'_def]
  have run: "mi_free_block_mt p x s = Some s'"
    using A(2) flag by (simp add: mi_free_block_mt_def Let_def s'_def mi_page_thread_free_flag_def)
  have "mi_page_thread_free (st_page s' p) = x"
    using al by (simp add: s'_def page_set_tfree_def store_simps mi_page_thread_free_eq mi_tf_set_block_def)
  then have "alloc_inv h P Q (X(p := (F, L, x # T))) s'" "heap_moves P X s {x} (X(p := (F, L, x # T))) s'"
    using push_step [OF I p x S(2), of "(F, L, x # T)"] S(1,3,4) X by (simp_all add: wf_blocks_def alive_blocks_def)
  then show ?thesis using run by blast
qed

text \<open>With it on, the block goes on the list of the heap, and the page counts it as in use.\<close>

lemma block_write_step:
  fixes n :: addr
  assumes I: "alloc_inv h P Q X s" and p: "p \<in> P" and x: "x \<in> alive_blocks p (X p) s"
  defines "t \<equiv> mi_block_set_next x n s"
  shows "alloc_inv h P Q X t" and "held_blocks P X t = held_blocks P X s" and "heap_keeps s t"
    and "mi_page_block_size q t = mi_page_block_size q s" and "page_open q t = page_open q s"
proof -
  note W = alloc_inv_D(2) [OF I]
  have wf: "page_wf p (fst (X p)) (fst (snd (X p))) (snd (snd (X p))) s" using W p by (simp add: pages_wf_def wf_blocks_def)
  have fr: "list_frame p {x} s t" unfolding t_def by (rule list_frame_block) simp
  have room: "{x} \<subseteq> page_room p s" using alive_room [OF W p] x by blast
  have "x \<notin> set (fst (X p) @ fst (snd (X p)) @ snd (snd (X p)))"
    using page_alive_used(3) [OF wf] x by (simp add: alive_blocks_def)
  then have Y: "wf_blocks p (X p) t" "alive_blocks p (X p) t = alive_blocks p (X p) s"
    using page_wf_block_other [of x] wf by (simp_all add: wf_blocks_def alive_blocks_def t_def)
  have same: "X(p := X p) = X" by simp
  note R = pages_wf_replace [OF W p fr room Y(1), unfolded same]
  show "held_blocks P X t = held_blocks P X s"
    using held_blocks_replace [OF W p fr room Y(1), unfolded same] Y(2) held_blocks_at [OF p, of X s] by simp
  show K: "heap_keeps s t"
    by (rule heap_keeps_list_frame [OF fr]) (simp add: t_def mi_block_set_next_def store_simps)
  show "mi_page_block_size q t = mi_page_block_size q s" for q by (rule R(3))
  show "page_open q t = page_open q s" by (rule page_open_cong) (simp_all add: t_def mi_block_set_next_def store_simps)
  have "heap_repr h Q t" using alloc_inv_D(1) [OF I] heap_repr_list_frame [OF fr] by simp
  then show "alloc_inv h P Q X t" by (rule alloc_inv_step [OF I K _ R(1) refl R(3)])
qed

lemma alloc_inv_delayed:
  "alloc_inv h P Q X (heap_upd g (\<lambda>hp. hp\<lparr>hp_thread_delayed_free := b\<rparr>) s) = alloc_inv h P Q X s"
  "same_alive P X s X (heap_upd g (\<lambda>hp. hp\<lparr>hp_thread_delayed_free := b\<rparr>) s)"
proof -
  let ?t = "heap_upd g (\<lambda>hp. hp\<lparr>hp_thread_delayed_free := b\<rparr>) s"
  have F: "pages_wf P X ?t = pages_wf P X s" "same_alive P X s X ?t"
    by (rule pages_wf_fields; simp add: store_simps)+
  have bs: "mi_page_block_size p ?t = mi_page_block_size p s" for p
    using page_geometry_frame [of ?t p s] by (simp add: store_simps)
  have "heap_running h ?t = heap_running h s" by (simp add: heap_running_def heap_tld_def store_simps)
  moreover have "class_page p ?t = class_page p s" for p by (simp add: class_page_def bs store_simps)
  ultimately show "alloc_inv h P Q X ?t = alloc_inv h P Q X s" using F(1) by (simp add: alloc_inv_def)
  show "same_alive P X s X ?t" by (rule F(2))
qed

lemma remote_delayed_step:
  assumes I: "alloc_inv h P Q X s" and p: "p \<in> P" and x: "x \<in> alive_blocks p (X p) s"
    and flag: "mi_page_thread_free_flag (st_page s p) = MI_USE_DELAYED_FREE" and h: "h \<noteq> 0"
  obtains s' where "mi_free_block_mt p x s = Some s'" "alloc_inv h P Q X s'" "held_blocks P X s' = held_blocks P X s"
    "\<forall>q. mi_page_block_size q s' = mi_page_block_size q s" "st_segment s' = st_segment s"
    "hp_thread_delayed_free (st_heap s' h) = x" "st_block s' = (st_block s)(x := hp_thread_delayed_free (st_heap s h))"
proof -
  note A = alive_page_facts [OF I p]
  have hp: "pg_xheap (st_page s p) = h"
    using heap_repr_page(1) [OF alloc_inv_D(1) [OF I]] alloc_inv_D(4) [OF I] p by (simp add: mi_page_heap_def)
  let ?tf = "pg_xthread_free (st_page s p)"
  define t where "t = mi_block_set_next x (hp_thread_delayed_free (st_heap s h)) s"
  define w where "w = heap_upd h (\<lambda>hp. hp\<lparr>hp_thread_delayed_free := x\<rparr>) t"
  define s' where "s' = page_set_tfree p (mi_tf_set_delayed (pg_xthread_free (st_page w p)) MI_NO_DELAYED_FREE) w"
  note T = block_write_step [OF I p x, where n = "hp_thread_delayed_free (st_heap s h)", folded t_def]
  have Iw: "alloc_inv h P Q X w" and Aw: "same_alive P X t X w"
    using T(1) alloc_inv_delayed by (simp_all add: w_def)
  note V = set_flag_step [OF Iw p, of MI_NO_DELAYED_FREE, folded s'_def, simplified]
  have "mi_free_block_mt p x s = Some s'"
    using A(2) flag h
    by (simp add: mi_free_block_mt_def Let_def s'_def w_def t_def mi_page_thread_free_flag_def page_set_tfree_def
        heap_delayed_push_def mi_page_heap_def hp page_upd_def heap_upd_def mi_block_set_next_def block_upd_def
        mi_tf_set_delayed_def)
  moreover have "held_blocks P X s' = held_blocks P X s"
    using V(2) held_blocks_same [OF Aw] T(2) by simp
  moreover have "mi_page_block_size q s' = mi_page_block_size q s" for q
    using page_geometry_frame [of s' q s]
    by (simp add: s'_def w_def t_def page_set_tfree_def store_simps mi_block_set_next_def)
  ultimately show thesis
    using that V(1) by (simp add: s'_def w_def t_def page_set_tfree_def store_simps mi_block_set_next_def)
qed

section \<open>A free by the owner, on every path\<close>

lemma heap_repr_without:
  assumes R: "heap_repr h Q s" and out: "\<not> in_queues p Q"
  shows "heap_repr h Q (mi_page_set_heap p g s)"
proof -
  let ?t = "mi_page_set_heap p g s"
  have q: "queue_of r ?t = queue_of r s" for r by (simp add: mi_page_set_heap_def store_simps)
  have "queue_holds ?t r xs = queue_holds s r xs" for r xs
    unfolding page_list.holds_def q by (rule dlist_cong) (simp_all add: mi_page_set_heap_def store_simps)
  moreover have "mi_page_heap m ?t = mi_page_heap m s" "page_bin (st_page ?t m) = page_bin (st_page s m)" if "m \<noteq> p" for m
    using that by (simp_all add: mi_page_set_heap_def mi_page_heap_def page_bin_def store_simps)
  moreover have "m \<noteq> p" if "i \<le> 74" "m \<in> set (Q i)" for m i using out that by (auto simp: in_queues_def)
  ultimately show ?thesis
    using R by (simp add: heap_repr_def queue_lists_def queue_pages_ok_def queue_sizes_ok_def direct_ok_def q
        mi_page_set_heap_def store_simps)
qed

lemma heap_repr_removed:
  fixes p :: page_id
  assumes R: "heap_repr h Q s"
  defines "k \<equiv> page_bin (st_page s p)"
  shows "\<not> in_queues p (Q(k := remove1 p (Q k)))"
proof
  assume "in_queues p (Q(k := remove1 p (Q k)))"
  then obtain i where i: "i \<le> 74" "p \<in> set ((Q(k := remove1 p (Q k))) i)" by (auto simp: in_queues_def)
  have bin: "page_bin (st_page s p) = i" if "p \<in> set (Q i)"
    using R i(1) that by (auto simp: heap_repr_def queue_pages_ok_def)
  have "distinct (Q i)"
    using R i(1) by (auto simp: heap_repr_def queue_lists_def page_list.holds_def dest: dlist_distinct)
  then show False using i(2) bin by (cases "i = k") (auto simp: k_def)
qed

text \<open>The page given back: out of the queues of its heap and of the heap, then freed in its segment.\<close>

lemma mi_page_retire_frees:
  assumes R: "heap_repr h Q s" and p: "in_queues p Q" and retires: "\<not> page_retires p s"
  defines "k \<equiv> page_bin (st_page s p)"
  shows "\<exists>t. mi_page_retire p s = mi_segment_page_free p False (heap_tld h s) t \<and>
    heap_repr h (Q(k := remove1 p (Q k))) t \<and> mi_page_heap p t = 0 \<and> pg_used (st_page t p) = pg_used (st_page s p)"
proof -
  define u where "u = mi_page_set_has_aligned p False (mi_page_set_has_aligned p False s)"
  note defs = u_def mi_page_set_has_aligned_def store_simps
  have Ru: "heap_repr h Q u" using R heap_repr_cong [of u h s Q] by (simp add: defs)
  have u: "mi_page_queue_of p u = mi_page_queue_of p s" "page_bin (st_page u p) = k" "mi_page_heap p u = h"
    "heap_tld h u = heap_tld h s" "pg_used (st_page u p) = pg_used (st_page s p)"
    using heap_repr_page(1) [OF R p]
    by (simp_all add: defs mi_page_queue_of_def page_bin_def mi_page_heap_def heap_tld_def k_def)
  let ?v = "mi_page_queue_remove (mi_page_queue_of p u) p u" and ?Q = "Q(k := remove1 p (Q k))"
  let ?t = "mi_page_set_heap p 0 ?v"
  have V: "heap_repr h ?Q ?v" using heap_repr_remove [OF Ru p] u(2) by simp
  have out: "\<not> in_queues p ?Q" using heap_repr_removed [OF R] by (simp add: k_def)
  define w where "w = mi_page_set_has_aligned p False s"
  have same: "mi_page_queue_of p w = mi_page_queue_of p s"
    by (simp add: w_def mi_page_set_has_aligned_def mi_page_queue_of_def page_bin_def mi_page_heap_def store_simps)
  have stay: "\<not> (ucast (pg_xblock_size (st_page w p)) \<le> MI_MAX_RETIRE_SIZE \<and> \<not> pg_in_full (st_page w p) \<and>
      pq_last (queue_of (mi_page_queue_of p w) w) = Some p \<and> pq_first (queue_of (mi_page_queue_of p w) w) = Some p)"
    using retires unfolding same by (simp add: page_retires_def w_def mi_page_set_has_aligned_def store_simps)
  have "mi_page_retire p s = mi_page_free p (mi_page_queue_of p s) False w"
    unfolding mi_page_retire_def Let_def w_def [symmetric] same if_not_P [OF stay [unfolded same]] ..
  also have "\<dots> = mi_segment_page_free p False (heap_tld h s) ?t"
    by (simp add: mi_page_free_def Let_def u w_def flip: u_def)
  finally have "mi_page_retire p s = mi_segment_page_free p False (heap_tld h s) ?t" .
  moreover have "heap_repr h ?Q ?t" by (rule heap_repr_without [OF V out])
  moreover have "mi_page_heap p ?t = 0" by (simp add: mi_page_set_heap_def mi_page_heap_def store_simps)
  moreover have "pg_used (st_page ?t p) = pg_used (st_page s p)"
    using page_core_fields(5) [OF queue_remove_core(1)] u(5)
    by (simp add: mi_page_set_heap_def store_simps)
  ultimately show ?thesis by blast
qed

text \<open>
  C4. Freeing a block by the thread that owns its segment, on a page of a heap that is not huge, on every
  path. \<open>mi_free\<close> finds the block also from a pointer inside it when the page has aligned blocks. If the
  page keeps other blocks in use, the block is the only one taken from those in use and goes on the local
  free list, and a page of the full queue returns to the end of the queue of its size class. If the block is
  the last and its page the only one of its size class and not full, the page stays in the heap with no
  block in use, marked to expire. If it is the last on any other page, a full one too, the page leaves its
  queue and the heap with no block in use and is freed in its segment.
\<close>

theorem mi_free_owner_correct:
  assumes "heap_repr h Q s" and "in_queues p Q" and "page_wf p F L T s"
    and "sg_page_kind (st_segment s (fst p)) \<noteq> MI_PAGE_HUGE" and "x \<in> page_alive p F L T s"
    and "points_to p q x s" and "sg_thread_id (st_segment s (fst p)) = st_thread_id s"
  shows "if 1 < unat (pg_used (st_page s p)) then
      \<exists>s'. mi_free q s = Some s' \<and> page_wf p F (x # L) T s' \<and>
        page_alive p F (x # L) T s' = page_alive p F L T s - {x} \<and>
        heap_repr h (unfull_queues p Q s) s' \<and> \<not> pg_in_full (st_page s' p)
    else page_alive p F L T s = {x} \<and>
      (if page_retires p s then
        \<exists>s'. mi_free q s = Some s' \<and> page_wf p F (x # L) T s' \<and> page_alive p F (x # L) T s' = {} \<and>
          heap_repr h Q s' \<and> 0 < pg_retire_expire (st_page s' p) \<and> \<not> pg_has_aligned (st_page s' p)
      else
        \<exists>t. mi_free q s = mi_segment_page_free p False (heap_tld h s) t \<and> mi_page_all_free (st_page t p) \<and>
          heap_repr h (Q(page_bin (st_page s p) := remove1 p (Q (page_bin (st_page s p))))) t \<and> mi_page_heap p t = 0)"
proof (cases "1 < unat (pg_used (st_page s p))")
  case True
  have "p \<in> set (Q 74)" if "pg_in_full (st_page s p)"
    using heap_repr_page(2) [OF assms(1,2)] that by (simp add: page_bin_def mi_consts)
  then show ?thesis
    using mi_free_local_wf [OF assms(3-7) True] free_keep_page [OF assms(3,5,1)] True by simp
next
  case False
  then have last: "\<not> 1 < pg_used (st_page s p)" by (simp add: word_less_nat_alt)
  let ?t = "page_local_push p x s"
  note L = page_local_push_wf [OF assms(3,5)] and M = mi_free_last [OF assms(3-7) last]
  note T = list_frame_fields [OF L(2)] and P = page_retires_push [OF L(2)]
  have R: "heap_repr h Q ?t" using assms(1) heap_repr_list_frame [OF L(2)] by simp
  show ?thesis
  proof (cases "page_retires p s")
    case True
    then have "page_retires p ?t" using P by simp
    then obtain s' where S: "mi_page_retire p ?t = Some s'" "heap_repr h Q s' = heap_repr h Q ?t"
      "pages_wf {} (\<lambda>_. ([], [], [])) s' = pages_wf {} (\<lambda>_. ([], [], [])) ?t"
      "heap_moves {} (\<lambda>_. ([], [], [])) ?t {} (\<lambda>_. ([], [], [])) s'"
      "\<not> pg_has_aligned (st_page s' p)" "0 < pg_retire_expire (st_page s' p)"
      "\<forall>F L T. page_wf p F L T s' = page_wf p F L T ?t" "\<forall>F L T. page_alive p F L T s' = page_alive p F L T ?t"
      by (rule mi_page_retire_stays [where h = h and Q = Q and P = "{}" and X = "\<lambda>_. ([], [], [])"])
    then show ?thesis using False True M R L(1,3) by simp
  next
    case retires: False
    then have "\<not> page_retires p ?t" using P by simp
    note F = mi_page_retire_frees [OF R assms(2) this]
    have "heap_tld h ?t = heap_tld h s" using T by (simp add: heap_tld_def)
    moreover have "page_bin (st_page ?t p) = page_bin (st_page s p)" using T by (simp add: page_bin_def)
    ultimately show ?thesis using False retires M F by (auto simp: mi_page_all_free_def)
  qed
qed

lemma mi_free_owner_correct_witness:
  "\<exists>s'. mi_free 0x20510 (malloc_example 1) = Some s' \<and>
     page_alive (0x20000, 0) [0x20500] [0x20510] [] s' = {0x20520}"
proof -
  let ?s = "malloc_example 1"
  note E = malloc_example_repr [of 1]
  have "in_queues (0x20000, 0) ((\<lambda>_. [])(2 := [(0x20000, 0)]))" by (auto simp: in_queues_def)
  then show ?thesis
    using mi_free_owner_correct [OF E(1) _ E(2), of "0x20510" "0x20510"] E(3,5)
    by (auto simp: points_to_def segment_example_def malloc_example_page)
qed

end
