(* ===== verification/Allocator.thy ===== *)
theory Allocator
  imports HeapSteps
begin

text \<open>
  A heap in use: sequences of allocations and frees by the thread that owns the heap and of frees by
  other threads, in any order. The abstract state is the map from the blocks that the program holds to the
  sizes it asked for. Allocation takes the fast path of small requests or the slow path, which first
  frees the blocks on the delayed list of the heap, then searches the queue of the size class.
\<close>

section \<open>The heap with its delayed list\<close>

definition heap_inv ::
    "addr \<Rightarrow> page_id set \<Rightarrow> (nat \<Rightarrow> page_id list) \<Rightarrow> (page_id \<Rightarrow> block_lists) \<Rightarrow> addr list \<Rightarrow> mstate \<Rightarrow> bool" where
  "heap_inv h P Q X D s \<longleftrightarrow> alloc_inv h P Q X s \<and> chain (st_block s) (hp_thread_delayed_free (st_heap s h)) D \<and>
     distinct D \<and> set D \<subseteq> held_blocks P X s"

text \<open>The blocks of the program are those in use that are not delayed.\<close>

definition program_blocks :: "page_id set \<Rightarrow> (page_id \<Rightarrow> block_lists) \<Rightarrow> addr list \<Rightarrow> mstate \<Rightarrow> addr set" where
  "program_blocks P X D s = held_blocks P X s - set D"

lemma heap_inv_moves:
  assumes I: "heap_inv h P Q X D s" and A: "alloc_inv h P Q' X' s'" and M: "heap_moves P X s B X' s'"
    and B: "B \<inter> set D = {}"
  shows "heap_inv h P Q' X' D s'" and "program_blocks P X' D s' = program_blocks P X D s - B"
proof -
  have sub: "set D \<subseteq> held_blocks P X s - B" using I B by (auto simp: heap_inv_def)
  have "chain (st_block s') b D = chain (st_block s) b D" for b
    by (rule chain_cong) (use sub M in \<open>auto simp: heap_moves_def\<close>)
  moreover have "hp_thread_delayed_free (st_heap s' h) = hp_thread_delayed_free (st_heap s h)"
    using M by (simp add: heap_moves_def heap_keeps_def)
  ultimately show "heap_inv h P Q' X' D s'" using I A M sub by (simp add: heap_inv_def heap_moves_def)
  show "program_blocks P X' D s' = program_blocks P X D s - B"
    using M by (auto simp: program_blocks_def heap_moves_def)
qed

section \<open>Allocation\<close>

text \<open>What an allocation ends with: the block \<open>b\<close> is new to the program, and the blocks it held are as before.\<close>

definition alloc_done ::
    "addr \<Rightarrow> page_id set \<Rightarrow> addr set \<Rightarrow> u64 \<Rightarrow> mstate \<Rightarrow> addr \<Rightarrow> mstate \<Rightarrow> bool" where
  "alloc_done h P H sz s b s' \<longleftrightarrow> (\<exists>Q' X' D'. heap_inv h P Q' X' D' s' \<and> program_blocks P X' D' s' = insert b H) \<and>
     b \<noteq> 0 \<and> b \<notin> H \<and> sz \<le> mi_page_block_size (mi_ptr_page b s) s \<and>
     mi_page_block_size (mi_ptr_page b s) s = mi_bin_size (mi_bin sz) \<and> st_segment s' = st_segment s \<and>
     (\<forall>p \<in> P. mi_page_block_size p s' = mi_page_block_size p s) \<and> (\<forall>x \<in> H. st_block s' x = st_block s x)"

text \<open>The fast path leaves the delayed list alone.\<close>

lemma malloc_fast_step:
  assumes I: "heap_inv h P Q X D s" and sz: "sz \<le> MI_SMALL_SIZE_MAX" and Q: "Q (unat (mi_bin sz)) = p # ps"
    and free: "pg_free (st_page s p) \<noteq> 0"
  shows "\<exists>b s'. mi_heap_malloc h sz s = Some (b, s') \<and> alloc_done h P (program_blocks P X D s) sz s b s'"
proof -
  have A: "alloc_inv h P Q X s" using I by (simp add: heap_inv_def)
  note R = alloc_inv_D(1) [OF A] and W = alloc_inv_D(2) [OF A]
  have large: "sz \<le> MI_LARGE_OBJ_SIZE_MAX" using sz by (rule order_trans) (simp add: mi_consts)
  note C = class_queue [OF A large]
  have p: "p \<in> P" "mi_page_block_size p s = mi_bin_size (mi_bin sz)" using C(1,2) Q by auto
  obtain b s' X' where M: "page_pop p s = (b, s')" "malloc_ends P h Q sz X s b X' s'"
    using malloc_small_ends(2) [OF R W sz p(1) Q free p(2)] by blast
  have E: "heap_repr h Q s'" "pages_wf P X' s'" "heap_keeps s s'" "\<And>q. q \<in> P \<Longrightarrow> mi_page_block_size q s' = mi_page_block_size q s"
    "b \<noteq> 0" "b \<notin> held_blocks P X s" "held_blocks P X' s' = insert b (held_blocks P X s)"
    "\<And>x. x \<in> held_blocks P X s \<Longrightarrow> st_block s' x = st_block s x" "sz \<le> mi_page_block_size (mi_ptr_page b s) s"
    "mi_page_block_size (mi_ptr_page b s) s = mi_bin_size (mi_bin sz)"
    using M(2) unfolding malloc_ends_def by blast+
  have run: "mi_heap_malloc h sz s = Some (b, s')"
    using malloc_small_head [OF R sz Q] free M(1) by (simp add: mi_page_malloc_def)
  have A': "alloc_inv h P Q X' s'" by (rule alloc_inv_step [OF A E(3,1,2) refl E(4)])
  have D: "set D \<subseteq> held_blocks P X s" "distinct D" "chain (st_block s) (hp_thread_delayed_free (st_heap s h)) D"
    using I by (simp_all add: heap_inv_def)
  have "chain (st_block s') c D = chain (st_block s) c D" for c
    by (rule chain_cong) (use D(1) E(8) in blast)
  moreover have K: "hp_thread_delayed_free (st_heap s' h) = hp_thread_delayed_free (st_heap s h)" "st_segment s' = st_segment s"
    using E(3) by (simp_all add: heap_keeps_def)
  ultimately have "heap_inv h P Q X' D s'" using A' D E(7) by (simp add: heap_inv_def subset_insertI2)
  moreover have "program_blocks P X' D s' = insert b (program_blocks P X D s)" "b \<notin> program_blocks P X D s"
    using E(6,7) D(1) by (auto simp: program_blocks_def)
  moreover have "st_block s' x = st_block s x" if "x \<in> program_blocks P X D s" for x
    using that E(8) by (simp add: program_blocks_def)
  ultimately have "alloc_done h P (program_blocks P X D s) sz s b s'"
    unfolding alloc_done_def using E(4,5,9,10) K(2) by blast
  then show ?thesis using run by blast
qed

text \<open>The slow path ends it.\<close>

definition delayed_pages_in_use :: "page_id set \<Rightarrow> (page_id \<Rightarrow> block_lists) \<Rightarrow> addr list \<Rightarrow> mstate \<Rightarrow> bool" where
  "delayed_pages_in_use P X D s \<longleftrightarrow>
     (\<forall>x \<in> set D. \<exists>y \<in> program_blocks P X D s. mi_ptr_page y s = mi_ptr_page x s)"

lemma heap_delayed_free_run:
  assumes I: "heap_inv h P Q X D s" and use: "delayed_pages_in_use P X D s"
  shows "\<exists>u Q' X'. mi_heap_delayed_free h s = Some u \<and> heap_inv h P Q' X' [] u \<and>
    held_blocks P X' u = program_blocks P X D s \<and> st_segment u = st_segment s \<and>
    (\<forall>p \<in> P. mi_page_block_size p u = mi_page_block_size p s) \<and> (\<forall>p \<in> P. page_open p s \<longrightarrow> page_open p u) \<and>
    (\<forall>x \<in> program_blocks P X D s. st_block u x = st_block s x) \<and>
    hp_thread_delayed_free (st_heap u h) = 0 \<and>
    (\<forall>x \<in> set D. page_open (mi_ptr_page x s) u \<and> delayed_on (mi_ptr_page x s) u)"
proof -
  let ?b = "hp_thread_delayed_free (st_heap s h)"
  define t where "t = (if ?b \<noteq> 0 then heap_upd h (\<lambda>hp. hp\<lparr>hp_thread_delayed_free := 0\<rparr>) s else s)"
  have A: "alloc_inv h P Q X t" and same: "same_alive P X s X t"
    using I alloc_inv_delayed by (auto simp: heap_inv_def t_def same_alive_refl)
  have t: "st_block t = st_block s" "st_segment t = st_segment s" "hp_thread_delayed_free (st_heap t h) = 0"
    "st_page t = st_page s"
    by (simp_all add: t_def store_simps)
  note held = held_blocks_same [OF same]
  have seg: "mi_ptr_page x t = mi_ptr_page x s" for x
    using t by (simp add: mi_ptr_page_def mi_segment_page_of_def mi_segment_page_idx_of_def)
  have "chain (st_block t) ?b D" "distinct D" "set D \<subseteq> held_blocks P X t" using I t held by (simp_all add: heap_inv_def)
  moreover have "\<forall>x \<in> set D. \<exists>y \<in> held_blocks P X t - set D. mi_ptr_page y t = mi_ptr_page x t"
    using use by (simp add: delayed_pages_in_use_def program_blocks_def held seg)
  ultimately obtain u Q' X' where U: "delayed_free_loop ?b t = Some u" "alloc_inv h P Q' X' u" "heap_moves P X t (set D) X' u"
    "\<forall>x \<in> set D. page_open (mi_ptr_page x t) u \<and> delayed_on (mi_ptr_page x t) u"
    using delayed_free_loop_run [OF A] by blast
  have "mi_heap_delayed_free h s = Some u" using U(1) by (simp add: mi_heap_delayed_free_def Let_def t_def)
  moreover have "heap_inv h P Q' X' [] u"
    using U(2,3) t(3) by (simp add: heap_inv_def heap_moves_def heap_keeps_def)
  moreover have "page_open p t = page_open p s" for p by (simp add: page_open_def page_has_room_def t(4))
  moreover have "\<forall>x \<in> set D. page_open (mi_ptr_page x s) u \<and> delayed_on (mi_ptr_page x s) u"
    using U(4) by (simp add: seg)
  ultimately show ?thesis
    using U(3) held t same unfolding heap_moves_def heap_keeps_def same_alive_def program_blocks_def by auto
qed

lemma ptr_page_segments: "st_segment t = st_segment s \<Longrightarrow> mi_ptr_page x t = mi_ptr_page x s"
  by (simp add: mi_ptr_page_def mi_segment_page_of_def mi_segment_page_idx_of_def)

lemma heap_inv_tld:
  fixes s :: mstate and d :: addr and f :: "mi_tld \<Rightarrow> mi_tld"
  defines "t \<equiv> tld_upd d f s"
  assumes I: "heap_inv h P Q X D s"
  shows "heap_inv h P Q X D t" and "held_blocks P X t = held_blocks P X s"
    and "mi_page_block_size p t = mi_page_block_size p s" and "page_open p t = page_open p s"
    and "delayed_pages_in_use P X D t = delayed_pages_in_use P X D s"
proof -
  have A: "alloc_inv h P Q X s" using I by (simp add: heap_inv_def)
  have F: "pages_wf P X t = pages_wf P X s" "same_alive P X s X t"
    by (rule pages_wf_fields; simp add: t_def store_simps)+
  show bs: "mi_page_block_size p t = mi_page_block_size p s" for p
    using page_geometry_frame [of t p s] by (simp add: t_def store_simps)
  show held: "held_blocks P X t = held_blocks P X s" by (rule held_blocks_same [OF F(2)])
  have "heap_repr h Q t = heap_repr h Q s" by (rule heap_repr_cong) (simp_all add: t_def store_simps)
  moreover have "heap_keeps s t" by (simp add: heap_keeps_def t_def store_simps)
  ultimately have "alloc_inv h P Q X t"
    using alloc_inv_step [OF A, of t Q X] alloc_inv_D(1,2) [OF A] F(1) bs by simp
  then show "heap_inv h P Q X D t" using I held by (simp add: heap_inv_def t_def store_simps)
  show "page_open p t = page_open p s" by (rule page_open_cong) (simp_all add: t_def store_simps)
  have "mi_ptr_page x t = mi_ptr_page x s" for x by (rule ptr_page_segments) (simp add: t_def store_simps)
  then show "delayed_pages_in_use P X D t = delayed_pages_in_use P X D s"
    by (simp add: delayed_pages_in_use_def program_blocks_def held)
qed

lemma malloc_slow_step:
  assumes I: "heap_inv h P Q X D s" and use: "delayed_pages_in_use P X D s" and sz: "sz \<le> MI_LARGE_OBJ_SIZE_MAX"
    and room: "class_has_room P sz s"
  shows "\<exists>b s'. mi_malloc_generic h sz s = Some (b, s') \<and> alloc_done h P (program_blocks P X D s) sz s b s'"
proof -
  define t where "t = tld_upd (heap_tld h s) (\<lambda>tl. tl\<lparr>tl_heartbeat := tl_heartbeat tl + 1\<rparr>) s"
  note T = heap_inv_tld [OF I, where d = "heap_tld h s" and f = "\<lambda>tl. tl\<lparr>tl_heartbeat := tl_heartbeat tl + 1\<rparr>", folded t_def]
  have run: "heap_running h s" using I by (simp add: heap_inv_def alloc_inv_def)
  have def: "mi_deferred_free h False s = Some t"
    using run by (simp add: heap_running_def deferred_free_idle t_def)
  have prog: "program_blocks P X D t = program_blocks P X D s" by (simp add: program_blocks_def T(2))
  have "delayed_pages_in_use P X D t" using T(5) use by simp
  from heap_delayed_free_run [OF T(1) this] obtain u Q1 X1 where U: "mi_heap_delayed_free h t = Some u"
    "heap_inv h P Q1 X1 [] u" "held_blocks P X1 u = program_blocks P X D s" "st_segment u = st_segment t"
    "\<forall>p \<in> P. mi_page_block_size p u = mi_page_block_size p s" "\<forall>p \<in> P. page_open p s \<longrightarrow> page_open p u"
    "\<forall>x \<in> program_blocks P X D s. st_block u x = st_block t x"
    unfolding prog T(3,4) by blast
  have A: "alloc_inv h P Q1 X1 u" using U(2) by (simp add: heap_inv_def)
  have "class_has_room P sz u" using room U(5,6) by (auto simp: class_has_room_def)
  note C = class_queue [OF A sz] and av = room_available [OF A sz this]
  let ?S = "searched_queues (unat (mi_bin sz)) Q1 X1 u"
  obtain p ps where S: "?S (unat (mi_bin sz)) = p # ps" "p \<in> set (Q1 (unat (mi_bin sz)))"
    using searched_head [of sz Q1 X1 u, OF request_bin(2) [OF sz] av] by blast
  have "mi_heap_is_initialized h" using run by (simp add: heap_running_def)
  from malloc_generic_found [OF this def U(1) alloc_inv_D(1,2) [OF A] sz C(1) S(1) C(2) [OF S(2)]]
  obtain b s' X' where M: "mi_malloc_generic h sz s = Some (b, s')" "malloc_ends P h ?S sz X1 u b X' s'" by blast
  have E: "heap_repr h ?S s'" "pages_wf P X' s'" "heap_keeps u s'" "\<And>q. q \<in> P \<Longrightarrow> mi_page_block_size q s' = mi_page_block_size q u"
    "b \<noteq> 0" "b \<notin> held_blocks P X1 u" "held_blocks P X' s' = insert b (held_blocks P X1 u)"
    "\<And>x. x \<in> held_blocks P X1 u \<Longrightarrow> st_block s' x = st_block u x" "sz \<le> mi_page_block_size (mi_ptr_page b u) u"
    "mi_page_block_size (mi_ptr_page b u) u = mi_bin_size (mi_bin sz)"
    using M(2) unfolding malloc_ends_def by blast+
  have A': "alloc_inv h P ?S X' s'" by (rule alloc_inv_step [OF A E(3,1,2) C(3) E(4)])
  have "hp_thread_delayed_free (st_heap s' h) = 0" using U(2) E(3) by (simp add: heap_inv_def heap_keeps_def)
  then have I': "heap_inv h P ?S X' [] s'" using A' by (simp add: heap_inv_def)
  have seg: "st_segment u = st_segment s" "st_segment s' = st_segment s"
    using U(4) E(3) by (simp_all add: heap_keeps_def t_def store_simps)
  have tb: "st_block t = st_block s" by (simp add: t_def store_simps)
  have b: "mi_ptr_page b s' \<in> P"
    using alloc_inv_page(1) [OF A'] E(7) by simp
  have "mi_ptr_page b u = mi_ptr_page b s" "mi_ptr_page b s' = mi_ptr_page b s" using ptr_page_segments seg by metis+
  then have fits: "sz \<le> mi_page_block_size (mi_ptr_page b s) s"
    "mi_page_block_size (mi_ptr_page b s) s = mi_bin_size (mi_bin sz)" using E(9,10) U(5) b by metis+
  have "alloc_done h P (program_blocks P X D s) sz s b s'"
    unfolding alloc_done_def
  proof (intro conjI exI ballI)
    show "heap_inv h P ?S X' [] s'" by (rule I')
    show "program_blocks P X' [] s' = insert b (program_blocks P X D s)" using E(7) U(3) by (simp add: program_blocks_def)
    show "mi_page_block_size p s' = mi_page_block_size p s" if "p \<in> P" for p using that E(4) U(5) by simp
    show "st_block s' x = st_block s x" if "x \<in> program_blocks P X D s" for x using that E(8) U(3,7) tb by simp
  qed (use E(5,6) U(3) fits seg in simp_all)
  then show ?thesis using M(1) by blast
qed

lemma malloc_step:
  assumes I: "heap_inv h P Q X D s" and use: "delayed_pages_in_use P X D s" and sz: "sz \<le> MI_LARGE_OBJ_SIZE_MAX"
    and room: "class_has_room P sz s"
  shows "\<exists>b s'. mi_heap_malloc h sz s = Some (b, s') \<and> alloc_done h P (program_blocks P X D s) sz s b s'"
proof (cases "sz \<le> MI_SMALL_SIZE_MAX")
  case True
  have A: "alloc_inv h P Q X s" using I by (simp add: heap_inv_def)
  obtain p ps where Q: "Q (unat (mi_bin sz)) = p # ps"
    using room_available [OF A sz room] by (cases "Q (unat (mi_bin sz))") auto
  show ?thesis
  proof (cases "pg_free (st_page s p) = 0")
    case True
    then have "mi_heap_malloc h sz s = mi_malloc_generic h sz s"
      using malloc_small_head [OF alloc_inv_D(1) [OF A] \<open>sz \<le> MI_SMALL_SIZE_MAX\<close> Q] by (simp add: mi_page_malloc_def)
    then show ?thesis using malloc_slow_step [OF assms] by simp
  qed (rule malloc_fast_step [OF I True Q])
next
  case False
  then have "mi_heap_malloc h sz s = mi_malloc_generic h sz s" by (simp add: mi_heap_malloc_def)
  then show ?thesis using malloc_slow_step [OF assms] by simp
qed

section \<open>Frees\<close>

text \<open>What a free ends with: the block \<open>x\<close> is the program's no more, the others it holds are as before.\<close>

definition free_done :: "addr \<Rightarrow> page_id set \<Rightarrow> addr set \<Rightarrow> addr \<Rightarrow> mstate \<Rightarrow> mstate \<Rightarrow> bool" where
  "free_done h P H x s s' \<longleftrightarrow> (\<exists>Q' X' D'. heap_inv h P Q' X' D' s' \<and> program_blocks P X' D' s' = H - {x}) \<and>
     st_segment s' = st_segment s \<and> (\<forall>p \<in> P. mi_page_block_size p s' = mi_page_block_size p s) \<and>
     (\<forall>y \<in> H - {x}. st_block s' y = st_block s y)"

lemma heap_moves_done:
  assumes I: "heap_inv h P Q X D s" and x: "x \<in> program_blocks P X D s"
    and A: "alloc_inv h P Q' X' s'" and M: "heap_moves P X s {x} X' s'"
  shows "free_done h P (program_blocks P X D s) x s s'"
proof -
  have "{x} \<inter> set D = {}" using x by (simp add: program_blocks_def)
  note H = heap_inv_moves [OF I A M this]
  have "st_segment s' = st_segment s" "\<forall>p \<in> P. mi_page_block_size p s' = mi_page_block_size p s"
    "\<forall>y \<in> program_blocks P X D s - {x}. st_block s' y = st_block s y"
    using M by (auto simp: heap_moves_def heap_keeps_def program_blocks_def)
  then show ?thesis using H unfolding free_done_def by blast
qed

lemma owner_free_step:
  assumes I: "heap_inv h P Q X D s" and x: "x \<in> program_blocks P X D s" and stays: "page_stays (mi_ptr_page x s) s"
  shows "\<exists>s'. mi_free x s = Some s' \<and> free_done h P (program_blocks P X D s) x s s'"
proof -
  have A: "alloc_inv h P Q X s" and xh: "x \<in> held_blocks P X s" using I x by (simp_all add: heap_inv_def program_blocks_def)
  show ?thesis using free_step [OF A xh stays] heap_moves_done [OF I x] by blast
qed

text \<open>With delayed freeing on, the block goes in front of the delayed list.\<close>

lemma remote_delayed_run:
  assumes I: "heap_inv h P Q X D s" and x: "x \<in> program_blocks P X D s" and t: "t \<noteq> st_thread_id s" and h: "h \<noteq> 0"
    and flag: "mi_page_thread_free_flag (st_page s (mi_ptr_page x s)) = MI_USE_DELAYED_FREE"
  obtains s' where "free_by t x s = Some s'" "heap_inv h P Q X (x # D) s'"
    "program_blocks P X (x # D) s' = program_blocks P X D s - {x}" "st_segment s' = st_segment s"
    "\<forall>q. mi_page_block_size q s' = mi_page_block_size q s" "\<forall>y. y \<noteq> x \<longrightarrow> st_block s' y = st_block s y"
    "hp_thread_delayed_free (st_heap s' h) = x"
proof -
  have A: "alloc_inv h P Q X s" and xh: "x \<in> held_blocks P X s" "x \<notin> set D"
    using I x by (simp_all add: heap_inv_def program_blocks_def)
  note p = alloc_inv_page [OF A xh(1)]
  obtain s' where S: "mi_free_block_mt (mi_ptr_page x s) x s = Some s'" "alloc_inv h P Q X s'"
    "held_blocks P X s' = held_blocks P X s" "\<forall>q. mi_page_block_size q s' = mi_page_block_size q s"
    "st_segment s' = st_segment s" "hp_thread_delayed_free (st_heap s' h) = x"
    "st_block s' = (st_block s)(x := hp_thread_delayed_free (st_heap s h))"
    by (rule remote_delayed_step [OF A p flag h])
  have "x \<noteq> 0" by (rule alive_block_nonzero [OF A p])
  then have "chain (st_block s') x (x # D)" using I xh(2) by (simp add: S(7) heap_inv_def)
  then have "heap_inv h P Q X (x # D) s'" using I S(2,3,6) xh by (simp add: heap_inv_def)
  moreover have "program_blocks P X (x # D) s' = program_blocks P X D s - {x}"
    using S(3) by (auto simp: program_blocks_def)
  moreover have "free_by t x s = Some s'" using free_by_eq [OF A p t] S(1) by simp
  ultimately show thesis using that S(4-7) by simp
qed

lemma remote_free_step:
  assumes I: "heap_inv h P Q X D s" and x: "x \<in> program_blocks P X D s" and t: "t \<noteq> st_thread_id s" and h: "h \<noteq> 0"
  shows "\<exists>s'. free_by t x s = Some s' \<and> free_done h P (program_blocks P X D s) x s s'"
proof -
  have A: "alloc_inv h P Q X s" and xh: "x \<in> held_blocks P X s"
    using I x by (simp_all add: heap_inv_def program_blocks_def)
  note p = alloc_inv_page [OF A xh] and run = free_by_eq [OF A alloc_inv_page [OF A xh] t]
  show ?thesis
  proof (cases "mi_page_thread_free_flag (st_page s (mi_ptr_page x s)) = MI_USE_DELAYED_FREE")
    case False
    then show ?thesis using remote_push_step [OF A p False] heap_moves_done [OF I x] run by metis
  next
    case True
    obtain s' where S: "free_by t x s = Some s'" "heap_inv h P Q X (x # D) s'"
      "program_blocks P X (x # D) s' = program_blocks P X D s - {x}" "st_segment s' = st_segment s"
      "\<forall>q. mi_page_block_size q s' = mi_page_block_size q s" "\<forall>y. y \<noteq> x \<longrightarrow> st_block s' y = st_block s y"
      "hp_thread_delayed_free (st_heap s' h) = x"
      by (rule remote_delayed_run [OF I x t h True])
    then show ?thesis unfolding free_done_def by blast
  qed
qed

text \<open>The program may write to the blocks it holds.\<close>

lemma program_write_step:
  fixes v :: u64
  assumes I: "heap_inv h P Q X D s" and x: "x \<in> program_blocks P X D s"
  shows "heap_inv h P Q X D (block_upd x v s)" and "program_blocks P X D (block_upd x v s) = program_blocks P X D s"
    and "mi_page_block_size p (block_upd x v s) = mi_page_block_size p s"
proof -
  have A: "alloc_inv h P Q X s" and xh: "x \<in> held_blocks P X s" "x \<notin> set D"
    using I x by (simp_all add: heap_inv_def program_blocks_def)
  have eq: "mi_block_set_next x v s = block_upd x v s" by (simp add: mi_block_set_next_def)
  note B = block_write_step [OF A alloc_inv_page [OF A xh(1)], where n = v, unfolded eq]
  have "chain (st_block (block_upd x v s)) b D = chain (st_block s) b D" for b
    by (rule chain_cong) (use xh(2) in \<open>auto simp: store_simps\<close>)
  then show "heap_inv h P Q X D (block_upd x v s)" using I B(1,2) by (simp add: heap_inv_def store_simps)
  show "program_blocks P X D (block_upd x v s) = program_blocks P X D s" by (simp add: program_blocks_def B(2))
  show "mi_page_block_size p (block_upd x v s) = mi_page_block_size p s" by (rule B(4))
qed

section \<open>Sessions\<close>

text \<open>The sizes the program asked for fit the blocks it got.\<close>

definition sizes_fit :: "(addr \<rightharpoonup> u64) \<Rightarrow> mstate \<Rightarrow> bool" where
  "sizes_fit m s \<longleftrightarrow> (\<forall>x n. m x = Some n \<longrightarrow> n \<le> mi_page_block_size (mi_ptr_page x s) s)"

text \<open>The page of each delayed block has a block that the program holds.\<close>

definition delayed_in_use :: "addr \<Rightarrow> (addr \<rightharpoonup> u64) \<Rightarrow> mstate \<Rightarrow> bool" where
  "delayed_in_use h m s \<longleftrightarrow> (\<forall>D. chain (st_block s) (hp_thread_delayed_free (st_heap s h)) D \<longrightarrow>
     (\<forall>x \<in> set D. \<exists>y \<in> dom m. mi_ptr_page y s = mi_ptr_page x s))"

text \<open>
  The runs of a program on the heap \<open>h\<close> with the pages \<open>P\<close>, as long as no page must be found or given
  back: the program holds the blocks of \<open>m\<close>.
\<close>

inductive session :: "addr \<Rightarrow> page_id set \<Rightarrow> (addr \<rightharpoonup> u64) \<Rightarrow> mstate \<Rightarrow> bool" for h P where
  session_start: "heap_inv h P Q X D s \<Longrightarrow> dom m = program_blocks P X D s \<Longrightarrow> sizes_fit m s \<Longrightarrow> h \<noteq> 0 \<Longrightarrow>
    session h P m s"
| session_malloc: "session h P m s \<Longrightarrow> sz \<le> MI_LARGE_OBJ_SIZE_MAX \<Longrightarrow> class_has_room P sz s \<Longrightarrow> delayed_in_use h m s \<Longrightarrow>
    mi_heap_malloc h sz s = Some (b, s') \<Longrightarrow> session h P (m(b \<mapsto> sz)) s'"
| session_free: "session h P m s \<Longrightarrow> x \<in> dom m \<Longrightarrow> page_stays (mi_ptr_page x s) s \<Longrightarrow> mi_free x s = Some s' \<Longrightarrow>
    session h P (m(x := None)) s'"
| session_remote_free: "session h P m s \<Longrightarrow> x \<in> dom m \<Longrightarrow> t \<noteq> st_thread_id s \<Longrightarrow> free_by t x s = Some s' \<Longrightarrow>
    session h P (m(x := None)) s'"
| session_write: "session h P m s \<Longrightarrow> x \<in> dom m \<Longrightarrow> session h P m (block_upd x v s)"

definition session_inv :: "addr \<Rightarrow> page_id set \<Rightarrow> (addr \<rightharpoonup> u64) \<Rightarrow> mstate \<Rightarrow> bool" where
  "session_inv h P m s \<longleftrightarrow> (\<exists>Q X D. heap_inv h P Q X D s \<and> dom m = program_blocks P X D s) \<and> sizes_fit m s \<and> h \<noteq> 0"

lemma delayed_in_use_pages:
  assumes "heap_inv h P Q X D s" and "dom m = program_blocks P X D s" and "delayed_in_use h m s"
  shows "delayed_pages_in_use P X D s"
  using assms by (auto simp: delayed_in_use_def delayed_pages_in_use_def heap_inv_def)

lemma heap_inv_page:
  assumes "heap_inv h P Q X D s" and "x \<in> program_blocks P X D s"
  shows "mi_ptr_page x s \<in> P"
  using alloc_inv_page(1) [of h P Q X s x] assms by (simp add: heap_inv_def program_blocks_def)

lemma session_inv_malloc:
  assumes I: "session_inv h P m s" and D: "alloc_done h P (dom m) sz s b s'"
  shows "session_inv h P (m(b \<mapsto> sz)) s'"
proof -
  have seg: "mi_ptr_page x s' = mi_ptr_page x s" for x by (rule ptr_page_segments) (use D in \<open>simp add: alloc_done_def\<close>)
  obtain Q' X' D' where H: "heap_inv h P Q' X' D' s'" "program_blocks P X' D' s' = insert b (dom m)"
    using D unfolding alloc_done_def by blast
  have pages: "mi_ptr_page x s \<in> P" if "x \<in> insert b (dom m)" for x
    using heap_inv_page [OF H(1)] H(2) that seg by metis
  have "n \<le> mi_page_block_size (mi_ptr_page x s') s'" if "(m(b \<mapsto> sz)) x = Some n" for x n
  proof -
    have "n \<le> mi_page_block_size (mi_ptr_page x s) s"
      using that I D by (cases "x = b") (auto simp: session_inv_def sizes_fit_def alloc_done_def)
    moreover have "x \<in> insert b (dom m)" using that by (auto split: if_splits)
    ultimately show ?thesis using D pages seg by (simp add: alloc_done_def)
  qed
  moreover have "dom (m(b \<mapsto> sz)) = program_blocks P X' D' s'" using H(2) by simp
  ultimately show ?thesis using H(1) I unfolding session_inv_def sizes_fit_def by blast
qed

lemma session_inv_free:
  assumes I: "session_inv h P m s" and D: "free_done h P (dom m) x s s'"
  shows "session_inv h P (m(x := None)) s'"
proof -
  have seg: "mi_ptr_page y s' = mi_ptr_page y s" for y by (rule ptr_page_segments) (use D in \<open>simp add: free_done_def\<close>)
  obtain Q' X' D' where H: "heap_inv h P Q' X' D' s'" "program_blocks P X' D' s' = dom m - {x}"
    using D unfolding free_done_def by blast
  have "n \<le> mi_page_block_size (mi_ptr_page y s') s'" if y: "(m(x := None)) y = Some n" for y n
  proof -
    have "y \<in> dom m - {x}" "m y = Some n" using y by (auto split: if_splits)
    moreover have "mi_ptr_page y s \<in> P" using heap_inv_page [OF H(1)] H(2) calculation(1) seg by metis
    ultimately show ?thesis using I D seg by (simp add: session_inv_def sizes_fit_def free_done_def)
  qed
  moreover have "dom (m(x := None)) = program_blocks P X' D' s'" using H(2) by simp
  ultimately show ?thesis using H(1) I unfolding session_inv_def sizes_fit_def by blast
qed

text \<open>From a state of a session each operation that is allowed returns, and ends in such a state.\<close>

lemma session_inv_steps:
  assumes I: "session_inv h P m s"
  shows "sz \<le> MI_LARGE_OBJ_SIZE_MAX \<Longrightarrow> class_has_room P sz s \<Longrightarrow> delayed_in_use h m s \<Longrightarrow>
      \<exists>b s'. mi_heap_malloc h sz s = Some (b, s') \<and> alloc_done h P (dom m) sz s b s'"
    and "x \<in> dom m \<Longrightarrow> page_stays (mi_ptr_page x s) s \<Longrightarrow> \<exists>s'. mi_free x s = Some s' \<and> free_done h P (dom m) x s s'"
    and "x \<in> dom m \<Longrightarrow> t \<noteq> st_thread_id s \<Longrightarrow> \<exists>s'. free_by t x s = Some s' \<and> free_done h P (dom m) x s s'"
    and "x \<in> dom m \<Longrightarrow> session_inv h P m (block_upd x v s)"
proof -
  obtain Q X D where H: "heap_inv h P Q X D s" and m: "dom m = program_blocks P X D s" and h: "h \<noteq> 0" and fit: "sizes_fit m s"
    using I by (auto simp: session_inv_def)
  show "\<exists>b s'. mi_heap_malloc h sz s = Some (b, s') \<and> alloc_done h P (dom m) sz s b s'"
    if "sz \<le> MI_LARGE_OBJ_SIZE_MAX" "class_has_room P sz s" "delayed_in_use h m s"
    unfolding m by (rule malloc_step [OF H delayed_in_use_pages [OF H m that(3)] that(1,2)])
  show "\<exists>s'. mi_free x s = Some s' \<and> free_done h P (dom m) x s s'" if "x \<in> dom m" "page_stays (mi_ptr_page x s) s"
    using owner_free_step [OF H _ that(2)] that(1) by (simp add: m)
  show "\<exists>s'. free_by t x s = Some s' \<and> free_done h P (dom m) x s s'" if "x \<in> dom m" "t \<noteq> st_thread_id s"
    using remote_free_step [OF H _ that(2) h] that(1) by (simp add: m)
  show "session_inv h P m (block_upd x v s)" if x: "x \<in> dom m"
  proof -
    note W = program_write_step [OF H x [unfolded m], where v = v]
    have "mi_ptr_page y (block_upd x v s) = mi_ptr_page y s" for y by (rule ptr_page_segments) (simp add: store_simps)
    then have "sizes_fit m (block_upd x v s)" using fit W(3) by (simp add: sizes_fit_def)
    then show ?thesis using W(1,2) m h unfolding session_inv_def by blast
  qed
qed

lemma session_sound: "session h P m s \<Longrightarrow> session_inv h P m s"
proof (induction rule: session.induct)
  case (session_start Q X D s m)
  then show ?case unfolding session_inv_def by blast
next
  case (session_malloc m s sz b s')
  then have "alloc_done h P (dom m) sz s b s'" using session_inv_steps(1) [OF session_malloc.IH, of sz] by auto
  then show ?case by (rule session_inv_malloc [OF session_malloc.IH])
next
  case (session_free m s x s')
  then have "free_done h P (dom m) x s s'" using session_inv_steps(2) [OF session_free.IH, of x] by auto
  then show ?case by (rule session_inv_free [OF session_free.IH])
next
  case (session_remote_free m s x t s')
  then have "free_done h P (dom m) x s s'" using session_inv_steps(3) [OF session_remote_free.IH, of x t] by auto
  then show ?case by (rule session_inv_free [OF session_remote_free.IH])
next
  case (session_write m s x v)
  then show ?case using session_inv_steps(4) by blast
qed

lemma session_inv_apart:
  assumes I: "session_inv h P m s" and x: "m x = Some n" and y: "m y = Some k" and "x \<noteq> y"
  shows "unat x + unat n \<le> unat y \<or> unat y + unat k \<le> unat x" and "x \<noteq> 0"
proof -
  obtain Q X D where H: "heap_inv h P Q X D s" and m: "dom m = program_blocks P X D s"
    using I by (auto simp: session_inv_def)
  have A: "alloc_inv h P Q X s" and "x \<in> held_blocks P X s" "y \<in> held_blocks P X s"
    using H m x y by (auto simp: heap_inv_def program_blocks_def)
  note px = alloc_inv_page [OF A this(2)] and py = alloc_inv_page [OF A this(3)] and W = alloc_inv_D(2) [OF A]
  have "x \<in> page_room (mi_ptr_page x s) s" "y \<in> page_room (mi_ptr_page y s) s"
    using alive_room [OF W] px py by blast+
  from rooms_apart [OF W px(1) this(1) py(1) this(2) \<open>x \<noteq> y\<close>]
  show "unat x + unat n \<le> unat y \<or> unat y + unat k \<le> unat x"
    using I x y by (auto simp: session_inv_def sizes_fit_def word_le_nat_alt) (meson le_trans nat_add_left_cancel_le)+
  show "x \<noteq> 0" using alive_page_facts(1) [OF A px(1)] px(2) page_alive_used(2) by (auto simp: alive_blocks_def)
qed

section \<open>Properties\<close>

text \<open>
  C1. In every session of a heap, that is after any sequence of allocations, frees by the owner, frees by
  other threads and writes of the program to its blocks: the blocks the program holds never
  overlap, and a request that is not huge returns whenever some page of its size class has room and the
  page of every delayed block keeps a block in use. The block returned is new, and nothing is written to
  the blocks the program holds.
\<close>

theorem session_malloc_correct:
  assumes "session h P m s"
  shows "(\<forall>x y n k. m x = Some n \<and> m y = Some k \<and> x \<noteq> y \<longrightarrow> unat x + unat n \<le> unat y \<or> unat y + unat k \<le> unat x) \<and>
    (\<forall>sz. sz \<le> MI_LARGE_OBJ_SIZE_MAX \<and> class_has_room P sz s \<and> delayed_in_use h m s \<longrightarrow>
       (\<exists>b s'. mi_heap_malloc h sz s = Some (b, s') \<and> b \<noteq> 0 \<and> m b = None \<and> session h P (m(b \<mapsto> sz)) s' \<and>
          (\<forall>x \<in> dom m. st_block s' x = st_block s x)))"
proof (intro conjI allI impI)
  note I = session_sound [OF assms]
  show "unat x + unat n \<le> unat y \<or> unat y + unat k \<le> unat x" if "m x = Some n \<and> m y = Some k \<and> x \<noteq> y" for x y n k
    using session_inv_apart(1) [OF I] that by blast
  show "\<exists>b s'. mi_heap_malloc h sz s = Some (b, s') \<and> b \<noteq> 0 \<and> m b = None \<and> session h P (m(b \<mapsto> sz)) s' \<and>
      (\<forall>x \<in> dom m. st_block s' x = st_block s x)"
    if c: "sz \<le> MI_LARGE_OBJ_SIZE_MAX \<and> class_has_room P sz s \<and> delayed_in_use h m s" for sz
  proof -
    obtain b s' where S: "mi_heap_malloc h sz s = Some (b, s')" "alloc_done h P (dom m) sz s b s'"
      using session_inv_steps(1) [OF I] c by blast
    have "session h P (m(b \<mapsto> sz)) s'" using session_malloc [OF assms _ _ _ S(1)] c by blast
    moreover have "b \<noteq> 0" "m b = None" "\<forall>x \<in> dom m. st_block s' x = st_block s x"
      using S(2) by (auto simp: alloc_done_def)
    ultimately show ?thesis using S(1) by blast
  qed
qed

lemma malloc_example_heap_inv:
  "heap_inv heap_main_ref {(0x20000, 0)} ((\<lambda>_. [])(2 := [(0x20000, 0)])) (\<lambda>_. ([0x20500], [], [])) [] (malloc_example 1)"
  "program_blocks {(0x20000, 0)} (\<lambda>_. ([0x20500], [], [])) [] (malloc_example 1) = {0x20510, 0x20520}"
  "mi_page_block_size (0x20000, 0) (malloc_example 1) = 16"
proof -
  let ?s = "malloc_example 1" and ?p = "(0x20000, 0) :: page_id"
  note E = malloc_example_repr [of 1] and C = page_core_fields [OF malloc_example_repr(4) [of 1]]
  show bs: "mi_page_block_size ?p ?s = 16" using C(2) by (simp add: mi_page_block_size_def page_example_page mi_consts)
  have "class_page ?p ?s"
    using C(2) E(5) malloc_example_page(4,6) [of 1]
    by (simp add: class_page_def bs mi_bin_size_def mi_bin_wsizes_def page_example_page segment_example_def mi_consts)
  moreover have "pages_wf {?p} (\<lambda>_. ([0x20500], [], [])) ?s"
    using E(2,5) by (simp add: pages_wf_def wf_blocks_def segment_example_def)
  moreover have "queued_pages {?p} ((\<lambda>_. [])(2 := [?p]))" by (auto simp: queued_pages_def in_queues_def)
  moreover have "heap_running heap_main_ref ?s" using malloc_example_ready [of 1] by (simp add: heap_ready_def)
  ultimately show "heap_inv heap_main_ref {?p} ((\<lambda>_. [])(2 := [?p])) (\<lambda>_. ([0x20500], [], [])) [] ?s"
    using E(1) malloc_example_page(7) [of 1] by (simp add: heap_inv_def alloc_inv_def)
  show "program_blocks {?p} (\<lambda>_. ([0x20500], [], [])) [] ?s = {0x20510, 0x20520}"
    using E(3) by (simp add: program_blocks_def held_blocks_def alive_blocks_def)
qed

lemma malloc_example_session:
  "session heap_main_ref {(0x20000, 0)} [0x20510 \<mapsto> 16, 0x20520 \<mapsto> 16] (malloc_example 1)"
proof (rule session_start)
  note E = malloc_example_heap_inv
  show "heap_inv heap_main_ref {(0x20000, 0)} ((\<lambda>_. [])(2 := [(0x20000, 0)])) (\<lambda>_. ([0x20500], [], [])) [] (malloc_example 1)"
    by (rule E(1))
  show "dom [0x20510 \<mapsto> 16, 0x20520 \<mapsto> 16] = program_blocks {(0x20000, 0)} (\<lambda>_. ([0x20500], [], [])) [] (malloc_example 1)"
    unfolding E(2) by auto
  have "mi_ptr_page x (malloc_example 1) = (0x20000, 0)" if "x \<in> {0x20510, 0x20520}" for x
    using heap_inv_page [OF E(1)] E(2) that by simp
  then show "sizes_fit [0x20510 \<mapsto> 16, 0x20520 \<mapsto> 16] (malloc_example 1)"
    using E(3) by (simp add: sizes_fit_def)
  show "heap_main_ref \<noteq> 0" by (rule heap_main_ref_nonzero)
qed

lemma session_malloc_correct_witness:
  "\<exists>b s'. mi_heap_malloc heap_main_ref 16 (malloc_example 1) = Some (b, s') \<and>
     b \<notin> {0x20510, 0x20520} \<and> session heap_main_ref {(0x20000, 0)} [0x20510 \<mapsto> 16, 0x20520 \<mapsto> 16, b \<mapsto> 16] s'"
proof -
  let ?s = "malloc_example 1" and ?p = "(0x20000, 0) :: page_id"
  have "pg_free (st_page ?s ?p) \<noteq> 0"
    using page_core_fields(3) [OF malloc_example_repr(4) [of 1]] by (simp add: page_example_page)
  then have "class_has_room {?p} 16 ?s"
    using malloc_example_page(2) [of 1] malloc_example_heap_inv(3)
    by (simp add: class_has_room_def page_open_def page_has_room_def)
  moreover have "delayed_in_use heap_main_ref m ?s" for m
    using malloc_example_page(7) [of 1] by (auto simp: delayed_in_use_def)
  moreover have "(16 :: u64) \<le> MI_LARGE_OBJ_SIZE_MAX" by (simp add: mi_consts)
  ultimately obtain b s' where "mi_heap_malloc heap_main_ref 16 ?s = Some (b, s')"
    "[0x20510 \<mapsto> 16, 0x20520 \<mapsto> 16] b = (None :: u64 option)"
    "session heap_main_ref {?p} ([0x20510 \<mapsto> 16, 0x20520 \<mapsto> 16](b \<mapsto> 16)) s'"
    using session_malloc_correct [OF malloc_example_session] by blast
  then show ?thesis by (auto split: if_splits)
qed

text \<open>
  C2. In every session, a block that the program holds can be freed by its owner, if its page stays in
  use or retires, and by any other thread at any time, whether its page takes the block or the delayed
  list of the heap does: the operation returns, takes this block only, and writes to no other block
  that the program holds.
\<close>

theorem session_free_correct:
  assumes "session h P m s" and "x \<in> dom m"
  shows "(page_stays (mi_ptr_page x s) s \<longrightarrow> (\<exists>s'. mi_free x s = Some s' \<and> session h P (m(x := None)) s' \<and>
       (\<forall>y \<in> dom m - {x}. st_block s' y = st_block s y))) \<and>
    (\<forall>t. t \<noteq> st_thread_id s \<longrightarrow> (\<exists>s'. free_by t x s = Some s' \<and> session h P (m(x := None)) s' \<and>
       (\<forall>y \<in> dom m - {x}. st_block s' y = st_block s y)))"
proof (intro conjI allI impI)
  note I = session_sound [OF assms(1)]
  show "\<exists>s'. mi_free x s = Some s' \<and> session h P (m(x := None)) s' \<and> (\<forall>y \<in> dom m - {x}. st_block s' y = st_block s y)"
    if "page_stays (mi_ptr_page x s) s"
    using session_inv_steps(2) [OF I assms(2) that] session_free [OF assms that] unfolding free_done_def by blast
  show "\<exists>s'. free_by t x s = Some s' \<and> session h P (m(x := None)) s' \<and> (\<forall>y \<in> dom m - {x}. st_block s' y = st_block s y)"
    if "t \<noteq> st_thread_id s" for t
    using session_inv_steps(3) [OF I assms(2) that] session_remote_free [OF assms that] unfolding free_done_def by blast
qed

lemma session_free_correct_witness:
  "\<exists>s'. free_by 2 0x20510 (malloc_example 1) = Some s' \<and>
     session heap_main_ref {(0x20000, 0)} [0x20520 \<mapsto> 16] s' \<and> st_block s' 0x20520 = 0"
proof -
  have t: "(2 :: u64) \<noteq> st_thread_id (malloc_example 1)" by (simp add: malloc_example_page(6))
  have x: "(0x20510 :: addr) \<in> dom [0x20510 \<mapsto> 16, 0x20520 \<mapsto> (16 :: u64)]" by simp
  note F = session_free_correct [OF malloc_example_session x, THEN conjunct2, rule_format, OF t]
  have "[0x20510 \<mapsto> 16, 0x20520 \<mapsto> 16](0x20510 := None) = [0x20520 :: addr \<mapsto> (16 :: u64)]" by auto
  moreover have "(0x20520 :: addr) \<in> dom [0x20510 \<mapsto> 16, 0x20520 \<mapsto> (16 :: u64)] - {0x20510}" by simp
  moreover have "st_block (malloc_example 1) 0x20520 = 0"
    by (simp add: malloc_example_def queue_frame page_example_page)
  ultimately show ?thesis using F by metis
qed

text \<open>
  C6. A block that another thread frees while delayed freeing is on is not lost, whatever else is on the
  delayed list \<open>D\<close> of the heap: the block goes in front of the list, and when the owner next
  processes the list, all blocks of \<open>D\<close> and this one are free, the list is empty, no page of one of them
  is in the full queue or without a block to give, and delayed freeing is on for them again. The
  blocks the program holds stay as they are. The page of every block of the list
  must keep a block that the program holds, so that none is given back on the way.
\<close>

theorem mi_free_delayed_returns:
  assumes "heap_inv h P Q X D s" and "x \<in> program_blocks P X D s" and "t \<noteq> st_thread_id s" and "h \<noteq> 0"
    and "mi_page_thread_free_flag (st_page s (mi_ptr_page x s)) = MI_USE_DELAYED_FREE"
    and "\<forall>y \<in> insert x (set D). \<exists>z \<in> program_blocks P X D s - {x}. mi_ptr_page z s = mi_ptr_page y s"
  shows "\<exists>s1 s2 Q' X'. free_by t x s = Some s1 \<and> hp_thread_delayed_free (st_heap s1 h) = x \<and>
    program_blocks P X (x # D) s1 = program_blocks P X D s - {x} \<and>
    mi_heap_delayed_free h s1 = Some s2 \<and> heap_inv h P Q' X' [] s2 \<and>
    held_blocks P X' s2 = program_blocks P X D s - {x} \<and> hp_thread_delayed_free (st_heap s2 h) = 0 \<and>
    (\<forall>y \<in> insert x (set D). page_open (mi_ptr_page y s) s2 \<and> delayed_on (mi_ptr_page y s) s2) \<and>
    (\<forall>z \<in> program_blocks P X D s - {x}. st_block s2 z = st_block s z)"
proof -
  obtain s1 where S: "free_by t x s = Some s1" "heap_inv h P Q X (x # D) s1"
    "program_blocks P X (x # D) s1 = program_blocks P X D s - {x}" "st_segment s1 = st_segment s"
    "\<forall>q. mi_page_block_size q s1 = mi_page_block_size q s" "\<forall>y. y \<noteq> x \<longrightarrow> st_block s1 y = st_block s y"
    "hp_thread_delayed_free (st_heap s1 h) = x"
    by (rule remote_delayed_run [OF assms(1-5)])
  have seg: "mi_ptr_page z s1 = mi_ptr_page z s" for z by (rule ptr_page_segments [OF S(4)])
  have "delayed_pages_in_use P X (x # D) s1"
    unfolding delayed_pages_in_use_def S(3) seg using assms(6) by simp
  from heap_delayed_free_run [OF S(2) this] obtain s2 Q' X' where
    "mi_heap_delayed_free h s1 = Some s2" "heap_inv h P Q' X' [] s2"
    "held_blocks P X' s2 = program_blocks P X D s - {x}" "hp_thread_delayed_free (st_heap s2 h) = 0"
    "\<forall>y \<in> insert x (set D). page_open (mi_ptr_page y s) s2 \<and> delayed_on (mi_ptr_page y s) s2"
    "\<forall>z \<in> program_blocks P X D s - {x}. st_block s2 z = st_block s1 z"
    unfolding S(3) seg by auto
  then show ?thesis using S(1,3,6,7) by (intro exI [of _ s1] exI [of _ s2]) auto
qed

lemma mi_free_delayed_returns_witness:
  "\<exists>s1 s2 Q' X'. free_by 2 0x20510 (malloc_example 1) = Some s1 \<and>
     mi_heap_delayed_free heap_main_ref s1 = Some s2 \<and>
     held_blocks {(0x20000, 0)} X' s2 = {0x20520} \<and> heap_inv heap_main_ref {(0x20000, 0)} Q' X' [] s2"
proof -
  note E = malloc_example_heap_inv
  let ?s = "malloc_example 1"
  have pg: "mi_ptr_page x ?s = (0x20000, 0)" if "x \<in> {0x20510, 0x20520}" for x
    using heap_inv_page [OF E(1)] E(2) that by simp
  have t: "(2 :: u64) \<noteq> st_thread_id ?s" by (simp add: malloc_example_page(6))
  have x: "(0x20510 :: addr) \<in> program_blocks {(0x20000, 0)} (\<lambda>_. ([0x20500], [], [])) [] ?s" by (simp add: E(2))
  have flag: "mi_page_thread_free_flag (st_page ?s (mi_ptr_page 0x20510 ?s)) = MI_USE_DELAYED_FREE"
    by (simp add: pg malloc_example_page(4))
  have use: "\<forall>y \<in> insert 0x20510 (set []).
      \<exists>z \<in> program_blocks {(0x20000, 0)} (\<lambda>_. ([0x20500], [], [])) [] ?s - {0x20510}. mi_ptr_page z ?s = mi_ptr_page y ?s"
    unfolding E(2) by (simp add: pg)
  have "{0x20510, 0x20520} - {0x20510 :: addr} = {0x20520}" by auto
  then show ?thesis
    using mi_free_delayed_returns [OF E(1) x t heap_main_ref_nonzero flag use] unfolding E(2) by metis
qed

end
