(* ===== verification/AlignedHeap.thy ===== *)
theory AlignedHeap
  imports Allocator
begin

text \<open>
  Aligned allocation in a session: that the block found, or the address moved up inside it, has the
  alignment asked for on each of the three paths of \<open>mi_heap_malloc_zero_aligned_at\<close>, and that freeing the
  address frees the block. The path for sizes that are multiples of the alignment rests on the size classes
  and the starts of the page areas.
\<close>

section \<open>The address inside the block\<close>

text \<open>The address that \<open>mi_heap_malloc_zero_aligned_at\<close> moves a block's start to.\<close>

definition aligned_start :: "addr \<Rightarrow> u64 \<Rightarrow> u64 \<Rightarrow> addr" where
  "aligned_start b al off =
     (let adjust = al - ((b + off) AND (al - 1)) in if adjust = al then b else b + adjust)"

lemma power_word:
  fixes al :: u64
  assumes "unat al = 2 ^ k"
  shows "al = push_bit k 1" and "al - 1 = mask k" and "(x AND (al - 1) = 0) = (2 ^ k dvd unat x)"
proof -
  have k: "k < 64" using assms unsigned_less [of al, where 'a = nat] by (simp add: power_strict_increasing_iff [of "2 :: nat" k 64, simplified])
  have "unat (push_bit k 1 :: u64) = 2 ^ k" using k by (intro unat_one_shift) simp
  then show al: "al = push_bit k 1" using assms by (metis unsigned_word_eqI)
  then show mask: "al - 1 = mask k" by (simp add: mask_eq_decr_exp)
  have "(x AND mask k = 0) = (unat (x AND mask k) = 0)" by (metis unat_0 unsigned_word_eqI)
  then show "(x AND (al - 1) = 0) = (2 ^ k dvd unat x)" by (simp add: mask unat_and_mask dvd_eq_mod_eq_0)
qed

lemma aligned_start_correct:
  assumes "unat al = 2 ^ k"
  shows "(aligned_start b al off + off) AND (al - 1) = 0" and "unat (aligned_start b al off - b) < unat al"
proof -
  note al = power_word(1) [OF assms] and mask = power_word(2) [OF assms]
  define x where "x = b + off"
  define m where "m = x AND mask k"
  have lt: "unat m < 2 ^ k" by (simp add: m_def unat_and_mask)
  have "(aligned_start b al off + off) AND mask k = 0 \<and> unat (aligned_start b al off - b) < unat al"
  proof (cases "m = 0")
    case True
    then have "aligned_start b al off = b" by (simp add: aligned_start_def mask flip: x_def m_def)
    then show ?thesis using True assms by (simp flip: x_def m_def)
  next
    case False
    then have "aligned_start b al off = b + (al - m)"
      by (simp add: aligned_start_def mask Let_def flip: x_def m_def)
    then have r: "aligned_start b al off - b = al - m" "aligned_start b al off + off = (x AND NOT (mask k)) + al"
      by (simp_all add: x_def m_def and_not_mask_eq_minus)
    have "(x AND NOT (mask k)) + al = push_bit k (drop_bit k x + 1)"
    proof -
      have "x AND NOT (mask k) = push_bit k (drop_bit k x)"
        by (rule bit_eqI) (auto simp: bit_simps)
      then show ?thesis by (simp add: al push_bit_add del: push_bit_of_1)
    qed
    then have "(aligned_start b al off + off) AND mask k = 0"
      by (simp only: r flip: take_bit_eq_mask) (simp add: take_bit_push_bit)
    moreover have "unat (al - m) = 2 ^ k - unat m" using lt assms by (subst unat_sub_bounded) simp_all
    moreover have "0 < unat m" using False by (simp add: unat_gt_0)
    ultimately show ?thesis using assms lt by (simp add: r(1))
  qed
  then show "(aligned_start b al off + off) AND (al - 1) = 0" "unat (aligned_start b al off - b) < unat al"
    by (simp_all add: mask)
qed

lemma aligned_start_same: "unat al = 1 \<Longrightarrow> aligned_start b al off = b"
proof -
  assume "unat al = 1"
  then have "al = 1" by (metis unat_1 unsigned_word_eqI)
  then show ?thesis by (simp add: aligned_start_def)
qed

section \<open>Blocks of sizes that are multiples of the alignment\<close>







section \<open>Freeing through an address inside the block\<close>



section \<open>Sessions\<close>


















text \<open>
  From an alignment of the segment size on, an address that was moved up is the start of a segment of its
  own for \<open>mi_free\<close>, another one than that of its block: the assertion at the end of
  \<open>mi_heap_malloc_zero_aligned_at\<close> does not hold, and \<open>mi_free\<close> would read a segment header inside the block.
\<close>

lemma large_alignment_segment:
  assumes al: "unat al = 2 ^ k" and k: "17 \<le> k" and b: "unat b + unat al \<le> 2 ^ 64"
  defines "q \<equiv> aligned_start b al 0"
  shows "mi_ptr_segment q = q" and "q \<noteq> b \<Longrightarrow> mi_ptr_segment q \<noteq> mi_ptr_segment b"
proof -
  have "2 ^ k dvd unat q"
    using aligned_start_correct(1) [OF al, of b 0] power_word(3) [OF al] by (simp add: q_def)
  moreover have "(131072 :: nat) dvd 2 ^ k" using le_imp_power_dvd [OF k, of "2 :: nat"] by simp
  ultimately have "131072 dvd unat q" using dvd_trans by blast
  then show seg: "mi_ptr_segment q = q" by (rule mi_ptr_segment_in) simp_all
  have "q = b + (q - b)" by simp
  then have q: "unat q = unat b + unat (q - b)"
    using b aligned_start_correct(2) [OF al, of b 0] unat_add_bounded [of b "q - b"] by (simp add: q_def)
  show "mi_ptr_segment q \<noteq> mi_ptr_segment b" if "q \<noteq> b"
  proof -
    have "unat (mi_ptr_segment b) \<le> unat b"
      by (simp add: mi_ptr_segment_def MI_SEGMENT_MASK_eq_mask unat_and_not_mask)
    moreover have "unat b < unat q" using q that by (metis le_add1 le_neq_implies_less unsigned_word_eqI)
    ultimately show ?thesis unfolding seg by auto
  qed
qed

section \<open>Properties\<close>



end
