(* ===== verification/SecureList.thy ===== *)
theory SecureList
  imports MallocFree "HOL-Library.Multiset"
begin

text \<open>
  The randomised free list of the secure builds (\<open>mi_page_free_list_extend_secure\<close> of \<open>page.c\<close>): the new
  blocks are cut into up to 64 slices, and the list is threaded through them by picking the slice of the
  next block at random. Whatever the random numbers are, the list that comes out is a permutation of
  the list of the plain build. The blocks hold plain pointers, as at \<open>MI_SECURE\<close> 1 and 2.
\<close>

section \<open>The code\<close>

definition MI_MAX_SLICE_SHIFT :: nat where "MI_MAX_SLICE_SHIFT = 6"

text \<open>\<open>None\<close> is the shift by a count that has wrapped around below 0, for no blocks.\<close>

fun slice_shift :: "u64 \<Rightarrow> nat \<Rightarrow> nat option" where
  "slice_shift ext 0 = (if ext = 0 then None else Some 0)"
| "slice_shift ext (Suc n) = (if drop_bit (Suc n) ext = 0 then slice_shift ext n else Some (Suc n))"

definition slice_starts :: "addr \<Rightarrow> u64 \<Rightarrow> u64 \<Rightarrow> u64 \<Rightarrow> nat \<Rightarrow> addr list" where
  "slice_starts area bsize cap slice_extend n =
     map (\<lambda>i. mi_page_block_at area bsize (cap + word_of_nat i * slice_extend)) [0..<n]"

definition slice_counts :: "u64 \<Rightarrow> nat \<Rightarrow> u64 list" where
  "slice_counts ext n =
     (let cs = replicate n (ext div word_of_nat n)
      in cs[n - 1 := cs ! (n - 1) + ext mod word_of_nat n])"

text \<open>The next slice that still has space.\<close>

partial_function (option) next_slice :: "u64 list \<Rightarrow> nat \<Rightarrow> nat option" where
  "next_slice counts n =
     (if counts ! n = 0 then next_slice counts (if n + 1 = length counts then 0 else n + 1) else Some n)"

function thread_slices ::
    "u64 \<Rightarrow> nat \<Rightarrow> nat \<Rightarrow> u64 \<Rightarrow> nat \<Rightarrow> addr list \<Rightarrow> u64 list \<Rightarrow> mstate \<Rightarrow> (addr \<times> mstate) option" where
  "thread_slices bsize ext i rnd current blocks counts s =
     (if i < ext then
        let round = i mod 8;
            rnd = (if round = 0 then mi_random_shuffle rnd else rnd)
        in do {
          nxt \<leftarrow> next_slice counts (unat (drop_bit (8 * round) rnd AND word_of_nat (length blocks - 1)));
          let counts = counts[nxt := counts ! nxt - 1];
          let block = blocks ! current;
          let blocks = blocks[current := block + bsize];
          let s = mi_block_set_next block (blocks ! nxt) s;
          thread_slices bsize ext (i + 1) rnd nxt blocks counts s
        }
      else Some (blocks ! current, s))"
  by pat_completeness auto
termination by (relation "measure (\<lambda>(_, ext, i, _). ext - i)") auto

declare thread_slices.simps [simp del]

text \<open>What follows the call of \<open>_mi_heap_random_next\<close>, and the whole function.\<close>

definition free_list_extend_random :: "page_id \<Rightarrow> u64 \<Rightarrow> u64 \<Rightarrow> u64 \<Rightarrow> mstate \<Rightarrow> mstate option" where
  "free_list_extend_random p bsize ext r s =
     (let page_area = fst (mi_page_start p s);
          capacity = ucast (pg_capacity (st_page s p))
      in do {
        shift \<leftarrow> slice_shift ext MI_MAX_SLICE_SHIFT;
        let slice_count = 2 ^ shift;
        let blocks = slice_starts page_area bsize capacity (ext div word_of_nat slice_count) slice_count;
        let counts = slice_counts ext slice_count;
        let current = unat (r mod word_of_nat slice_count);
        let counts = counts[current := counts ! current - 1];
        let free_start = blocks ! current;
        (block, s) \<leftarrow> thread_slices bsize (unat ext) 1 (mi_random_shuffle (r OR 1)) current blocks counts s;
        let s = mi_block_set_next block (pg_free (st_page s p)) s;
        Some (page_upd p (\<lambda>pg. pg\<lparr>pg_free := free_start\<rparr>) s)
      })"

definition mi_page_free_list_extend_secure :: "addr \<Rightarrow> page_id \<Rightarrow> u64 \<Rightarrow> u64 \<Rightarrow> mstate \<Rightarrow> mstate option" where
  "mi_page_free_list_extend_secure heap p bsize ext s =
     (let (r, s) = mi_heap_random_next heap s in free_list_extend_random p bsize ext r s)"

section \<open>The slices\<close>

lemma slice_shift_bound:
  assumes "ext \<noteq> 0"
  shows "\<exists>sh \<le> n. slice_shift ext n = Some sh \<and> 2 ^ sh \<le> unat ext"
proof (induction n)
  case 0
  then show ?case using assms by (simp add: unat_gt_0 Suc_le_eq)
next
  case (Suc n)
  show ?case
  proof (cases "drop_bit (Suc n) ext = 0")
    case True
    then show ?thesis using Suc by (auto intro: le_SucI)
  next
    case False
    then have "drop_bit (Suc n) (unat ext) \<noteq> 0" by (metis unat_drop_bit_eq unat_eq_0)
    then have "2 ^ Suc n \<le> unat ext" by (metis drop_bit_eq_div div_less not_le)
    then show ?thesis using False by auto
  qed
qed

text \<open>The indices of the blocks that the slices still hold: slice \<open>j\<close> has \<open>counts ! j\<close> from \<open>st ! j\<close> on.\<close>

definition slices_left :: "nat list \<Rightarrow> u64 list \<Rightarrow> nat list" where
  "slices_left st counts = concat (map (\<lambda>j. [st ! j ..< st ! j + unat (counts ! j)]) [0..<length st])"

lemma slices_left_length:
  "length st = length counts \<Longrightarrow> length (slices_left st counts) = (\<Sum>c \<leftarrow> counts. unat c)"
  by (simp add: slices_left_def length_concat comp_def) (metis (no_types, lifting) map_nth map_map comp_def map_eq_conv)

text \<open>Taking the first block of a slice.\<close>

lemma slices_left_sum:
  "mset (slices_left st counts) = (\<Sum>i < length st. mset [st ! i ..< st ! i + unat (counts ! i)])"
  by (simp add: slices_left_def mset_concat comp_def sum_list_sum_nth atLeast0LessThan)

lemma slices_left_take:
  assumes "length st = length counts" and "j < length st" and "counts ! j \<noteq> 0"
  shows "mset (slices_left st counts) =
    add_mset (st ! j) (mset (slices_left (st[j := Suc (st ! j)]) (counts[j := counts ! j - 1])))"
proof -
  let ?st = "st[j := Suc (st ! j)]" and ?cs = "counts[j := counts ! j - 1]"
  have c: "unat (counts ! j) = Suc (unat (counts ! j - 1))"
    using assms(3) by (simp add: unat_minus_one unat_gt_0)
  have "mset [st ! j ..< st ! j + unat (counts ! j)] = add_mset (st ! j) (mset [?st ! j ..< ?st ! j + unat (?cs ! j)])"
    using assms(1,2) by (subst upt_conv_Cons) (simp_all add: c)
  moreover have "(\<Sum>i \<in> {..<length st} - {j}. mset [?st ! i ..< ?st ! i + unat (?cs ! i)]) =
      (\<Sum>i \<in> {..<length st} - {j}. mset [st ! i ..< st ! i + unat (counts ! i)])"
    by (rule sum.cong) auto
  ultimately show ?thesis
    using assms(2) unfolding slices_left_sum length_list_update
    by (subst (1 2) sum.remove [of _ j]) simp_all
qed

text \<open>A slice with space is found by going around.\<close>

lemma next_slice_found:
  assumes "k < length counts" and "counts ! k \<noteq> 0" and "n < length counts"
  shows "\<exists>m < length counts. next_slice counts n = Some m \<and> counts ! m \<noteq> 0"
  using assms(3)
proof (induction "if n \<le> k then k - n else k + length counts - n" arbitrary: n rule: less_induct)
  case less
  let ?n = "if n + 1 = length counts then 0 else n + 1"
  show ?case
  proof (cases "counts ! n = 0")
    case True
    then have "n \<noteq> k" using assms(2) by auto
    then have "\<exists>m < length counts. next_slice counts ?n = Some m \<and> counts ! m \<noteq> 0"
      using assms(1) less.prems by (intro less.hyps) auto
    then show ?thesis using True by (subst next_slice.simps) simp
  qed (use less.prems in \<open>subst next_slice.simps, auto\<close>)
qed

section \<open>Threading the slices\<close>

fun linked :: "(addr \<Rightarrow> addr) \<Rightarrow> addr list \<Rightarrow> bool" where
  "linked nx (x # y # xs) = (nx x = y \<and> linked nx (y # xs))"
| "linked nx xs = True"

lemma linked_cong: "(\<And>x. x \<in> set (butlast xs) \<Longrightarrow> nx x = nx' x) \<Longrightarrow> linked nx xs = linked nx' xs"
  by (induction nx xs rule: linked.induct) auto

lemma linked_chain:
  assumes "linked nx (x # xs)" and "0 \<notin> set (x # xs)" and "chain nx (nx (last (x # xs))) ys"
  shows "chain nx x ((x # xs) @ ys)"
  using assms
proof (induction xs arbitrary: x)
  case (Cons y xs)
  then show ?case using Cons.IH [of y] by simp
qed simp

text \<open>
  The loop: \<open>k\<close> is the index of the current block, \<open>st\<close> the index of the next block of every slice. The
  other blocks are visited in some order \<open>ys\<close>, each linked to the one that follows.
\<close>

lemma thread_slices_run:
  fixes B :: "nat \<Rightarrow> addr"
  assumes step: "\<And>m. B (Suc m) = B m + bsize"
    and len: "length st = length counts" "length blocks = length counts" and cur: "current < length counts"
    and blocks: "\<And>j. j < length counts \<Longrightarrow> blocks ! j = (if j = current then B k else B (st ! j))"
    and st: "st ! current = Suc k" and d: "distinct (map B (k # slices_left st counts))"
    and i: "i + length (slices_left st counts) = ext"
  shows "\<exists>ys s'. thread_slices bsize ext i rnd current blocks counts s = Some (B (last (k # ys)), s') \<and>
    mset ys = mset (slices_left st counts) \<and> linked (st_block s') (map B (k # ys)) \<and>
    list_frame p (B ` set (k # ys)) s s' \<and> st_page s' = st_page s"
  using assms
proof (induction "ext - i" arbitrary: i rnd current blocks counts s st k)
  case 0
  then have none: "slices_left st counts = []" "\<not> i < ext" by auto
  have "thread_slices bsize ext i rnd current blocks counts s = Some (B k, s)"
    using none(2) 0 by (subst thread_slices.simps) simp
  then show ?case using none by (intro exI [of _ "[]"] exI [of _ s]) (simp add: list_frame_refl)
next
  case (Suc w)
  note len = Suc.prems(2,3) and cur = Suc.prems(4) and blocks = Suc.prems(5)
    and st = Suc.prems(6) and d = Suc.prems(7) and i = Suc.prems(8)
  have more: "i < ext" using Suc.hyps(2) by simp
  define rnd' where "rnd' = (if i mod 8 = 0 then mi_random_shuffle rnd else rnd)"
  define n0 where "n0 = unat (drop_bit (8 * (i mod 8)) rnd' AND word_of_nat (length blocks - 1))"
  have "n0 < length counts"
  proof -
    have "n0 \<le> unat (word_of_nat (length blocks - 1) :: u64)"
      unfolding n0_def by (metis word_and_le1 word_le_nat_alt)
    also have "\<dots> \<le> length blocks - 1" by (simp add: unat_of_nat)
    finally show ?thesis using cur len(2) by simp
  qed
  moreover obtain j where "j < length counts" "counts ! j \<noteq> 0"
  proof -
    have "slices_left st counts \<noteq> []" using i more by auto
    then obtain j where "j < length st" "[st ! j ..< st ! j + unat (counts ! j)] \<noteq> []"
      by (auto simp: slices_left_def)
    then show thesis using len(1) by (intro that [of j]) auto
  qed
  ultimately obtain m where m: "m < length counts" "next_slice counts n0 = Some m" "counts ! m \<noteq> 0"
    using next_slice_found by blast
  define counts' where "counts' = counts[m := counts ! m - 1]"
  define blocks' where "blocks' = blocks[current := B k + bsize]"
  define st' where "st' = st[m := Suc (st ! m)]"
  define t where "t = mi_block_set_next (B k) (B (st ! m)) s"
  have blk: "blocks' ! j = B (st ! j)" if "j < length counts" for j
    using that blocks [OF that] cur len st Suc.prems(1) by (auto simp: blocks'_def nth_list_update)
  have run: "thread_slices bsize ext i rnd current blocks counts s =
      thread_slices bsize ext (i + 1) rnd' m blocks' counts' t"
    using more m blocks [OF cur] blk [OF m(1)] unfolding rnd'_def n0_def
    by (subst thread_slices.simps) (simp add: Let_def counts'_def blocks'_def t_def)
  have take: "mset (slices_left st counts) = add_mset (st ! m) (mset (slices_left st' counts'))"
    using slices_left_take [OF len(1) _ m(3)] m(1) len(1) by (simp add: st'_def counts'_def)
  then have take': "mset (slices_left st counts) = mset (st ! m # slices_left st' counts')" by simp
  have perm: "mset (map B (k # slices_left st counts)) = mset (map B (k # st ! m # slices_left st' counts'))"
    using take' by simp
  then have d': "distinct (map B (k # st ! m # slices_left st' counts'))"
    using d mset_eq_imp_distinct_iff by blast
  have i': "i + 1 + length (slices_left st' counts') = ext"
    using i take by (metis size_mset size_add_mset add_Suc_right add_Suc Suc_eq_plus1)
  obtain ys s' where Y: "thread_slices bsize ext (i + 1) rnd' m blocks' counts' t = Some (B (last (st ! m # ys)), s')"
    "mset ys = mset (slices_left st' counts')" "linked (st_block s') (map B (st ! m # ys))"
    "list_frame p (B ` set (st ! m # ys)) t s'" "st_page s' = st_page t"
  proof -
    have "\<exists>ys s'. thread_slices bsize ext (i + 1) rnd' m blocks' counts' t = Some (B (last (st ! m # ys)), s') \<and>
      mset ys = mset (slices_left st' counts') \<and> linked (st_block s') (map B (st ! m # ys)) \<and>
      list_frame p (B ` set (st ! m # ys)) t s' \<and> st_page s' = st_page t"
    proof (rule Suc.hyps(1))
      show "w = ext - (i + 1)" using Suc.hyps(2) by simp
      show "blocks' ! j = (if j = m then B (st ! m) else B (st' ! j))" if "j < length counts'" for j
        using that blk by (simp add: st'_def counts'_def)
      show "distinct (map B (st ! m # slices_left st' counts'))" using d' by simp
    qed (use Suc.prems(1) len m(1) i' in \<open>simp_all add: counts'_def st'_def blocks'_def\<close>)
    then show thesis using that by blast
  qed
  have "B k \<notin> B ` set (st ! m # ys)"
    using d' Y(2) by (metis distinct.simps(2) list.simps(9) set_map set_mset_mset mset.simps(2))
  then have keep: "st_block s' (B k) = B (st ! m)"
    using Y(4) by (simp add: list_frame_def t_def mi_block_set_next_def store_simps)
  have "list_frame p {B k} s t" unfolding t_def by (rule list_frame_block) simp
  from list_frame_trans [OF this Y(4)] have "list_frame p (B ` set (k # st ! m # ys)) s s'"
    by (simp add: insert_commute)
  moreover have "st_page t = st_page s" by (simp add: t_def mi_block_set_next_def store_simps)
  ultimately show ?case
    using Y keep take' run
    by (intro exI [of _ "st ! m # ys"] exI [of _ s']) simp
qed

section \<open>Setting up the slices\<close>

lemma word_of_nat_div:
  assumes "e < 2 ^ 64" and "n < 2 ^ 64"
  shows "(word_of_nat e :: u64) div word_of_nat n = word_of_nat (e div n)"
    and "(word_of_nat e :: u64) mod word_of_nat n = word_of_nat (e mod n)"
  using assms by (simp_all add: word_arith_nat_div word_arith_nat_mod unat_of_nat)

lemma slices_even: "concat (map (\<lambda>i. [c + i * w ..< c + i * w + w]) [0..<n]) = [c ..< c + n * w]"
proof (induction n)
  case (Suc n)
  have "[c ..< c + n * w] @ [c + n * w ..< c + n * w + w] = [c ..< c + n * w + w]"
    by (metis add.assoc le_add1 upt_add_eq_append)
  then show ?case using Suc by (simp add: algebra_simps)
qed simp

lemma slice_counts_unat:
  assumes "0 < n" and "n \<le> e" and "e < 2 ^ 64" and "i < n"
  shows "length (slice_counts (word_of_nat e) n) = n"
    and "unat (slice_counts (word_of_nat e) n ! i) = e div n + (if i = n - 1 then e mod n else 0)"
proof -
  have n64: "n < 2 ^ 64" using assms(2,3) by simp
  note D = word_of_nat_div [OF assms(3) n64]
  have le: "e div n + e mod n \<le> e"
    using assms(1) by (metis add_mono_thms_linordered_semiring(3) div_mult_mod_eq mult_le_mono2 nat_mult_1_right Suc_leI One_nat_def)
  have "(word_of_nat (e div n) :: u64) + word_of_nat (e mod n) = word_of_nat (e div n + e mod n)" by simp
  then have "unat ((word_of_nat (e div n) :: u64) + word_of_nat (e mod n)) = e div n + e mod n"
    using le assms(3) by (simp only: unat_of_nat) simp
  moreover have "unat (word_of_nat (e div n) :: u64) = e div n"
    using le assms(3) by (simp add: unat_of_nat)
  ultimately show "unat (slice_counts (word_of_nat e) n ! i) = e div n + (if i = n - 1 then e mod n else 0)"
    using assms(1,4) by (simp add: slice_counts_def Let_def D nth_list_update)
  show "length (slice_counts (word_of_nat e) n) = n" by (simp add: slice_counts_def Let_def)
qed

lemma slices_left_all:
  assumes "0 < n" and "n \<le> e" and "e < 2 ^ 64"
  shows "slices_left (map (\<lambda>i. c + i * (e div n)) [0..<n]) (slice_counts (word_of_nat e) n) = [c ..< c + e]"
proof -
  let ?w = "e div n" and ?cs = "slice_counts (word_of_nat e) n"
  note U = slice_counts_unat [OF assms]
  obtain m where m: "n = Suc m" using assms(1) by (cases n) auto
  have hi: "unat (?cs ! m) = ?w + e mod n" using U(2) [of m] by (simp add: m)
  have lo: "map (\<lambda>i. [c + i * ?w ..< c + i * ?w + unat (?cs ! i)]) [0..<m] = map (\<lambda>i. [c + i * ?w ..< c + i * ?w + ?w]) [0..<m]"
    using U(2) m by (intro map_cong) auto
  have "slices_left (map (\<lambda>i. c + i * ?w) [0..<n]) ?cs =
      concat (map (\<lambda>i. [c + i * ?w ..< c + i * ?w + unat (?cs ! i)]) [0..<n])"
    unfolding slices_left_def by (intro arg_cong [where f = concat] map_cong) simp_all
  also have "\<dots> = concat (map (\<lambda>i. [c + i * ?w ..< c + i * ?w + unat (?cs ! i)]) [0..<m]) @ [c + m * ?w ..< c + m * ?w + unat (?cs ! m)]"
    unfolding m by simp
  also have "\<dots> = concat (map (\<lambda>i. [c + i * ?w ..< c + i * ?w + ?w]) [0..<m]) @ [c + m * ?w ..< c + m * ?w + (?w + e mod n)]"
    by (simp only: lo hi)
  also have "\<dots> = [c ..< c + m * ?w] @ [c + m * ?w ..< c + m * ?w + (?w + e mod n)]"
    by (simp only: slices_even)
  also have "\<dots> = [c ..< c + m * ?w + (?w + e mod n)]"
    by (metis add.assoc le_add1 upt_add_eq_append)
  also have "c + m * ?w + (?w + e mod n) = c + e"
    using div_mult_mod_eq [of e n] by (simp add: m algebra_simps)
  finally show ?thesis .
qed

section \<open>The free list\<close>

lemma relink_free_list:
  assumes P: "page_lists p F L T s" and zs: "zs \<noteq> []" "distinct zs" "0 \<notin> set zs" "set (F @ L @ T) \<inter> set zs = {}"
    and lk: "linked (st_block s1) zs" and fr: "list_frame p (set zs) s s1" and pg: "st_page s1 = st_page s"
  defines "s' \<equiv> page_upd p (\<lambda>pg. pg\<lparr>pg_free := hd zs\<rparr>) (mi_block_set_next (last zs) (pg_free (st_page s p)) s1)"
  shows "page_lists p (zs @ F) L T s'" and "list_frame p (set zs) s s'"
    and "st_page s' p = (st_page s p)\<lparr>pg_free := hd zs\<rparr>"
proof -
  have last: "last zs \<in> set zs" by (rule last_in_set [OF zs(1)])
  have blk: "st_block s' = (st_block s1)(last zs := pg_free (st_page s p))"
    by (simp add: s'_def store_simps mi_block_set_next_def fun_eq_iff)
  show page: "st_page s' p = (st_page s p)\<lparr>pg_free := hd zs\<rparr>"
    using pg by (simp add: s'_def store_simps mi_block_set_next_def)
  have same: "st_block s' b = st_block s b" if "b \<in> set (F @ L @ T)" for b
  proof -
    have b: "b \<notin> set zs" using zs(4) that by blast
    then have "b \<noteq> last zs" using last by blast
    moreover have "st_block s1 b = st_block s b" using fr b unfolding list_frame_def by blast
    ultimately show ?thesis by (simp add: blk)
  qed
  have old: "chain (st_block s') b ws = chain (st_block s) b ws" if "set ws \<subseteq> set (F @ L @ T)" for b ws
    by (rule chain_cong) (use that same in blast)
  have "chain (st_block s') (hd zs) (zs @ F)"
  proof -
    have "st_block s' x = st_block s1 x" if "x \<in> set (butlast zs)" for x
    proof -
      have "distinct (butlast zs @ [last zs])" using zs(1,2) by simp
      then have "x \<noteq> last zs" using that by auto
      then show ?thesis by (simp add: blk)
    qed
    then have "linked (st_block s') zs" using lk linked_cong by metis
    moreover have "chain (st_block s') (st_block s' (last zs)) F"
      using P old [of F] by (simp add: blk page_lists_def)
    moreover obtain z ws where "zs = z # ws" using zs(1) by (cases zs) auto
    ultimately show ?thesis using linked_chain [of "st_block s'" z ws F] zs(3) by simp
  qed
  moreover have "chain (st_block s') (pg_local_free (st_page s p)) L"
    "chain (st_block s') (mi_page_thread_free (st_page s p)) T" "distinct (F @ L @ T)"
    using P old [of L] old [of T] by (auto simp: page_lists_def)
  moreover have "distinct ((zs @ F) @ L @ T)" using \<open>distinct (F @ L @ T)\<close> zs(2,4) by auto
  ultimately show "page_lists p (zs @ F) L T s'"
    by (simp add: page_lists_def page mi_page_thread_free_def)
  show "list_frame p (set zs) s s'"
    unfolding s'_def by (intro list_frame_step fr last) (simp add: page_fixed_def)
qed

lemma free_list_extend_random_lists:
  assumes G: "page_geometry p s" and P: "page_lists p F L T s"
    and e: "0 < e" "c + e \<le> unat (pg_reserved (st_page s p))"
    and old: "set (F @ L @ T) \<subseteq> page_block p s ` {..<c}"
    and c: "c = unat (pg_capacity (st_page s p))"
  shows "\<exists>s' ys. free_list_extend_random p (mi_page_block_size p s) (word_of_nat e) r s = Some s' \<and>
    mset ys = mset (fresh_blocks p s c e) \<and> page_lists p (ys @ F) L T s' \<and>
    list_frame p (page_block p s ` {c..<c + e}) s s' \<and> (\<exists>b. st_page s' p = (st_page s p)\<lparr>pg_free := b\<rparr>)"
proof -
  define bs where "bs = mi_page_block_size p s"
  define B where "B = page_block p s"
  have B: "B m = mi_page_block_at (page_area p s) bs (word_of_nat m)" for m by (simp add: B_def bs_def page_block_def)
  have step: "B (Suc m) = B m + bs" for m by (simp add: B mi_page_block_at_def algebra_simps)
  have e64: "e < 2 ^ 64" using e(2) unsigned_less [of "pg_reserved (st_page s p)", where 'a = nat] by simp
  have ne: "(word_of_nat e :: u64) \<noteq> 0" and une: "unat (word_of_nat e :: u64) = e"
    using e(1) e64 by (simp_all add: unat_of_nat flip: unat_eq_0)
  obtain sh where sh: "sh \<le> 6" "slice_shift (word_of_nat e) 6 = Some sh" "2 ^ sh \<le> e"
    using slice_shift_bound [OF ne, of 6] une by auto
  define n :: nat where "n = 2 ^ sh"
  have n: "0 < n" "n \<le> e" "(2 :: nat) ^ sh = n" using sh(3) by (simp_all add: n_def)
  define cs where "cs = slice_counts (word_of_nat e) n"
  define st where "st = map (\<lambda>i. c + i * (e div n)) [0..<n]"
  define cur where "cur = unat (r mod word_of_nat n)"
  have n64: "unat (word_of_nat n :: u64) = n" using n(2) e64 by (simp add: unat_of_nat)
  have cur: "cur < n" using n(1) by (simp add: cur_def unat_mod_distrib n64)
  note C = slice_counts_unat [OF n(1,2) e64, folded cs_def]
  have "1 \<le> e div n" using n(1,2) by (simp add: Suc_le_eq div_greater_zero_iff)
  then have "cs ! cur \<noteq> 0" using C(2) [OF cur] by (metis One_nat_def Suc_le_eq add_gr_0 less_irrefl unat_0)
  then have take: "mset [c..<c + e] = add_mset (st ! cur) (mset (slices_left (st[cur := Suc (st ! cur)]) (cs[cur := cs ! cur - 1])))"
    using slices_left_take [of st cs cur] slices_left_all [OF n(1,2) e64, of c] C(1) cur
    by (simp add: st_def cs_def)
  define blocks where "blocks = slice_starts (page_area p s) bs (word_of_nat c) (word_of_nat (e div n)) n"
  have blocks: "length blocks = n" "blocks ! j = B (st ! j)" if "j < n" for j
    using that by (simp_all add: blocks_def slice_starts_def st_def B)
  let ?left = "slices_left (st[cur := Suc (st ! cur)]) (cs[cur := cs ! cur - 1])"
  have perm: "mset (map B (st ! cur # ?left)) = mset (fresh_blocks p s c e)"
    by (simp only: fresh_blocks_def mset_map take flip: B_def) simp
  have inj: "inj_on B {..c + e}"
    using page_block_inj [OF G] e(2) by (auto simp: inj_on_def B_def)
  have dist: "distinct (fresh_blocks p s c e)"
    using inj by (auto simp: fresh_blocks_def distinct_map B_def intro: inj_on_subset)
  then have dl: "distinct (map B (st ! cur # ?left))" using perm mset_eq_imp_distinct_iff by blast
  have len: "1 + length ?left = e" using take by (metis length_upt size_mset size_add_mset add_diff_cancel_left' plus_1_eq_Suc)
  obtain ys s1 where Y: "thread_slices bs e 1 (mi_random_shuffle (r OR 1)) cur blocks (cs[cur := cs ! cur - 1]) s =
      Some (B (last (st ! cur # ys)), s1)"
    "mset ys = mset ?left" "linked (st_block s1) (map B (st ! cur # ys))"
    "list_frame p (B ` set (st ! cur # ys)) s s1" "st_page s1 = st_page s"
  proof -
    have "\<exists>ys s'. thread_slices bs e 1 (mi_random_shuffle (r OR 1)) cur blocks (cs[cur := cs ! cur - 1]) s =
        Some (B (last (st ! cur # ys)), s') \<and>
      mset ys = mset ?left \<and> linked (st_block s') (map B (st ! cur # ys)) \<and>
      list_frame p (B ` set (st ! cur # ys)) s s' \<and> st_page s' = st_page s"
    proof (rule thread_slices_run)
      show "B (Suc m) = B m + bs" for m by (rule step)
      show "length (st[cur := Suc (st ! cur)]) = length (cs[cur := cs ! cur - 1])"
        "length blocks = length (cs[cur := cs ! cur - 1])" "cur < length (cs[cur := cs ! cur - 1])"
        "st[cur := Suc (st ! cur)] ! cur = Suc (st ! cur)"
        using C(1) [OF cur] cur blocks(1) [OF cur] by (simp_all add: st_def)
      show "blocks ! j = (if j = cur then B (st ! cur) else B (st[cur := Suc (st ! cur)] ! j))"
        if "j < length (cs[cur := cs ! cur - 1])" for j
        using that C(1) [OF cur] blocks(2) [of j] by simp
    qed (rule dl len)+
    then show thesis using that by blast
  qed
  let ?zs = "map B (st ! cur # ys)"
  have zs: "mset ?zs = mset (fresh_blocks p s c e)" using perm by (simp only: list.map mset.simps mset_map Y(2))
  then have set_zs: "set ?zs = page_block p s ` {c..<c + e}" by (metis fresh_blocks_simps(2) set_mset_mset)
  define s' where "s' = page_upd p (\<lambda>pg. pg\<lparr>pg_free := hd ?zs\<rparr>) (mi_block_set_next (last ?zs) (pg_free (st_page s p)) s1)"
  have run: "free_list_extend_random p bs (word_of_nat e) r s = Some s'"
  proof -
    have cap: "ucast (pg_capacity (st_page s p)) = (word_of_nat c :: u64)" by (simp only: ucast_u16 c)
    have w: "(word_of_nat e :: u64) div word_of_nat n = word_of_nat (e div n)"
      using word_of_nat_div(1) [of e n] e64 n(2) by simp
    have hd: "hd ?zs = blocks ! cur" using blocks(2) [OF cur] by simp
    have last: "last ?zs = B (last (st ! cur # ys))" by (rule last_map) simp
    show ?thesis
      unfolding free_list_extend_random_def MI_MAX_SLICE_SHIFT_def Let_def sh(2) Option.bind.simps n(3) cap w une
        page_area_def [symmetric] blocks_def [symmetric] cs_def [symmetric] cur_def [symmetric] Y(1) s'_def hd last
      by (simp only: Option.bind.simps prod.case Y(5))
  qed
  have new: "set (F @ L @ T) \<inter> set ?zs = {}"
  proof -
    have "B ` {..<c} \<inter> B ` {c..<c + e} = B ` ({..<c} \<inter> {c..<c + e})"
      by (rule inj_on_image_Int [OF inj, symmetric]) auto
    then have "page_block p s ` {..<c} \<inter> page_block p s ` {c..<c + e} = {}" by (auto simp: B_def)
    then show ?thesis using old unfolding set_zs by blast
  qed
  have "distinct ?zs" using zs dist mset_eq_imp_distinct_iff by blast
  moreover have "0 \<notin> set ?zs" unfolding set_zs using page_block_nonzero [OF G] e(2) by fastforce
  moreover have "list_frame p (set ?zs) s s1" using Y(4) by (simp only: set_map)
  ultimately have "page_lists p (?zs @ F) L T s'" "list_frame p (set ?zs) s s'"
    "st_page s' p = (st_page s p)\<lparr>pg_free := hd ?zs\<rparr>"
    using relink_free_list [OF P _ _ _ new Y(3) _ Y(5)] unfolding s'_def by blast+
  then show ?thesis using run zs unfolding bs_def set_zs by blast
qed

section \<open>Properties\<close>

lemma heap_random_same:
  assumes "mi_heap_random_next h s = (r, t)"
  shows "page_lists p F L T t = page_lists p F L T s" and "page_geometry p t = page_geometry p s"
    and "page_block p t = page_block p s" and "mi_page_block_size p t = mi_page_block_size p s"
    and "st_page t = st_page s" and "st_block t = st_block s"
proof -
  have "t = heap_upd h (\<lambda>hp. hp\<lparr>hp_random := snd (mi_random_next (hp_random (st_heap s h)))\<rparr>) s"
    using assms unfolding mi_heap_random_next_def Let_def by (simp add: case_prod_beta)
  then have same: "st_page t = st_page s" "st_block t = st_block s" "st_segment t = st_segment s"
    by (simp_all add: store_simps)
  then show "st_page t = st_page s" "st_block t = st_block s" by simp_all
  show "page_lists p F L T t = page_lists p F L T s" by (simp only: page_lists_def same)
  show "page_geometry p t = page_geometry p s" "page_block p t = page_block p s"
    "mi_page_block_size p t = mi_page_block_size p s"
    using page_geometry_frame [of t p s] same by simp_all
qed

text \<open>
  C10. For every random number \<open>r\<close>, what \<open>mi_page_free_list_extend_secure\<close> does with it ends and adds the
  same blocks to the free list as \<open>mi_page_free_list_extend\<close>, each of them once, in some other order; the
  old free list follows them, and the other lists of the page stay as they were. The function itself, which
  takes \<open>r\<close> from the random state of the heap (always 0 in this tree), is one of these runs.
\<close>

theorem mi_page_free_list_extend_secure_perm:
  assumes "page_wf p F L T s" and "0 < e"
    and "unat (pg_capacity (st_page s p)) + e \<le> unat (pg_reserved (st_page s p))"
  shows "\<exists>t zs. mi_page_free_list_extend p (mi_page_block_size p s) (word_of_nat e) s = Some t \<and>
    distinct zs \<and> length zs = e \<and> page_lists p (zs @ F) L T t \<and>
    (\<forall>r. \<exists>s' ys. free_list_extend_random p (mi_page_block_size p s) (word_of_nat e) r s = Some s' \<and>
       mset ys = mset zs \<and> page_lists p (ys @ F) L T s') \<and>
    (\<exists>s' ys. mi_page_free_list_extend_secure h p (mi_page_block_size p s) (word_of_nat e) s = Some s' \<and>
       mset ys = mset zs \<and> page_lists p (ys @ F) L T s')"
proof -
  let ?c = "unat (pg_capacity (st_page s p))"
  have G: "page_geometry p s" and P: "page_lists p F L T s" and old: "set (F @ L @ T) \<subseteq> page_block p s ` {..<?c}"
    using assms(1) by (simp_all add: page_wf_def)
  have random: "\<exists>s' ys. free_list_extend_random p (mi_page_block_size p s) (word_of_nat e) r s = Some s' \<and>
      mset ys = mset (fresh_blocks p s ?c e) \<and> page_lists p (ys @ F) L T s'" for r
    using free_list_extend_random_lists [OF G P assms(2,3) old refl] by metis
  obtain r u where R: "mi_heap_random_next h s = (r, u)" by (metis surj_pair)
  note S = heap_random_same [OF R]
  have Gu: "page_geometry p u" and Pu: "page_lists p F L T u"
    and oldu: "set (F @ L @ T) \<subseteq> page_block p u ` {..<?c}" using G P old S(1-3) by simp_all
  have cu: "?c + e \<le> unat (pg_reserved (st_page u p))" "?c = unat (pg_capacity (st_page u p))"
    using assms(3) S(5) by simp_all
  obtain s' ys where Y: "free_list_extend_random p (mi_page_block_size p u) (word_of_nat e) r u = Some s'"
    "mset ys = mset (fresh_blocks p u ?c e)" "page_lists p (ys @ F) L T s'"
    using free_list_extend_random_lists [OF Gu Pu assms(2) cu(1) oldu cu(2)] by blast
  have "fresh_blocks p u ?c e = fresh_blocks p s ?c e" by (simp only: fresh_blocks_def S(3))
  moreover have "mi_page_free_list_extend_secure h p (mi_page_block_size p s) (word_of_nat e) s = Some s'"
    using Y(1) by (simp only: mi_page_free_list_extend_secure_def R Let_def prod.case S(4))
  ultimately have secure: "\<exists>s' ys. mi_page_free_list_extend_secure h p (mi_page_block_size p s) (word_of_nat e) s = Some s' \<and>
      mset ys = mset (fresh_blocks p s ?c e) \<and> page_lists p (ys @ F) L T s'"
    using Y(2,3) by metis
  obtain t where T: "mi_page_free_list_extend p (mi_page_block_size p s) (word_of_nat e) s = Some t"
    "page_lists p (fresh_blocks p s ?c e @ F) L T t"
    using free_list_extend_lists [OF G P assms(2,3) old refl] by blast
  moreover have "distinct (fresh_blocks p s ?c e)" using T(2) unfolding page_lists_def by simp
  moreover have "length (fresh_blocks p s ?c e) = e" by simp
  ultimately show ?thesis using random secure by blast
qed

lemma mi_page_free_list_extend_secure_perm_witness:
  "\<exists>s' ys. free_list_extend_random (0x20000, 0) 16 100 0x123456789ABCDEF (page_example 1) = Some s' \<and>
     page_lists (0x20000, 0) (ys @ [0x20500]) [] [] s' \<and> length ys = 100"
proof -
  let ?s = "page_example 1"
  have bs: "mi_page_block_size (0x20000, 0) ?s = 16" by (simp add: mi_page_block_size_def page_example_page mi_consts)
  have room: "unat (pg_capacity (st_page ?s (0x20000, 0))) + 100 \<le> unat (pg_reserved (st_page ?s (0x20000, 0)))"
    by (simp add: page_example_page mi_page_empty_def)
  have e: "(0 :: nat) < 100" by simp
  note M = mi_page_free_list_extend_secure_perm [OF page_example_wf(1) [of 1] e room, of heap_main_ref, unfolded bs of_nat_numeral]
  obtain t zs where Z: "length zs = 100"
    "\<forall>r. \<exists>s' ys. free_list_extend_random (0x20000, 0) 16 100 r ?s = Some s' \<and> mset ys = mset zs \<and>
       page_lists (0x20000, 0) (ys @ [0x20500]) [] [] s'"
    using M by (elim exE conjE)
  obtain s' ys where Y: "free_list_extend_random (0x20000, 0) 16 100 0x123456789ABCDEF ?s = Some s'" "mset ys = mset zs"
    "page_lists (0x20000, 0) (ys @ [0x20500]) [] [] s'"
    using Z(2) by (elim allE [of _ "0x123456789ABCDEF"] exE conjE)
  have "length ys = 100" using mset_eq_length [OF Y(2)] Z(1) by (rule trans)
  then show ?thesis using Y(1,3) by (intro exI conjI)
qed

end
