(* ===== verification/Hardened.thy ===== *)
theory Hardened
  imports MallocFree
begin

text \<open>
  The checks of builds with \<open>MI_ENCODE_FREELIST\<close> and \<open>MI_PADDING\<close> (\<open>alloc.c\<close>, \<open>mimalloc-internal.h\<close>): encoded
  free lists with their check for corruption, the detection of double frees, and the padding that
  detects writes past the end of a block. The encoded words, the padding structures and the bytes of
  the blocks are a store of their own; the pages, with their list heads, are those of \<open>mstate\<close>.
\<close>

section \<open>Encoded free lists\<close>

record mi_padding =
  pd_canary :: u32
  pd_delta :: u32

record guard_state =
  gd_word :: "addr \<Rightarrow> u64"
  gd_padding :: "addr \<Rightarrow> mi_padding"
  gd_byte :: "addr \<Rightarrow> u8"

text \<open>What encodes the links of a page: the address of the page structure and its keys.\<close>

record page_code =
  pc_null :: addr
  pc_keys :: "u64 \<times> u64"

definition mi_block_nextx :: "addr \<Rightarrow> addr \<Rightarrow> u64 \<times> u64 \<Rightarrow> guard_state \<Rightarrow> addr option" where
  "mi_block_nextx null block keys g = mi_ptr_decode null (gd_word g block) keys"

definition mi_block_set_nextx ::
    "addr \<Rightarrow> addr \<Rightarrow> addr \<Rightarrow> u64 \<times> u64 \<Rightarrow> guard_state \<Rightarrow> guard_state option" where
  "mi_block_set_nextx null block nxt keys g =
     map_option (\<lambda>x. g\<lparr>gd_word := (gd_word g)(block := x)\<rparr>) (mi_ptr_encode null nxt keys)"

text \<open>The next block, and whether the entry was reported as corrupted.\<close>

definition mi_block_next_checked :: "page_code \<Rightarrow> addr \<Rightarrow> mstate \<Rightarrow> guard_state \<Rightarrow> (addr \<times> bool) option" where
  "mi_block_next_checked c block s g =
     map_option (\<lambda>nxt. if nxt \<noteq> 0 \<and> \<not> mi_is_in_same_page block nxt s then (0, True) else (nxt, False))
       (mi_block_nextx (pc_null c) block (pc_keys c) g)"

definition mi_block_set_next_enc :: "page_code \<Rightarrow> addr \<Rightarrow> addr \<Rightarrow> guard_state \<Rightarrow> guard_state option" where
  "mi_block_set_next_enc c block nxt g = mi_block_set_nextx (pc_null c) block nxt (pc_keys c) g"

section \<open>Double frees\<close>

partial_function (option) mi_list_contains ::
    "page_code \<Rightarrow> addr \<Rightarrow> addr \<Rightarrow> mstate \<Rightarrow> guard_state \<Rightarrow> bool option" where
  "mi_list_contains c list elem s g =
     (if list = 0 then Some False
      else if elem = list then Some True
      else Option.bind (mi_block_next_checked c list s g) (\<lambda>nxt. mi_list_contains c (fst nxt) elem s g))"

definition mi_check_is_double_freex :: "page_code \<Rightarrow> page_id \<Rightarrow> addr \<Rightarrow> mstate \<Rightarrow> guard_state \<Rightarrow> bool option" where
  "mi_check_is_double_freex c p block s g =
     do {
       b1 \<leftarrow> mi_list_contains c (pg_free (st_page s p)) block s g;
       if b1 then Some True
       else do {
         b2 \<leftarrow> mi_list_contains c (pg_local_free (st_page s p)) block s g;
         if b2 then Some True
         else mi_list_contains c (mi_page_thread_free (st_page s p)) block s g
       }
     }"

definition mi_check_is_double_free :: "page_code \<Rightarrow> page_id \<Rightarrow> addr \<Rightarrow> mstate \<Rightarrow> guard_state \<Rightarrow> bool option" where
  "mi_check_is_double_free c p block s g =
     do {
       n \<leftarrow> mi_block_nextx (pc_null c) block (pc_keys c) g;
       if n AND 7 = 0 \<and> (n = 0 \<or> mi_is_in_same_page block n s) then mi_check_is_double_freex c p block s g
       else Some False
     }"

section \<open>Padding\<close>

definition MI_PADDING_SIZE :: u64 where [mi_consts]: "MI_PADDING_SIZE = 8"
definition MI_DEBUG_PADDING :: u8 where "MI_DEBUG_PADDING = 0xDE"

definition mi_page_usable_block_size_padded :: "page_id \<Rightarrow> mstate \<Rightarrow> u64" where
  "mi_page_usable_block_size_padded p s = mi_page_block_size p s - MI_PADDING_SIZE"

fun fill_padding :: "addr \<Rightarrow> nat \<Rightarrow> (addr \<Rightarrow> u8) \<Rightarrow> addr \<Rightarrow> u8" where
  "fill_padding fill 0 m = m"
| "fill_padding fill (Suc n) m = (fill_padding fill n m)(fill + word_of_nat n := MI_DEBUG_PADDING)"

definition maxpad :: "u64 \<Rightarrow> nat" where
  "maxpad delta = (if MI_MAX_ALIGN_SIZE < delta then unat MI_MAX_ALIGN_SIZE else unat delta)"

text \<open>The end of \<open>_mi_page_malloc\<close>; the size includes the padding.\<close>

definition page_malloc_padding ::
    "page_code \<Rightarrow> page_id \<Rightarrow> addr \<Rightarrow> u64 \<Rightarrow> mstate \<Rightarrow> guard_state \<Rightarrow> guard_state option" where
  "page_malloc_padding c p block sz s g =
     (let padding = block + mi_page_usable_block_size_padded p s;
          delta = padding - block - (sz - MI_PADDING_SIZE)
      in map_option (\<lambda>x.
           g\<lparr>gd_padding := (gd_padding g)(padding := \<lparr>pd_canary = ucast x, pd_delta = ucast delta\<rparr>),
             gd_byte := fill_padding (padding - delta) (maxpad delta) (gd_byte g)\<rparr>)
         (mi_ptr_encode (pc_null c) block (pc_keys c)))"

text \<open>Whether the padding is intact, with its \<open>delta\<close> and the usable size.\<close>

definition mi_page_decode_padding ::
    "page_code \<Rightarrow> page_id \<Rightarrow> addr \<Rightarrow> mstate \<Rightarrow> guard_state \<Rightarrow> (bool \<times> u64 \<times> u64) option" where
  "mi_page_decode_padding c p block s g =
     (let bsize = mi_page_usable_block_size_padded p s;
          padding = gd_padding g (block + bsize);
          delta = ucast (pd_delta padding)
      in map_option (\<lambda>x. (ucast x = pd_canary padding \<and> delta \<le> bsize, delta, bsize))
           (mi_ptr_encode (pc_null c) block (pc_keys c)))"

definition mi_page_usable_size_of_padded ::
    "page_code \<Rightarrow> page_id \<Rightarrow> addr \<Rightarrow> mstate \<Rightarrow> guard_state \<Rightarrow> u64 option" where
  "mi_page_usable_size_of_padded c p block s g =
     map_option (\<lambda>(ok, delta, bsize). if ok then bsize - delta else 0) (mi_page_decode_padding c p block s g)"

text \<open>The first of the padding bytes that was overwritten.\<close>

fun first_wrong :: "addr \<Rightarrow> nat \<Rightarrow> nat \<Rightarrow> (addr \<Rightarrow> u8) \<Rightarrow> nat option" where
  "first_wrong fill i 0 m = None"
| "first_wrong fill i (Suc n) m =
     (if m (fill + word_of_nat i) \<noteq> MI_DEBUG_PADDING then Some i else first_wrong fill (Suc i) n m)"

text \<open>The result, the size and the offset of the wrong byte.\<close>

definition mi_verify_padding ::
    "page_code \<Rightarrow> page_id \<Rightarrow> addr \<Rightarrow> mstate \<Rightarrow> guard_state \<Rightarrow> (bool \<times> u64 \<times> u64) option" where
  "mi_verify_padding c p block s g =
     map_option (\<lambda>(ok, delta, bsize).
       if \<not> ok then (False, bsize, bsize)
       else
         case first_wrong (block + bsize - delta) 0 (maxpad delta) (gd_byte g) of
           None \<Rightarrow> (True, bsize - delta, bsize)
         | Some i \<Rightarrow> (False, bsize - delta, bsize - delta + word_of_nat i))
       (mi_page_decode_padding c p block s g)"

definition mi_padding_shrink ::
    "page_code \<Rightarrow> page_id \<Rightarrow> addr \<Rightarrow> u64 \<Rightarrow> mstate \<Rightarrow> guard_state \<Rightarrow> guard_state option" where
  "mi_padding_shrink c p block min_size s g =
     map_option (\<lambda>(ok, delta, bsize).
       if \<not> ok \<or> min_size \<le> bsize - delta then g
       else if bsize < min_size then g
       else g\<lparr>gd_padding := (gd_padding g)(block + bsize :=
               (gd_padding g (block + bsize))\<lparr>pd_delta := ucast (bsize - min_size)\<rparr>)\<rparr>)
       (mi_page_decode_padding c p block s g)"

section \<open>The keys\<close>

text \<open>The first key must not be a multiple of the width, or the rotations shift by 64.\<close>

definition keys_ok :: "page_code \<Rightarrow> bool" where
  "keys_ok c \<longleftrightarrow> unat (fst (pc_keys c)) mod 64 \<noteq> 0"

lemma decode_defined: "keys_ok c \<Longrightarrow> \<exists>q. mi_ptr_decode null x (pc_keys c) = Some q"
  using mi_rotr_eq [OF refl, of "fst (pc_keys c)"] by (auto simp: keys_ok_def mi_ptr_decode_def)

lemma encode_defined: "keys_ok c \<Longrightarrow> \<exists>x. mi_ptr_encode null q (pc_keys c) = Some x"
  using mi_rotl_eq [OF refl, of "fst (pc_keys c)"] by (auto simp: keys_ok_def mi_ptr_encode_def Let_def)

section \<open>Encoded lists\<close>

fun enc_chain :: "page_code \<Rightarrow> guard_state \<Rightarrow> addr \<Rightarrow> addr list \<Rightarrow> bool" where
  "enc_chain c g b [] = (b = 0)"
| "enc_chain c g b (x # xs) = (b = x \<and> x \<noteq> 0 \<and>
     (\<exists>n. mi_block_nextx (pc_null c) x (pc_keys c) g = Some n \<and> enc_chain c g n xs))"

text \<open>The three lists of a page that is not huge, of aligned blocks in the area of the page.\<close>

definition enc_lists ::
    "page_code \<Rightarrow> page_id \<Rightarrow> addr list \<Rightarrow> addr list \<Rightarrow> addr list \<Rightarrow> mstate \<Rightarrow> guard_state \<Rightarrow> bool" where
  "enc_lists c p F L T s g \<longleftrightarrow> keys_ok c \<and> page_geometry p s \<and>
     sg_page_kind (st_segment s (fst p)) \<noteq> MI_PAGE_HUGE \<and>
     enc_chain c g (pg_free (st_page s p)) F \<and> enc_chain c g (pg_local_free (st_page s p)) L \<and>
     enc_chain c g (mi_page_thread_free (st_page s p)) T \<and>
     (\<forall>x \<in> set (F @ L @ T). x AND 7 = 0 \<and> x \<in> page_block p s ` {..<unat (pg_reserved (st_page s p))})"

text \<open>An intact entry is decoded to the next block and not reported.\<close>

lemma page_blocks_same_page:
  assumes G: "page_geometry p s" and K: "sg_page_kind (st_segment s (fst p)) \<noteq> MI_PAGE_HUGE"
    and "x \<in> page_block p s ` {..<unat (pg_reserved (st_page s p))}"
      "y \<in> page_block p s ` {..<unat (pg_reserved (st_page s p))}"
  shows "mi_is_in_same_page x y s"
proof -
  have "mi_segment_page_of (fst p) z s = p \<and> mi_ptr_segment z = fst p"
    if z: "z \<in> page_block p s ` {..<unat (pg_reserved (st_page s p))}" for z
  proof -
    obtain i where i: "i < unat (pg_reserved (st_page s p))" "z = page_block p s i" using z by blast
    have "0 < unat (mi_page_block_size p s)" using G by (simp add: page_geometry_def word_less_nat_alt)
    then have "unat (page_area p s) \<le> unat z" "unat z < unat (page_area p s) + unat (snd (mi_page_start p s))"
      using i unat_page_block(1) [OF G, of i] unat_page_block(2) [OF G, of "Suc i"] by simp_all
    then show ?thesis using page_area_ptr [OF G K] by blast
  qed
  note this [OF assms(3)] this [OF assms(4)]
  then have seg: "mi_ptr_segment x = fst p" "mi_ptr_segment y = fst p"
    and idx: "unat (mi_segment_page_idx_of (fst p) x s) = unat (mi_segment_page_idx_of (fst p) y s)"
    unfolding mi_segment_page_of_def by (metis snd_conv)+
  show ?thesis
    using unsigned_word_eqI [OF idx] by (simp add: mi_is_in_same_page_def seg)
qed

lemma enc_chain_step:
  assumes "page_geometry p s" and "sg_page_kind (st_segment s (fst p)) \<noteq> MI_PAGE_HUGE"
    and "enc_chain c g b (x # xs)"
    and "\<And>y. y \<in> set (x # xs) \<Longrightarrow> y \<in> page_block p s ` {..<unat (pg_reserved (st_page s p))}"
  obtains n where "mi_block_nextx (pc_null c) x (pc_keys c) g = Some n" "enc_chain c g n xs"
    "n = 0 \<or> n \<in> set xs \<and> mi_is_in_same_page x n s"
proof -
  obtain n where n: "mi_block_nextx (pc_null c) x (pc_keys c) g = Some n" "enc_chain c g n xs"
    using assms(3) by auto
  have "n = 0 \<or> n \<in> set xs" using n(2) by (cases xs) auto
  then show thesis using that [OF n] page_blocks_same_page [OF assms(1,2)] assms(4) by auto
qed

lemma mi_list_contains_chain:
  assumes "page_geometry p s" and "sg_page_kind (st_segment s (fst p)) \<noteq> MI_PAGE_HUGE"
    and "enc_chain c g b xs"
    and "\<And>y. y \<in> set xs \<Longrightarrow> y \<in> page_block p s ` {..<unat (pg_reserved (st_page s p))}"
  shows "mi_list_contains c b e s g = Some (e \<in> set xs)"
  using assms(3,4)
proof (induction xs arbitrary: b)
  case Nil
  then show ?case by (subst mi_list_contains.simps) simp
next
  case (Cons x xs)
  obtain n where n: "mi_block_nextx (pc_null c) x (pc_keys c) g = Some n" "enc_chain c g n xs"
    "n = 0 \<or> n \<in> set xs \<and> mi_is_in_same_page x n s"
    by (rule enc_chain_step [OF assms(1,2) Cons.prems])
  have "b = x" "x \<noteq> 0" using Cons.prems(1) by simp_all
  moreover have "mi_list_contains c n e s g = Some (e \<in> set xs)" using Cons.IH [OF n(2)] Cons.prems(2) by simp
  ultimately show ?case
    using n(1,3) by (subst mi_list_contains.simps) (auto simp: mi_block_next_checked_def)
qed

text \<open>A block of a list passes the quick check.\<close>

lemma quick_check_listed:
  assumes "page_geometry p s" and "sg_page_kind (st_segment s (fst p)) \<noteq> MI_PAGE_HUGE"
    and "enc_chain c g h xs" and "b \<in> set xs"
    and "\<And>y. y \<in> set xs \<Longrightarrow> y AND 7 = 0 \<and> y \<in> page_block p s ` {..<unat (pg_reserved (st_page s p))}"
  shows "\<exists>n. mi_block_nextx (pc_null c) b (pc_keys c) g = Some n \<and> n AND 7 = 0 \<and> (n = 0 \<or> mi_is_in_same_page b n s)"
  using assms(3-5)
proof (induction xs arbitrary: h)
  case (Cons x xs)
  obtain n where n: "mi_block_nextx (pc_null c) x (pc_keys c) g = Some n" "enc_chain c g n xs"
    "n = 0 \<or> n \<in> set xs \<and> mi_is_in_same_page x n s"
    by (rule enc_chain_step [OF assms(1,2) Cons.prems(1)]) (use Cons.prems(3) in blast)+
  show ?case
  proof (cases "b = x")
    case True
    then show ?thesis using n Cons.prems(3) by auto
  next
    case False
    then show ?thesis using Cons.IH [OF n(2)] Cons.prems(2,3) by simp
  qed
qed simp

lemma double_free_run:
  assumes E: "enc_lists c p F L T s g"
  shows "mi_check_is_double_free c p b s g = Some (b \<in> set (F @ L @ T))"
proof -
  have G: "page_geometry p s" and K: "sg_page_kind (st_segment s (fst p)) \<noteq> MI_PAGE_HUGE"
    and F: "enc_chain c g (pg_free (st_page s p)) F" and L: "enc_chain c g (pg_local_free (st_page s p)) L"
    and T: "enc_chain c g (mi_page_thread_free (st_page s p)) T" and ok: "keys_ok c"
    and blocks: "\<And>x. x \<in> set (F @ L @ T) \<Longrightarrow> x AND 7 = 0 \<and> x \<in> page_block p s ` {..<unat (pg_reserved (st_page s p))}"
    using E unfolding enc_lists_def by blast+
  note walk = mi_list_contains_chain [OF G K, where e = b and c = c and g = g]
  have "mi_check_is_double_freex c p b s g = Some (b \<in> set (F @ L @ T))"
    using walk [OF F] walk [OF L] walk [OF T] blocks by (auto simp: mi_check_is_double_freex_def)
  moreover obtain n where n: "mi_block_nextx (pc_null c) b (pc_keys c) g = Some n"
    using decode_defined [OF ok] by (auto simp: mi_block_nextx_def)
  moreover have "n AND 7 = 0 \<and> (n = 0 \<or> mi_is_in_same_page b n s)" if "b \<in> set (F @ L @ T)"
  proof -
    note quick = quick_check_listed [OF G K, where c = c and g = g and b = b]
    have "\<exists>m. mi_block_nextx (pc_null c) b (pc_keys c) g = Some m \<and> m AND 7 = 0 \<and> (m = 0 \<or> mi_is_in_same_page b m s)"
      using that quick [OF F] quick [OF L] quick [OF T] blocks by auto
    then show ?thesis using n by auto
  qed
  ultimately show ?thesis by (auto simp: mi_check_is_double_free_def)
qed

section \<open>The padding bytes\<close>

lemma first_wrong_None:
  "first_wrong fill i n m = None \<longleftrightarrow> (\<forall>j. i \<le> j \<longrightarrow> j < i + n \<longrightarrow> m (fill + word_of_nat j) = MI_DEBUG_PADDING)"
proof (induction fill i n m rule: first_wrong.induct)
  case (2 fill i n m)
  show ?case
  proof (cases "m (fill + word_of_nat i) = MI_DEBUG_PADDING")
    case True
    then show ?thesis using 2 by (auto simp: Suc_le_eq dest: le_imp_less_or_eq)
  next
    case False
    then show ?thesis using le_eq_less_or_eq by auto
  qed
qed simp

lemma first_wrong_Some:
  "first_wrong fill i n m = Some k \<longleftrightarrow> i \<le> k \<and> k < i + n \<and> m (fill + word_of_nat k) \<noteq> MI_DEBUG_PADDING \<and>
     (\<forall>j. i \<le> j \<longrightarrow> j < k \<longrightarrow> m (fill + word_of_nat j) = MI_DEBUG_PADDING)"
proof (induction fill i n m rule: first_wrong.induct)
  case (2 fill i n m)
  show ?case
  proof (cases "m (fill + word_of_nat i) = MI_DEBUG_PADDING")
    case True
    then show ?thesis using 2 by (auto simp: Suc_le_eq dest: le_imp_less_or_eq)
  next
    case False
    then show ?thesis using le_eq_less_or_eq by auto
  qed
qed simp

lemma fill_padding_same:
  assumes "n \<le> 2 ^ 64" and "j < n"
  shows "fill_padding fill n m (fill + word_of_nat j) = MI_DEBUG_PADDING"
  using assms
proof (induction n)
  case (Suc n)
  show ?case
  proof (cases "j = n")
    case False
    then show ?thesis using Suc by simp
  qed simp
qed simp

lemma maxpad_le: "maxpad d \<le> 16" "maxpad d \<le> unat d"
  by (auto simp: maxpad_def mi_consts word_less_nat_alt)

text \<open>A block of \<open>n\<close> bytes with intact padding.\<close>

definition padded :: "page_code \<Rightarrow> page_id \<Rightarrow> addr \<Rightarrow> u64 \<Rightarrow> mstate \<Rightarrow> guard_state \<Rightarrow> bool" where
  "padded c p block n s g \<longleftrightarrow>
     (let bsize = mi_page_usable_block_size_padded p s; padding = gd_padding g (block + bsize)
      in n \<le> bsize \<and> ucast (pd_delta padding) = bsize - n \<and>
         map_option ucast (mi_ptr_encode (pc_null c) block (pc_keys c)) = Some (pd_canary padding))"

lemma decode_padded:
  assumes "padded c p block n s g"
  defines "bsize \<equiv> mi_page_usable_block_size_padded p s"
  shows "mi_page_decode_padding c p block s g = Some (True, bsize - n, bsize)"
proof -
  have "n \<le> bsize" "ucast (pd_delta (gd_padding g (block + bsize))) = bsize - n"
    "map_option ucast (mi_ptr_encode (pc_null c) block (pc_keys c)) = Some (pd_canary (gd_padding g (block + bsize)))"
    using assms by (simp_all add: padded_def Let_def)
  then show ?thesis
    by (auto simp: mi_page_decode_padding_def Let_def word_sub_le simp flip: bsize_def)
qed

lemma page_malloc_padding_padded:
  assumes ok: "keys_ok c" and n: "n \<le> mi_page_usable_block_size_padded p s"
    and small: "unat (mi_page_usable_block_size_padded p s) - unat n < 2 ^ 32"
  defines "bsize \<equiv> mi_page_usable_block_size_padded p s"
  obtains g' where "page_malloc_padding c p block (n + MI_PADDING_SIZE) s g = Some g'" "padded c p block n s g'"
    "gd_byte g' = fill_padding (block + n) (maxpad (bsize - n)) (gd_byte g)" "gd_word g' = gd_word g"
proof -
  obtain x where x: "mi_ptr_encode (pc_null c) block (pc_keys c) = Some x" using encode_defined [OF ok] by blast
  have delta: "block + bsize - block - (n + MI_PADDING_SIZE - MI_PADDING_SIZE) = bsize - n"
    "block + bsize - (bsize - n) = block + n" by simp_all
  have "unat (bsize - n) = unat bsize - unat n"
    using n unfolding bsize_def [symmetric] by (simp add: unat_sub word_le_nat_alt)
  then have "ucast (ucast (bsize - n) :: u32) = bsize - n"
    using small unfolding bsize_def [symmetric]
    by (intro unsigned_word_eqI [where 'a = nat]) (simp add: unsigned_ucast_eq unsigned_take_bit_eq take_bit_nat_eq_self)
  then have wide: "ucast (ucast (bsize - n) :: u32) = bsize - n" .
  define g' where "g' = g\<lparr>gd_padding := (gd_padding g)(block + bsize := \<lparr>pd_canary = ucast x, pd_delta = ucast (bsize - n)\<rparr>),
    gd_byte := fill_padding (block + n) (maxpad (bsize - n)) (gd_byte g)\<rparr>"
  show thesis
  proof (rule that [of g'])
    show "page_malloc_padding c p block (n + MI_PADDING_SIZE) s g = Some g'"
      by (simp add: page_malloc_padding_def Let_def delta x g'_def flip: bsize_def)
    show "padded c p block n s g'"
      using n wide x by (simp add: padded_def Let_def g'_def flip: bsize_def)
  qed (simp_all add: g'_def)
qed

lemma verify_padded:
  assumes "padded c p block n s g"
  defines "bsize \<equiv> mi_page_usable_block_size_padded p s"
  shows "mi_verify_padding c p block s g = Some
    (case first_wrong (block + n) 0 (maxpad (bsize - n)) (gd_byte g) of
       None \<Rightarrow> (True, n, bsize) | Some k \<Rightarrow> (False, n, n + word_of_nat k))"
proof -
  have sub: "bsize - (bsize - n) = n" "block + bsize - (bsize - n) = block + n" by (simp_all add: algebra_simps)
  show ?thesis
    unfolding mi_verify_padding_def decode_padded [OF assms(1), folded bsize_def]
    by (simp only: option.map prod.case not_True_eq_False if_False sub)
qed

lemma shrink_padded:
  assumes P: "padded c p block n s g" and m: "m \<le> mi_page_usable_block_size_padded p s"
    and small: "unat (mi_page_usable_block_size_padded p s) - unat n < 2 ^ 32"
  shows "\<exists>g'. mi_padding_shrink c p block m s g = Some g' \<and> padded c p block (max n m) s g'"
proof -
  let ?bsize = "mi_page_usable_block_size_padded p s"
  show ?thesis
  proof (cases "m \<le> n")
    case True
    then show ?thesis using P decode_padded [OF P] by (simp add: mi_padding_shrink_def max_def)
  next
    case False
    have "unat (?bsize - m) = unat ?bsize - unat m" using m by (simp add: unat_sub word_le_nat_alt)
    moreover have "unat ?bsize - unat m < 2 ^ 32" using small False by (simp add: word_le_nat_alt)
    ultimately have "ucast (ucast (?bsize - m) :: u32) = ?bsize - m"
      by (intro unsigned_word_eqI [where 'a = nat]) (simp add: unsigned_ucast_eq unsigned_take_bit_eq take_bit_nat_eq_self)
    then show ?thesis
      using P m False decode_padded [OF P] leD [OF m] by (auto simp: mi_padding_shrink_def padded_def Let_def max_def not_le)
  qed
qed

lemma usable_padded: "padded c p block n s g \<Longrightarrow> mi_page_usable_size_of_padded c p block s g = Some n"
  using decode_padded by (simp add: mi_page_usable_size_of_padded_def)

lemma padded_checks:
  assumes P: "padded c p block n s g" and small: "unat (mi_page_usable_block_size_padded p s) - unat n < 2 ^ 32"
  defines "bsize \<equiv> mi_page_usable_block_size_padded p s"
  shows "mi_page_usable_size_of_padded c p block s g = Some n \<and>
    (mi_verify_padding c p block s g = Some (True, n, bsize) \<longleftrightarrow>
       (\<forall>j < maxpad (bsize - n). gd_byte g (block + n + word_of_nat j) = MI_DEBUG_PADDING)) \<and>
    (\<forall>k < maxpad (bsize - n). gd_byte g (block + n + word_of_nat k) \<noteq> MI_DEBUG_PADDING \<and>
       (\<forall>j < k. gd_byte g (block + n + word_of_nat j) = MI_DEBUG_PADDING) \<longrightarrow>
       mi_verify_padding c p block s g = Some (False, n, n + word_of_nat k)) \<and>
    (\<forall>m \<le> bsize. \<exists>g3. mi_padding_shrink c p block m s g = Some g3 \<and>
       mi_page_usable_size_of_padded c p block s g3 = Some (max n m))"
proof (intro conjI allI impI)
  note V = verify_padded [OF P, folded bsize_def]
  show "mi_page_usable_size_of_padded c p block s g = Some n" by (rule usable_padded [OF P])
  show "mi_verify_padding c p block s g = Some (True, n, bsize) \<longleftrightarrow>
      (\<forall>j < maxpad (bsize - n). gd_byte g (block + n + word_of_nat j) = MI_DEBUG_PADDING)"
    using V first_wrong_None [of "block + n" 0 "maxpad (bsize - n)" "gd_byte g"] by (auto split: option.splits)
  show "mi_verify_padding c p block s g = Some (False, n, n + word_of_nat k)"
    if "k < maxpad (bsize - n)" "gd_byte g (block + n + word_of_nat k) \<noteq> MI_DEBUG_PADDING \<and>
      (\<forall>j < k. gd_byte g (block + n + word_of_nat j) = MI_DEBUG_PADDING)" for k
    using V first_wrong_Some [of "block + n" 0 "maxpad (bsize - n)" "gd_byte g" k] that by simp
  show "\<exists>g3. mi_padding_shrink c p block m s g = Some g3 \<and> mi_page_usable_size_of_padded c p block s g3 = Some (max n m)"
    if "m \<le> bsize" for m
    using shrink_padded [OF P _ small, of m] that usable_padded unfolding bsize_def by blast
qed

section \<open>Properties\<close>

text \<open>
  C11. With encoded free lists in place, \<open>mi_check_is_double_free\<close> ends and is true exactly for the blocks on
  one of the three lists of the page: every double free of the page is reported and no other free is,
  whatever the program wrote into the block.
\<close>

theorem double_free_exact:
  assumes "enc_lists c p F L T s g"
  shows "mi_check_is_double_free c p block s g = Some (block \<in> set (F @ L @ T))"
  using assms by (rule double_free_run)

lemma double_free_exact_witness:
  "\<exists>g. mi_check_is_double_free \<lparr>pc_null = 0x20078, pc_keys = (1, 0x1234)\<rparr> (0x20000, 0) 0x20500 (page_example 1) g = Some True \<and>
     mi_check_is_double_free \<lparr>pc_null = 0x20078, pc_keys = (1, 0x1234)\<rparr> (0x20000, 0) 0x20510 (page_example 1) g = Some False"
proof -
  let ?s = "page_example 1" and ?p = "(0x20000, 0) :: page_id"
  let ?c = "\<lparr>pc_null = 0x20078, pc_keys = (1, 0x1234)\<rparr>"
  have ok: "keys_ok ?c" by (simp add: keys_ok_def)
  obtain x where x: "mi_ptr_encode 0x20078 0 (1, 0x1234) = Some x" using encode_defined [OF ok, of _ 0] by auto
  define g where "g = \<lparr>gd_word = (\<lambda>_. x), gd_padding = (\<lambda>_. \<lparr>pd_canary = 0, pd_delta = 0\<rparr>), gd_byte = (\<lambda>_. 0)\<rparr>"
  have dec: "mi_ptr_decode 0x20078 x (1, 0x1234) = Some 0"
    using mi_ptr_encode_decode [of "0x20078" 0 1 "0x1234"] x by simp
  have W: "page_geometry ?p ?s" "0x20500 \<in> page_block ?p ?s ` {..<3}"
    using page_example_wf(1) [of 1] by (simp_all add: page_wf_def page_example_page)
  have "0x20500 \<in> page_block ?p ?s ` {..<432}" by (rule subsetD [OF image_mono W(2)]) auto
  then have "enc_lists ?c ?p [0x20500] [] [] ?s g"
    using ok W(1) dec
    by (simp add: enc_lists_def page_example_page segment_example_def mi_page_empty_def mi_page_thread_free_def
        mi_block_nextx_def g_def)
  from double_free_exact [OF this] show ?thesis by (intro exI [of _ g]) simp
qed

text \<open>
  C13. The padding of a block of \<open>n\<close> bytes: after \<open>_mi_page_malloc\<close> has set it and until its structure is
  overwritten, the usable size is \<open>n\<close>; the check of the block succeeds exactly if the padding bytes
  that are checked are as they were set, and otherwise gives the offset of the first byte that is not.
  Shrinking the padding to make room for a link leaves a usable size of at least the room asked for.
\<close>

theorem padding_overflow_detected:
  assumes "keys_ok c" and "n \<le> mi_page_usable_block_size_padded p s"
    and "unat (mi_page_usable_block_size_padded p s) - unat n < 2 ^ 32"
  defines "bsize \<equiv> mi_page_usable_block_size_padded p s"
  shows "\<exists>g1. page_malloc_padding c p block (n + MI_PADDING_SIZE) s g = Some g1 \<and>
    mi_verify_padding c p block s g1 = Some (True, n, bsize) \<and>
    (\<forall>g2 :: guard_state. gd_padding g2 (block + bsize) = gd_padding g1 (block + bsize) \<longrightarrow>
       mi_page_usable_size_of_padded c p block s g2 = Some n \<and>
       (mi_verify_padding c p block s g2 = Some (True, n, bsize) \<longleftrightarrow>
          (\<forall>j < maxpad (bsize - n). gd_byte g2 (block + n + word_of_nat j) = MI_DEBUG_PADDING)) \<and>
       (\<forall>k < maxpad (bsize - n). gd_byte g2 (block + n + word_of_nat k) \<noteq> MI_DEBUG_PADDING \<and>
          (\<forall>j < k. gd_byte g2 (block + n + word_of_nat j) = MI_DEBUG_PADDING) \<longrightarrow>
          mi_verify_padding c p block s g2 = Some (False, n, n + word_of_nat k)) \<and>
       (\<forall>m \<le> bsize. \<exists>g3. mi_padding_shrink c p block m s g2 = Some g3 \<and>
          mi_page_usable_size_of_padded c p block s g3 = Some (max n m)))"
proof -
  obtain g1 where G: "page_malloc_padding c p block (n + MI_PADDING_SIZE) s g = Some g1" "padded c p block n s g1"
    "gd_byte g1 = fill_padding (block + n) (maxpad (bsize - n)) (gd_byte g)"
    using page_malloc_padding_padded [OF assms(1-3)] unfolding bsize_def by metis
  have "first_wrong (block + n) 0 (maxpad (bsize - n)) (gd_byte g1) = None"
    using maxpad_le(1) [of "bsize - n"] by (simp add: first_wrong_None G(3) fill_padding_same)
  then have "mi_verify_padding c p block s g1 = Some (True, n, bsize)"
    using verify_padded [OF G(2)] by (simp add: bsize_def)
  moreover have "padded c p block n s g2" if "gd_padding g2 (block + bsize) = gd_padding g1 (block + bsize)"
    for g2 :: guard_state
    using G(2) that by (simp add: padded_def bsize_def)
  ultimately show ?thesis using G(1) padded_checks [OF _ assms(3)] unfolding bsize_def by blast
qed

definition guard_example :: guard_state where
  "guard_example = \<lparr>gd_word = (\<lambda>_. 0), gd_padding = (\<lambda>_. \<lparr>pd_canary = 0, pd_delta = 0\<rparr>), gd_byte = (\<lambda>_. 0)\<rparr>"

lemma padding_overflow_detected_witness:
  "\<exists>g1. page_malloc_padding \<lparr>pc_null = 0x20078, pc_keys = (1, 0x1234)\<rparr> (0x20000, 0) 0x20510 13 (page_example 1) guard_example = Some g1 \<and>
     mi_verify_padding \<lparr>pc_null = 0x20078, pc_keys = (1, 0x1234)\<rparr> (0x20000, 0) 0x20510 (page_example 1) g1 = Some (True, 5, 8)"
proof -
  have u: "mi_page_usable_block_size_padded (0x20000, 0) (page_example 1) = 8"
    by (simp add: mi_page_usable_block_size_padded_def mi_page_block_size_def page_example_page mi_consts)
  show ?thesis
    using padding_overflow_detected [of "\<lparr>pc_null = 0x20078, pc_keys = (1, 0x1234)\<rparr>" 5 "(0x20000, 0)" "page_example 1" "0x20510" guard_example]
    by (simp add: keys_ok_def u MI_PADDING_SIZE_def) blast
qed

end
