(* ===== verification/Validity.thy ===== *)
theory Validity
  imports HeapSteps HeapVisit
begin

text \<open>
  The validity checks of debug builds (\<open>MI_DEBUG >= 3\<close>; \<open>page.c\<close>, \<open>page-queue.c\<close>, \<open>heap.c\<close>): what the authors
  of the code take for a valid page and a valid heap. The invariants of this development imply
  them. \<open>None\<close> is a failed assertion, which ends the program, or a list without an end.
\<close>

section \<open>The checks\<close>

definition mi_assert :: "bool \<Rightarrow> unit option" where
  "mi_assert b = (if b then Some () else None)"

partial_function (option) mi_page_list_count :: "page_id \<Rightarrow> u64 \<Rightarrow> addr \<Rightarrow> mstate \<Rightarrow> u64 option" where
  "mi_page_list_count p count head s =
     (if head = 0 then Some count
      else Option.bind (mi_assert (mi_ptr_page head s = p))
             (\<lambda>_. mi_page_list_count p (count + 1) (mi_block_next head s) s))"

partial_function (option) page_list_in :: "addr \<Rightarrow> addr \<Rightarrow> addr \<Rightarrow> mstate \<Rightarrow> bool option" where
  "page_list_in start fin p s =
     (if p = 0 then Some True
      else if p < start \<or> fin \<le> p then Some False
      else page_list_in start fin (mi_block_next p s) s)"

definition mi_page_list_is_valid :: "page_id \<Rightarrow> addr \<Rightarrow> mstate \<Rightarrow> bool option" where
  "mi_page_list_is_valid page p s =
     (let (page_area, psize) = mi_page_start page s in page_list_in page_area (page_area + psize) p s)"

definition mi_page_is_valid_init :: "page_id \<Rightarrow> mstate \<Rightarrow> bool option" where
  "mi_page_is_valid_init p s =
     (let pg = st_page s p in do {
        mi_assert (0 < pg_xblock_size pg);
        mi_assert (unat (pg_used pg) \<le> unat (pg_capacity pg));
        mi_assert (pg_capacity pg \<le> pg_reserved pg);
        let bsize = mi_page_block_size p s;
        let start = fst (mi_page_start p s);
        mi_assert (start = fst (mi_segment_page_start p bsize s));
        v \<leftarrow> mi_page_list_is_valid p (pg_free pg) s;
        mi_assert v;
        v \<leftarrow> mi_page_list_is_valid p (pg_local_free pg) s;
        mi_assert v;
        v \<leftarrow> mi_page_list_is_valid p (mi_page_thread_free pg) s;
        mi_assert v;
        free_count \<leftarrow> mi_page_list_count p 0 (pg_free pg) s;
        local_count \<leftarrow> mi_page_list_count p 0 (pg_local_free pg) s;
        mi_assert (ucast (pg_used pg) + (free_count + local_count) = ucast (pg_capacity pg));
        Some True
      })"

partial_function (option) queue_contains_from :: "page_id option \<Rightarrow> page_id \<Rightarrow> mstate \<Rightarrow> bool option" where
  "queue_contains_from list page s =
     (case list of
        None \<Rightarrow> Some False
      | Some l \<Rightarrow>
          (let nxt = pg_next (st_page s l); prv = pg_prev (st_page s l) in
           Option.bind (mi_assert (case nxt of None \<Rightarrow> True | Some n \<Rightarrow> pg_prev (st_page s n) = Some l)) (\<lambda>_.
           Option.bind (mi_assert (case prv of None \<Rightarrow> True | Some n \<Rightarrow> pg_next (st_page s n) = Some l)) (\<lambda>_.
             if l = page then Some True else queue_contains_from nxt page s))))"

definition mi_page_queue_contains :: "queue_id \<Rightarrow> page_id \<Rightarrow> mstate \<Rightarrow> bool option" where
  "mi_page_queue_contains q page s = queue_contains_from (pq_first (queue_of q s)) page s"

definition mi_heap_contains_queue :: "addr \<Rightarrow> queue_id \<Rightarrow> bool" where
  "mi_heap_contains_queue heap q \<longleftrightarrow> fst q = heap \<and> snd q \<le> unat MI_BIN_FULL"

definition mi_page_is_valid :: "page_id \<Rightarrow> mstate \<Rightarrow> bool option" where
  "mi_page_is_valid p s =
     do {
       v \<leftarrow> mi_page_is_valid_init p s;
       mi_assert v;
       if mi_page_heap p s \<noteq> 0 then do {
         let sg = st_segment s (fst p);
         mi_assert (\<not> st_process_init s \<or> sg_thread_id sg = hp_thread_id (st_heap s (mi_page_heap p s)) \<or>
           sg_thread_id sg = 0);
         if sg_page_kind sg \<noteq> MI_PAGE_HUGE then do {
           let pq = mi_page_queue_of p s;
           c \<leftarrow> mi_page_queue_contains pq p s;
           mi_assert c;
           mi_assert (pq_block_size (queue_of pq s) = mi_page_block_size p s \<or>
             MI_LARGE_OBJ_SIZE_MAX < mi_page_block_size p s \<or> pg_in_full (st_page s p));
           mi_assert (mi_heap_contains_queue (mi_page_heap p s) pq);
           Some True
         } else Some True
       } else Some True
     }"

definition mi_heap_page_is_valid :: "addr \<Rightarrow> unit page_visitor" where
  "mi_heap_page_is_valid heap pq p arg s =
     do {
       mi_assert (mi_page_heap p s = heap);
       mi_assert (sg_thread_id (st_segment s (fst p)) = hp_thread_id (st_heap s heap));
       v \<leftarrow> mi_page_is_valid p s;
       mi_assert v;
       Some (True, arg, s)
     }"

definition mi_heap_is_valid :: "addr \<Rightarrow> mstate \<Rightarrow> bool option" where
  "mi_heap_is_valid heap s =
     do {
       mi_assert (heap \<noteq> 0);
       _ \<leftarrow> mi_heap_visit_pages heap (mi_heap_page_is_valid heap) () s;
       Some True
     }"

section \<open>A valid page\<close>

lemma mi_assert_simp [simp]: "mi_assert True = Some ()"
  by (simp add: mi_assert_def)

lemma page_list_in_chain:
  assumes "chain (st_block s) b xs" and "\<And>x. x \<in> set xs \<Longrightarrow> start \<le> x \<and> x < fin"
  shows "page_list_in start fin b s = Some True"
  using assms
proof (induction xs arbitrary: b)
  case Nil
  then show ?case by (subst page_list_in.simps) simp
next
  case (Cons x xs)
  moreover have "start \<le> x \<and> x < fin" using Cons.prems(2) by simp
  ultimately show ?case by (subst page_list_in.simps) (simp add: mi_block_next_def not_less not_le)
qed

lemma list_count_chain:
  assumes "chain (st_block s) b xs" and "\<And>x. x \<in> set xs \<Longrightarrow> mi_ptr_page x s = p"
  shows "mi_page_list_count p n b s = Some (n + word_of_nat (length xs))"
  using assms
proof (induction xs arbitrary: b n)
  case Nil
  then show ?case by (subst mi_page_list_count.simps) simp
next
  case (Cons x xs)
  then show ?case by (subst mi_page_list_count.simps) (simp add: mi_block_next_def add.assoc)
qed

lemma page_room_in:
  assumes G: "page_geometry p s" and K: "sg_page_kind (st_segment s (fst p)) \<noteq> MI_PAGE_HUGE" and x: "x \<in> page_room p s"
  shows "page_area p s \<le> x" and "x < page_area p s + snd (mi_page_start p s)" and "mi_ptr_page x s = p"
proof -
  have bs: "0 < unat (mi_page_block_size p s)" using G by (simp add: page_geometry_def word_less_nat_alt)
  have lo: "unat (page_area p s) \<le> unat x" and hi: "unat x < unat (page_area p s) + unat (snd (mi_page_start p s))"
    using page_room_bounds [OF G x] bs by linarith+
  show "page_area p s \<le> x" using lo by (simp add: word_le_nat_alt)
  have "unat (page_area p s + snd (mi_page_start p s)) = unat (page_area p s) + unat (snd (mi_page_start p s))"
    using page_area_bounds(2) [OF G] by (intro unat_add_bounded) simp
  then show "x < page_area p s + snd (mi_page_start p s)" using hi by (simp add: word_less_nat_alt)
  show "mi_ptr_page x s = p" using page_area_ptr(1,2) [OF G K lo hi] by (simp add: mi_ptr_page_def)
qed

lemma page_start_block_size:
  assumes "page_geometry p s"
  shows "fst (mi_segment_page_start p (mi_page_block_size p s) s) = fst (mi_page_start p s)"
proof (cases "pg_xblock_size (st_page s p) < MI_HUGE_BLOCK_SIZE")
  case True
  then show ?thesis by (simp add: mi_page_block_size_eq mi_page_start_def split: prod.split)
next
  case False
  let ?kind = "sg_page_kind (st_segment s (fst p))"
  have fits: "block_size_fits (ucast (pg_xblock_size (st_page s p))) (st_segment s (fst p))"
    using assms by (simp add: page_geometry_def)
  have "\<not> page_kind_le_medium ?kind"
    using False fits by (cases ?kind) (auto simp: block_size_fits_def page_kind_le_medium_iff word_le_nat_alt word_less_nat_alt mi_consts)
  then show ?thesis by (simp add: mi_segment_page_start_def mi_page_start_def split: prod.split)
qed

lemma page_is_valid_init_run:
  assumes W: "page_wf p F L T s" and K: "sg_page_kind (st_segment s (fst p)) \<noteq> MI_PAGE_HUGE"
    and xb: "0 < pg_xblock_size (st_page s p)"
  shows "mi_page_is_valid_init p s = Some True"
proof -
  let ?pg = "st_page s p"
  have G: "page_geometry p s" and cap: "pg_capacity ?pg \<le> pg_reserved ?pg"
    and acc: "unat (pg_used ?pg) + length F + length L = unat (pg_capacity ?pg)"
    using W by (simp_all add: page_wf_def)
  have F: "chain (st_block s) (pg_free ?pg) F" and L: "chain (st_block s) (pg_local_free ?pg) L"
    and T: "chain (st_block s) (mi_page_thread_free ?pg) T"
    using W by (simp_all add: page_wf_def page_lists_def)
  have room: "x \<in> set (F @ L @ T) \<Longrightarrow> x \<in> page_room p s" for x using page_wf_room [OF W] by blast
  note R = page_room_in [OF G K room]
  have valid: "mi_page_list_is_valid p b s = Some True" if "chain (st_block s) b xs" "set xs \<subseteq> set (F @ L @ T)" for b xs
    using page_list_in_chain [OF that(1), of "page_area p s" "page_area p s + snd (mi_page_start p s)"] R(1,2) that(2)
    by (auto simp: mi_page_list_is_valid_def page_area_def case_prod_beta)
  have count: "mi_page_list_count p 0 b s = Some (word_of_nat (length xs))"
    if "chain (st_block s) b xs" "set xs \<subseteq> set (F @ L @ T)" for b xs
    using list_count_chain [OF that(1), of p 0] R(3) that(2) by auto
  have sub: "set F \<subseteq> set (F @ L @ T)" "set L \<subseteq> set (F @ L @ T)" "set T \<subseteq> set (F @ L @ T)" by auto
  have "word_of_nat (unat (pg_used ?pg)) + (word_of_nat (length F) + word_of_nat (length L)) =
      (word_of_nat (unat (pg_capacity ?pg)) :: u64)"
    by (simp only: acc [symmetric] of_nat_add add.assoc)
  then show ?thesis
    using xb cap acc valid [OF F sub(1)] valid [OF L sub(2)] valid [OF T sub(3)] count [OF F sub(1)]
      count [OF L sub(2)] page_start_block_size [OF G]
    by (simp add: mi_page_is_valid_init_def Let_def mi_assert_def)
qed

section \<open>A valid heap\<close>

lemma queue_contains_links:
  assumes "links (\<lambda>m. pg_next (st_page s m)) (\<lambda>m. pg_prev (st_page s m)) a xs None" and "p \<in> set xs"
    and "case a of None \<Rightarrow> True | Some n \<Rightarrow> pg_next (st_page s n) = first_or xs None"
  shows "queue_contains_from (first_or xs None) p s = Some True"
  using assms
proof (induction xs arbitrary: a)
  case (Cons x xs)
  have lk: "pg_prev (st_page s x) = a" "pg_next (st_page s x) = first_or xs None"
    "links (\<lambda>m. pg_next (st_page s m)) (\<lambda>m. pg_prev (st_page s m)) (Some x) xs None"
    using Cons.prems(1) by simp_all
  have next_ok: "case pg_next (st_page s x) of None \<Rightarrow> True | Some n \<Rightarrow> pg_prev (st_page s n) = Some x"
    using lk(2,3) by (cases xs) auto
  have prev_ok: "case pg_prev (st_page s x) of None \<Rightarrow> True | Some n \<Rightarrow> pg_next (st_page s n) = Some x"
    using Cons.prems(3) lk(1) by (cases a) auto
  have rest: "queue_contains_from (first_or xs None) p s = Some True" if "p \<noteq> x"
    using Cons.IH [OF lk(3)] Cons.prems(2) lk(2) that by simp
  show ?case
    by (subst queue_contains_from.simps) (use next_ok prev_ok rest lk(2) in \<open>simp add: Let_def\<close>)
qed simp

text \<open>The pages of a heap: of the segments of its thread and of the size of their queue.\<close>

definition pages_owned :: "addr \<Rightarrow> (nat \<Rightarrow> page_id list) \<Rightarrow> mstate \<Rightarrow> bool" where
  "pages_owned h Q s \<longleftrightarrow> (\<forall>i \<le> 74. \<forall>p \<in> set (Q i).
     sg_thread_id (st_segment s (fst p)) = hp_thread_id (st_heap s h) \<and> 0 < pg_xblock_size (st_page s p) \<and>
     (pq_block_size (queue_of (h, i) s) = mi_page_block_size p s \<or>
      MI_LARGE_OBJ_SIZE_MAX < mi_page_block_size p s \<or> pg_in_full (st_page s p)))"

text \<open>
  For the heaps in use of \<open>HeapSteps\<close> this is no condition of its own: every allocation and free keeps it.
\<close>

lemma alloc_inv_pages_owned:
  assumes I: "alloc_inv h P Q X s" and t: "hp_thread_id (st_heap s h) = st_thread_id s"
  shows "pages_owned h Q s" and "\<forall>i \<le> 74. set (Q i) \<subseteq> P"
proof -
  note R = alloc_inv_D(1) [OF I]
  show sub: "\<forall>i \<le> 74. set (Q i) \<subseteq> P" using alloc_inv_D(4) [OF I] by (auto simp: in_queues_def)
  have "sg_thread_id (st_segment s (fst p)) = hp_thread_id (st_heap s h) \<and> 0 < pg_xblock_size (st_page s p) \<and>
      (pq_block_size (queue_of (h, i) s) = mi_page_block_size p s \<or>
       MI_LARGE_OBJ_SIZE_MAX < mi_page_block_size p s \<or> pg_in_full (st_page s p))"
    if i: "i \<le> 74" and p: "p \<in> set (Q i)" for i p
  proof -
    have P: "p \<in> P" using sub i p by blast
    have C: "class_page p s" by (rule alloc_inv_D(5) [OF I P])
    note bs = alloc_inv_size [OF I P]
    have "page_geometry p s" using alive_page_facts(1) [OF I P] by (simp add: page_wf_def)
    then have "mi_page_block_size p s \<noteq> 0" by (auto simp: page_geometry_def)
    then have "0 < pg_xblock_size (st_page s p)" using bs by (cases "pg_xblock_size (st_page s p) = 0") (simp_all add: word_gt_0)
    moreover have "page_bin (st_page s p) = i" using R i p by (auto simp: heap_repr_def queue_pages_ok_def)
    then have "\<not> pg_in_full (st_page s p) \<Longrightarrow> i = unat (mi_bin (mi_page_block_size p s))" by (simp add: page_bin_def bs)
    then have "\<not> pg_in_full (st_page s p) \<Longrightarrow> pq_block_size (queue_of (h, i) s) = mi_page_block_size p s"
      using R i C by (simp add: heap_repr_def queue_sizes_ok_def class_page_def)
    ultimately show ?thesis using C t by (auto simp: class_page_def)
  qed
  then show "pages_owned h Q s" unfolding pages_owned_def by blast
qed

lemma page_is_valid_run:
  assumes R: "heap_repr h Q s" and O: "pages_owned h Q s" and i: "i \<le> 74" and p: "p \<in> set (Q i)"
    and W: "page_wf p F L T s" and K: "sg_page_kind (st_segment s (fst p)) \<noteq> MI_PAGE_HUGE"
  shows "mi_page_is_valid p s = Some True" and "mi_page_heap p s = h"
proof -
  have own: "sg_thread_id (st_segment s (fst p)) = hp_thread_id (st_heap s h)" "0 < pg_xblock_size (st_page s p)"
    "pq_block_size (queue_of (h, i) s) = mi_page_block_size p s \<or>
      MI_LARGE_OBJ_SIZE_MAX < mi_page_block_size p s \<or> pg_in_full (st_page s p)"
    using O i p by (auto simp: pages_owned_def)
  have hp: "mi_page_heap p s = h" and bin: "page_bin (st_page s p) = i"
    and holds: "queue_holds s (h, i) (Q i)"
    using R i p by (auto simp: heap_repr_def queue_pages_ok_def queue_lists_def)
  show "mi_page_heap p s = h" by (rule hp)
  have q: "mi_page_queue_of p s = (h, i)" by (simp add: mi_page_queue_of_def hp bin)
  have "queue_contains_from (first_or (Q i) None) p s = Some True"
    using holds p by (intro queue_contains_links [where a = None]) (simp_all add: page_list.holds_def dlist_def)
  moreover have "pq_first (queue_of (h, i) s) = first_or (Q i) None"
    using holds by (simp add: page_list.holds_first)
  ultimately have "mi_page_queue_contains (h, i) p s = Some True" by (simp add: mi_page_queue_contains_def)
  moreover have "mi_heap_contains_queue h (h, i)" using i by (simp add: mi_heap_contains_queue_def mi_consts)
  ultimately show "mi_page_is_valid p s = Some True"
    using page_is_valid_init_run [OF W K own(2)] own(1,3)
    by (simp add: mi_page_is_valid_def hp q mi_assert_def)
qed

lemma visit_queue_all:
  assumes "links (\<lambda>m. pg_next (st_page s m)) (\<lambda>m. pg_prev (st_page s m)) a ps None"
    and "\<And>p. p \<in> set ps \<Longrightarrow> fn q p v s = Some (True, v, s)"
  shows "visit_queue fn q (first_or ps None) v s = Some (True, v, s)"
  using assms
proof (induction ps arbitrary: a)
  case Nil
  then show ?case by (subst visit_queue.simps) simp
next
  case (Cons p ps)
  then have "pg_next (st_page s p) = first_or ps None" "visit_queue fn q (first_or ps None) v s = Some (True, v, s)"
    "fn q p v s = Some (True, v, s)" by auto
  then show ?case by (subst visit_queue.simps) simp
qed

lemma visit_pages_all:
  assumes R: "heap_repr h Q s" and ok: "\<And>i p. i \<le> 74 \<Longrightarrow> p \<in> set (Q i) \<Longrightarrow> fn (h, i) p v s = Some (True, v, s)"
  shows "\<exists>b. mi_heap_visit_pages h fn v s = Some (b, v, s)"
proof -
  have one: "visit_queue fn (h, i) (pq_first (queue_of (h, i) s)) v s = Some (True, v, s)" if i: "i \<le> 74" for i
  proof -
    have holds: "queue_holds s (h, i) (Q i)" using R i by (simp add: heap_repr_def queue_lists_def)
    then have "visit_queue fn (h, i) (first_or (Q i) None) v s = Some (True, v, s)"
      using ok [OF i] by (intro visit_queue_all [where a = None]) (simp_all add: page_list.holds_def dlist_def)
    then show ?thesis using holds by (simp add: page_list.holds_first)
  qed
  have "visit_queues fn h is v s = Some (True, v, s)" if "\<forall>i \<in> set is. i \<le> 74" for "is"
    using that by (induction "is") (simp_all add: one)
  then have "visit_queues fn h [0..<Suc (unat MI_BIN_FULL)] v s = Some (True, v, s)"
    by (simp add: mi_consts del: upt_Suc)
  then show ?thesis by (auto simp: mi_heap_visit_pages_def)
qed

section \<open>Properties\<close>

text \<open>
  C14. A heap whose queues, pages and blocks satisfy the invariants of this development passes the
  checks of the debug build: \<open>mi_heap_is_valid\<close>, which walks all queues and the three free lists of
  every page, ends with no assertion failing. The same holds for \<open>_mi_page_is_valid\<close> of each page.
  \<open>pages_owned\<close> states three of the asserted conditions; for heaps in use it follows from their
  invariant (\<open>alloc_inv_pages_owned\<close>).
\<close>

theorem mi_heap_is_valid_ok:
  assumes "heap_repr h Q s" and "pages_wf P X s" and "\<forall>i \<le> 74. set (Q i) \<subseteq> P" and "pages_owned h Q s" and "h \<noteq> 0"
  shows "mi_heap_is_valid h s = Some True \<and> (\<forall>i \<le> 74. \<forall>p \<in> set (Q i). mi_page_is_valid p s = Some True)"
proof -
  have V: "mi_page_is_valid p s = Some True \<and> mi_page_heap p s = h" if i: "i \<le> 74" and p: "p \<in> set (Q i)" for i p
  proof -
    have "p \<in> P" using assms(3) i p by blast
    then have "page_wf p (fst (X p)) (fst (snd (X p))) (snd (snd (X p))) s" "sg_page_kind (st_segment s (fst p)) \<noteq> MI_PAGE_HUGE"
      using assms(2) by (simp_all add: pages_wf_def wf_blocks_def)
    then show ?thesis using page_is_valid_run [OF assms(1,4) i p] by blast
  qed
  have "mi_heap_page_is_valid h (h, i) p () s = Some (True, (), s)" if "i \<le> 74" "p \<in> set (Q i)" for i p
    using V [OF that] assms(4) that by (auto simp: mi_heap_page_is_valid_def pages_owned_def mi_assert_def)
  then obtain b where "mi_heap_visit_pages h (mi_heap_page_is_valid h) () s = Some (b, (), s)"
    using visit_pages_all [OF assms(1), of "mi_heap_page_is_valid h" "()"] by blast
  then show ?thesis using V assms(5) by (simp add: mi_heap_is_valid_def mi_assert_def)
qed

lemma mi_heap_is_valid_ok_witness: "mi_heap_is_valid heap_main_ref (malloc_example 0) = Some True"
proof -
  let ?s = "malloc_example 0" and ?p = "(0x20000, 0) :: page_id" and ?Q = "(\<lambda>_. [])(2 := [(0x20000, 0)]) :: nat \<Rightarrow> page_id list"
  note E = malloc_example_repr [of 0] and C = page_core_fields [OF malloc_example_repr(4) [of 0]]
  have W: "pages_wf {?p} (\<lambda>_. ([0x20500], [], [])) ?s"
    using E(2,5) by (simp add: pages_wf_def wf_blocks_def segment_example_def)
  have "heap_core (st_heap ?s heap_main_ref) = heap_core (st_heap (page_example 0) heap_main_ref)"
    by (simp add: malloc_example_def queue_frame)
  then have "hp_thread_id (st_heap ?s heap_main_ref) = hp_thread_id (st_heap (page_example 0) heap_main_ref)"
    by (cases "st_heap ?s heap_main_ref"; cases "st_heap (page_example 0) heap_main_ref"; simp add: heap_core_def)
  then have tid: "hp_thread_id (st_heap ?s heap_main_ref) = 0"
    by (simp add: page_example_def geometry_example_def store_simps heap_main_init_def mi_heap_empty_def)
  have "pq_block_size (queue_of (heap_main_ref, 2) ?s) = 16"
    using E(1) by (simp add: heap_repr_def queue_sizes_ok_def mi_bin_size_def mi_bin_wsizes_def mi_consts)
  moreover have "mi_page_block_size ?p ?s = 16" "pg_xblock_size (st_page ?s ?p) = 16"
    using C(2) by (simp_all add: mi_page_block_size_def page_example_page mi_consts)
  ultimately have O: "pages_owned heap_main_ref ?Q ?s"
    using E(5) tid by (auto simp: pages_owned_def segment_example_def)
  have "\<forall>i \<le> 74. set (?Q i) \<subseteq> {?p}" by auto
  from mi_heap_is_valid_ok [OF E(1) W this O heap_main_ref_nonzero] show ?thesis by blast
qed

end
