(* ===== verification/ThreadFreeConc.thy ===== *)
theory ThreadFreeConc
  imports Blocks
begin

text \<open>
  Freeing blocks of one page from many threads at once. Any number of threads run the loops of
  \<open>_mi_free_block_mt\<close> (\<open>alloc.c\<close>) while the owner of the page collects its thread-free list, changes
  its delayed-free flag and processes the delayed list of its heap (\<open>page.c\<close>), each one atomic
  access at a time; between two accesses any other thread may run. The words that the threads
  share are the packed \<open>xthread_free\<close> of the page, the \<open>thread_delayed_free\<close> of the heap and the first
  word of every block. A weak compare-and-swap may fail for no reason. The owner's own lists are
  a set here; \<open>Blocks\<close> and \<open>MallocFree\<close> have them as they are. The page has a heap, as the assertion in
  \<open>_mi_free_block_mt\<close> asks, and the delayed list holds blocks of this page only.
\<close>

section \<open>Threads\<close>

text \<open>
  A freeing thread: about to read \<open>xthread_free\<close>; between the read and its swap; about to read
  the delayed list; between that read and its swap; and the same for the reset of the flag.
\<close>

datatype mt_pc =
    MtIdle
  | MtRead addr
  | MtSwap addr u64
  | MtHeapRead addr
  | MtHeapSwap addr addr
  | MtResetRead
  | MtResetSwap u64

text \<open>
  The owner: outside; in \<open>_mi_page_use_delayed_free\<close>; in \<open>_mi_page_free_collect\<close>, before the read,
  before the swap and walking the blocks it took; before the swap of the delayed list; and at the next
  block of the delayed list. Inside \<open>_mi_free_delayed_block\<close> the first two also remember the
  block and the rest of the delayed list.
\<close>

type_synonym delayed_rest = "(addr \<times> addr) option"

datatype owner_pc =
    OwIdle
  | OwFlagRead mi_delayed bool delayed_rest
  | OwFlagSwap mi_delayed bool u64 delayed_rest
  | OwTake delayed_rest
  | OwTakeSwap u64 delayed_rest
  | OwWalk addr delayed_rest
  | OwHeapSwap addr
  | OwDelayed addr

record tf_sys =
  tfs_xfree :: u64
  tfs_delayed :: addr
  tfs_next :: "addr \<Rightarrow> addr"
  tfs_alive :: "addr set"
  tfs_free :: "addr set"
  tfs_pc :: "nat \<Rightarrow> mt_pc"
  tfs_owner :: owner_pc

section \<open>The steps of a freeing thread\<close>

inductive mt_step :: "tf_sys \<Rightarrow> tf_sys \<Rightarrow> bool" where
  mt_enter:
  "\<lbrakk> tfs_pc s t = MtIdle; b \<in> tfs_alive s \<rbrakk>
   \<Longrightarrow> mt_step s (s\<lparr>tfs_alive := tfs_alive s - {b}, tfs_pc := (tfs_pc s)(t := MtRead b)\<rparr>)"
| mt_read_delayed:
  "\<lbrakk> tfs_pc s t = MtRead b; mi_tf_delayed (tfs_xfree s) = MI_USE_DELAYED_FREE \<rbrakk>
   \<Longrightarrow> mt_step s (s\<lparr>tfs_pc := (tfs_pc s)(t := MtSwap b (tfs_xfree s))\<rparr>)"
| mt_read_list:
  "\<lbrakk> tfs_pc s t = MtRead b; mi_tf_delayed (tfs_xfree s) \<noteq> MI_USE_DELAYED_FREE \<rbrakk>
   \<Longrightarrow> mt_step s (s\<lparr>tfs_next := (tfs_next s)(b := mi_tf_block (tfs_xfree s)),
                  tfs_pc := (tfs_pc s)(t := MtSwap b (tfs_xfree s))\<rparr>)"
| mt_swap_delayed:
  "\<lbrakk> tfs_pc s t = MtSwap b tfree; tfs_xfree s = tfree; mi_tf_delayed tfree = MI_USE_DELAYED_FREE \<rbrakk>
   \<Longrightarrow> mt_step s (s\<lparr>tfs_xfree := mi_tf_set_delayed tfree MI_DELAYED_FREEING,
                  tfs_pc := (tfs_pc s)(t := MtHeapRead b)\<rparr>)"
| mt_swap_list:
  "\<lbrakk> tfs_pc s t = MtSwap b tfree; tfs_xfree s = tfree; mi_tf_delayed tfree \<noteq> MI_USE_DELAYED_FREE \<rbrakk>
   \<Longrightarrow> mt_step s (s\<lparr>tfs_xfree := mi_tf_set_block tfree b, tfs_pc := (tfs_pc s)(t := MtIdle)\<rparr>)"
| mt_swap_fail:
  "tfs_pc s t = MtSwap b tfree \<Longrightarrow> mt_step s (s\<lparr>tfs_pc := (tfs_pc s)(t := MtRead b)\<rparr>)"
| mt_heap_read:
  "tfs_pc s t = MtHeapRead b
   \<Longrightarrow> mt_step s (s\<lparr>tfs_next := (tfs_next s)(b := tfs_delayed s),
                  tfs_pc := (tfs_pc s)(t := MtHeapSwap b (tfs_delayed s))\<rparr>)"
| mt_heap_swap:
  "\<lbrakk> tfs_pc s t = MtHeapSwap b dfree; tfs_delayed s = dfree \<rbrakk>
   \<Longrightarrow> mt_step s (s\<lparr>tfs_delayed := b, tfs_pc := (tfs_pc s)(t := MtResetRead)\<rparr>)"
| mt_heap_fail:
  "tfs_pc s t = MtHeapSwap b dfree \<Longrightarrow> mt_step s (s\<lparr>tfs_pc := (tfs_pc s)(t := MtHeapRead b)\<rparr>)"
| mt_reset_read:
  "tfs_pc s t = MtResetRead \<Longrightarrow> mt_step s (s\<lparr>tfs_pc := (tfs_pc s)(t := MtResetSwap (tfs_xfree s))\<rparr>)"
| mt_reset_swap:
  "\<lbrakk> tfs_pc s t = MtResetSwap tfree; tfs_xfree s = tfree \<rbrakk>
   \<Longrightarrow> mt_step s (s\<lparr>tfs_xfree := mi_tf_set_delayed tfree MI_NO_DELAYED_FREE,
                  tfs_pc := (tfs_pc s)(t := MtIdle)\<rparr>)"
| mt_reset_fail:
  "tfs_pc s t = MtResetSwap tfree \<Longrightarrow> mt_step s (s\<lparr>tfs_pc := (tfs_pc s)(t := MtResetRead)\<rparr>)"

section \<open>The steps of the owner\<close>

text \<open>\<open>_mi_page_use_delayed_free\<close>: done, in \<open>_mi_free_delayed_block\<close> the collection follows.\<close>

definition flag_done :: "delayed_rest \<Rightarrow> owner_pc" where
  "flag_done k = (if k = None then OwIdle else OwTake k)"

inductive flag_step :: "tf_sys \<Rightarrow> tf_sys \<Rightarrow> bool" where
  flag_enter:
  "\<lbrakk> tfs_owner s = OwIdle; delay \<noteq> MI_DELAYED_FREEING \<rbrakk>
   \<Longrightarrow> flag_step s (s\<lparr>tfs_owner := OwFlagRead delay override None\<rparr>)"
| flag_keep:
  "\<lbrakk> tfs_owner s = OwFlagRead delay override k; mi_tf_delayed (tfs_xfree s) \<noteq> MI_DELAYED_FREEING;
     delay = mi_tf_delayed (tfs_xfree s) \<or> (\<not> override \<and> mi_tf_delayed (tfs_xfree s) = MI_NEVER_DELAYED_FREE) \<rbrakk>
   \<Longrightarrow> flag_step s (s\<lparr>tfs_owner := flag_done k\<rparr>)"
| flag_read:
  "\<lbrakk> tfs_owner s = OwFlagRead delay override k; mi_tf_delayed (tfs_xfree s) \<noteq> MI_DELAYED_FREEING;
     delay \<noteq> mi_tf_delayed (tfs_xfree s);
     override \<or> mi_tf_delayed (tfs_xfree s) \<noteq> MI_NEVER_DELAYED_FREE \<rbrakk>
   \<Longrightarrow> flag_step s (s\<lparr>tfs_owner := OwFlagSwap delay override (tfs_xfree s) k\<rparr>)"
| flag_swap:
  "\<lbrakk> tfs_owner s = OwFlagSwap delay override tfree k; tfs_xfree s = tfree \<rbrakk>
   \<Longrightarrow> flag_step s (s\<lparr>tfs_xfree := mi_tf_set_delayed tfree delay, tfs_owner := flag_done k\<rparr>)"
| flag_fail:
  "tfs_owner s = OwFlagSwap delay override tfree k
   \<Longrightarrow> flag_step s (s\<lparr>tfs_owner := OwFlagRead delay override k\<rparr>)"

text \<open>
  \<open>_mi_page_free_collect\<close>: done, in \<open>_mi_free_delayed_block\<close> the delayed block is freed locally. The
  walk for the tail of the list puts each block on the local list; its bound by the capacity of the
  page is in \<open>Blocks\<close>. The empty list may be skipped, when the collection is not forced, or be taken.
\<close>

definition collect_done :: "delayed_rest \<Rightarrow> tf_sys \<Rightarrow> tf_sys" where
  "collect_done k s =
     (case k of
        None \<Rightarrow> s\<lparr>tfs_owner := OwIdle\<rparr>
      | Some (b, rest) \<Rightarrow> s\<lparr>tfs_free := insert b (tfs_free s), tfs_owner := OwDelayed rest\<rparr>)"

inductive collect_step :: "tf_sys \<Rightarrow> tf_sys \<Rightarrow> bool" where
  collect_enter: "tfs_owner s = OwIdle \<Longrightarrow> collect_step s (s\<lparr>tfs_owner := OwTake None\<rparr>)"
| collect_empty:
  "\<lbrakk> tfs_owner s = OwTake k; mi_tf_block (tfs_xfree s) = 0 \<rbrakk> \<Longrightarrow> collect_step s (collect_done k s)"
| collect_read: "tfs_owner s = OwTake k \<Longrightarrow> collect_step s (s\<lparr>tfs_owner := OwTakeSwap (tfs_xfree s) k\<rparr>)"
| collect_swap:
  "\<lbrakk> tfs_owner s = OwTakeSwap tfree k; tfs_xfree s = tfree \<rbrakk>
   \<Longrightarrow> collect_step s (s\<lparr>tfs_xfree := mi_tf_set_block tfree 0, tfs_owner := OwWalk (mi_tf_block tfree) k\<rparr>)"
| collect_fail: "tfs_owner s = OwTakeSwap tfree k \<Longrightarrow> collect_step s (s\<lparr>tfs_owner := OwTake k\<rparr>)"
| collect_walk:
  "\<lbrakk> tfs_owner s = OwWalk b k; b \<noteq> 0 \<rbrakk>
   \<Longrightarrow> collect_step s (s\<lparr>tfs_free := insert b (tfs_free s), tfs_owner := OwWalk (tfs_next s b) k\<rparr>)"
| collect_end: "tfs_owner s = OwWalk 0 k \<Longrightarrow> collect_step s (collect_done k s)"

text \<open>\<open>_mi_heap_delayed_free\<close>.\<close>

inductive delayed_step :: "tf_sys \<Rightarrow> tf_sys \<Rightarrow> bool" where
  delayed_enter: "tfs_owner s = OwIdle \<Longrightarrow> delayed_step s (s\<lparr>tfs_owner := OwHeapSwap (tfs_delayed s)\<rparr>)"
| delayed_null: "tfs_owner s = OwHeapSwap 0 \<Longrightarrow> delayed_step s (s\<lparr>tfs_owner := OwDelayed 0\<rparr>)"
| delayed_swap:
  "\<lbrakk> tfs_owner s = OwHeapSwap block; block \<noteq> 0; tfs_delayed s = block \<rbrakk>
   \<Longrightarrow> delayed_step s (s\<lparr>tfs_delayed := 0, tfs_owner := OwDelayed block\<rparr>)"
| delayed_retry:
  "\<lbrakk> tfs_owner s = OwHeapSwap block; block \<noteq> 0 \<rbrakk>
   \<Longrightarrow> delayed_step s (s\<lparr>tfs_owner := OwHeapSwap (tfs_delayed s)\<rparr>)"
| delayed_next:
  "\<lbrakk> tfs_owner s = OwDelayed b; b \<noteq> 0 \<rbrakk>
   \<Longrightarrow> delayed_step s (s\<lparr>tfs_owner := OwFlagRead MI_USE_DELAYED_FREE False (Some (b, tfs_next s b))\<rparr>)"
| delayed_end: "tfs_owner s = OwDelayed 0 \<Longrightarrow> delayed_step s (s\<lparr>tfs_owner := OwIdle\<rparr>)"

text \<open>
  The program between these calls: the owner allocates a free block or frees one of its own, and a
  block that is in use may be written to.
\<close>

inductive program_step :: "tf_sys \<Rightarrow> tf_sys \<Rightarrow> bool" where
  alloc_block:
  "\<lbrakk> tfs_owner s = OwIdle; b \<in> tfs_free s \<rbrakk>
   \<Longrightarrow> program_step s (s\<lparr>tfs_free := tfs_free s - {b}, tfs_alive := insert b (tfs_alive s)\<rparr>)"
| free_block:
  "\<lbrakk> tfs_owner s = OwIdle; b \<in> tfs_alive s \<rbrakk>
   \<Longrightarrow> program_step s (s\<lparr>tfs_alive := tfs_alive s - {b}, tfs_free := insert b (tfs_free s)\<rparr>)"
| write_block:
  "b \<in> tfs_alive s \<union> tfs_free s \<Longrightarrow> program_step s (s\<lparr>tfs_next := (tfs_next s)(b := v)\<rparr>)"

definition tf_step :: "tf_sys \<Rightarrow> tf_sys \<Rightarrow> bool" where
  "tf_step s s' \<longleftrightarrow> mt_step s s' \<or> flag_step s s' \<or> collect_step s s' \<or> delayed_step s s' \<or> program_step s s'"

definition tf_init :: "addr set \<Rightarrow> mi_delayed \<Rightarrow> tf_sys" where
  "tf_init B delay = \<lparr>tfs_xfree = mi_tf_make 0 delay, tfs_delayed = 0, tfs_next = (\<lambda>_. 0), tfs_alive = B,
     tfs_free = {}, tfs_pc = (\<lambda>_. MtIdle), tfs_owner = OwIdle\<rparr>"

section \<open>Where the blocks are\<close>

text \<open>The place of each block: what a run does is to move blocks from one place to another.\<close>

datatype place = Alive | OnFree | InFlight nat | Shared | OnDelayed | Taken

fun mt_block :: "mt_pc \<Rightarrow> addr option" where
  "mt_block (MtRead b) = Some b"
| "mt_block (MtSwap b tfree) = Some b"
| "mt_block (MtHeapRead b) = Some b"
| "mt_block (MtHeapSwap b dfree) = Some b"
| "mt_block _ = None"

fun mt_freeing :: "mt_pc \<Rightarrow> bool" where
  "mt_freeing (MtHeapRead b) = True"
| "mt_freeing (MtHeapSwap b dfree) = True"
| "mt_freeing MtResetRead = True"
| "mt_freeing (MtResetSwap tfree) = True"
| "mt_freeing _ = False"

text \<open>Between its read and its swap a thread has linked its block to what it read.\<close>

fun mt_linked :: "(addr \<Rightarrow> addr) \<Rightarrow> mt_pc \<Rightarrow> bool" where
  "mt_linked nx (MtSwap b tfree) = (mi_tf_delayed tfree \<noteq> MI_USE_DELAYED_FREE \<longrightarrow> nx b = mi_tf_block tfree)"
| "mt_linked nx (MtHeapSwap b dfree) = (nx b = dfree)"
| "mt_linked nx _ = True"

text \<open>The blocks that the owner has taken and not yet put on its lists.\<close>

fun rest_chain :: "(addr \<Rightarrow> addr) \<Rightarrow> delayed_rest \<Rightarrow> addr list \<Rightarrow> bool" where
  "rest_chain nx None W = (W = [])"
| "rest_chain nx (Some (b, h)) W = (\<exists>Y. W = b # Y \<and> chain nx h Y)"

fun owner_chain :: "(addr \<Rightarrow> addr) \<Rightarrow> owner_pc \<Rightarrow> addr list \<Rightarrow> bool" where
  "owner_chain nx OwIdle W = (W = [])"
| "owner_chain nx (OwFlagRead d ov k) W = rest_chain nx k W"
| "owner_chain nx (OwFlagSwap d ov tfree k) W = rest_chain nx k W"
| "owner_chain nx (OwTake k) W = rest_chain nx k W"
| "owner_chain nx (OwTakeSwap tfree k) W = rest_chain nx k W"
| "owner_chain nx (OwWalk h k) W = (\<exists>X Y. W = X @ Y \<and> chain nx h X \<and> rest_chain nx k Y)"
| "owner_chain nx (OwHeapSwap h) W = (W = [])"
| "owner_chain nx (OwDelayed h) W = chain nx h W"

fun owner_flag_ok :: "owner_pc \<Rightarrow> bool" where
  "owner_flag_ok (OwFlagRead d ov k) = (d \<noteq> MI_DELAYED_FREEING)"
| "owner_flag_ok (OwFlagSwap d ov tfree k) =
     (d \<noteq> MI_DELAYED_FREEING \<and> mi_tf_delayed tfree \<noteq> MI_DELAYED_FREEING)"
| "owner_flag_ok _ = True"

definition places_ok :: "addr set \<Rightarrow> (addr \<Rightarrow> place) \<Rightarrow> addr list \<Rightarrow> addr list \<Rightarrow> addr list \<Rightarrow> tf_sys \<Rightarrow> bool" where
  "places_ok B loc T D W s \<longleftrightarrow>
     tfs_alive s = {b \<in> B. loc b = Alive} \<and> tfs_free s = {b \<in> B. loc b = OnFree} \<and>
     (\<forall>t b. mt_block (tfs_pc s t) = Some b \<longleftrightarrow> b \<in> B \<and> loc b = InFlight t) \<and>
     set T = {b \<in> B. loc b = Shared} \<and> set D = {b \<in> B. loc b = OnDelayed} \<and>
     set W = {b \<in> B. loc b = Taken} \<and> distinct T \<and> distinct D \<and> distinct W"

definition links_ok :: "addr list \<Rightarrow> addr list \<Rightarrow> addr list \<Rightarrow> tf_sys \<Rightarrow> bool" where
  "links_ok T D W s \<longleftrightarrow>
     chain (tfs_next s) (mi_tf_block (tfs_xfree s)) T \<and> chain (tfs_next s) (tfs_delayed s) D \<and>
     owner_chain (tfs_next s) (tfs_owner s) W \<and> (\<forall>t. mt_linked (tfs_next s) (tfs_pc s t))"

definition flag_ok :: "tf_sys \<Rightarrow> bool" where
  "flag_ok s \<longleftrightarrow> owner_flag_ok (tfs_owner s) \<and>
     (\<forall>t. mt_freeing (tfs_pc s t) \<longrightarrow> mi_tf_delayed (tfs_xfree s) = MI_DELAYED_FREEING) \<and>
     (\<forall>t u. mt_freeing (tfs_pc s t) \<longrightarrow> mt_freeing (tfs_pc s u) \<longrightarrow> t = u)"

definition blocks_aligned :: "addr set \<Rightarrow> bool" where
  "blocks_aligned B \<longleftrightarrow> (\<forall>b \<in> B. b \<noteq> 0 \<and> b AND 3 = 0)"

definition tf_inv :: "addr set \<Rightarrow> tf_sys \<Rightarrow> bool" where
  "tf_inv B s \<longleftrightarrow> (\<exists>loc T D W. places_ok B loc T D W s \<and> links_ok T D W s) \<and> flag_ok s"

lemma tf_set_simps [simp]:
  "mi_tf_block (mi_tf_set_delayed tf d) = mi_tf_block tf" "mi_tf_delayed (mi_tf_set_delayed tf d) = d"
  "b AND 3 = 0 \<Longrightarrow> mi_tf_block (mi_tf_set_block tf b) = b"
  "b AND 3 = 0 \<Longrightarrow> mi_tf_delayed (mi_tf_set_block tf b) = mi_tf_delayed tf"
  by (simp_all add: mi_tf_set_delayed_def mi_tf_set_block_def)

lemma rest_chain_upd [simp]: "b \<notin> set W \<Longrightarrow> rest_chain (nx(b := v)) k W = rest_chain nx k W"
proof (cases k)
  case (Some p)
  then show "b \<notin> set W \<Longrightarrow> ?thesis" by (cases p) auto
qed simp

lemma owner_chain_upd [simp]:
  assumes "b \<notin> set W"
  shows "owner_chain (nx(b := v)) ow W = owner_chain nx ow W"
proof (cases ow)
  case (OwWalk h k)
  have "(W = X @ Y \<and> chain (nx(b := v)) h X \<and> rest_chain (nx(b := v)) k Y) =
      (W = X @ Y \<and> chain nx h X \<and> rest_chain nx k Y)" for X Y
    using assms by auto
  then show ?thesis by (simp only: OwWalk owner_chain.simps)
qed (use assms in auto)

lemma mt_linked_upd: "mt_block pc \<noteq> Some b \<Longrightarrow> mt_linked (nx(b := v)) pc = mt_linked nx pc"
  by (cases pc) auto

section \<open>Every step keeps the invariant\<close>

lemma tf_invI: "places_ok B loc T D W s \<Longrightarrow> links_ok T D W s \<Longrightarrow> flag_ok s \<Longrightarrow> tf_inv B s"
  by (auto simp: tf_inv_def)

lemma places_ok_apart:
  assumes "places_ok B loc T D W s"
  shows "mt_block (tfs_pc s t) = Some b \<Longrightarrow> b \<in> B \<and> loc b = InFlight t \<and> b \<notin> set T \<and> b \<notin> set D \<and> b \<notin> set W"
    and "b \<in> tfs_alive s \<Longrightarrow> b \<in> B \<and> loc b = Alive \<and> b \<notin> set T \<and> b \<notin> set D \<and> b \<notin> set W"
  using assms by (auto simp: places_ok_def)

lemma places_ok_one:
  assumes "places_ok B loc T D W s" and "mt_block (tfs_pc s t) = Some b" and "mt_block (tfs_pc s u) = Some b"
  shows "u = t"
  using assms unfolding places_ok_def by (metis place.inject)

lemma places_ok_idle:
  assumes "places_ok B loc T D W s" and "mt_block (tfs_pc s t) = None"
  shows "x \<in> B \<Longrightarrow> loc x \<noteq> InFlight t"
  using assms unfolding places_ok_def by (metis option.distinct(1))

lemma places_ok_carries:
  assumes "places_ok B loc T D W s" and "mt_block (tfs_pc s t) = Some b"
  shows "x \<in> B \<Longrightarrow> x \<noteq> b \<Longrightarrow> loc x \<noteq> InFlight t"
  using assms unfolding places_ok_def by (metis option.inject)

lemma flag_ok_freeing:
  assumes "flag_ok s" and "mt_freeing (tfs_pc s t)"
  shows "mi_tf_delayed (tfs_xfree s) = MI_DELAYED_FREEING"
    and "mt_freeing (tfs_pc s u) \<Longrightarrow> u = t"
  using assms by (auto simp: flag_ok_def)

text \<open>A step inside a thread that moves no block.\<close>

lemma tf_inv_pc:
  assumes "places_ok B loc T D W s" and "tfs_pc s' = (tfs_pc s)(t := pc)"
    and "mt_block pc = mt_block (tfs_pc s t)" and "tfs_alive s' = tfs_alive s" and "tfs_free s' = tfs_free s"
    and "links_ok T D W s'" and "flag_ok s'"
  shows "tf_inv B s'"
proof -
  have "places_ok B loc T D W s'" using assms(1-5) by (auto simp: places_ok_def)
  then show ?thesis using assms(6,7) by (rule tf_invI)
qed

lemma mt_step_inv:
  assumes "mt_step s s'" and I: "tf_inv B s" and A: "blocks_aligned B"
  shows "tf_inv B s'"
proof -
  obtain loc T D W where P: "places_ok B loc T D W s" and L: "links_ok T D W s" and F: "flag_ok s"
    using I by (auto simp: tf_inv_def)
  note apart = places_ok_apart [OF P]
  from assms(1) show ?thesis
  proof cases
    case (mt_enter t b)
    have "places_ok B (loc(b := InFlight t)) T D W s'"
      using P mt_enter apart(2) [OF mt_enter(3)] places_ok_idle [OF P, of t] unfolding places_ok_def by auto
    then show ?thesis using L F mt_enter by (intro tf_invI) (auto simp: links_ok_def flag_ok_def)
  next
    case (mt_read_delayed t b)
    show ?thesis
      by (rule tf_inv_pc [OF P, where t = t and pc = "MtSwap b (tfs_xfree s)"])
        (use L F mt_read_delayed in \<open>auto simp: links_ok_def flag_ok_def\<close>)
  next
    case (mt_read_list t b)
    have b: "b \<notin> set T" "b \<notin> set D" "b \<notin> set W" "b \<noteq> 0 \<and> (\<forall>u. u \<noteq> t \<longrightarrow> mt_block (tfs_pc s u) \<noteq> Some b)"
      using apart(1) [of t b] places_ok_one [OF P, of t b] mt_read_list A by (auto simp: blocks_aligned_def)
    show ?thesis
      by (rule tf_inv_pc [OF P, where t = t and pc = "MtSwap b (tfs_xfree s)"])
        (use L F b mt_read_list in \<open>auto simp: links_ok_def flag_ok_def mt_linked_upd\<close>)
  next
    case (mt_swap_delayed t b tfree)
    then have none: "\<not> mt_freeing (tfs_pc s u)" for u using F by (auto simp: flag_ok_def)
    show ?thesis
      by (rule tf_inv_pc [OF P, where t = t and pc = "MtHeapRead b"])
        (use L F none mt_swap_delayed in \<open>auto simp: links_ok_def flag_ok_def\<close>)
  next
    case (mt_swap_list t b tfree)
    have b: "b \<in> B" "b \<notin> set T" "loc b = InFlight t" "b \<noteq> 0" "b AND 3 = 0" "tfs_next s b = mi_tf_block tfree"
      using apart(1) [of t b] mt_swap_list A L by (auto simp: blocks_aligned_def links_ok_def dest!: spec [of _ t])
    have "places_ok B (loc(b := Shared)) (b # T) D W s'"
      using P b mt_swap_list places_ok_carries [OF P, of t b] unfolding places_ok_def by auto
    moreover have "links_ok (b # T) D W s'"
      using L b mt_swap_list by (auto simp: links_ok_def)
    ultimately show ?thesis using F b mt_swap_list by (intro tf_invI) (auto simp: flag_ok_def)
  next
    case (mt_swap_fail t b tfree)
    show ?thesis by (rule tf_inv_pc [OF P, where t = t and pc = "MtRead b"])
        (use L F mt_swap_fail in \<open>auto simp: links_ok_def flag_ok_def\<close>)
  next
    case (mt_heap_read t b)
    have b: "b \<notin> set T" "b \<notin> set D" "b \<notin> set W" "b \<noteq> 0 \<and> (\<forall>u. u \<noteq> t \<longrightarrow> mt_block (tfs_pc s u) \<noteq> Some b)"
      using apart(1) [of t b] places_ok_one [OF P, of t b] mt_heap_read A by (auto simp: blocks_aligned_def)
    have fr: "mi_tf_delayed (tfs_xfree s) = MI_DELAYED_FREEING" "\<And>u. mt_freeing (tfs_pc s u) \<Longrightarrow> u = t"
      using flag_ok_freeing [OF F, of t] mt_heap_read by auto
    show ?thesis
      by (rule tf_inv_pc [OF P, where t = t and pc = "MtHeapSwap b (tfs_delayed s)"])
        (use L F b fr mt_heap_read in \<open>auto simp: links_ok_def flag_ok_def mt_linked_upd\<close>)
  next
    case (mt_heap_swap t b dfree)
    have b: "b \<in> B" "b \<notin> set D" "loc b = InFlight t" "b \<noteq> 0" "tfs_next s b = dfree"
      using apart(1) [of t b] mt_heap_swap A L by (auto simp: blocks_aligned_def links_ok_def dest!: spec [of _ t])
    have fr: "mi_tf_delayed (tfs_xfree s) = MI_DELAYED_FREEING" "\<And>u. mt_freeing (tfs_pc s u) \<Longrightarrow> u = t"
      using flag_ok_freeing [OF F, of t] mt_heap_swap by auto
    have "places_ok B (loc(b := OnDelayed)) T (b # D) W s'"
      using P b mt_heap_swap places_ok_carries [OF P, of t b] unfolding places_ok_def by auto
    moreover have "links_ok T (b # D) W s'"
      using L b mt_heap_swap by (auto simp: links_ok_def)
    ultimately show ?thesis by (rule tf_invI) (use F fr mt_heap_swap in \<open>auto simp: flag_ok_def\<close>)
  next
    case (mt_heap_fail t b dfree)
    then have fr: "mi_tf_delayed (tfs_xfree s) = MI_DELAYED_FREEING" "\<And>u. mt_freeing (tfs_pc s u) \<Longrightarrow> u = t"
      using flag_ok_freeing [OF F, of t] by auto
    show ?thesis by (rule tf_inv_pc [OF P, where t = t and pc = "MtHeapRead b"])
        (use L F fr mt_heap_fail in \<open>auto simp: links_ok_def flag_ok_def\<close>)
  next
    case (mt_reset_read t)
    then have fr: "mi_tf_delayed (tfs_xfree s) = MI_DELAYED_FREEING" "\<And>u. mt_freeing (tfs_pc s u) \<Longrightarrow> u = t"
      using flag_ok_freeing [OF F, of t] by auto
    show ?thesis by (rule tf_inv_pc [OF P, where t = t and pc = "MtResetSwap (tfs_xfree s)"])
        (use L F fr mt_reset_read in \<open>auto simp: links_ok_def flag_ok_def\<close>)
  next
    case (mt_reset_swap t tfree)
    then have fr: "mi_tf_delayed (tfs_xfree s) = MI_DELAYED_FREEING" "\<And>u. mt_freeing (tfs_pc s u) \<Longrightarrow> u = t"
      using flag_ok_freeing [OF F, of t] by auto
    show ?thesis by (rule tf_inv_pc [OF P, where t = t and pc = "MtIdle"])
        (use L F fr mt_reset_swap in \<open>auto simp: links_ok_def flag_ok_def\<close>)
  next
    case (mt_reset_fail t tfree)
    then have fr: "mi_tf_delayed (tfs_xfree s) = MI_DELAYED_FREEING" "\<And>u. mt_freeing (tfs_pc s u) \<Longrightarrow> u = t"
      using flag_ok_freeing [OF F, of t] by auto
    show ?thesis by (rule tf_inv_pc [OF P, where t = t and pc = "MtResetRead"])
        (use L F fr mt_reset_fail in \<open>auto simp: links_ok_def flag_ok_def\<close>)
  qed
qed

lemma tf_inv_owner:
  assumes "places_ok B loc T D W s" and "tfs_pc s' = tfs_pc s" and "tfs_alive s' = tfs_alive s"
    and "tfs_free s' = tfs_free s" and "links_ok T D W s'" and "flag_ok s'"
  shows "tf_inv B s'"
proof -
  have "places_ok B loc T D W s'" using assms(1-4) by (auto simp: places_ok_def)
  then show ?thesis using assms(5,6) by (rule tf_invI)
qed

lemma rest_of_done: "owner_chain nx (flag_done k) W = rest_chain nx k W"
  by (cases k) (auto simp: flag_done_def)

lemma flag_step_inv:
  assumes "flag_step s s'" and I: "tf_inv B s"
  shows "tf_inv B s'"
proof -
  obtain loc T D W where P: "places_ok B loc T D W s" and L: "links_ok T D W s" and F: "flag_ok s"
    using I by (auto simp: tf_inv_def)
  from assms(1) show ?thesis
    by cases (rule tf_inv_owner [OF P], use L F in \<open>auto simp: links_ok_def flag_ok_def rest_of_done flag_done_def\<close>)+
qed

text \<open>The head of what the owner has taken goes to its lists.\<close>

lemma places_ok_put:
  assumes P: "places_ok B loc T D W s" and "W = b # W'" and "tfs_pc s' = tfs_pc s"
    and "tfs_alive s' = tfs_alive s" and "tfs_free s' = insert b (tfs_free s)"
  shows "places_ok B (loc(b := OnFree)) T D W' s'"
proof -
  have b: "b \<in> B" "loc b = Taken" "b \<notin> set W'" using P assms(2) by (auto simp: places_ok_def)
  then show ?thesis using P assms(2-) unfolding places_ok_def by auto
qed

lemma tf_inv_done:
  assumes P: "places_ok B loc T D W s" and L: "links_ok T D [] (s\<lparr>tfs_owner := OwIdle\<rparr>)"
    and F: "flag_ok s" and R: "rest_chain (tfs_next s) k W"
  shows "tf_inv B (collect_done k s)"
proof (cases k)
  case None
  show ?thesis
    by (rule tf_inv_owner [OF P]) (use L F R None in \<open>auto simp: collect_done_def links_ok_def flag_ok_def\<close>)
next
  case (Some p)
  obtain b rest where p: "p = (b, rest)" by (cases p)
  obtain Y where W: "W = b # Y" and Y: "chain (tfs_next s) rest Y" using R Some p by auto
  have "places_ok B (loc(b := OnFree)) T D Y (collect_done k s)"
    by (rule places_ok_put [OF P W]) (simp_all add: collect_done_def Some p)
  then show ?thesis
    by (rule tf_invI) (use L F Y Some p in \<open>auto simp: collect_done_def links_ok_def flag_ok_def\<close>)
qed

lemma collect_step_inv:
  assumes "collect_step s s'" and I: "tf_inv B s"
  shows "tf_inv B s'"
proof -
  obtain loc T D W where P: "places_ok B loc T D W s" and L: "links_ok T D W s" and F: "flag_ok s"
    using I by (auto simp: tf_inv_def)
  from assms(1) show ?thesis
  proof cases
    case (collect_empty k)
    then show ?thesis using L F by (auto intro!: tf_inv_done [OF P, of k] simp: links_ok_def)
  next
    case (collect_swap tfree k)
    let ?loc = "\<lambda>b. if loc b = Shared then Taken else loc b"
    have "places_ok B ?loc [] D (T @ W) s'"
      using P collect_swap unfolding places_ok_def by auto
    then show ?thesis
      by (rule tf_invI) (use L F collect_swap in \<open>auto simp: links_ok_def flag_ok_def\<close>)
  next
    case (collect_walk b k)
    obtain X Y where W: "W = X @ Y" and X: "chain (tfs_next s) b X" and Y: "rest_chain (tfs_next s) k Y"
      using L collect_walk by (auto simp: links_ok_def)
    obtain X' where X': "X = b # X'" "chain (tfs_next s) (tfs_next s b) X'"
      using X collect_walk(3) by (cases X) auto
    have "places_ok B (loc(b := OnFree)) T D (X' @ Y) s'"
      by (rule places_ok_put [OF P, of b]) (use collect_walk W X' in auto)
    then show ?thesis
      by (rule tf_invI) (use L F X' Y collect_walk in \<open>auto simp: links_ok_def flag_ok_def\<close>)
  next
    case (collect_end k)
    then show ?thesis using L F by (auto intro!: tf_inv_done [OF P, of k] simp: links_ok_def)
  qed (rule tf_inv_owner [OF P], use L F in \<open>auto simp: links_ok_def flag_ok_def\<close>)+
qed

lemma delayed_step_inv:
  assumes "delayed_step s s'" and I: "tf_inv B s"
  shows "tf_inv B s'"
proof -
  obtain loc T D W where P: "places_ok B loc T D W s" and L: "links_ok T D W s" and F: "flag_ok s"
    using I by (auto simp: tf_inv_def)
  from assms(1) show ?thesis
  proof cases
    case (delayed_swap block)
    let ?loc = "\<lambda>b. if loc b = OnDelayed then Taken else loc b"
    have "W = []" using L delayed_swap by (simp add: links_ok_def)
    then have "places_ok B ?loc T [] D s'"
      using P delayed_swap unfolding places_ok_def by auto
    then show ?thesis
      by (rule tf_invI) (use L F delayed_swap in \<open>auto simp: links_ok_def flag_ok_def\<close>)
  next
    case (delayed_next b)
    obtain Y where "W = b # Y" "chain (tfs_next s) (tfs_next s b) Y"
      using L delayed_next by (cases W) (auto simp: links_ok_def)
    then show ?thesis
      by (intro tf_inv_owner [OF P]) (use L F delayed_next in \<open>auto simp: links_ok_def flag_ok_def\<close>)
  qed (rule tf_inv_owner [OF P], use L F in \<open>auto simp: links_ok_def flag_ok_def\<close>)+
qed

lemma program_step_inv:
  assumes "program_step s s'" and I: "tf_inv B s"
  shows "tf_inv B s'"
proof -
  obtain loc T D W where P: "places_ok B loc T D W s" and L: "links_ok T D W s" and F: "flag_ok s"
    using I by (auto simp: tf_inv_def)
  from assms(1) show ?thesis
  proof cases
    case (alloc_block b)
    have "b \<in> B" "loc b = OnFree" using P alloc_block by (auto simp: places_ok_def)
    then have "places_ok B (loc(b := Alive)) T D W s'"
      using P alloc_block unfolding places_ok_def by auto
    then show ?thesis by (rule tf_invI) (use L F alloc_block in \<open>auto simp: links_ok_def flag_ok_def\<close>)
  next
    case (free_block b)
    have "b \<in> B" "loc b = Alive" using P free_block by (auto simp: places_ok_def)
    then have "places_ok B (loc(b := OnFree)) T D W s'"
      using P free_block unfolding places_ok_def by auto
    then show ?thesis by (rule tf_invI) (use L F free_block in \<open>auto simp: links_ok_def flag_ok_def\<close>)
  next
    case (write_block b v)
    have "b \<notin> set T" "b \<notin> set D" "b \<notin> set W" "\<And>t. mt_block (tfs_pc s t) \<noteq> Some b"
      using P write_block by (auto simp: places_ok_def)
    then show ?thesis
      by (intro tf_inv_owner [OF P]) (use L F write_block in \<open>auto simp: links_ok_def flag_ok_def mt_linked_upd\<close>)
  qed
qed

text \<open>\<open>MI_DELAYED_FREEING\<close> is set only while a thread is between its two swaps.\<close>

definition flag_held :: "tf_sys \<Rightarrow> bool" where
  "flag_held s \<longleftrightarrow> (mi_tf_delayed (tfs_xfree s) = MI_DELAYED_FREEING \<longrightarrow> (\<exists>t. mt_freeing (tfs_pc s t)))"

lemma flag_held_pc:
  assumes "flag_held s" and "tfs_pc s' = (tfs_pc s)(t := pc)" and "mt_freeing pc = mt_freeing (tfs_pc s t)"
    and "mi_tf_delayed (tfs_xfree s') = mi_tf_delayed (tfs_xfree s)"
  shows "flag_held s'"
  using assms unfolding flag_held_def by (metis fun_upd_other fun_upd_same)

lemma flag_held_owner:
  assumes "flag_held s" and "tfs_pc s' = tfs_pc s"
    and "mi_tf_delayed (tfs_xfree s') = MI_DELAYED_FREEING \<Longrightarrow> mi_tf_delayed (tfs_xfree s) = MI_DELAYED_FREEING"
  shows "flag_held s'"
  using assms unfolding flag_held_def by metis

lemma mt_step_held:
  assumes "mt_step s s'" and H: "flag_held s" and I: "tf_inv B s" and A: "blocks_aligned B"
  shows "flag_held s'"
proof -
  from assms(1) show ?thesis
  proof cases
    case (mt_swap_delayed t b tfree)
    then show ?thesis by (auto simp: flag_held_def)
  next
    case (mt_swap_list t b tfree)
    then have "b AND 3 = 0" using I A places_ok_apart(1) [of B _ _ _ _ s t b] by (auto simp: tf_inv_def blocks_aligned_def)
    then show ?thesis by (intro flag_held_pc [OF H, where t = t]) (use mt_swap_list in auto)
  next
    case (mt_reset_swap t tfree)
    then show ?thesis by (auto simp: flag_held_def)
  next
    case (mt_enter t b)
    then show ?thesis by (intro flag_held_pc [OF H, where t = t]) auto
  next
    case (mt_read_delayed t b)
    then show ?thesis by (intro flag_held_pc [OF H, where t = t]) auto
  next
    case (mt_read_list t b)
    then show ?thesis by (intro flag_held_pc [OF H, where t = t]) auto
  next
    case (mt_swap_fail t b tfree)
    then show ?thesis by (intro flag_held_pc [OF H, where t = t]) auto
  next
    case (mt_heap_read t b)
    then show ?thesis by (intro flag_held_pc [OF H, where t = t]) auto
  next
    case (mt_heap_swap t b dfree)
    then show ?thesis by (intro flag_held_pc [OF H, where t = t]) auto
  next
    case (mt_heap_fail t b dfree)
    then show ?thesis by (intro flag_held_pc [OF H, where t = t]) auto
  next
    case (mt_reset_read t)
    then show ?thesis by (intro flag_held_pc [OF H, where t = t]) auto
  next
    case (mt_reset_fail t tfree)
    then show ?thesis by (intro flag_held_pc [OF H, where t = t]) auto
  qed
qed

lemma owner_step_held:
  assumes "flag_step s s' \<or> collect_step s s' \<or> delayed_step s s' \<or> program_step s s'"
    and H: "flag_held s" and I: "tf_inv B s"
  shows "flag_held s'"
proof -
  have "owner_flag_ok (tfs_owner s)" using I by (auto simp: tf_inv_def flag_ok_def)
  then show ?thesis
    using assms(1)
    by (elim disjE flag_step.cases collect_step.cases delayed_step.cases program_step.cases)
      (rule flag_held_owner [OF H], auto simp: collect_done_def split: option.splits)+
qed

lemma tf_step_inv:
  assumes "tf_step s s'" and "tf_inv B s" and "flag_held s" and "blocks_aligned B"
  shows "tf_inv B s' \<and> flag_held s'"
  using assms mt_step_inv flag_step_inv collect_step_inv delayed_step_inv program_step_inv mt_step_held
    owner_step_held unfolding tf_step_def by meson

inductive tf_reach :: "addr set \<Rightarrow> mi_delayed \<Rightarrow> tf_sys \<Rightarrow> bool" for B delay where
  tf_start: "tf_reach B delay (tf_init B delay)"
| tf_more: "\<lbrakk> tf_reach B delay s; tf_step s s' \<rbrakk> \<Longrightarrow> tf_reach B delay s'"

lemma tf_init_inv:
  assumes "delay \<noteq> MI_DELAYED_FREEING"
  shows "tf_inv B (tf_init B delay) \<and> flag_held (tf_init B delay)"
proof -
  have "places_ok B (\<lambda>_. Alive) [] [] [] (tf_init B delay)" by (simp add: places_ok_def tf_init_def)
  moreover have "links_ok [] [] [] (tf_init B delay)" by (simp add: links_ok_def tf_init_def)
  ultimately have "tf_inv B (tf_init B delay)"
    by (rule tf_invI) (simp add: flag_ok_def tf_init_def)
  then show ?thesis using assms by (simp add: flag_held_def tf_init_def)
qed

lemma tf_reach_inv:
  assumes "tf_reach B delay s" and "delay \<noteq> MI_DELAYED_FREEING" and "blocks_aligned B"
  shows "tf_inv B s \<and> flag_held s"
  using assms(1) by induction (use tf_init_inv tf_step_inv assms in blast)+

text \<open>The blocks that some thread holds between its reads and its swaps.\<close>

definition in_flight :: "tf_sys \<Rightarrow> addr set" where
  "in_flight s = {b. \<exists>t. mt_block (tfs_pc s t) = Some b}"

lemma places_ok_partition:
  assumes P: "places_ok B loc T D W s"
  shows "distinct (T @ D @ W) \<and> B = tfs_alive s \<union> tfs_free s \<union> in_flight s \<union> set (T @ D @ W) \<and>
           tfs_alive s \<inter> (tfs_free s \<union> in_flight s \<union> set (T @ D @ W)) = {} \<and>
           tfs_free s \<inter> (in_flight s \<union> set (T @ D @ W)) = {} \<and> in_flight s \<inter> set (T @ D @ W) = {}"
proof -
  have "b \<in> tfs_alive s \<union> tfs_free s \<union> in_flight s \<union> set (T @ D @ W)" if "b \<in> B" for b
    using P that unfolding places_ok_def in_flight_def by (cases "loc b") auto
  moreover have "tfs_alive s \<union> tfs_free s \<union> in_flight s \<union> set (T @ D @ W) \<subseteq> B"
    using P unfolding places_ok_def in_flight_def by auto
  ultimately have "B = tfs_alive s \<union> tfs_free s \<union> in_flight s \<union> set (T @ D @ W)" by blast
  moreover have "distinct (T @ D @ W)" using P unfolding places_ok_def by auto
  moreover have "tfs_alive s \<inter> (tfs_free s \<union> in_flight s \<union> set (T @ D @ W)) = {}"
    "tfs_free s \<inter> (in_flight s \<union> set (T @ D @ W)) = {}" "in_flight s \<inter> set (T @ D @ W) = {}"
    using P unfolding places_ok_def in_flight_def by auto
  ultimately show ?thesis by blast
qed

text \<open>
  C5. However the threads interleave, no block of the page is lost and none is in two
  places: the thread-free list, the delayed list and the blocks the owner has taken are proper
  lists of distinct blocks, and with the blocks in use, the owner's free blocks and the
  blocks in the hands of freeing threads they partition the blocks of the page. At most one thread
  is between setting \<open>MI_DELAYED_FREEING\<close> and resetting it, and the flag is set exactly then.
\<close>

theorem thread_free_no_loss:
  assumes "tf_reach B delay s" and "delay \<noteq> MI_DELAYED_FREEING" and "\<forall>b \<in> B. b \<noteq> 0 \<and> b AND 3 = 0"
  shows "(\<exists>T D W. chain (tfs_next s) (mi_tf_block (tfs_xfree s)) T \<and> chain (tfs_next s) (tfs_delayed s) D \<and>
           owner_chain (tfs_next s) (tfs_owner s) W \<and> distinct (T @ D @ W) \<and>
           B = tfs_alive s \<union> tfs_free s \<union> in_flight s \<union> set (T @ D @ W) \<and>
           tfs_alive s \<inter> (tfs_free s \<union> in_flight s \<union> set (T @ D @ W)) = {} \<and>
           tfs_free s \<inter> (in_flight s \<union> set (T @ D @ W)) = {} \<and> in_flight s \<inter> set (T @ D @ W) = {}) \<and>
         (mi_tf_delayed (tfs_xfree s) = MI_DELAYED_FREEING \<longleftrightarrow> (\<exists>t. mt_freeing (tfs_pc s t))) \<and>
         (\<forall>t u. mt_freeing (tfs_pc s t) \<and> mt_freeing (tfs_pc s u) \<longrightarrow> t = u)"
proof -
  have I: "tf_inv B s" "flag_held s" using tf_reach_inv [OF assms(1,2)] assms(3) by (auto simp: blocks_aligned_def)
  then obtain loc T D W where P: "places_ok B loc T D W s" and L: "links_ok T D W s" by (auto simp: tf_inv_def)
  have flag: "mi_tf_delayed (tfs_xfree s) = MI_DELAYED_FREEING \<longleftrightarrow> (\<exists>t. mt_freeing (tfs_pc s t))"
    and one: "\<forall>t u. mt_freeing (tfs_pc s t) \<and> mt_freeing (tfs_pc s u) \<longrightarrow> t = u"
    using I unfolding tf_inv_def flag_ok_def flag_held_def by blast+
  show ?thesis
    using flag one L places_ok_partition [OF P] unfolding links_ok_def
    by (intro conjI exI [of _ T] exI [of _ D] exI [of _ W]) simp_all
qed

lemma tf_step_mt: "mt_step s s' \<Longrightarrow> tf_step s s'"
  by (simp add: tf_step_def)

text \<open>Thread 0 frees the only block of a full page and is about to reset the flag.\<close>

theorem thread_free_no_loss_witness:
  "\<exists>s. tf_reach {16} MI_USE_DELAYED_FREE s \<and> tfs_delayed s = 16 \<and>
       mi_tf_delayed (tfs_xfree s) = MI_DELAYED_FREEING \<and> (\<exists>t. mt_freeing (tfs_pc s t)) \<and>
       (\<exists>T D W. chain (tfs_next s) 16 D \<and> distinct (T @ D @ W) \<and>
         {16} = tfs_alive s \<union> tfs_free s \<union> in_flight s \<union> set (T @ D @ W))"
proof -
  note more = tf_more [OF _ tf_step_mt]
  let ?s = "tf_init {16} MI_USE_DELAYED_FREE" and ?x = "mi_tf_make 0 MI_USE_DELAYED_FREE"
  obtain s1 where s1: "s1 = ?s\<lparr>tfs_alive := tfs_alive ?s - {16}, tfs_pc := (tfs_pc ?s)(0 := MtRead 16)\<rparr>" by simp
  obtain s2 where s2: "s2 = s1\<lparr>tfs_pc := (tfs_pc s1)(0 := MtSwap 16 (tfs_xfree s1))\<rparr>" by simp
  obtain s3 where s3: "s3 = s2\<lparr>tfs_xfree := mi_tf_set_delayed ?x MI_DELAYED_FREEING,
      tfs_pc := (tfs_pc s2)(0 := MtHeapRead 16)\<rparr>" by simp
  obtain s4 where s4: "s4 = s3\<lparr>tfs_next := (tfs_next s3)(16 := tfs_delayed s3),
      tfs_pc := (tfs_pc s3)(0 := MtHeapSwap 16 (tfs_delayed s3))\<rparr>" by simp
  obtain s5 where s5: "s5 = s4\<lparr>tfs_delayed := 16, tfs_pc := (tfs_pc s4)(0 := MtResetRead)\<rparr>" by simp
  have f1: "tfs_pc s1 0 = MtRead 16" "tfs_xfree s1 = ?x" by (simp_all add: s1 tf_init_def)
  have f2: "tfs_pc s2 0 = MtSwap 16 ?x" "tfs_xfree s2 = ?x" by (simp_all add: s2 f1)
  have f3: "tfs_pc s3 0 = MtHeapRead 16" "mi_tf_delayed (tfs_xfree s3) = MI_DELAYED_FREEING"
    "mi_tf_block (tfs_xfree s3) = 0" by (simp_all add: s3)
  have f4: "tfs_pc s4 0 = MtHeapSwap 16 (tfs_delayed s4)" by (simp add: s4)
  have "tf_reach {16} MI_USE_DELAYED_FREE s1"
    unfolding s1 by (rule more, rule tf_start, rule mt_enter) (simp_all add: tf_init_def)
  then have "tf_reach {16} MI_USE_DELAYED_FREE s2"
    unfolding s2 by (rule more, intro mt_read_delayed) (simp_all add: f1)
  then have "tf_reach {16} MI_USE_DELAYED_FREE s3"
    unfolding s3 by (rule more, intro mt_swap_delayed) (simp_all add: f2)
  then have "tf_reach {16} MI_USE_DELAYED_FREE s4"
    unfolding s4 by (rule more, intro mt_heap_read) (simp add: f3)
  then have r: "tf_reach {16} MI_USE_DELAYED_FREE s5"
    unfolding s5 by (rule more, intro mt_heap_swap [where dfree = "tfs_delayed s4"]) (simp_all add: f4)
  have d: "mi_tf_delayed (tfs_xfree s5) = MI_DELAYED_FREEING" "tfs_delayed s5 = 16"
    by (simp_all add: s5 s4 f3)
  have ok: "MI_USE_DELAYED_FREE \<noteq> MI_DELAYED_FREEING" "\<forall>b \<in> {16 :: addr}. b \<noteq> 0 \<and> b AND 3 = 0" by simp_all
  note no_loss = thread_free_no_loss [OF r ok]
  have t: "\<exists>t. mt_freeing (tfs_pc s5 t)" using no_loss d(1) by simp
  obtain T D W where "chain (tfs_next s5) (tfs_delayed s5) D \<and> distinct (T @ D @ W) \<and>
      {16} = tfs_alive s5 \<union> tfs_free s5 \<union> in_flight s5 \<union> set (T @ D @ W)"
    using no_loss by (elim conjE exE) (rule that, intro conjI)
  then have "\<exists>T D W. chain (tfs_next s5) 16 D \<and> distinct (T @ D @ W) \<and>
      {16} = tfs_alive s5 \<union> tfs_free s5 \<union> in_flight s5 \<union> set (T @ D @ W)"
    unfolding d(2) by (intro exI [of _ T] exI [of _ D] exI [of _ W])
  then show ?thesis using r d t by (intro exI [of _ s5] conjI)
qed

end
