(* ===== verification/AbandonedConc.thy ===== *)
theory AbandonedConc
  imports Blocks
begin

text \<open>
  The abandoned segments under concurrency (\<open>segment.c\<close>). Any number of threads push, pop and revisit,
  one atomic access at a time; between two accesses any other thread may run. The shared words are the
  tagged top of the stack, the list of visited segments, the count of readers and the
  \<open>abandoned_next\<close> of every segment. The top counts its updates in a ghost number of unbounded size;
  the tag is that number modulo \<open>2 ^ 17\<close>. The count of readers is a natural number: there are fewer
  than \<open>2 ^ 64\<close> threads.
\<close>

section \<open>Threads\<close>

text \<open>
  Outside; in \<open>mi_abandoned_visited_push\<close> and \<open>mi_abandoned_push\<close>, before the read and before the
  swap; in \<open>mi_abandoned_pop\<close> before the first check; in \<open>mi_abandoned_visited_revisit\<close>, before its check, the
  exchange, the read of the top, the strong swap, at a segment of the walk to the last one, and
  before the read and the swap of the loop that prepends; in \<open>mi_abandoned_pop\<close> before it counts
  itself as a reader, before the read of the top, the read of the link, the swap, before it leaves the
  readers, and before it clears the link. A thread that gives back the memory of a segment first
  waits for the readers. The reads of the top remember its ghost number.
\<close>

datatype ab_pc =
    AbOut
  | AbVisitRead addr | AbVisitSwap addr addr
  | AbPushRead addr | AbPushSwap addr u64
  | AbPopCheck
  | AbRevCheck | AbRevTake | AbRevTop addr | AbRevSwap addr u64 | AbRevWalk addr addr
  | AbRevRead addr addr | AbRevPrepend addr addr u64
  | AbPopEnter | AbPopRead | AbPopNext u64 nat | AbPopSwap u64 addr nat | AbPopLeave addr | AbPopClear addr
  | AbAwait addr | AbFree addr

record ab_sys =
  abs_top :: u64
  abs_version :: nat
  abs_visited :: addr
  abs_readers :: nat
  abs_next :: "addr \<Rightarrow> addr"
  abs_owned :: "addr set"
  abs_freed :: "addr set"
  abs_pc :: "nat \<Rightarrow> ab_pc"

abbreviation go :: "nat \<Rightarrow> ab_pc \<Rightarrow> ab_sys \<Rightarrow> ab_sys" where
  "go t pc s \<equiv> s\<lparr>abs_pc := (abs_pc s)(t := pc)\<rparr>"

abbreviation set_next :: "addr \<Rightarrow> addr \<Rightarrow> ab_sys \<Rightarrow> ab_sys" where
  "set_next a n s \<equiv> s\<lparr>abs_next := (abs_next s)(a := n)\<rparr>"

abbreviation set_top :: "u64 \<Rightarrow> ab_sys \<Rightarrow> ab_sys" where
  "set_top ts s \<equiv> s\<lparr>abs_top := ts, abs_version := Suc (abs_version s)\<rparr>"

section \<open>Steps\<close>

text \<open>\<open>mi_abandoned_visited_push\<close>.\<close>

inductive visit_step :: "ab_sys \<Rightarrow> ab_sys \<Rightarrow> bool" where
  visit_enter:
  "\<lbrakk> abs_pc s t = AbOut; a \<in> abs_owned s \<rbrakk>
   \<Longrightarrow> visit_step s (go t (AbVisitRead a) (s\<lparr>abs_owned := abs_owned s - {a}\<rparr>))"
| visit_read:
  "abs_pc s t = AbVisitRead a
   \<Longrightarrow> visit_step s (go t (AbVisitSwap a (abs_visited s)) (set_next a (abs_visited s) s))"
| visit_swap:
  "\<lbrakk> abs_pc s t = AbVisitSwap a anext; abs_visited s = anext \<rbrakk>
   \<Longrightarrow> visit_step s (go t AbOut (s\<lparr>abs_visited := a\<rparr>))"
| visit_fail: "abs_pc s t = AbVisitSwap a anext \<Longrightarrow> visit_step s (go t (AbVisitRead a) s)"

text \<open>\<open>mi_abandoned_push\<close>.\<close>

inductive push_step :: "ab_sys \<Rightarrow> ab_sys \<Rightarrow> bool" where
  push_enter:
  "\<lbrakk> abs_pc s t = AbOut; a \<in> abs_owned s \<rbrakk>
   \<Longrightarrow> push_step s (go t (AbPushRead a) (s\<lparr>abs_owned := abs_owned s - {a}\<rparr>))"
| push_read:
  "abs_pc s t = AbPushRead a
   \<Longrightarrow> push_step s (go t (AbPushSwap a (abs_top s)) (set_next a (mi_tagged_segment_ptr (abs_top s)) s))"
| push_swap:
  "\<lbrakk> abs_pc s t = AbPushSwap a ts; abs_top s = ts \<rbrakk>
   \<Longrightarrow> push_step s (go t AbOut (set_top (mi_tagged_segment a ts) s))"
| push_fail: "abs_pc s t = AbPushSwap a ts \<Longrightarrow> push_step s (go t (AbPushRead a) s)"

text \<open>\<open>mi_abandoned_visited_revisit\<close>, called from a pop.\<close>

inductive revisit_step :: "ab_sys \<Rightarrow> ab_sys \<Rightarrow> bool" where
  rev_none: "\<lbrakk> abs_pc s t = AbRevCheck; abs_visited s = 0 \<rbrakk> \<Longrightarrow> revisit_step s (go t AbOut s)"
| rev_some: "\<lbrakk> abs_pc s t = AbRevCheck; abs_visited s \<noteq> 0 \<rbrakk> \<Longrightarrow> revisit_step s (go t AbRevTake s)"
| rev_take_none: "\<lbrakk> abs_pc s t = AbRevTake; abs_visited s = 0 \<rbrakk> \<Longrightarrow> revisit_step s (go t AbOut s)"
| rev_take:
  "\<lbrakk> abs_pc s t = AbRevTake; abs_visited s \<noteq> 0 \<rbrakk>
   \<Longrightarrow> revisit_step s (go t (AbRevTop (abs_visited s)) (s\<lparr>abs_visited := 0\<rparr>))"
| rev_top_null:
  "\<lbrakk> abs_pc s t = AbRevTop f; mi_tagged_segment_ptr (abs_top s) = 0 \<rbrakk>
   \<Longrightarrow> revisit_step s (go t (AbRevSwap f (abs_top s)) s)"
| rev_top_some:
  "\<lbrakk> abs_pc s t = AbRevTop f; mi_tagged_segment_ptr (abs_top s) \<noteq> 0 \<rbrakk>
   \<Longrightarrow> revisit_step s (go t (AbRevWalk f f) s)"
| rev_swap:
  "\<lbrakk> abs_pc s t = AbRevSwap f ts; abs_top s = ts \<rbrakk>
   \<Longrightarrow> revisit_step s (go t AbPopEnter (set_top (mi_tagged_segment f ts) s))"
| rev_swap_fail:
  "\<lbrakk> abs_pc s t = AbRevSwap f ts; abs_top s \<noteq> ts \<rbrakk> \<Longrightarrow> revisit_step s (go t (AbRevWalk f f) s)"
| rev_walk:
  "\<lbrakk> abs_pc s t = AbRevWalk f l; abs_next s l \<noteq> 0 \<rbrakk>
   \<Longrightarrow> revisit_step s (go t (AbRevWalk f (abs_next s l)) s)"
| rev_last: "\<lbrakk> abs_pc s t = AbRevWalk f l; abs_next s l = 0 \<rbrakk> \<Longrightarrow> revisit_step s (go t (AbRevRead f l) s)"
| rev_read:
  "abs_pc s t = AbRevRead f l
   \<Longrightarrow> revisit_step s (go t (AbRevPrepend f l (abs_top s)) (set_next l (mi_tagged_segment_ptr (abs_top s)) s))"
| rev_prepend:
  "\<lbrakk> abs_pc s t = AbRevPrepend f l anext; abs_top s = anext \<rbrakk>
   \<Longrightarrow> revisit_step s (go t AbPopEnter (set_top (mi_tagged_segment f anext) s))"
| rev_prepend_fail: "abs_pc s t = AbRevPrepend f l anext \<Longrightarrow> revisit_step s (go t (AbRevRead f l) s)"

text \<open>\<open>mi_abandoned_pop\<close>; the program owns the segment it returns.\<close>

inductive pop_step :: "ab_sys \<Rightarrow> ab_sys \<Rightarrow> bool" where
  pop_enter: "abs_pc s t = AbOut \<Longrightarrow> pop_step s (go t AbPopCheck s)"
| pop_check_null:
  "\<lbrakk> abs_pc s t = AbPopCheck; mi_tagged_segment_ptr (abs_top s) = 0 \<rbrakk> \<Longrightarrow> pop_step s (go t AbRevCheck s)"
| pop_check_some:
  "\<lbrakk> abs_pc s t = AbPopCheck; mi_tagged_segment_ptr (abs_top s) \<noteq> 0 \<rbrakk> \<Longrightarrow> pop_step s (go t AbPopEnter s)"
| pop_count:
  "abs_pc s t = AbPopEnter \<Longrightarrow> pop_step s (go t AbPopRead (s\<lparr>abs_readers := abs_readers s + 1\<rparr>))"
| pop_read_null:
  "\<lbrakk> abs_pc s t = AbPopRead; mi_tagged_segment_ptr (abs_top s) = 0 \<rbrakk> \<Longrightarrow> pop_step s (go t (AbPopLeave 0) s)"
| pop_read:
  "\<lbrakk> abs_pc s t = AbPopRead; mi_tagged_segment_ptr (abs_top s) \<noteq> 0 \<rbrakk>
   \<Longrightarrow> pop_step s (go t (AbPopNext (abs_top s) (abs_version s)) s)"
| pop_next:
  "abs_pc s t = AbPopNext ts v
   \<Longrightarrow> pop_step s (go t (AbPopSwap ts (abs_next s (mi_tagged_segment_ptr ts)) v) s)"
| pop_swap:
  "\<lbrakk> abs_pc s t = AbPopSwap ts n v; abs_top s = ts \<rbrakk>
   \<Longrightarrow> pop_step s (go t (AbPopLeave (mi_tagged_segment_ptr ts)) (set_top (mi_tagged_segment n ts) s))"
| pop_swap_fail: "abs_pc s t = AbPopSwap ts n v \<Longrightarrow> pop_step s (go t AbPopRead s)"
| pop_leave_null:
  "abs_pc s t = AbPopLeave 0 \<Longrightarrow> pop_step s (go t AbOut (s\<lparr>abs_readers := abs_readers s - 1\<rparr>))"
| pop_leave:
  "\<lbrakk> abs_pc s t = AbPopLeave a; a \<noteq> 0 \<rbrakk>
   \<Longrightarrow> pop_step s (go t (AbPopClear a) (s\<lparr>abs_readers := abs_readers s - 1\<rparr>))"
| pop_clear:
  "abs_pc s t = AbPopClear a
   \<Longrightarrow> pop_step s (go t AbOut (set_next a 0 (s\<lparr>abs_owned := insert a (abs_owned s)\<rparr>)))"

text \<open>
  The program: it gives the memory of a segment back after \<open>_mi_abandoned_await_readers\<close>, gets
  it again, and writes to what it owns.
\<close>

inductive await_step :: "ab_sys \<Rightarrow> ab_sys \<Rightarrow> bool" where
  await_enter:
  "\<lbrakk> abs_pc s t = AbOut; a \<in> abs_owned s \<rbrakk>
   \<Longrightarrow> await_step s (go t (AbAwait a) (s\<lparr>abs_owned := abs_owned s - {a}\<rparr>))"
| await_done: "\<lbrakk> abs_pc s t = AbAwait a; abs_readers s = 0 \<rbrakk> \<Longrightarrow> await_step s (go t (AbFree a) s)"
| await_free:
  "abs_pc s t = AbFree a \<Longrightarrow> await_step s (go t AbOut (s\<lparr>abs_freed := insert a (abs_freed s)\<rparr>))"
| get_again:
  "a \<in> abs_freed s
   \<Longrightarrow> await_step s (s\<lparr>abs_freed := abs_freed s - {a}, abs_owned := insert a (abs_owned s)\<rparr>)"
| write_segment: "a \<in> abs_owned s \<union> abs_freed s \<Longrightarrow> await_step s (set_next a v s)"

definition ab_step :: "ab_sys \<Rightarrow> ab_sys \<Rightarrow> bool" where
  "ab_step s s' \<longleftrightarrow> visit_step s s' \<or> push_step s s' \<or> revisit_step s s' \<or> pop_step s s' \<or> await_step s s'"

definition ab_init :: "addr set \<Rightarrow> ab_sys" where
  "ab_init B = \<lparr>abs_top = 0, abs_version = 0, abs_visited = 0, abs_readers = 0, abs_next = (\<lambda>_. 0),
     abs_owned = B, abs_freed = {}, abs_pc = (\<lambda>_. AbOut)\<rparr>"

text \<open>
  The tag has 17 bits: no thread is held up between the read of the top and its swap while the
  stack is updated \<open>2 ^ 17\<close> times.
\<close>

fun ab_read :: "ab_pc \<Rightarrow> (u64 \<times> nat) option" where
  "ab_read (AbPopNext ts v) = Some (ts, v)"
| "ab_read (AbPopSwap ts n v) = Some (ts, v)"
| "ab_read _ = None"

definition ab_bounded :: "ab_sys \<Rightarrow> bool" where
  "ab_bounded s \<longleftrightarrow> (\<forall>t ts v. ab_read (abs_pc s t) = Some (ts, v) \<longrightarrow> abs_version s < v + 2 ^ 17)"

inductive ab_reach :: "addr set \<Rightarrow> ab_sys \<Rightarrow> bool" for B where
  ab_start: "ab_reach B (ab_init B)"
| ab_more: "\<lbrakk> ab_reach B s; ab_bounded s; ab_step s s' \<rbrakk> \<Longrightarrow> ab_reach B s'"

section \<open>Where the segments are\<close>

fun chain_to :: "(addr \<Rightarrow> addr) \<Rightarrow> addr \<Rightarrow> addr list \<Rightarrow> addr \<Rightarrow> bool" where
  "chain_to nx h [] e = (h = e)"
| "chain_to nx h (x # xs) e = (h = x \<and> x \<noteq> 0 \<and> chain_to nx (nx x) xs e)"

lemma chain_to_zero: "chain_to nx h xs 0 = chain nx h xs"
  by (induction xs arbitrary: h) auto

lemma chain_to_append: "chain_to nx h xs e \<Longrightarrow> chain nx e ys \<Longrightarrow> chain nx h (xs @ ys)"
  by (induction xs arbitrary: h) auto

lemma chain_to_upd_other [simp]: "b \<notin> set xs \<Longrightarrow> chain_to (nx(b := v)) h xs e = chain_to nx h xs e"
  by (induction xs arbitrary: h) auto

lemma chain_to_upd_last:
  assumes "chain_to nx h xs e" and "xs \<noteq> []" and "distinct xs"
  shows "chain_to (nx(last xs := v)) h xs v"
  using assms
proof (induction xs arbitrary: h)
  case (Cons x xs)
  then show ?case by (cases xs) auto
qed simp

lemma chain_walk:
  assumes "chain nx h xs" and "x \<in> set xs"
  shows "nx x \<noteq> 0 \<Longrightarrow> nx x \<in> set xs" and "nx x = 0 \<Longrightarrow> last xs = x"
  using assms
proof (induction xs arbitrary: h)
  case (Cons y xs)
  {
    case 1
    then show ?case using Cons chain_nonzero [of nx "nx y" xs] by (cases xs) auto
  next
    case 2
    then show ?case using Cons chain_nonzero [of nx "nx y" xs] by (cases xs) auto
  }
qed auto

text \<open>The place of a segment, and what the position of a thread says of the links.\<close>

datatype ab_place = Owned | Freed | Hand nat | Stacked | Visited | Moving nat

fun ab_hand :: "ab_pc \<Rightarrow> addr option" where
  "ab_hand (AbVisitRead a) = Some a"
| "ab_hand (AbVisitSwap a n) = Some a"
| "ab_hand (AbPushRead a) = Some a"
| "ab_hand (AbPushSwap a ts) = Some a"
| "ab_hand (AbPopLeave a) = (if a = 0 then None else Some a)"
| "ab_hand (AbPopClear a) = Some a"
| "ab_hand (AbAwait a) = Some a"
| "ab_hand (AbFree a) = Some a"
| "ab_hand _ = None"

fun ab_linked :: "(addr \<Rightarrow> addr) \<Rightarrow> ab_pc \<Rightarrow> bool" where
  "ab_linked nx (AbVisitSwap a n) = (nx a = n)"
| "ab_linked nx (AbPushSwap a ts) = (nx a = mi_tagged_segment_ptr ts)"
| "ab_linked nx _ = True"

fun ab_moving :: "(addr \<Rightarrow> addr) \<Rightarrow> ab_pc \<Rightarrow> addr list \<Rightarrow> bool" where
  "ab_moving nx (AbRevTop f) R = (R \<noteq> [] \<and> chain nx f R)"
| "ab_moving nx (AbRevSwap f ts) R = (R \<noteq> [] \<and> chain nx f R \<and> mi_tagged_segment_ptr ts = 0)"
| "ab_moving nx (AbRevWalk f l) R = (chain nx f R \<and> l \<in> set R)"
| "ab_moving nx (AbRevRead f l) R = (R \<noteq> [] \<and> last R = l \<and> (\<exists>e. chain_to nx f R e))"
| "ab_moving nx (AbRevPrepend f l ts) R = (R \<noteq> [] \<and> last R = l \<and> chain_to nx f R (mi_tagged_segment_ptr ts))"
| "ab_moving nx _ R = (R = [])"

text \<open>What a thread knows that read the top at version \<open>v\<close>.\<close>

definition ab_tag :: "u64 \<Rightarrow> nat" where
  "ab_tag ts = unat (ts AND MI_TAGGED_MASK)"

fun ab_current :: "ab_sys \<Rightarrow> ab_pc \<Rightarrow> bool" where
  "ab_current s (AbPopSwap ts n v) = (v = abs_version s \<longrightarrow> n = abs_next s (mi_tagged_segment_ptr ts))"
| "ab_current s _ = True"

definition ab_read_ok :: "ab_sys \<Rightarrow> ab_pc \<Rightarrow> bool" where
  "ab_read_ok s pc \<longleftrightarrow> (\<forall>ts v. ab_read pc = Some (ts, v) \<longrightarrow>
     mi_tagged_segment_ptr ts \<noteq> 0 \<and> v \<le> abs_version s \<and> ab_tag ts = v mod 2 ^ 17 \<and>
     (v = abs_version s \<longrightarrow> ts = abs_top s)) \<and> ab_current s pc"

definition ab_places ::
    "addr set \<Rightarrow> (addr \<Rightarrow> ab_place) \<Rightarrow> addr list \<Rightarrow> addr list \<Rightarrow> (nat \<Rightarrow> addr list) \<Rightarrow> ab_sys \<Rightarrow> bool" where
  "ab_places B loc A V R s \<longleftrightarrow>
     abs_owned s = {a \<in> B. loc a = Owned} \<and> abs_freed s = {a \<in> B. loc a = Freed} \<and>
     (\<forall>t a. ab_hand (abs_pc s t) = Some a \<longleftrightarrow> a \<in> B \<and> loc a = Hand t) \<and>
     set A = {a \<in> B. loc a = Stacked} \<and> set V = {a \<in> B. loc a = Visited} \<and>
     (\<forall>t. set (R t) = {a \<in> B. loc a = Moving t}) \<and> distinct A \<and> distinct V \<and> (\<forall>t. distinct (R t))"

definition ab_links :: "addr list \<Rightarrow> addr list \<Rightarrow> (nat \<Rightarrow> addr list) \<Rightarrow> ab_sys \<Rightarrow> bool" where
  "ab_links A V R s \<longleftrightarrow>
     chain (abs_next s) (mi_tagged_segment_ptr (abs_top s)) A \<and> chain (abs_next s) (abs_visited s) V \<and>
     ab_tag (abs_top s) = abs_version s mod 2 ^ 17 \<and>
     (\<forall>t. ab_linked (abs_next s) (abs_pc s t) \<and> ab_moving (abs_next s) (abs_pc s t) (R t) \<and> ab_read_ok s (abs_pc s t))"

definition ab_lists :: "addr set \<Rightarrow> ab_sys \<Rightarrow> bool" where
  "ab_lists B s \<longleftrightarrow> (\<exists>loc A V R. ab_places B loc A V R s \<and> ab_links A V R s)"

definition segments_ok :: "addr set \<Rightarrow> bool" where
  "segments_ok B \<longleftrightarrow> (\<forall>a \<in> B. a \<noteq> 0 \<and> a AND MI_SEGMENT_MASK = 0)"

lemma ab_listsI: "ab_places B loc A V R s \<Longrightarrow> ab_links A V R s \<Longrightarrow> ab_lists B s"
  by (auto simp: ab_lists_def)

lemma tagged_simps [simp]:
  "a AND MI_SEGMENT_MASK = 0 \<Longrightarrow> mi_tagged_segment_ptr (mi_tagged_segment a ts) = a"
  "a AND MI_SEGMENT_MASK = 0 \<Longrightarrow> ab_tag (mi_tagged_segment a ts) = (ab_tag ts + 1) mod 2 ^ 17"
  by (simp_all add: mi_tagged_segment_ptr_tagged mi_tagged_segment_tag ab_tag_def)

text \<open>The segment in the hand of a thread is on no list.\<close>

lemma ab_apart:
  assumes "ab_places B loc A V R s"
  shows "ab_hand (abs_pc s t) = Some a \<Longrightarrow> a \<in> B \<and> loc a = Hand t \<and> a \<notin> set A \<and> a \<notin> set V \<and> a \<notin> set (R u)"
    and "a \<in> abs_owned s \<union> abs_freed s \<Longrightarrow>
      a \<in> B \<and> a \<notin> set A \<and> a \<notin> set V \<and> a \<notin> set (R u) \<and> ab_hand (abs_pc s u) \<noteq> Some a"
    and "a \<in> set (R t) \<Longrightarrow> a \<in> B \<and> loc a = Moving t \<and> a \<notin> set A \<and> a \<notin> set V \<and> ab_hand (abs_pc s u) \<noteq> Some a"
    and "a \<in> set (R t) \<Longrightarrow> u \<noteq> t \<Longrightarrow> a \<notin> set (R u)"
  using assms by (auto simp: ab_places_def)

lemma ab_hand_one:
  assumes "ab_places B loc A V R s" and "ab_hand (abs_pc s t) = Some b" and "ab_hand (abs_pc s u) = Some b"
  shows "u = t"
  using assms unfolding ab_places_def by (metis ab_place.inject(1))

lemma ab_hand_none:
  assumes "ab_places B loc A V R s" and "ab_hand (abs_pc s t) = None"
  shows "x \<in> B \<Longrightarrow> loc x \<noteq> Hand t"
  using assms unfolding ab_places_def by (metis option.distinct(1))

lemma ab_moving_none: "ab_places B loc A V R s \<Longrightarrow> R t = [] \<Longrightarrow> x \<in> B \<Longrightarrow> loc x \<noteq> Moving t"
  unfolding ab_places_def by (metis (mono_tags, lifting) empty_iff list.set(1) mem_Collect_eq)

lemma ab_hand_only:
  assumes "ab_places B loc A V R s" and "ab_hand (abs_pc s t) = Some b"
  shows "x \<in> B \<Longrightarrow> x \<noteq> b \<Longrightarrow> loc x \<noteq> Hand t"
  using assms unfolding ab_places_def by (metis option.inject)

text \<open>Writing the link of a segment that is on no list, or the last one of a list that is moved.\<close>

lemma ab_linked_upd: "ab_hand pc \<noteq> Some b \<Longrightarrow> ab_linked (nx(b := v)) pc = ab_linked nx pc"
  by (cases pc) auto

lemma ab_moving_upd: "b \<notin> set R \<Longrightarrow> ab_moving (nx(b := v)) pc R = ab_moving nx pc R"
  by (cases pc) auto

lemma ab_read_ok_pc: "ab_read pc = None \<Longrightarrow> ab_read_ok s pc"
  by (cases pc) (auto simp: ab_read_ok_def)

lemma ab_read_ok_update [simp]: "ab_read_ok (s\<lparr>abs_pc := x\<rparr>) pc = ab_read_ok s pc"
  by (cases pc) (simp_all add: ab_read_ok_def)

lemma ab_read_ok_frame:
  assumes "ab_read_ok s pc" and "abs_version s' = abs_version s" and "abs_top s' = abs_top s"
    and "mi_tagged_segment_ptr (abs_top s) \<noteq> 0 \<Longrightarrow>
      abs_next s' (mi_tagged_segment_ptr (abs_top s)) = abs_next s (mi_tagged_segment_ptr (abs_top s))"
  shows "ab_read_ok s' pc"
  using assms by (cases pc) (auto simp: ab_read_ok_def)

lemma ab_read_ok_later:
  assumes "ab_read_ok s pc" and "abs_version s' = Suc (abs_version s)"
  shows "ab_read_ok s' pc"
  using assms by (cases pc) (auto simp: ab_read_ok_def)

text \<open>A step that changes neither the top nor a link.\<close>

lemma ab_links_go:
  assumes "ab_links A V R s" and "abs_top s' = abs_top s" and "abs_version s' = abs_version s"
    and "abs_visited s' = abs_visited s" and "abs_next s' = abs_next s" and "abs_pc s' = (abs_pc s)(t := pc)"
    and "ab_linked (abs_next s) pc" and "ab_moving (abs_next s) pc (R t)" and "ab_read_ok s pc"
  shows "ab_links A V R s'"
proof -
  have "ab_read_ok s' x" if "ab_read_ok s x" for x
    using that assms(2,3,5) by (elim ab_read_ok_frame) auto
  then have "ab_linked (abs_next s') (abs_pc s' u) \<and> ab_moving (abs_next s') (abs_pc s' u) (R u) \<and>
      ab_read_ok s' (abs_pc s' u)" for u
    using assms by (cases "u = t") (simp_all add: ab_links_def)
  then show ?thesis using assms(1-5) by (simp add: ab_links_def)
qed

lemma ab_places_go:
  assumes "ab_places B loc A V R s" and "abs_owned s' = abs_owned s" and "abs_freed s' = abs_freed s"
    and "abs_pc s' = (abs_pc s)(t := pc)" and "ab_hand pc = ab_hand (abs_pc s t)"
  shows "ab_places B loc A V R s'"
  using assms by (auto simp: ab_places_def)

text \<open>A step that writes one link, of a segment not on the stack.\<close>

lemma ab_links_write:
  assumes L: "ab_links A V R s" and s': "abs_top s' = abs_top s" "abs_version s' = abs_version s"
    "abs_visited s' = abs_visited s" "abs_next s' = (abs_next s)(b := v)" "abs_pc s' = (abs_pc s)(t := pc)"
    and b: "b \<notin> set A" "b \<notin> set V" "\<And>u. u \<noteq> t \<Longrightarrow> b \<notin> set (R u) \<and> ab_hand (abs_pc s u) \<noteq> Some b"
    and pc: "ab_linked (abs_next s') pc" "ab_moving (abs_next s') pc (R t)" "ab_read pc = None"
  shows "ab_links A V R s'"
proof -
  have ch: "chain (abs_next s) (mi_tagged_segment_ptr (abs_top s)) A" using L by (simp add: ab_links_def)
  have "mi_tagged_segment_ptr (abs_top s) \<noteq> 0 \<Longrightarrow> mi_tagged_segment_ptr (abs_top s) \<noteq> b"
    using ch b(1) by (cases A) auto
  then have rd: "ab_read_ok s' x" if "ab_read_ok s x" for x
    using that s' by (elim ab_read_ok_frame) auto
  have "ab_linked (abs_next s') (abs_pc s' u) \<and> ab_moving (abs_next s') (abs_pc s' u) (R u) \<and>
      ab_read_ok s' (abs_pc s' u)" for u
  proof (cases "u = t")
    case True
    then show ?thesis using pc s'(5) by (simp add: ab_read_ok_pc)
  next
    case False
    then show ?thesis using L b(3) [OF False] rd s'(4,5) by (simp add: ab_links_def ab_linked_upd ab_moving_upd)
  qed
  then show ?thesis using L b(1,2) s'(1-4) by (simp add: ab_links_def)
qed

text \<open>A step that changes the top: what other threads read before is out of date.\<close>

lemma ab_links_top:
  assumes L: "ab_links A V R s" and s': "abs_top s' = mi_tagged_segment h (abs_top s)"
    "abs_version s' = Suc (abs_version s)" "abs_visited s' = abs_visited s" "abs_next s' = abs_next s"
    "abs_pc s' = (abs_pc s)(t := pc)"
    and h: "h AND MI_SEGMENT_MASK = 0" "chain (abs_next s) h A'"
    and pc: "ab_linked (abs_next s) pc" "ab_moving (abs_next s) pc (R' t)" "ab_read pc = None"
    and R: "\<And>u. u \<noteq> t \<Longrightarrow> R' u = R u"
  shows "ab_links A' V R' s'"
proof -
  have rd: "ab_read_ok s' x" if "ab_read_ok s x" for x
    using that s'(2) by (rule ab_read_ok_later)
  have "ab_linked (abs_next s') (abs_pc s' u) \<and> ab_moving (abs_next s') (abs_pc s' u) (R' u) \<and>
      ab_read_ok s' (abs_pc s' u)" for u
  proof (cases "u = t")
    case True
    then show ?thesis using pc s'(4,5) by (simp add: ab_read_ok_pc)
  next
    case False
    then show ?thesis using L R [OF False] rd s'(4,5) by (simp add: ab_links_def)
  qed
  moreover have "ab_tag (abs_top s') = abs_version s' mod 2 ^ 17"
    using L s'(1,2) h(1) by (simp add: ab_links_def mod_Suc_eq)
  ultimately show ?thesis using L h s'(1-4) by (simp add: ab_links_def)
qed

lemma ab_links_visited:
  assumes L: "ab_links A V R s" and ch: "chain (abs_next s) v V'"
  shows "ab_links A V' R (s\<lparr>abs_visited := v\<rparr>)"
proof -
  have "ab_read_ok (s\<lparr>abs_visited := v\<rparr>) x" if "ab_read_ok s x" for x
    using that by (elim ab_read_ok_frame) simp_all
  then show ?thesis using L ch by (simp add: ab_links_def)
qed

text \<open>A thread takes a segment of the program, or keeps what it has.\<close>

lemma ab_lists_take:
  assumes P: "ab_places B loc A V R s" and L: "ab_links A V R s" and t: "abs_pc s t = AbOut"
    and a: "a \<in> abs_owned s" and pc: "ab_hand pc = Some a" "ab_linked (abs_next s) pc"
    "ab_moving (abs_next s) pc []" "ab_read pc = None"
  shows "ab_lists B (go t pc (s\<lparr>abs_owned := abs_owned s - {a}\<rparr>))" (is "ab_lists B ?s")
proof -
  have "ab_places B (loc(a := Hand t)) A V R ?s"
    using P pc(1) t ab_apart(2) [OF P, of a] a ab_hand_none [OF P, of t] unfolding ab_places_def by auto
  moreover have "R t = []" using L t unfolding ab_links_def by (metis ab_moving.simps(6))
  then have "ab_links A V R ?s"
    by (intro ab_links_go [OF L, where t = t and pc = pc]) (simp_all add: pc ab_read_ok_pc)
  ultimately show ?thesis by (rule ab_listsI)
qed

lemma ab_lists_go:
  assumes P: "ab_places B loc A V R s" and L: "ab_links A V R s" and "ab_hand pc = ab_hand (abs_pc s t)"
    and "ab_linked (abs_next s) pc" "ab_moving (abs_next s) pc (R t)" "ab_read_ok s pc"
  shows "ab_lists B (go t pc s)"
proof (rule ab_listsI)
  show "ab_places B loc A V R (go t pc s)"
    by (rule ab_places_go [OF P, where t = t and pc = pc]) (simp_all add: assms)
  show "ab_links A V R (go t pc s)"
    by (rule ab_links_go [OF L, where t = t and pc = pc]) (simp_all add: assms)
qed

lemma ab_lists_write:
  assumes P: "ab_places B loc A V R s" and L: "ab_links A V R s" and b: "ab_hand (abs_pc s t) = Some b"
    and pc: "ab_hand pc = Some b" "ab_linked ((abs_next s)(b := v)) pc" "ab_read pc = None"
    "\<And>nx. ab_moving nx pc (R t)"
  shows "ab_lists B (go t pc (set_next b v s))" (is "ab_lists B ?s")
proof (rule ab_listsI)
  show "ab_places B loc A V R ?s"
    by (rule ab_places_go [OF P, where t = t and pc = pc]) (simp_all add: b pc(1))
  show "ab_links A V R ?s"
    by (rule ab_links_write [OF L, where t = t and pc = pc and b = b and v = v])
      (use ab_apart(1) [OF P b] ab_hand_one [OF P b] pc in auto)
qed

section \<open>Every step keeps the lists\<close>

lemma visit_step_lists:
  assumes "visit_step s s'" and I: "ab_lists B s" and B: "segments_ok B"
  shows "ab_lists B s'"
proof -
  obtain loc A V R where P: "ab_places B loc A V R s" and L: "ab_links A V R s"
    using I by (auto simp: ab_lists_def)
  have M: "ab_linked (abs_next s) (abs_pc s t) \<and> ab_moving (abs_next s) (abs_pc s t) (R t)" for t
    using L by (simp add: ab_links_def)
  from assms(1) show ?thesis
  proof cases
    case (visit_enter t a)
    show ?thesis
      unfolding visit_enter(1) by (rule ab_lists_take [OF P L]) (use visit_enter in simp_all)
  next
    case (visit_read t a)
    show ?thesis
      unfolding visit_read(1) by (rule ab_lists_write [OF P L]) (use visit_read M [of t] in simp_all)
  next
    case (visit_swap t a n)
    have a: "a \<in> B" "a \<notin> set V" "loc a = Hand t" "a \<noteq> 0" "abs_next s a = abs_visited s"
      using ab_apart(1) [OF P, of t a] visit_swap B M [of t] by (auto simp: segments_ok_def)
    have "ab_places B (loc(a := Visited)) A (a # V) R s'"
      using P a visit_swap ab_hand_only [OF P, of t a] unfolding ab_places_def by auto
    moreover have "ab_links A (a # V) R (s\<lparr>abs_visited := a\<rparr>)"
      by (rule ab_links_visited [OF L]) (use L a in \<open>simp add: ab_links_def\<close>)
    then have "ab_links A (a # V) R s'"
      by (rule ab_links_go [where t = t and pc = AbOut]) (use visit_swap M [of t] in \<open>simp_all add: ab_read_ok_pc\<close>)
    ultimately show ?thesis by (rule ab_listsI)
  next
    case (visit_fail t a n)
    show ?thesis
      unfolding visit_fail(1) by (rule ab_lists_go [OF P L]) (use visit_fail M [of t] in \<open>simp_all add: ab_read_ok_pc\<close>)
  qed
qed

lemma push_step_lists:
  assumes "push_step s s'" and I: "ab_lists B s" and B: "segments_ok B"
  shows "ab_lists B s'"
proof -
  obtain loc A V R where P: "ab_places B loc A V R s" and L: "ab_links A V R s"
    using I by (auto simp: ab_lists_def)
  have M: "ab_linked (abs_next s) (abs_pc s t) \<and> ab_moving (abs_next s) (abs_pc s t) (R t)" for t
    using L by (simp add: ab_links_def)
  from assms(1) show ?thesis
  proof cases
    case (push_enter t a)
    show ?thesis
      unfolding push_enter(1) by (rule ab_lists_take [OF P L]) (use push_enter in simp_all)
  next
    case (push_read t a)
    show ?thesis
      unfolding push_read(1) by (rule ab_lists_write [OF P L]) (use push_read M [of t] in simp_all)
  next
    case (push_swap t a ts)
    have a: "a \<in> B" "a \<notin> set A" "loc a = Hand t" "a \<noteq> 0" "a AND MI_SEGMENT_MASK = 0"
      "abs_next s a = mi_tagged_segment_ptr (abs_top s)"
      using ab_apart(1) [OF P, of t a] push_swap B M [of t] by (auto simp: segments_ok_def)
    have "ab_places B (loc(a := Stacked)) (a # A) V R s'"
      using P a push_swap ab_hand_only [OF P, of t a] unfolding ab_places_def by auto
    moreover have "ab_links (a # A) V R s'"
      by (rule ab_links_top [OF L, where t = t and h = a])
        (use push_swap a M [of t] L in \<open>auto simp: ab_links_def\<close>)
    ultimately show ?thesis by (rule ab_listsI)
  next
    case (push_fail t a ts)
    show ?thesis
      unfolding push_fail(1) by (rule ab_lists_go [OF P L]) (use push_fail M [of t] in \<open>simp_all add: ab_read_ok_pc\<close>)
  qed
qed

lemma ab_lists_top:
  assumes P: "ab_places B loc' A' V R' s'" and L: "ab_links A V R s"
    and s': "s' = go t pc (set_top (mi_tagged_segment h (abs_top s)) s)"
    and "h AND MI_SEGMENT_MASK = 0" "chain (abs_next s) h A'" "ab_linked (abs_next s) pc"
    "ab_moving (abs_next s) pc (R' t)" "ab_read pc = None" "\<And>u. u \<noteq> t \<Longrightarrow> R' u = R u"
  shows "ab_lists B s'"
proof (rule ab_listsI [OF P])
  show "ab_links A' V R' s'"
    by (rule ab_links_top [OF L, where t = t and pc = pc and h = h]) (simp_all add: assms)
qed

lemma revisit_step_lists:
  assumes "revisit_step s s'" and I: "ab_lists B s" and B: "segments_ok B"
  shows "ab_lists B s'"
proof -
  obtain loc A V R where P: "ab_places B loc A V R s" and L: "ab_links A V R s"
    using I by (auto simp: ab_lists_def)
  have M: "ab_linked (abs_next s) (abs_pc s t) \<and> ab_moving (abs_next s) (abs_pc s t) (R t)" for t
    using L by (simp add: ab_links_def)
  note go = ab_lists_go [OF P L] and simps = ab_read_ok_pc
  from assms(1) show ?thesis
  proof cases
    case (rev_take t)
    let ?loc = "\<lambda>a. if loc a = Visited then Moving t else loc a" and ?R = "R(t := V)"
    have V: "chain (abs_next s) (abs_visited s) V" and R: "R t = []" using L M [of t] rev_take by (auto simp: ab_links_def)
    have "V \<noteq> []" using V rev_take(3) by auto
    have "x \<in> B \<Longrightarrow> loc x \<noteq> Moving t \<and> loc x \<noteq> Hand t" for x
      using ab_moving_none [OF P R] ab_hand_none [OF P, of t] rev_take(2) by simp
    then have p: "ab_places B ?loc A [] ?R (go t AbRevTake (s\<lparr>abs_visited := 0\<rparr>))"
      using P rev_take R unfolding ab_places_def by auto
    have "ab_links A [] R (s\<lparr>abs_visited := 0\<rparr>)" by (rule ab_links_visited [OF L]) simp
    then have "ab_links A [] ?R s'"
      unfolding rev_take(1) ab_links_def using V \<open>V \<noteq> []\<close> by (auto simp: ab_read_ok_pc)
    moreover have "ab_places B ?loc A [] ?R s'"
      by (rule ab_places_go [OF p, where t = t and pc = "AbRevTop (abs_visited s)"]) (simp_all add: rev_take)
    ultimately show ?thesis by (rule ab_listsI [rotated])
  next
    case (rev_swap t f ts)
    let ?loc = "\<lambda>a. if loc a = Moving t then Stacked else loc a" and ?R = "R(t := [])"
    have m: "R t \<noteq> []" "chain (abs_next s) f (R t)" "mi_tagged_segment_ptr (abs_top s) = 0"
      using M [of t] rev_swap by auto
    have A: "A = []" using L m(3) by (simp add: ab_links_def)
    have f: "f AND MI_SEGMENT_MASK = 0"
      using m(1,2) ab_apart(3) [OF P, of f t] B by (cases "R t") (auto simp: segments_ok_def)
    have p: "ab_places B ?loc (R t) V ?R s'"
      using P A rev_swap ab_hand_none [OF P, of t] unfolding ab_places_def by auto
    show ?thesis by (rule ab_lists_top [OF p L, where h = f]) (use rev_swap m f in auto)
  next
    case (rev_read t f l)
    have m: "R t \<noteq> []" "last (R t) = l" "\<exists>e. chain_to (abs_next s) f (R t) e" using M [of t] rev_read by auto
    have l: "l \<in> set (R t)" using m last_in_set by blast
    have d: "distinct (R t)" using P by (simp add: ab_places_def)
    show ?thesis
    proof (rule ab_listsI)
      show "ab_places B loc A V R s'"
        by (rule ab_places_go [OF P, where t = t and pc = "AbRevPrepend f l (abs_top s)"]) (simp_all add: rev_read)
      have "chain_to ((abs_next s)(l := v)) f (R t) v" for v
        using m chain_to_upd_last [of "abs_next s" f "R t"] d by auto
      then show "ab_links A V R s'"
        by (intro ab_links_write [OF L, where t = t and b = l and pc = "AbRevPrepend f l (abs_top s)"
              and v = "mi_tagged_segment_ptr (abs_top s)"])
          (use ab_apart(3) [OF P l] ab_apart(4) [OF P l] rev_read m in auto)
    qed
  next
    case (rev_prepend t f l ts)
    let ?loc = "\<lambda>a. if loc a = Moving t then Stacked else loc a" and ?R = "R(t := [])"
    have m: "R t \<noteq> []" "chain_to (abs_next s) f (R t) (mi_tagged_segment_ptr (abs_top s))"
      using M [of t] rev_prepend by auto
    have ch: "chain (abs_next s) f (R t @ A)"
      using chain_to_append [OF m(2)] L by (simp add: ab_links_def)
    have f: "f AND MI_SEGMENT_MASK = 0"
      using m ab_apart(3) [OF P, of f t] B by (cases "R t") (auto simp: segments_ok_def)
    have p: "ab_places B ?loc (R t @ A) V ?R s'"
      using P rev_prepend ab_hand_none [OF P, of t] unfolding ab_places_def by auto
    show ?thesis by (rule ab_lists_top [OF p L, where h = f]) (use rev_prepend ch f in auto)
  next
    case (rev_walk t f l)
    then show ?thesis
      unfolding rev_walk(1) using M [of t] chain_walk(1) [of "abs_next s" f "R t" l]
      by (intro go) (simp_all add: simps)
  next
    case (rev_last t f l)
    then have "chain (abs_next s) f (R t)" "l \<in> set (R t)" using M [of t] by auto
    moreover have "R t \<noteq> [] \<and> last (R t) = l \<and> (\<exists>e. chain_to (abs_next s) f (R t) e)"
      using calculation chain_walk(2) [of "abs_next s" f "R t" l] rev_last(3) chain_to_zero [of "abs_next s" f "R t"]
      by (metis empty_iff list.set(1))
    ultimately show ?thesis
      unfolding rev_last(1) using rev_last(2) by (intro go) (simp_all add: simps)
  next
    case (rev_top_some t f)
    then have "R t \<noteq> []" "chain (abs_next s) f (R t)" using M [of t] by auto
    then have "f \<in> set (R t)" by (cases "R t") auto
    then show ?thesis
      unfolding rev_top_some(1) using M [of t] rev_top_some(2) by (intro go) (simp_all add: simps)
  next
    case (rev_swap_fail t f ts)
    then have "R t \<noteq> []" "chain (abs_next s) f (R t)" using M [of t] by auto
    then have "f \<in> set (R t)" by (cases "R t") auto
    then show ?thesis
      unfolding rev_swap_fail(1) using M [of t] rev_swap_fail(2) by (intro go) (simp_all add: simps)
  next
    case (rev_none t)
    then show ?thesis unfolding rev_none(1) using M [of t] by (intro go) (simp_all add: simps)
  next
    case (rev_some t)
    then show ?thesis unfolding rev_some(1) using M [of t] by (intro go) (simp_all add: simps)
  next
    case (rev_take_none t)
    then show ?thesis unfolding rev_take_none(1) using M [of t] by (intro go) (simp_all add: simps)
  next
    case (rev_top_null t f)
    then show ?thesis unfolding rev_top_null(1) using M [of t] by (intro go) (simp_all add: simps)
  next
    case (rev_prepend_fail t f l ts)
    then show ?thesis unfolding rev_prepend_fail(1) using M [of t] by (intro go) (auto simp: simps)
  qed
qed

lemma readers_simps [simp]:
  "ab_places B loc A V R (s\<lparr>abs_readers := r\<rparr>) = ab_places B loc A V R s"
  "ab_read_ok (s\<lparr>abs_readers := r\<rparr>) pc = ab_read_ok s pc"
  "ab_links A V R (s\<lparr>abs_readers := r\<rparr>) = ab_links A V R s"
proof -
  show rd: "ab_read_ok (s\<lparr>abs_readers := r\<rparr>) pc = ab_read_ok s pc" for pc
    by (cases pc) (simp_all add: ab_read_ok_def)
  show "ab_places B loc A V R (s\<lparr>abs_readers := r\<rparr>) = ab_places B loc A V R s" by (simp add: ab_places_def)
  show "ab_links A V R (s\<lparr>abs_readers := r\<rparr>) = ab_links A V R s" by (simp add: ab_links_def rd)
qed

text \<open>With fewer than \<open>2 ^ 17\<close> updates since the read, the same top is the same version.\<close>

lemma same_version:
  assumes "ab_bounded s" and "ab_links A V R s" and "ab_read (abs_pc s t) = Some (abs_top s, v)"
  shows "v = abs_version s"
proof -
  have "abs_version s < v + 2 ^ 17" using assms(1,3) by (simp add: ab_bounded_def)
  moreover have "v \<le> abs_version s" "v mod 2 ^ 17 = abs_version s mod 2 ^ 17"
    using assms(2,3) unfolding ab_links_def ab_read_ok_def by metis+
  then have "2 ^ 17 dvd abs_version s - v" by (metis mod_eq_dvd_iff_nat)
  then have "abs_version s - v = 0 \<or> 2 ^ 17 \<le> abs_version s - v" using dvd_imp_le by blast
  ultimately show ?thesis using \<open>v \<le> abs_version s\<close> by linarith
qed

lemma pop_step_lists:
  assumes "pop_step s s'" and I: "ab_lists B s" and B: "segments_ok B" and bd: "ab_bounded s"
  shows "ab_lists B s'"
proof -
  obtain loc A V R where P: "ab_places B loc A V R s" and L: "ab_links A V R s"
    using I by (auto simp: ab_lists_def)
  have M: "ab_linked (abs_next s) (abs_pc s t) \<and> ab_moving (abs_next s) (abs_pc s t) (R t) \<and>
      ab_read_ok s (abs_pc s t)" for t
    using L by (simp add: ab_links_def)
  have P': "ab_places B loc A V R (s\<lparr>abs_readers := r\<rparr>)" and L': "ab_links A V R (s\<lparr>abs_readers := r\<rparr>)" for r
    using P L by simp_all
  note go = ab_lists_go [OF P L] and go' = ab_lists_go [OF P' L'] and simps = ab_read_ok_pc
  from assms(1) show ?thesis
  proof cases
    case (pop_swap t ts n v)
    let ?a = "mi_tagged_segment_ptr ts"
    have "v = abs_version s" by (rule same_version [OF bd L, of t]) (use pop_swap in simp)
    then have a: "?a \<noteq> 0" "n = abs_next s ?a" using M [of t] pop_swap(2) by (auto simp: ab_read_ok_def)
    obtain A' where A: "A = ?a # A'" and ch: "chain (abs_next s) n A'"
      using L a pop_swap(3) by (cases A) (auto simp: ab_links_def)
    have AB: "set A \<subseteq> B" and d: "distinct A" "?a \<in> B" "loc ?a = Stacked" using P A by (auto simp: ab_places_def)
    have n: "n AND MI_SEGMENT_MASK = 0" using ch AB B A by (cases A') (auto simp: segments_ok_def)
    have "ab_places B (loc(?a := Hand t)) A' V R s'"
      using P A d a pop_swap ab_hand_none [OF P, of t] unfolding ab_places_def by auto
    then show ?thesis
      by (rule ab_lists_top [OF _ L, where h = n and t = t and pc = "AbPopLeave ?a"])
        (use pop_swap n ch M [of t] in simp_all)
  next
    case (pop_clear t a)
    have a: "a \<in> B" "loc a = Hand t" "R t = []" using ab_apart(1) [OF P, of t a] pop_clear M [of t] by auto
    show ?thesis
    proof (rule ab_listsI)
      show "ab_places B (loc(a := Owned)) A V R s'"
        using P a pop_clear ab_hand_only [OF P, of t a] unfolding ab_places_def by auto
      have rd: "ab_read_ok (s\<lparr>abs_owned := x\<rparr>) pc = ab_read_ok s pc" for x pc
        by (cases pc) (simp_all add: ab_read_ok_def)
      have "ab_links A V R (s\<lparr>abs_owned := insert a (abs_owned s)\<rparr>)"
        using L by (simp add: ab_links_def rd)
      then show "ab_links A V R s'"
        by (rule ab_links_write [where t = t and pc = AbOut and b = a and v = 0])
          (use ab_apart(1) [OF P, of t a] ab_hand_one [OF P, of t a] pop_clear a in auto)
    qed
  next
    case (pop_read t)
    then show ?thesis
      unfolding pop_read(1) using M [of t] L by (intro go) (simp_all add: ab_read_ok_def ab_links_def)
  next
    case (pop_next t ts v)
    then show ?thesis unfolding pop_next(1) using M [of t] by (intro go) (auto simp: ab_read_ok_def)
  next
    case (pop_enter t)
    then show ?thesis unfolding pop_enter(1) using M [of t] by (intro go) (simp_all add: simps)
  next
    case (pop_check_null t)
    then show ?thesis unfolding pop_check_null(1) using M [of t] by (intro go) (simp_all add: simps)
  next
    case (pop_check_some t)
    then show ?thesis unfolding pop_check_some(1) using M [of t] by (intro go) (simp_all add: simps)
  next
    case (pop_read_null t)
    then show ?thesis unfolding pop_read_null(1) using M [of t] by (intro go) (simp_all add: simps)
  next
    case (pop_swap_fail t ts n v)
    then show ?thesis unfolding pop_swap_fail(1) using M [of t] by (intro go) (simp_all add: simps)
  next
    case (pop_count t)
    then show ?thesis
      using M [of t] go' [of AbPopRead "abs_readers s + 1" t] by (simp add: simps)
  next
    case (pop_leave_null t)
    then show ?thesis
      using M [of t] go' [of AbOut "abs_readers s - 1" t] by (simp add: simps)
  next
    case (pop_leave t a)
    then show ?thesis
      using M [of t] go' [of "AbPopClear a" "abs_readers s - 1" t] by (simp add: simps)
  qed
qed

lemma await_step_lists:
  assumes "await_step s s'" and I: "ab_lists B s"
  shows "ab_lists B s'"
proof -
  obtain loc A V R where P: "ab_places B loc A V R s" and L: "ab_links A V R s"
    using I by (auto simp: ab_lists_def)
  have M: "ab_linked (abs_next s) (abs_pc s t) \<and> ab_moving (abs_next s) (abs_pc s t) (R t)" for t
    using L by (simp add: ab_links_def)
  have rd: "ab_read_ok (s\<lparr>abs_freed := x\<rparr>) pc = ab_read_ok s pc"
    "ab_read_ok (s\<lparr>abs_freed := x, abs_owned := y\<rparr>) pc = ab_read_ok s pc" for x y pc
    by (cases pc; simp add: ab_read_ok_def)+
  from assms(1) show ?thesis
  proof cases
    case (await_enter t a)
    then show ?thesis
      unfolding await_enter(1) by (intro ab_lists_take [OF P L]) (simp_all add: ab_read_ok_pc)
  next
    case (await_done t a)
    then show ?thesis
      unfolding await_done(1) using M [of t] by (intro ab_lists_go [OF P L]) (simp_all add: ab_read_ok_pc)
  next
    case (await_free t a)
    have a: "a \<in> B" "loc a = Hand t" "R t = []" using ab_apart(1) [OF P, of t a] await_free M [of t] by auto
    have "ab_places B (loc(a := Freed)) A V R s'"
      using P a await_free ab_hand_only [OF P, of t a] unfolding ab_places_def by auto
    moreover have "ab_links A V R (s\<lparr>abs_freed := insert a (abs_freed s)\<rparr>)" using L by (simp add: ab_links_def rd)
    then have "ab_links A V R s'"
      by (rule ab_links_go [where t = t and pc = AbOut]) (simp_all add: await_free a ab_read_ok_pc)
    ultimately show ?thesis by (rule ab_listsI)
  next
    case (get_again a)
    have a: "a \<in> B" "loc a = Freed" using P get_again by (auto simp: ab_places_def)
    have "ab_places B (loc(a := Owned)) A V R s'"
      using P a get_again unfolding ab_places_def by auto
    moreover have "ab_links A V R s'" using L by (simp add: get_again(1) ab_links_def rd)
    ultimately show ?thesis by (rule ab_listsI)
  next
    case (write_segment a v)
    have "ab_links A V R s'"
    proof -
      have a: "a \<notin> set A" "a \<notin> set V" "a \<notin> set (R u)" "ab_hand (abs_pc s u) \<noteq> Some a" for u
        using ab_apart(2) [OF P write_segment(2)] by blast+
      have ch: "chain (abs_next s) (mi_tagged_segment_ptr (abs_top s)) A" using L by (simp add: ab_links_def)
      have "mi_tagged_segment_ptr (abs_top s) \<noteq> 0 \<Longrightarrow> mi_tagged_segment_ptr (abs_top s) \<noteq> a"
        using ch a(1) by (cases A) auto
      then have "ab_read_ok s' x" if "ab_read_ok s x" for x
        using that by (elim ab_read_ok_frame) (auto simp: write_segment(1))
      then show ?thesis
        using L a unfolding ab_links_def by (simp add: write_segment(1) ab_linked_upd ab_moving_upd)
    qed
    moreover have "ab_places B loc A V R s'" using P by (simp add: write_segment(1) ab_places_def)
    ultimately show ?thesis by (rule ab_listsI [rotated])
  qed
qed

section \<open>The readers\<close>

fun ab_reader :: "ab_pc \<Rightarrow> bool" where
  "ab_reader AbPopRead = True"
| "ab_reader (AbPopNext ts v) = True"
| "ab_reader (AbPopSwap ts n v) = True"
| "ab_reader (AbPopLeave a) = True"
| "ab_reader _ = False"

definition ab_counted :: "ab_sys \<Rightarrow> bool" where
  "ab_counted s \<longleftrightarrow> finite {t. ab_reader (abs_pc s t)} \<and> abs_readers s = card {t. ab_reader (abs_pc s t)}"

lemma ab_counted_same:
  assumes "ab_counted s" and "abs_readers s' = abs_readers s" and "abs_pc s' = (abs_pc s)(t := pc)"
    and "ab_reader pc = ab_reader (abs_pc s t)"
  shows "ab_counted s'"
proof -
  have "{u. ab_reader (abs_pc s' u)} = {u. ab_reader (abs_pc s u)}" using assms(3,4) by auto
  then show ?thesis using assms(1,2) by (simp add: ab_counted_def)
qed

lemma ab_counted_go:
  assumes "ab_counted s" and "abs_readers s0 = abs_readers s" and "abs_pc s0 = abs_pc s"
    and "ab_reader pc = ab_reader (abs_pc s t)"
  shows "ab_counted (go t pc s0)"
  by (rule ab_counted_same [where t = t and pc = pc, OF assms(1)]) (simp_all add: assms)

lemma ab_counted_in:
  assumes "ab_counted s" and "abs_readers s' = abs_readers s + 1" and "abs_pc s' = (abs_pc s)(t := pc)"
    and "ab_reader pc" and "\<not> ab_reader (abs_pc s t)"
  shows "ab_counted s'"
proof -
  have "{u. ab_reader (abs_pc s' u)} = insert t {u. ab_reader (abs_pc s u)}" using assms(3,4) by auto
  then show ?thesis using assms(1,2,5) by (simp add: ab_counted_def)
qed

lemma ab_counted_out:
  assumes "ab_counted s" and "abs_readers s' = abs_readers s - 1" and "abs_pc s' = (abs_pc s)(t := pc)"
    and "\<not> ab_reader pc" and "ab_reader (abs_pc s t)"
  shows "ab_counted s'"
proof -
  have "{u. ab_reader (abs_pc s' u)} = {u. ab_reader (abs_pc s u)} - {t}" using assms(3,4) by auto
  then show ?thesis using assms(1,2,5) by (simp add: ab_counted_def)
qed

lemma pop_step_counted:
  assumes "pop_step s s'" and C: "ab_counted s"
  shows "ab_counted s'"
  using assms(1)
proof cases
  case (pop_count t)
  then show ?thesis by (intro ab_counted_in [OF C, where t = t and pc = AbPopRead]) simp_all
next
  case (pop_leave_null t)
  then show ?thesis by (intro ab_counted_out [OF C, where t = t and pc = AbOut]) simp_all
next
  case (pop_leave t a)
  then show ?thesis by (intro ab_counted_out [OF C, where t = t and pc = "AbPopClear a"]) simp_all
qed (simp only:, rule ab_counted_go [OF C]; simp)+

lemma other_step_counted:
  assumes "visit_step s s' \<or> push_step s s' \<or> revisit_step s s' \<or> await_step s s'" and C: "ab_counted s"
  shows "ab_counted s'"
  using assms(1)
proof (elim disjE)
  show "visit_step s s' \<Longrightarrow> ab_counted s'"
    by (erule visit_step.cases) (simp only:, rule ab_counted_go [OF C]; simp)+
  show "push_step s s' \<Longrightarrow> ab_counted s'"
    by (erule push_step.cases) (simp only:, rule ab_counted_go [OF C]; simp)+
  show "revisit_step s s' \<Longrightarrow> ab_counted s'"
    by (erule revisit_step.cases) (simp only:, rule ab_counted_go [OF C]; simp)+
  show "await_step s s' \<Longrightarrow> ab_counted s'"
    by (erule await_step.cases)
      ((simp only:, rule ab_counted_go [OF C]; simp) | (use C in \<open>simp add: ab_counted_def\<close>))+
qed

text \<open>A segment whose link a thread is about to read has not been given back.\<close>

definition ab_live :: "addr set \<Rightarrow> ab_sys \<Rightarrow> bool" where
  "ab_live B s \<longleftrightarrow> (\<forall>t ts v. abs_pc s t = AbPopNext ts v \<longrightarrow>
     mi_tagged_segment_ptr ts \<in> B \<and> mi_tagged_segment_ptr ts \<notin> abs_freed s \<and>
     (\<forall>u. abs_pc s u \<noteq> AbFree (mi_tagged_segment_ptr ts)))"

lemma ab_live_go:
  assumes "ab_live B s" and "abs_pc s0 = abs_pc s" and "abs_freed s0 = abs_freed s"
    and "\<And>ts v. pc \<noteq> AbPopNext ts v" and "\<And>a. pc \<noteq> AbFree a"
  shows "ab_live B (go t pc s0)"
  using assms by (auto simp: ab_live_def)

lemma pop_step_live:
  assumes "pop_step s s'" and I: "ab_lists B s" and V: "ab_live B s"
  shows "ab_live B s'"
  using assms(1)
proof cases
  case (pop_read t)
  obtain loc A Vs R where P: "ab_places B loc A Vs R s" and L: "ab_links A Vs R s"
    using I by (auto simp: ab_lists_def)
  let ?a = "mi_tagged_segment_ptr (abs_top s)"
  have "?a \<in> set A" using L pop_read(3) by (cases A) (auto simp: ab_links_def)
  then have "?a \<in> B" "?a \<notin> abs_freed s" "\<forall>u. ab_hand (abs_pc s u) \<noteq> Some ?a"
    using P by (auto simp: ab_places_def)
  then have "?a \<in> B \<and> ?a \<notin> abs_freed s \<and> (\<forall>u. abs_pc s u \<noteq> AbFree ?a)" by (metis ab_hand.simps(8))
  then show ?thesis using V pop_read(1) by (auto simp: ab_live_def)
qed (simp only:, rule ab_live_go [OF V]; simp)+

lemma await_step_live:
  assumes "await_step s s'" and C: "ab_counted s" and V: "ab_live B s"
  shows "ab_live B s'"
  using assms(1)
proof cases
  case (await_done t a)
  then have "\<not> ab_reader (abs_pc s u)" for u using C by (auto simp: ab_counted_def)
  then have "abs_pc s u \<noteq> AbPopNext ts v" for u ts v by (metis ab_reader.simps(2))
  then show ?thesis using await_done(1) by (auto simp: ab_live_def)
next
  case (await_free t a)
  then show ?thesis using V by (auto simp: ab_live_def)
next
  case (get_again a)
  then show ?thesis using V by (auto simp: ab_live_def)
next
  case (write_segment a v)
  then show ?thesis using V by (auto simp: ab_live_def)
qed (simp only:, rule ab_live_go [OF V]; simp)

lemma list_step_live:
  assumes "visit_step s s' \<or> push_step s s' \<or> revisit_step s s'" and V: "ab_live B s"
  shows "ab_live B s'"
  using assms(1)
proof (elim disjE)
  show "visit_step s s' \<Longrightarrow> ab_live B s'"
    by (erule visit_step.cases) (simp only:, rule ab_live_go [OF V]; simp)+
  show "push_step s s' \<Longrightarrow> ab_live B s'"
    by (erule push_step.cases) (simp only:, rule ab_live_go [OF V]; simp)+
  show "revisit_step s s' \<Longrightarrow> ab_live B s'"
    by (erule revisit_step.cases) (simp only:, rule ab_live_go [OF V]; simp)+
qed

section \<open>Reachable states\<close>

lemma ab_step_inv:
  assumes "ab_step s s'" and "ab_lists B s \<and> ab_counted s \<and> ab_live B s" and "segments_ok B" and "ab_bounded s"
  shows "ab_lists B s' \<and> ab_counted s' \<and> ab_live B s'"
proof -
  have I: "ab_lists B s" "ab_counted s" "ab_live B s" using assms(2) by blast+
  consider (v) "visit_step s s'" | (p) "push_step s s'" | (r) "revisit_step s s'" | (o) "pop_step s s'" | (a) "await_step s s'"
    using assms(1) unfolding ab_step_def by blast
  then show ?thesis
  proof cases
    case v
    then show ?thesis using visit_step_lists I assms(3) other_step_counted list_step_live by blast
  next
    case p
    then show ?thesis using push_step_lists I assms(3) other_step_counted list_step_live by blast
  next
    case r
    then show ?thesis using revisit_step_lists I assms(3) other_step_counted list_step_live by blast
  next
    case o
    then show ?thesis using pop_step_lists I assms(3,4) pop_step_counted pop_step_live by blast
  next
    case a
    then show ?thesis using await_step_lists I other_step_counted await_step_live by blast
  qed
qed

lemma ab_init_inv: "ab_lists B (ab_init B) \<and> ab_counted (ab_init B) \<and> ab_live B (ab_init B)"
proof -
  have "ab_places B (\<lambda>_. Owned) [] [] (\<lambda>_. []) (ab_init B)" by (simp add: ab_places_def ab_init_def)
  moreover have "ab_links [] [] (\<lambda>_. []) (ab_init B)"
    by (simp add: ab_links_def ab_init_def ab_read_ok_pc ab_tag_def mi_tagged_segment_ptr_def)
  ultimately have "ab_lists B (ab_init B)" by (rule ab_listsI)
  then show ?thesis by (simp add: ab_counted_def ab_live_def ab_init_def)
qed

lemma ab_reach_inv: "ab_reach B s \<Longrightarrow> segments_ok B \<Longrightarrow> ab_lists B s \<and> ab_counted s \<and> ab_live B s"
  by (induction rule: ab_reach.induct) (auto simp: ab_init_inv dest: ab_step_inv)

text \<open>
  C8. However pushes, pops and revisits interleave, every segment has exactly one place: the stack, the
  visited list, a list that one thread moves, the hand of one thread, the program, or given back;
  the stack and the visited list are proper lists of distinct segments, so a pop by compare-and-swap
  never installs a stale link (no thread being held up for \<open>2 ^ 17\<close> updates). A segment whose link a
  reader is about to read has not been given back, as the giver waits for the readers.
\<close>

theorem abandoned_no_loss:
  assumes "ab_reach B s" and "\<forall>a \<in> B. a \<noteq> 0 \<and> a AND MI_SEGMENT_MASK = 0"
  shows "(\<exists>place A V R.
      chain (abs_next s) (mi_tagged_segment_ptr (abs_top s)) A \<and> chain (abs_next s) (abs_visited s) V \<and>
      distinct A \<and> distinct V \<and> set A \<union> set V \<subseteq> B \<and> (\<forall>t. ab_moving (abs_next s) (abs_pc s t) (R t)) \<and>
      (\<forall>a \<in> B. (a \<in> abs_owned s \<longleftrightarrow> place a = Owned) \<and> (a \<in> abs_freed s \<longleftrightarrow> place a = Freed) \<and>
        (a \<in> set A \<longleftrightarrow> place a = Stacked) \<and> (a \<in> set V \<longleftrightarrow> place a = Visited) \<and>
        (\<forall>t. (ab_hand (abs_pc s t) = Some a \<longleftrightarrow> place a = Hand t) \<and> (a \<in> set (R t) \<longleftrightarrow> place a = Moving t)))) \<and>
    (\<forall>t ts v. abs_pc s t = AbPopNext ts v \<longrightarrow> mi_tagged_segment_ptr ts \<in> B - abs_freed s)"
proof
  have I: "ab_lists B s" "ab_live B s" using ab_reach_inv [OF assms(1)] assms(2) by (auto simp: segments_ok_def)
  then obtain loc A V R where P: "ab_places B loc A V R s" and L: "ab_links A V R s" by (auto simp: ab_lists_def)
  show "\<exists>place A V R.
      chain (abs_next s) (mi_tagged_segment_ptr (abs_top s)) A \<and> chain (abs_next s) (abs_visited s) V \<and>
      distinct A \<and> distinct V \<and> set A \<union> set V \<subseteq> B \<and> (\<forall>t. ab_moving (abs_next s) (abs_pc s t) (R t)) \<and>
      (\<forall>a \<in> B. (a \<in> abs_owned s \<longleftrightarrow> place a = Owned) \<and> (a \<in> abs_freed s \<longleftrightarrow> place a = Freed) \<and>
        (a \<in> set A \<longleftrightarrow> place a = Stacked) \<and> (a \<in> set V \<longleftrightarrow> place a = Visited) \<and>
        (\<forall>t. (ab_hand (abs_pc s t) = Some a \<longleftrightarrow> place a = Hand t) \<and> (a \<in> set (R t) \<longleftrightarrow> place a = Moving t)))"
    by (rule exI [of _ loc], rule exI [of _ A], rule exI [of _ V], rule exI [of _ R])
      (use P L in \<open>auto simp: ab_places_def ab_links_def\<close>)
  show "\<forall>t ts v. abs_pc s t = AbPopNext ts v \<longrightarrow> mi_tagged_segment_ptr ts \<in> B - abs_freed s"
    using I(2) by (simp add: ab_live_def)
qed

section \<open>Giving a segment back without waiting\<close>

text \<open>
  \<open>_mi_mem_free\<close> of memory that came directly from an arena (\<open>region.c\<close>) frees it at once: it does not call
  \<open>_mi_abandoned_await_readers\<close>.
\<close>

definition direct_free :: "addr \<Rightarrow> ab_sys \<Rightarrow> ab_sys" where
  "direct_free a s = s\<lparr>abs_owned := abs_owned s - {a}, abs_freed := insert a (abs_freed s)\<rparr>"

text \<open>Three threads and one segment.\<close>

definition three :: "ab_pc \<Rightarrow> ab_pc \<Rightarrow> ab_pc \<Rightarrow> nat \<Rightarrow> ab_pc" where
  "three p q r t = (if t = 0 then p else if t = 1 then q else if t = 2 then r else AbOut)"

lemma three_simps [simp]:
  "three p q r 0 = p" "three p q r (Suc 0) = q" "three p q r 2 = r"
  "(three p q r)(0 := x) = three x q r" "(three p q r)(Suc 0 := x) = three p x r" "(three p q r)(2 := x) = three p q x"
  by (auto simp: three_def)

lemma three_out: "three AbOut AbOut AbOut = (\<lambda>_. AbOut)"
  by (auto simp: three_def)

definition scene :: "u64 \<Rightarrow> nat \<Rightarrow> nat \<Rightarrow> addr set \<Rightarrow> (nat \<Rightarrow> ab_pc) \<Rightarrow> ab_sys" where
  "scene ts v r ow pc = \<lparr>abs_top = ts, abs_version = v, abs_visited = 0, abs_readers = r, abs_next = (\<lambda>_. 0),
     abs_owned = ow, abs_freed = {}, abs_pc = pc\<rparr>"

lemma scene_more:
  assumes "ab_reach B (scene ts v r ow pc)" and "ab_step (scene ts v r ow pc) s'" and "v < 2 ^ 17"
  shows "ab_reach B s'"
  by (rule ab_more [OF assms(1) _ assms(2)]) (use assms(3) in \<open>auto simp: ab_bounded_def scene_def\<close>)

lemma const_upd: "(\<lambda>_. c)(a := c) = (\<lambda>_. c)"
  by auto

lemma tagged_example:
  "mi_tagged_segment 0x20000 0 = 0x20001" "mi_tagged_segment_ptr 0x20001 = 0x20000"
  "mi_tagged_segment 0 0x20001 = 2" "mi_tagged_segment_ptr 0 = 0"
  by code_simp+

lemma stale_reader_reach:
  "ab_reach {0x20000} (scene 2 2 1 {0x20000} (three AbOut (AbPopNext 0x20001 1) AbOut))"
proof -
  let ?B = "{0x20000} :: addr set" and ?r = "AbPopNext 0x20001 1"
  have two: "Suc (Suc 0) = 2" by simp
  note rules = scene_def ab_step_def const_upd tagged_example two
  have "ab_reach ?B (scene 0 0 0 ?B (three AbOut AbOut AbOut))"
    using ab_start [where B = ?B] by (simp add: ab_init_def scene_def three_out)
  then have "ab_reach ?B (scene 0 0 0 {} (three (AbPushRead 0x20000) AbOut AbOut))"
    by (rule scene_more)
      (use push_enter [where s = "scene 0 0 0 ?B (three AbOut AbOut AbOut)" and t = 0 and a = "0x20000"] in \<open>simp_all add: rules\<close>)
  then have "ab_reach ?B (scene 0 0 0 {} (three (AbPushSwap 0x20000 0) AbOut AbOut))"
    by (rule scene_more)
      (use push_read [where s = "scene 0 0 0 {} (three (AbPushRead 0x20000) AbOut AbOut)" and t = 0 and a = "0x20000"] in \<open>simp_all add: rules\<close>)
  then have "ab_reach ?B (scene 0x20001 1 0 {} (three AbOut AbOut AbOut))"
    by (rule scene_more)
      (use push_swap [where s = "scene 0 0 0 {} (three (AbPushSwap 0x20000 0) AbOut AbOut)" and t = 0 and a = "0x20000" and ts = 0] in \<open>simp_all add: rules\<close>)
  then have "ab_reach ?B (scene 0x20001 1 0 {} (three AbOut AbPopCheck AbOut))"
    by (rule scene_more)
      (use pop_enter [where s = "scene 0x20001 1 0 {} (three AbOut AbOut AbOut)" and t = 1] in \<open>simp_all add: rules\<close>)
  then have "ab_reach ?B (scene 0x20001 1 0 {} (three AbOut AbPopEnter AbOut))"
    by (rule scene_more)
      (use pop_check_some [where s = "scene 0x20001 1 0 {} (three AbOut AbPopCheck AbOut)" and t = 1] in \<open>simp_all add: rules\<close>)
  then have "ab_reach ?B (scene 0x20001 1 1 {} (three AbOut AbPopRead AbOut))"
    by (rule scene_more)
      (use pop_count [where s = "scene 0x20001 1 0 {} (three AbOut AbPopEnter AbOut)" and t = 1] in \<open>simp_all add: rules\<close>)
  then have "ab_reach ?B (scene 0x20001 1 1 {} (three AbOut ?r AbOut))"
    by (rule scene_more)
      (use pop_read [where s = "scene 0x20001 1 1 {} (three AbOut AbPopRead AbOut)" and t = 1] in \<open>simp_all add: rules\<close>)
  then have "ab_reach ?B (scene 0x20001 1 1 {} (three AbOut ?r AbPopCheck))"
    by (rule scene_more)
      (use pop_enter [where s = "scene 0x20001 1 1 {} (three AbOut ?r AbOut)" and t = 2] in \<open>simp_all add: rules\<close>)
  then have "ab_reach ?B (scene 0x20001 1 1 {} (three AbOut ?r AbPopEnter))"
    by (rule scene_more)
      (use pop_check_some [where s = "scene 0x20001 1 1 {} (three AbOut ?r AbPopCheck)" and t = 2] in \<open>simp_all add: rules\<close>)
  then have "ab_reach ?B (scene 0x20001 1 2 {} (three AbOut ?r AbPopRead))"
    by (rule scene_more)
      (use pop_count [where s = "scene 0x20001 1 1 {} (three AbOut ?r AbPopEnter)" and t = 2] in \<open>simp_all add: rules\<close>)
  then have "ab_reach ?B (scene 0x20001 1 2 {} (three AbOut ?r (AbPopNext 0x20001 1)))"
    by (rule scene_more)
      (use pop_read [where s = "scene 0x20001 1 2 {} (three AbOut ?r AbPopRead)" and t = 2] in \<open>simp_all add: rules\<close>)
  then have "ab_reach ?B (scene 0x20001 1 2 {} (three AbOut ?r (AbPopSwap 0x20001 0 1)))"
    by (rule scene_more)
      (use pop_next [where s = "scene 0x20001 1 2 {} (three AbOut ?r (AbPopNext 0x20001 1))" and t = 2 and ts = "0x20001" and v = 1] in \<open>simp_all add: rules\<close>)
  then have "ab_reach ?B (scene 2 2 2 {} (three AbOut ?r (AbPopLeave 0x20000)))"
    by (rule scene_more)
      (use pop_swap [where s = "scene 0x20001 1 2 {} (three AbOut ?r (AbPopSwap 0x20001 0 1))" and t = 2 and ts = "0x20001" and n = 0 and v = 1] in \<open>simp_all add: rules\<close>)
  then have "ab_reach ?B (scene 2 2 1 {} (three AbOut ?r (AbPopClear 0x20000)))"
    by (rule scene_more)
      (use pop_leave [where s = "scene 2 2 2 {} (three AbOut ?r (AbPopLeave 0x20000))" and t = 2 and a = "0x20000"] in \<open>simp_all add: rules\<close>)
  then have "ab_reach ?B (scene 2 2 1 ?B (three AbOut ?r AbOut))"
    by (rule scene_more)
      (use pop_clear [where s = "scene 2 2 1 {} (three AbOut ?r (AbPopClear 0x20000))" and t = 2 and a = "0x20000"] in \<open>simp_all add: rules\<close>)
  then show ?thesis .
qed

text \<open>One segment that a reader of the stack is about to look at is with the program again, not given back.\<close>

theorem abandoned_no_loss_witness:
  "\<exists>s. ab_reach {0x20000} s \<and> abs_pc s 1 = AbPopNext 0x20001 1 \<and> abs_owned s = {0x20000} \<and>
     mi_tagged_segment_ptr 0x20001 \<in> {0x20000} - abs_freed s"
proof -
  let ?s = "scene 2 2 1 {0x20000} (three AbOut (AbPopNext 0x20001 1) AbOut)"
  have pc: "abs_pc ?s 1 = AbPopNext 0x20001 1" "abs_owned ?s = {0x20000}" by (simp_all add: scene_def)
  have "\<forall>a \<in> {0x20000 :: addr}. a \<noteq> 0 \<and> a AND MI_SEGMENT_MASK = 0" by code_simp
  then have "mi_tagged_segment_ptr 0x20001 \<in> {0x20000} - abs_freed ?s"
    using abandoned_no_loss [OF stale_reader_reach] pc by blast
  then show ?thesis using stale_reader_reach pc by blast
qed

text \<open>
  C36. Without the wait the segment can be unmapped under a reader: in a reachable state a thread has read
  the top of the stack and will read the link of its first segment, while another thread has popped
  that segment; freed directly, the segment is gone when the first thread reads its link.
\<close>

theorem direct_free_read_after_free:
  "\<exists>s t ts v. ab_reach {0x20000} s \<and> abs_pc s t = AbPopNext ts v \<and>
     mi_tagged_segment_ptr ts \<in> abs_owned s \<and>
     (let s' = direct_free (mi_tagged_segment_ptr ts) s in
      abs_pc s' t = AbPopNext ts v \<and> mi_tagged_segment_ptr ts \<in> abs_freed s')"
proof -
  let ?s = "scene 2 2 1 {0x20000} (three AbOut (AbPopNext 0x20001 1) AbOut)"
  have "abs_pc ?s 1 = AbPopNext 0x20001 1" "abs_owned ?s = {0x20000}" by (simp_all add: scene_def)
  then show ?thesis
    using stale_reader_reach
    by (intro exI [of _ ?s] exI [of _ 1] exI [of _ "0x20001"]) (simp add: direct_free_def tagged_example)
qed

end
