(* ===== verification/Spec2Isabelle.thy ===== *)
theory Spec2Isabelle
  imports Bins BitmapConc Chacha Region AllocProps HeapVisit SegmentInit Allocator AlignedHeap SecureList Hardened Validity ThreadFreeConc AbandonedConc
begin

text \<open>
  A verification library of the \<open>mimalloc\<close> memory allocator in \<open>src/mimalloc-custom\<close>, the version that
  is prepared for model checking: calls of \<open>memset\<close> and \<open>memcpy\<close> are commented out, pages and
  segments are small (8, 32 and 128 KiB), \<open>random.c\<close> is disabled and \<open>_mi_os_alloc\<close> is \<open>malloc\<close>.

  \<^bold>\<open>The program and how its parts work together.\<close>
  A request for memory goes to a heap (\<open>alloc.c\<close>), which finds a page with free blocks of the
  size class (\<open>page-queue.c\<close>, \<open>page.c\<close>). Pages are cut from segments (\<open>segment.c\<close>), segments come from
  regions (\<open>region.c\<close>), arenas (\<open>arena.c\<close>) or the OS (\<open>os.c\<close>); regions and arenas track their
  memory in atomic bitmaps (\<open>bitmap.inc.c\<close>). A block freed by the thread that owns its page goes on the
  page's local list, one freed by another thread on the page's thread-free list or the delayed list
  of the heap, and is collected by the owner. A thread that ends abandons its segments, and other
  threads reclaim them. \<open>init.c\<close> sets up the static main heap, the heaps of threads and the process.
  \<open>options.c\<close>, \<open>stats.c\<close> and \<open>random.c\<close> serve all of these.

  \<^bold>\<open>The state.\<close>
  The records of the state extend each other in the order of the layers: \<open>stats_state\<close> (\<open>Stats\<close>),
  \<open>opt_state\<close> (\<open>Options\<close>), \<open>os_state\<close> (\<open>Os\<close>), \<open>arena_state\<close> (\<open>Arena\<close>), \<open>region_state\<close> (\<open>Region\<close>) and
  \<open>mstate\<close> (\<open>State\<close>), which adds the typed store: the first words of blocks, the pages, segments, heaps
  and thread data by their addresses, the lists of abandoned segments and the static variables of
  \<open>init.c\<close>. An operation is a function on these states; what it can fail to do is an
  option, where \<open>None\<close> is undefined behaviour of C (a null access, a division by zero, a shift by the
  width) or a loop that does not end. Loops are recursive functions with a measure, or
  \<open>partial_function (option)\<close> where the source gives no bound; no fuel is used, and the theorems that
  claim a result prove that it is \<open>Some\<close>. System calls answer from the sequences in \<open>os_env\<close>, which
  the theorems leave arbitrary, and leave a log of events. Machine integers are words of
  the width in the source.

  \<^bold>\<open>The theories.\<close>
  \<^item> \<open>Prelude\<close>: word types, the shifts of C, generic lemmas. \<open>Arith\<close>: the arithmetic of
    \<open>mimalloc-internal.h\<close> and the packed words (thread-free, tagged segments). \<open>Bins\<close>: \<open>_mi_bin\<close> and the
    table of block sizes.
  \<^item> \<open>Bitmap\<close>: \<open>bitmap.inc.c\<close>, each operation with the values that interfering threads leave between its
    accesses; \<open>BitmapConc\<close>: the same loops as a step relation of any number of threads.
  \<^item> \<open>Chacha\<close>, \<open>Stats\<close>, \<open>Options\<close>: \<open>random.c\<close>, \<open>stats.c\<close>, \<open>options.c\<close>.
  \<^item> \<open>Os\<close>, \<open>Arena\<close>, \<open>Region\<close>: the memory layers; \<open>OsFrame\<close> says which parts of the state they leave alone.
  \<^item> \<open>State\<close>: \<open>mimalloc-types.h\<close> and the static objects of \<open>init.c\<close>. \<open>DList\<close>: the locales
    \<open>dlist_store\<close>, \<open>dlist_push\<close>, \<open>dlist_snoc\<close> and \<open>dlist_remove\<close> for intrusive doubly linked lists, which
    are interpreted for the page queues (\<open>PageQueue\<close>, \<open>HeapQueues\<close>), the segment queues and the reset
    queue (\<open>SegmentQueues\<close>).
  \<^item> \<open>PageQueue\<close>: \<open>page-queue.c\<close>. \<open>HeapQueues\<close>: the invariant \<open>heap_repr h Q s\<close> (the heap \<open>h\<close>
    has in the queue of bin \<open>i\<close> exactly the pages \<open>Q i\<close>, the direct array points at the heads, the count
    is right) and its preservation.
  \<^item> \<open>Geometry\<close>: addresses of pages in a segment and back. \<open>Blocks\<close>: the block lists of a page and
    \<open>page_wf p F L T s\<close>, which relates its three free lists to HOL lists and defines the blocks in use,
    \<open>page_alive\<close>. \<open>PageBlocks\<close> and \<open>MallocFree\<close>: allocation and free on these invariants.
    \<open>PageSearch\<close>: many pages (\<open>pages_wf\<close>), the search of a queue for a page with room, and
    allocation through the slow path. \<open>HeapSteps\<close>: the frees by the owner, also of the last block of a
    page, those by other threads and the delayed frees on these pages. \<open>Allocator\<close>: the delayed list of a
    heap (\<open>heap_inv\<close>), and any sequence of allocations, frees and writes of a program (\<open>session\<close>).
    \<open>AlignedHeap\<close>: aligned allocation in a session and the free of an aligned address.
  \<^item> Other builds: \<open>SecureList\<close> is the randomised free list of builds with \<open>MI_SECURE\<close>, \<open>Hardened\<close> the
    encoded lists, the search for double frees and the padding that detects overflows, \<open>Validity\<close> the
    checks of pages, queues and heaps with \<open>MI_DEBUG\<close> at 3, which the invariants imply.
  \<^item> \<open>Segment\<close>, \<open>SegmentAlloc\<close>, \<open>Abandoned\<close>: \<open>segment.c\<close>; \<open>SegmentQueues\<close>: what its lists promise.
  \<^item> \<open>Init\<close>: \<open>init.c\<close> up to running, with \<open>mi_process_init\<close> and \<open>mi_thread_init\<close> as one recursion (\<open>init_run\<close>)
    that ends because the flag is set before the call; \<open>HeapVisit\<close> has the end of threads and process. \<open>PageOps\<close>,
    \<open>PageFind\<close>: the rest of \<open>page.c\<close>. \<open>Free\<close>, \<open>Alloc\<close>, \<open>AllocAligned\<close>: \<open>alloc.c\<close>, \<open>alloc-aligned.c\<close>,
    \<open>alloc-posix.c\<close>. \<open>HeapCollect\<close>, \<open>Heap\<close>, \<open>HeapVisit\<close>: \<open>heap.c\<close>; \<open>HeapQuery\<close>: visiting and owner queries.
  \<^item> \<open>SegmentInit\<close>: \<open>mi_segment_init\<close> sets up the well-formed segments that \<open>Geometry\<close> starts from.
  \<^item> \<open>ThreadFreeConc\<close>: freeing from many threads against the owner of a page; \<open>AbandonedConc\<close>: the
    stack of abandoned segments with its visited list and its readers; both are step relations of any
    number of threads, with an invariant of the reachable states.
  \<^item> \<open>AllocProps\<close>: requests that cannot be met, \<open>new\<close>, the start of threads and of the process, reused
    pages and new heaps.

  \<^bold>\<open>What the lemmas show.\<close>
  The bitmap claims of concurrent threads never overlap (the search for up to 64 bits, as long as it does
  not shift by 64); the memory layers return what was asked for and give back exactly that, and where
  a \<open>munmap\<close> fails, exactly the ranges of the failed calls stay mapped (\<open>leaked\<close>). The queue operations refine list operations and keep the direct array
  right; the page operations never lose a block, hand one out twice or let blocks
  overlap, also when other threads free; the segment queues, the cache and the abandoned segments refine
  lists and stacks. In a heap with pages in its queues, after any sequence of allocations, frees by
  the owner, frees by other threads and writes of the program, the blocks held never overlap, a request
  returns a fresh block whenever a page of the size class has one to give, and every block can be freed
  (as long as no page is given back to its segment); aligned requests give aligned addresses that \<open>mi_free\<close>
  traces back to their block, requests that overflow fail cleanly. Some theorems state faults: what
  the code does where a \<open>memset\<close> or \<open>memcpy\<close> is missing, and a loop that never advances.

  \<^bold>\<open>Choices of the configuration.\<close>
  A 64-bit Linux release build: \<open>NDEBUG\<close>, \<open>MI_DEBUG\<close>, \<open>MI_STAT\<close> and \<open>MI_SECURE\<close> at 0, no padding and no
  encoded free lists, so the assertions, the \<open>mi_stat\<close> macros, guard pages and padding checks are empty
  (\<open>SecureList\<close>, \<open>Hardened\<close> and \<open>Validity\<close> treat the code that other builds add);
  calls of \<open>_mi_stat_increase\<close> and \<open>_mi_stat_decrease\<close> are modelled. \<open>mstate\<close> has one running thread:
  in the sequential theories a compare-and-swap succeeds at once and waiting for another thread's
  \<open>MI_DELAYED_FREEING\<close> never ends. \<open>BitmapConc\<close>, \<open>ThreadFreeConc\<close> and \<open>AbandonedConc\<close> treat the
  interleavings.

  \<^bold>\<open>Not modelled.\<close>
  What a callback of \<open>mi_register_deferred_free\<close> does to the state (its calls are logged; the theorems on
  allocation take none to be registered). The contents of blocks beyond their first word, and \<open>errno\<close>. The text that statistics and messages
  print. \<open>mi_realpath\<close> and \<open>mi_dupenv_s\<close> (file system and environment), the C++ branch of
  \<open>new\<close> (exceptions), Windows, macOS and WASI code, guard pages, the debug checks of segments, the malloc
  overrides and the single-file build. Runs in which a thread in \<open>mi_abandoned_pop\<close> is held up for
  131072 updates of the stack, after which its 17-bit tag wraps around.
\<close>

end
